(* ===== verification/Prelude.thy ===== *)
theory Prelude
  imports Main "HOL-Library.AList" "HOL-Library.List_Lexorder"
    "HOL-Library.Char_ord" "HOL-Library.Code_Target_Nat"
begin

text \<open>
  What the component theories share: Rust's byte strings and the \<open>str\<close> methods the sources
  call, \<open>HashMap\<close> and \<open>BTreeMap\<close> as association lists, decimal numbers, and the generic
  lemmas about them. A Rust \<open>String\<close> is the list of its UTF-8 bytes, a \<^typ>\<open>char\<close> per byte:
  the ASCII case folding, prefix and suffix tests and separators used by the sources work byte
  by byte and give the same answers on the UTF-8 encoding as on the characters.
\<close>

named_theorems str_simps \<open>byte-string operations in terms of append\<close>
named_theorems hm_simps \<open>lookups after updates of an association-list map\<close>

section \<open>Byte strings\<close>

definition ascii_lower :: "char \<Rightarrow> char" where
  "ascii_lower c = (if 65 \<le> (of_char c :: nat) \<and> (of_char c :: nat) \<le> 90
     then char_of ((of_char c :: nat) + 32) else c)"

definition to_ascii_lowercase :: "string \<Rightarrow> string" where
  "to_ascii_lowercase s = map ascii_lower s"

definition eq_ignore_ascii_case :: "string \<Rightarrow> string \<Rightarrow> bool" where
  "eq_ignore_ascii_case s t \<longleftrightarrow> to_ascii_lowercase s = to_ascii_lowercase t"

definition starts_with :: "string \<Rightarrow> string \<Rightarrow> bool" where
  "starts_with p s \<longleftrightarrow> take (length p) s = p"

definition ends_with :: "string \<Rightarrow> string \<Rightarrow> bool" where
  "ends_with q s \<longleftrightarrow> length q \<le> length s \<and> drop (length s - length q) s = q"

definition strip_prefix :: "string \<Rightarrow> string \<Rightarrow> string option" where
  "strip_prefix p s = (if starts_with p s then Some (drop (length p) s) else None)"

definition strip_suffix :: "string \<Rightarrow> string \<Rightarrow> string option" where
  "strip_suffix q s = (if ends_with q s then Some (take (length s - length q) s) else None)"

text \<open>\<open>split_once\<close> splits at the first occurrence of a separator, \<open>rsplit_once\<close> at the last.\<close>

fun split_once :: "char \<Rightarrow> string \<Rightarrow> (string \<times> string) option" where
  "split_once c [] = None"
| "split_once c (x # xs) =
     (if x = c then Some ([], xs)
      else map_option (\<lambda>(a, b). (x # a, b)) (split_once c xs))"

fun rsplit_once :: "char \<Rightarrow> string \<Rightarrow> (string \<times> string) option" where
  "rsplit_once c [] = None"
| "rsplit_once c (x # xs) =
     (case rsplit_once c xs of
        Some (a, b) \<Rightarrow> Some (x # a, b)
      | None \<Rightarrow> if x = c then Some ([], xs) else None)"

fun rsplit_once_str :: "string \<Rightarrow> string \<Rightarrow> (string \<times> string) option" where
  "rsplit_once_str p [] = None"
| "rsplit_once_str p (x # xs) =
     (case rsplit_once_str p xs of
        Some (a, b) \<Rightarrow> Some (x # a, b)
      | None \<Rightarrow> if starts_with p (x # xs) then Some ([], drop (length p) (x # xs)) else None)"

fun contains_str :: "string \<Rightarrow> string \<Rightarrow> bool" where
  "contains_str p [] = (p = [])"
| "contains_str p (x # xs) = (starts_with p (x # xs) \<or> contains_str p xs)"

definition contains_char :: "char \<Rightarrow> string \<Rightarrow> bool" where
  "contains_char c s \<longleftrightarrow> c \<in> set s"

definition matches_count :: "char \<Rightarrow> string \<Rightarrow> nat" where
  "matches_count c s = length (filter (\<lambda>x. x = c) s)"

definition trim_start_matches :: "char \<Rightarrow> string \<Rightarrow> string" where
  "trim_start_matches c s = dropWhile (\<lambda>x. x = c) s"

definition trim_end_matches :: "char \<Rightarrow> string \<Rightarrow> string" where
  "trim_end_matches c s = rev (dropWhile (\<lambda>x. x = c) (rev s))"

text \<open>\<open>s.split(c)\<close>: always at least one piece.\<close>

fun split_on :: "char \<Rightarrow> string \<Rightarrow> string list" where
  "split_on c [] = [[]]"
| "split_on c (x # xs) =
     (if x = c then [] # split_on c xs
      else (case split_on c xs of [] \<Rightarrow> [[x]] | y # ys \<Rightarrow> (x # y) # ys))"

text \<open>\<open>[..].join(sep)\<close>.\<close>

fun join_with :: "string \<Rightarrow> string list \<Rightarrow> string" where
  "join_with sep [] = []"
| "join_with sep [x] = x"
| "join_with sep (x # y # xs) = x @ sep @ join_with sep (y # xs)"

subsection \<open>Character classes\<close>

definition is_ascii_digit :: "char \<Rightarrow> bool" where
  "is_ascii_digit c \<longleftrightarrow> 48 \<le> (of_char c :: nat) \<and> (of_char c :: nat) \<le> 57"

definition is_ascii_lowercase :: "char \<Rightarrow> bool" where
  "is_ascii_lowercase c \<longleftrightarrow> 97 \<le> (of_char c :: nat) \<and> (of_char c :: nat) \<le> 122"

definition is_ascii_uppercase :: "char \<Rightarrow> bool" where
  "is_ascii_uppercase c \<longleftrightarrow> 65 \<le> (of_char c :: nat) \<and> (of_char c :: nat) \<le> 90"

definition hex_lower :: "nat \<Rightarrow> char" where
  "hex_lower d = char_of (if d < 10 then 48 + d else 87 + d)"

definition byte_hex :: "char \<Rightarrow> string" where
  "byte_hex b = [hex_lower (of_char b div 16), hex_lower (of_char b mod 16)]"

definition is_ascii_alphanumeric :: "char \<Rightarrow> bool" where
  "is_ascii_alphanumeric c \<longleftrightarrow> is_ascii_digit c \<or> is_ascii_lowercase c \<or> is_ascii_uppercase c"

definition digit_val :: "char \<Rightarrow> nat" where
  "digit_val c = of_char c - 48"

text \<open>
  \<open>str::trim().is_empty()\<close>: every character has Unicode's \<open>White_Space\<close> property, here on
  the UTF-8 bytes (the one-, two- and three-byte members of the class).
\<close>

definition byte_codes :: "string \<Rightarrow> nat list" where
  "byte_codes s = map of_char s"

fun all_whitespace_codes :: "nat list \<Rightarrow> bool" where
  "all_whitespace_codes [] = True"
| "all_whitespace_codes (a # r) =
     (if 9 \<le> a \<and> a \<le> 13 \<or> a = 32 then all_whitespace_codes r
      else (case r of
              [] \<Rightarrow> False
            | b # r2 \<Rightarrow>
                if a = 194 \<and> (b = 133 \<or> b = 160) then all_whitespace_codes r2
                else (case r2 of
                        [] \<Rightarrow> False
                      | c # r3 \<Rightarrow>
                          if a = 225 \<and> b = 154 \<and> c = 128
                           \<or> a = 226 \<and> b = 128 \<and> (128 \<le> c \<and> c \<le> 138 \<or> c = 168 \<or> c = 169 \<or> c = 175)
                           \<or> a = 226 \<and> b = 129 \<and> c = 159
                           \<or> a = 227 \<and> b = 128 \<and> c = 128
                          then all_whitespace_codes r3 else False)))"

definition trim_is_empty :: "string \<Rightarrow> bool" where
  "trim_is_empty s = all_whitespace_codes (byte_codes s)"

subsection \<open>Decimal numbers\<close>

definition dec_val :: "string \<Rightarrow> nat" where
  "dec_val s = foldl (\<lambda>n c. 10 * n + digit_val c) 0 s"

text \<open>
  \<open>s.parse::<uN>()\<close>: an optional \<open>+\<close>, then at least one decimal digit and nothing else,
  and a value of at most \<open>N\<close>'s maximum.
\<close>

definition parse_uint :: "nat \<Rightarrow> string \<Rightarrow> nat option" where
  "parse_uint mx s =
     (let ds = (case s of [] \<Rightarrow> [] | c # r \<Rightarrow> if c = CHR ''+'' then r else s)
      in if ds = [] \<or> \<not> list_all is_ascii_digit ds then None
         else if dec_val ds \<le> mx then Some (dec_val ds) else None)"

abbreviation parse_u8 :: "string \<Rightarrow> nat option" where
  "parse_u8 \<equiv> parse_uint 255"

abbreviation parse_u16 :: "string \<Rightarrow> nat option" where
  "parse_u16 \<equiv> parse_uint 65535"

text \<open>The \<open>Display\<close> rendering of an unsigned number.\<close>

fun show_nat :: "nat \<Rightarrow> string" where
  "show_nat n = (if n < 10 then [char_of (48 + n)]
     else show_nat (n div 10) @ [char_of (48 + n mod 10)])"

declare show_nat.simps [simp del]

definition show_int :: "int \<Rightarrow> string" where
  "show_int i = (if i < 0 then CHR ''-'' # show_nat (nat (- i)) else show_nat (nat i))"

section \<open>Results\<close>

text \<open>
  A \<open>Result<A, E>\<close> is a value of \<open>'e + 'a\<close>, the error on the left. \<open>and_then\<close> is the \<open>?\<close> operator
  followed by the rest of the function; \<open>try_for_each\<close> stops at the first error.
\<close>

definition and_then :: "'e + 'a \<Rightarrow> ('a \<Rightarrow> 'e + 'b) \<Rightarrow> 'e + 'b" where
  "and_then r f = (case r of Inl e \<Rightarrow> Inl e | Inr x \<Rightarrow> f x)"

fun try_for_each :: "('a \<Rightarrow> 'e + unit) \<Rightarrow> 'a list \<Rightarrow> 'e + unit" where
  "try_for_each f [] = Inr ()"
| "try_for_each f (x # xs) = and_then (f x) (\<lambda>_. try_for_each f xs)"

definition map_err :: "('e \<Rightarrow> 'f) \<Rightarrow> 'e + 'a \<Rightarrow> 'f + 'a" where
  "map_err f r = (case r of Inl e \<Rightarrow> Inl (f e) | Inr x \<Rightarrow> Inr x)"

definition is_ok :: "'e + 'a \<Rightarrow> bool" where
  "is_ok r = (case r of Inl _ \<Rightarrow> False | Inr _ \<Rightarrow> True)"

lemma and_then_simps [simp]: "and_then (Inl e) f = Inl e" "and_then (Inr x) f = f x"
  by (simp_all add: and_then_def)

lemma and_then_Inr: "and_then r f = Inr y \<longleftrightarrow> (\<exists>x. r = Inr x \<and> f x = Inr y)"
  by (cases r) auto

lemma map_err_simps [simp]: "map_err f (Inl e) = Inl (f e)" "map_err f (Inr x) = Inr x"
  by (simp_all add: map_err_def)

lemma map_err_Inr: "map_err f r = Inr x \<longleftrightarrow> r = Inr x"
  by (cases r) auto

lemma is_ok_simps [simp]: "\<not> is_ok (Inl e)" "is_ok (Inr x)"
  by (simp_all add: is_ok_def)

lemma try_for_each_ok: "try_for_each f xs = Inr () \<longleftrightarrow> (\<forall>x \<in> set xs. f x = Inr ())"
  by (induction xs) (auto simp: and_then_Inr)

lemma try_for_each_error: "try_for_each f xs = Inl e \<Longrightarrow> \<exists>x \<in> set xs. f x = Inl e"
proof (induction xs)
  case (Cons x xs)
  then show ?case by (cases "f x") auto
qed simp

section \<open>Maps\<close>

text \<open>
  A \<open>HashMap\<close> is an association list with distinct keys. The order of the list is the order an
  iteration over the map happens to visit; no theorem of the development depends on it.
\<close>

type_synonym ('k, 'v) hmap = "('k \<times> 'v) list"

abbreviation hm_get :: "('k, 'v) hmap \<Rightarrow> 'k \<Rightarrow> 'v option" where
  "hm_get m k \<equiv> map_of m k"

abbreviation hm_insert :: "'k \<Rightarrow> 'v \<Rightarrow> ('k, 'v) hmap \<Rightarrow> ('k, 'v) hmap" where
  "hm_insert k v m \<equiv> AList.update k v m"

abbreviation hm_remove :: "'k \<Rightarrow> ('k, 'v) hmap \<Rightarrow> ('k, 'v) hmap" where
  "hm_remove k m \<equiv> AList.delete k m"

abbreviation hm_keys :: "('k, 'v) hmap \<Rightarrow> 'k list" where
  "hm_keys m \<equiv> map fst m"

abbreviation hm_wf :: "('k, 'v) hmap \<Rightarrow> bool" where
  "hm_wf m \<equiv> distinct (map fst m)"

text \<open>A \<open>BTreeMap\<close> is visited in key order, so it is kept as a list sorted by its keys.\<close>

fun btree_insert :: "'k::linorder \<Rightarrow> 'v \<Rightarrow> ('k \<times> 'v) list \<Rightarrow> ('k \<times> 'v) list" where
  "btree_insert k v [] = [(k, v)]"
| "btree_insert k v ((a, b) # m) =
     (if k < a then (k, v) # (a, b) # m
      else if k = a then (k, v) # m
      else (a, b) # btree_insert k v m)"

definition btree_extend :: "('k::linorder \<times> 'v) list \<Rightarrow> ('k \<times> 'v) list \<Rightarrow> ('k \<times> 'v) list" where
  "btree_extend m new = foldl (\<lambda>acc (k, v). btree_insert k v acc) m new"

section \<open>Lemmas about byte strings\<close>

lemma starts_with_iff [str_simps]: "starts_with p s \<longleftrightarrow> (\<exists>r. s = p @ r)"
  unfolding starts_with_def by (metis append_eq_conv_conj append_take_drop_id)

lemma ends_with_iff [str_simps]: "ends_with q s \<longleftrightarrow> (\<exists>r. s = r @ q)"
proof
  assume "ends_with q s"
  then have "s = take (length s - length q) s @ q"
    unfolding ends_with_def by (metis append_take_drop_id)
  then show "\<exists>r. s = r @ q" ..
next
  assume "\<exists>r. s = r @ q"
  then show "ends_with q s" by (auto simp: ends_with_def)
qed

lemma strip_prefix_Some [str_simps]: "strip_prefix p s = Some r \<longleftrightarrow> s = p @ r"
  by (auto simp: strip_prefix_def starts_with_iff)

lemma strip_prefix_None: "strip_prefix p s = None \<longleftrightarrow> \<not> starts_with p s"
  by (simp add: strip_prefix_def)

lemma strip_suffix_Some [str_simps]: "strip_suffix q s = Some r \<longleftrightarrow> s = r @ q"
  by (auto simp: strip_suffix_def ends_with_iff)

lemma split_once_None: "split_once c s = None \<longleftrightarrow> c \<notin> set s"
  by (induction s) auto

lemma split_once_Some: "split_once c s = Some (a, b) \<longleftrightarrow> s = a @ c # b \<and> c \<notin> set a"
proof (induction s arbitrary: a b)
  case (Cons x xs)
  then show ?case by (cases a) auto
qed simp

lemma rsplit_once_None: "rsplit_once c s = None \<longleftrightarrow> c \<notin> set s"
  by (induction s) (auto split: option.splits)

lemma rsplit_once_Some: "rsplit_once c s = Some (a, b) \<longleftrightarrow> s = a @ c # b \<and> c \<notin> set b"
proof (induction s arbitrary: a b)
  case Nil
  then show ?case by simp
next
  case (Cons x xs)
  show ?case
  proof (cases "rsplit_once c xs")
    case None
    then have "c \<notin> set xs" by (simp add: rsplit_once_None)
    with None show ?thesis by (cases a) auto
  next
    case (Some p)
    obtain a' b' where p: "p = (a', b')" by (cases p)
    with Some have xs: "xs = a' @ c # b'" "c \<notin> set b'" using Cons.IH [of a' b'] by auto
    show ?thesis
    proof (cases a)
      case Nil
      with Some p xs show ?thesis by auto
    next
      case (Cons y ys)
      with Some p Cons.IH [of ys b] show ?thesis by auto
    qed
  qed
qed

lemma rsplit_once_snoc: "c \<notin> set b \<Longrightarrow> rsplit_once c (a @ c # b) = Some (a, b)"
  by (simp add: rsplit_once_Some)

lemma first_separator_last:
  assumes "pre @ c # suf = a @ c # t" "c \<notin> set pre"
  shows "\<exists>r. suf = r @ t"
  using assms
proof (induction pre arbitrary: a)
  case Nil
  then show ?case by (cases a) auto
next
  case (Cons x pre)
  then show ?case by (cases a) auto
qed

lemma separator_behind:
  assumes "x @ c # y = a @ d # b" "d \<notin> set y" "c \<noteq> d"
  shows "c \<in> set b"
  using assms
proof (induction a arbitrary: x)
  case Nil
  then show ?case by (cases x) auto
next
  case (Cons e a)
  then show ?case by (cases x) auto
qed

lemma rsplit_once_str_sound:
  "rsplit_once_str p s = Some (a, b) \<Longrightarrow> s = a @ p @ b"
  by (induction s arbitrary: a b) (auto simp: starts_with_iff split: option.splits if_splits)

lemma rsplit_once_str_absent: "c \<notin> set s \<Longrightarrow> rsplit_once_str (c # p) s = None"
  by (induction s) (auto simp: starts_with_iff)

lemma contains_str_iff: "contains_str p s \<longleftrightarrow> (\<exists>a b. s = a @ p @ b)"
proof (induction s)
  case Nil
  then show ?case by auto
next
  case (Cons x xs)
  have "(\<exists>a b. x # xs = a @ p @ b) \<longleftrightarrow> starts_with p (x # xs) \<or> (\<exists>a b. xs = a @ p @ b)"
  proof
    assume "\<exists>a b. x # xs = a @ p @ b"
    then obtain a b where ab: "x # xs = a @ p @ b" by blast
    then show "starts_with p (x # xs) \<or> (\<exists>a b. xs = a @ p @ b)"
      by (cases a) (auto simp: starts_with_iff)
  next
    assume "starts_with p (x # xs) \<or> (\<exists>a b. xs = a @ p @ b)"
    then show "\<exists>a b. x # xs = a @ p @ b"
      by (auto simp: starts_with_iff intro: exI [of _ "[]"]) (metis append_Cons)
  qed
  with Cons.IH show ?case by simp
qed

lemma rsplit_once_str_None: "rsplit_once_str p s = None \<Longrightarrow> p \<noteq> [] \<Longrightarrow> \<not> contains_str p s"
  by (induction s) (auto split: option.splits if_splits)

lemma matches_count_0 [simp]: "matches_count c s = 0 \<longleftrightarrow> c \<notin> set s"
  by (auto simp: matches_count_def filter_empty_conv)

lemma matches_count_append [simp]:
  "matches_count c (s @ t) = matches_count c s + matches_count c t"
  by (simp add: matches_count_def)

lemma matches_count_Cons [simp]:
  "matches_count c (x # s) = (if x = c then Suc (matches_count c s) else matches_count c s)"
  by (simp add: matches_count_def)

subsection \<open>Case folding\<close>

lemma lower_append [simp]:
  "to_ascii_lowercase (s @ t) = to_ascii_lowercase s @ to_ascii_lowercase t"
  by (simp add: to_ascii_lowercase_def)

lemma lower_length [simp]: "length (to_ascii_lowercase s) = length s"
  by (simp add: to_ascii_lowercase_def)

lemma lower_Nil [simp]: "to_ascii_lowercase [] = []"
  by (simp add: to_ascii_lowercase_def)

lemma lower_Nil_iff [simp]: "to_ascii_lowercase s = [] \<longleftrightarrow> s = []"
  by (simp add: to_ascii_lowercase_def)

lemma lower_Cons: "to_ascii_lowercase (c # s) = ascii_lower c # to_ascii_lowercase s"
  by (simp add: to_ascii_lowercase_def)

lemma of_char_char_of_small: "n < 256 \<Longrightarrow> of_char (char_of n) = (n::nat)"
  by (simp add: take_bit_eq_mod)

lemma of_char_bound: "(of_char c :: nat) < 256"
proof -
  have "(of_char c :: nat) mod 256 = of_char c" by (rule of_char_mod_256)
  then show ?thesis by (metis mod_less_divisor zero_less_numeral)
qed

lemma ascii_lower_idem [simp]: "ascii_lower (ascii_lower c) = ascii_lower c"
proof (cases "65 \<le> (of_char c :: nat) \<and> (of_char c :: nat) \<le> 90")
  case True
  then have "of_char (char_of ((of_char c :: nat) + 32)) = (of_char c :: nat) + 32"
    by (intro of_char_char_of_small) simp
  with True show ?thesis by (simp add: ascii_lower_def)
qed (auto simp: ascii_lower_def)

lemma lower_idem [simp]: "to_ascii_lowercase (to_ascii_lowercase s) = to_ascii_lowercase s"
  by (simp add: to_ascii_lowercase_def)

lemma ascii_lower_eq_fixed:
  assumes "\<not> is_ascii_lowercase d" "\<not> is_ascii_uppercase d"
  shows "ascii_lower c = d \<longleftrightarrow> c = d"
proof (cases "65 \<le> (of_char c :: nat) \<and> (of_char c :: nat) \<le> 90")
  case True
  then have *: "of_char (ascii_lower c) = (of_char c :: nat) + 32"
    unfolding ascii_lower_def by (simp add: of_char_char_of_small)
  have "ascii_lower c \<noteq> d"
    using assms(1) True * by (auto simp: is_ascii_lowercase_def)
  moreover have "c \<noteq> d" using assms(2) True by (auto simp: is_ascii_uppercase_def)
  ultimately show ?thesis by simp
qed (auto simp: ascii_lower_def)

lemma ascii_lower_star [simp]: "ascii_lower c = CHR ''*'' \<longleftrightarrow> c = CHR ''*''"
  by (rule ascii_lower_eq_fixed) (simp_all add: is_ascii_lowercase_def is_ascii_uppercase_def)

lemma ascii_lower_dot [simp]: "ascii_lower c = CHR ''.'' \<longleftrightarrow> c = CHR ''.''"
  by (rule ascii_lower_eq_fixed) (simp_all add: is_ascii_lowercase_def is_ascii_uppercase_def)

lemma ascii_lower_star' [simp]: "CHR ''*'' = ascii_lower c \<longleftrightarrow> c = CHR ''*''"
  by (subst eq_commute) simp

lemma star_in_lower [simp]: "CHR ''*'' \<in> set (to_ascii_lowercase s) \<longleftrightarrow> CHR ''*'' \<in> set s"
  by (simp add: to_ascii_lowercase_def image_iff)

lemma eq_ignore_ascii_case_refl [simp]: "eq_ignore_ascii_case s s"
  by (simp add: eq_ignore_ascii_case_def)

subsection \<open>Decimal rendering reads back\<close>

lemma is_ascii_digit_char_of: "(n::nat) < 10 \<Longrightarrow> is_ascii_digit (char_of (48 + n))"
  by (simp add: is_ascii_digit_def of_char_char_of_small)

lemma digit_val_char_of: "(n::nat) < 10 \<Longrightarrow> digit_val (char_of (48 + n)) = n"
  by (simp add: digit_val_def of_char_char_of_small)

lemma show_nat_digits: "list_all is_ascii_digit (show_nat n)"
proof (induction n rule: show_nat.induct)
  case (1 n)
  show ?case
  proof (cases "n < 10")
    case True
    then show ?thesis by (simp add: show_nat.simps [of n] is_ascii_digit_char_of)
  next
    case False
    with "1.IH" show ?thesis by (simp add: show_nat.simps [of n] is_ascii_digit_char_of)
  qed
qed

lemma show_nat_nonempty [simp]: "show_nat n \<noteq> []"
  by (subst show_nat.simps) simp

lemma dec_val_snoc [simp]: "dec_val (s @ [c]) = 10 * dec_val s + digit_val c"
  by (simp add: dec_val_def)

lemma dec_val_show_nat [simp]: "dec_val (show_nat n) = n"
proof (induction n rule: show_nat.induct)
  case (1 n)
  show ?case
  proof (cases "n < 10")
    case True
    then have "dec_val (show_nat n) = digit_val (char_of (48 + n))"
      by (simp add: show_nat.simps [of n] dec_val_def)
    with True show ?thesis by (simp add: digit_val_char_of)
  next
    case False
    with "1.IH" show ?thesis
      by (simp add: show_nat.simps [of n] digit_val_char_of)
  qed
qed

lemma digit_not_plus: "is_ascii_digit c \<Longrightarrow> c \<noteq> CHR ''+''"
  by (auto simp: is_ascii_digit_def)

lemma parse_uint_show_nat [simp]: "n \<le> mx \<Longrightarrow> parse_uint mx (show_nat n) = Some n"
proof -
  assume n: "n \<le> mx"
  obtain c r where cr: "show_nat n = c # r" using show_nat_nonempty by (cases "show_nat n") auto
  then have "is_ascii_digit c" using show_nat_digits [of n] by simp
  then have "c \<noteq> CHR ''+''" by (rule digit_not_plus)
  with cr n show_nat_digits [of n] dec_val_show_nat [of n] show ?thesis
    by (simp add: parse_uint_def)
qed

lemma parse_uint_bound: "parse_uint mx s = Some n \<Longrightarrow> n \<le> mx"
  by (auto simp: parse_uint_def Let_def split: if_splits)

lemma show_nat_set: "c \<in> set (show_nat n) \<Longrightarrow> is_ascii_digit c"
  using show_nat_digits by (auto simp: list_all_iff)

section \<open>Lemmas about maps\<close>

lemma hm_get_insert [hm_simps]: "hm_get (hm_insert k v m) k' = (if k' = k then Some v else hm_get m k')"
  by (simp add: update_conv')

lemma hm_get_remove [hm_simps]: "hm_get (hm_remove k m) k' = (if k' = k then None else hm_get m k')"
  by (simp add: AList.delete_conv')

lemma hm_wf_insert [simp, intro]: "hm_wf m \<Longrightarrow> hm_wf (hm_insert k v m)"
  by (rule distinct_update)

lemma hm_wf_remove [simp, intro]: "hm_wf m \<Longrightarrow> hm_wf (hm_remove k m)"
  by (rule distinct_delete)

lemma hm_get_filter_key:
  "hm_get (filter (\<lambda>(k, _). k \<noteq> x) m) k' = (if k' = x then None else hm_get m k')"
  by (induction m) auto

lemma hm_get_map_snd: "hm_get (map (\<lambda>(k, v). (k, f k v)) m) k = map_option (f k) (hm_get m k)"
  by (induction m) auto

lemma hm_keys_map_snd [simp]: "map fst (map (\<lambda>(k, v). (k, f k v)) m) = map fst m"
  by (induction m) auto

lemma hm_get_in_keys: "k \<in> set (hm_keys m) \<longleftrightarrow> hm_get m k \<noteq> None"
  by (induction m) auto

lemma btree_insert_get [hm_simps]:
  "map_of (btree_insert k v m) k' = (if k' = k then Some v else map_of m k')"
  by (induction m) auto

lemma btree_insert_keys: "fst ` set (btree_insert k v m) = insert k (fst ` set m)"
proof (induction m)
  case (Cons p m)
  then show ?case by (cases p) (simp add: insert_commute)
qed simp

lemma btree_insert_sorted:
  "sorted_wrt (<) (map fst m) \<Longrightarrow> sorted_wrt (<) (map fst (btree_insert k v m))"
proof (induction m)
  case (Cons p m)
  obtain a b where p: "p = (a, b)" by (cases p)
  consider "k < a" | "k = a" | "a < k" by (meson linorder_neqE)
  then show ?case
  proof cases
    case 3
    have "\<forall>x \<in> fst ` set (btree_insert k v m). a < x"
      using Cons.prems 3 unfolding btree_insert_keys by (simp add: p)
    with 3 Cons show ?thesis by (auto simp: p)
  qed (use Cons.prems in \<open>auto simp: p\<close>)
qed simp

section \<open>First match\<close>

text \<open>The gate scans a table first-match-wins; these carry the table proofs.\<close>

lemma find_append: "List.find P (xs @ ys) = (case List.find P xs of Some x \<Rightarrow> Some x | None \<Rightarrow> List.find P ys)"
  by (induction xs) auto

lemma map_filter_append: "List.map_filter f (xs @ ys) = List.map_filter f xs @ List.map_filter f ys"
  by (induction xs) (auto simp: map_filter_simps split: option.splits)

lemma length_filter_all: "length (filter P xs) = length xs \<longleftrightarrow> (\<forall>x \<in> set xs. P x)"
  by (induction xs) (auto simp: le_imp_less_Suc less_imp_neq)

lemma find_None_all: "List.find P xs = None \<longleftrightarrow> (\<forall>x \<in> set xs. \<not> P x)"
  by (induction xs) auto

lemma find_SomeD: "List.find P xs = Some x \<Longrightarrow> x \<in> set xs \<and> P x"
  by (induction xs) (auto split: if_splits)

lemma find_at:
  assumes "i < length xs" "P (xs ! i)" "\<forall>x \<in> set (take i xs). \<not> P x"
  shows "List.find P xs = Some (xs ! i)"
proof -
  have "xs = take i xs @ xs ! i # drop (Suc i) xs"
    using assms(1) by (simp add: id_take_nth_drop)
  moreover have "List.find P (take i xs @ xs ! i # drop (Suc i) xs) = Some (xs ! i)"
    using assms(2,3) by (simp add: find_append find_None_all [THEN iffD2])
  ultimately show ?thesis by simp
qed

section \<open>Lemmas about hexadecimal text\<close>

lemma hex_lower_code: "z < 16 \<Longrightarrow> of_char (hex_lower z) = (if z < 10 then 48 + z else 87 + z)"
  by (simp add: hex_lower_def of_char_char_of_small)

lemma hex_lower_inj:
  assumes "hex_lower x = hex_lower y" "x < 16" "y < 16"
  shows "x = y"
proof -
  have "(if x < 10 then 48 + x else 87 + x) = (if y < 10 then 48 + y else 87 + y)"
    using hex_lower_code [OF assms(2)] hex_lower_code [OF assms(3)] assms(1) by simp
  with assms(2,3) show ?thesis by presburger
qed

lemma byte_hex_inj:
  assumes "byte_hex a = byte_hex b"
  shows "a = b"
proof -
  let ?a = "of_char a :: nat" and ?b = "of_char b :: nat"
  have "hex_lower (?a div 16) = hex_lower (?b div 16)" "hex_lower (?a mod 16) = hex_lower (?b mod 16)"
    using assms by (simp_all add: byte_hex_def)
  moreover have "?a div 16 < 16" "?b div 16 < 16"
    using of_char_bound [of a] of_char_bound [of b] by (simp_all add: less_mult_imp_div_less)
  ultimately have "?a div 16 = ?b div 16" "?a mod 16 = ?b mod 16"
    using hex_lower_inj by simp_all
  then have "?a = ?b" by (metis div_mult_mod_eq)
  then show ?thesis by simp
qed

lemma byte_hex_length [simp]: "length (byte_hex c) = 2"
  by (simp add: byte_hex_def)

lemma hex_text_inj:
  "concat (map byte_hex xs) = concat (map byte_hex ys) \<Longrightarrow> xs = ys"
proof (induction xs arbitrary: ys)
  case Nil
  then show ?case by (cases ys) (auto simp: byte_hex_def)
next
  case (Cons x xs)
  then obtain y ys' where ys: "ys = y # ys'" by (cases ys) (auto simp: byte_hex_def)
  with Cons.prems have "byte_hex x = byte_hex y" "concat (map byte_hex xs) = concat (map byte_hex ys')"
    by (auto simp: append_eq_append_conv)
  with Cons.IH ys show ?case by (auto dest: byte_hex_inj)
qed

end
