(* ===== verification/Rust_Std.thy ===== *)
theory Rust_Std
  imports Prelude
begin

text \<open>
  The two pieces of Rust's standard library whose behaviour the policy code depends on beyond
  plain strings: \<open>IpAddr\<close>'s \<open>FromStr\<close> (with \<open>to_canonical\<close>) and the component view of a
  Unix \<open>Path\<close>, which decides path equality, \<open>file_name\<close> and the presence of \<open>..\<close>.
\<close>

section \<open>IP addresses\<close>

datatype ip_addr =
    V4 nat nat nat nat
  | V6 "nat list"

text \<open>
  \<open>read_number\<close>: at most \<open>maxd\<close> digits of the radix (one more digit is a failure), at least
  one, no leading zero unless allowed, and a value that fits \<open>bound\<close>. The result carries the
  rest of the input.
\<close>

definition hex_digit :: "nat \<Rightarrow> char \<Rightarrow> nat option" where
  "hex_digit radix c =
     (let n = of_char c :: nat;
          v = (if 48 \<le> n \<and> n \<le> 57 then n - 48
               else if 97 \<le> n \<and> n \<le> 102 then n - 87
               else if 65 \<le> n \<and> n \<le> 70 then n - 55 else 99)
      in if v < radix then Some v else None)"

fun take_digits :: "nat \<Rightarrow> string \<Rightarrow> nat list \<times> string" where
  "take_digits radix [] = ([], [])"
| "take_digits radix (c # s) =
     (case hex_digit radix c of
        None \<Rightarrow> ([], c # s)
      | Some d \<Rightarrow> (let (ds, r) = take_digits radix s in (d # ds, r)))"

definition read_number :: "nat \<Rightarrow> nat \<Rightarrow> nat \<Rightarrow> bool \<Rightarrow> string \<Rightarrow> (nat \<times> string) option" where
  "read_number radix maxd bound zero_prefix s =
     (let (ds, r) = take_digits radix s; v = foldl (\<lambda>n d. radix * n + d) 0 ds
      in if length ds > maxd \<or> ds = [] then None
         else if \<not> zero_prefix \<and> starts_with ''0'' s \<and> length ds > 1 then None
         else if v \<le> bound then Some (v, r) else None)"

definition read_given_char :: "char \<Rightarrow> string \<Rightarrow> string option" where
  "read_given_char c s = (case s of [] \<Rightarrow> None | x # r \<Rightarrow> if x = c then Some r else None)"

text \<open>\<open>read_separator sep index inner\<close> reads the separator before every element but the first.\<close>

definition read_separator ::
  "char \<Rightarrow> nat \<Rightarrow> (string \<Rightarrow> ('a \<times> string) option) \<Rightarrow> string \<Rightarrow> ('a \<times> string) option" where
  "read_separator sep i inner s =
     (if i = 0 then inner s else Option.bind (read_given_char sep s) inner)"

definition read_octet :: "nat \<Rightarrow> string \<Rightarrow> (nat \<times> string) option" where
  "read_octet i = read_separator CHR ''.'' i (read_number 10 3 255 False)"

definition read_ipv4_addr :: "string \<Rightarrow> ((nat \<times> nat \<times> nat \<times> nat) \<times> string) option" where
  "read_ipv4_addr s =
     (case read_octet 0 s of None \<Rightarrow> None | Some (a, s1) \<Rightarrow>
     (case read_octet 1 s1 of None \<Rightarrow> None | Some (b, s2) \<Rightarrow>
     (case read_octet 2 s2 of None \<Rightarrow> None | Some (c, s3) \<Rightarrow>
     (case read_octet 3 s3 of None \<Rightarrow> None | Some (d, s4) \<Rightarrow> Some ((a, b, c, d), s4)))))"

text \<open>
  \<open>read_groups\<close> with \<open>left\<close> groups still to fill, the \<open>i\<close>-th next: the groups read, whether a
  trailing embedded IPv4 address ended them, and the rest of the input.
\<close>

fun read_groups :: "nat \<Rightarrow> nat \<Rightarrow> string \<Rightarrow> nat list \<times> bool \<times> string" where
  "read_groups 0 i s = ([], False, s)"
| "read_groups (Suc left) i s =
     (case (if 0 < left then read_separator CHR '':'' i read_ipv4_addr s else None) of
        Some ((a, b, c, d), r) \<Rightarrow> ([256 * a + b, 256 * c + d], True, r)
      | None \<Rightarrow>
          (case read_separator CHR '':'' i (read_number 16 4 65535 True) s of
             None \<Rightarrow> ([], False, s)
           | Some (g, r) \<Rightarrow>
               (let (gs, v4, r') = read_groups left (Suc i) r in (g # gs, v4, r'))))"

definition read_ipv6_addr :: "string \<Rightarrow> (nat list \<times> string) option" where
  "read_ipv6_addr s =
     (let (head, head_v4, r) = read_groups 8 0 s
      in if length head = 8 then Some (head, r)
         else if head_v4 then None
         else (case Option.bind (read_given_char CHR '':'' r) (read_given_char CHR '':'') of
                 None \<Rightarrow> None
               | Some r1 \<Rightarrow>
                   (let (tail, _, r2) = read_groups (8 - (length head + 1)) 0 r1
                    in Some (head @ replicate (8 - length head - length tail) 0 @ tail, r2))))"

definition parse_ip :: "string \<Rightarrow> ip_addr option" where
  "parse_ip s =
     (case read_ipv4_addr s of
        Some ((a, b, c, d), r) \<Rightarrow> if r = [] then Some (V4 a b c d) else None
      | None \<Rightarrow>
          (case read_ipv6_addr s of
             Some (gs, r) \<Rightarrow> if r = [] then Some (V6 gs) else None
           | None \<Rightarrow> None))"

text \<open>\<open>to_canonical\<close>: an IPv4-mapped IPv6 address is its IPv4 address.\<close>

definition to_canonical :: "ip_addr \<Rightarrow> ip_addr" where
  "to_canonical ip =
     (case ip of
        V4 a b c d \<Rightarrow> V4 a b c d
      | V6 gs \<Rightarrow>
          if take 6 gs = [0, 0, 0, 0, 0, 65535] \<and> length gs = 8
          then V4 (gs ! 6 div 256) (gs ! 6 mod 256) (gs ! 7 div 256) (gs ! 7 mod 256)
          else V6 gs)"

subsection \<open>An address is read case-insensitively and consumes only address characters\<close>

definition ip_char :: "char \<Rightarrow> bool" where
  "ip_char c \<longleftrightarrow> hex_digit 16 c \<noteq> None \<or> c = CHR '':'' \<or> c = CHR ''.''"

text \<open>
  A reader is well behaved when folding its input folds only the rest it leaves, and when what it
  consumes is made of address characters.
\<close>

definition reader_ok :: "(string \<Rightarrow> ('a \<times> string) option) \<Rightarrow> bool" where
  "reader_ok f \<longleftrightarrow>
     (\<forall>s. f (to_ascii_lowercase s) = map_option (apsnd to_ascii_lowercase) (f s)) \<and>
     (\<forall>s x r. f s = Some (x, r) \<longrightarrow> (\<exists>pre. s = pre @ r \<and> list_all ip_char pre))"

lemma reader_lower: "reader_ok f \<Longrightarrow> f (to_ascii_lowercase s) = map_option (apsnd to_ascii_lowercase) (f s)"
  by (simp add: reader_ok_def)

lemma reader_consumes:
  "reader_ok f \<Longrightarrow> f s = Some (x, r) \<Longrightarrow> \<exists>pre. s = pre @ r \<and> list_all ip_char pre"
  by (simp add: reader_ok_def)

lemma reader_okI:
  assumes "\<And>s. f (to_ascii_lowercase s) = map_option (apsnd to_ascii_lowercase) (f s)"
    and "\<And>s x r. f s = Some (x, r) \<Longrightarrow> \<exists>pre. s = pre @ r \<and> list_all ip_char pre"
  shows "reader_ok f"
  using assms by (simp add: reader_ok_def)

lemma of_char_ascii_lower:
  "of_char (ascii_lower c) =
     (if 65 \<le> (of_char c :: nat) \<and> (of_char c :: nat) \<le> 90 then of_char c + 32 else (of_char c :: nat))"
  unfolding ascii_lower_def by (simp add: of_char_char_of_small)

lemma hex_digit_lower [simp]: "radix \<le> 16 \<Longrightarrow> hex_digit radix (ascii_lower c) = hex_digit radix c"
  unfolding hex_digit_def of_char_ascii_lower Let_def by auto

lemma hex_digit_ip_char: "radix \<le> 16 \<Longrightarrow> hex_digit radix c = Some d \<Longrightarrow> ip_char c"
  by (auto simp: ip_char_def hex_digit_def Let_def split: if_splits)

lemma take_digits_lower:
  "radix \<le> 16 \<Longrightarrow> take_digits radix (to_ascii_lowercase s) = apsnd to_ascii_lowercase (take_digits radix s)"
  by (induction s) (auto simp: lower_Cons split: option.splits prod.splits)

lemma take_digits_consumes:
  "radix \<le> 16 \<Longrightarrow> take_digits radix s = (ds, r) \<Longrightarrow> \<exists>pre. s = pre @ r \<and> list_all ip_char pre"
proof (induction s arbitrary: ds)
  case (Cons c s)
  show ?case
  proof (cases "hex_digit radix c")
    case None
    with Cons.prems show ?thesis by (intro exI [of _ "[]"]) auto
  next
    case (Some d)
    with Cons.prems obtain ds' where "take_digits radix s = (ds', r)"
      by (auto split: prod.splits)
    then obtain pre where "s = pre @ r" "list_all ip_char pre"
      using Cons.IH Cons.prems(1) by blast
    moreover have "ip_char c" using Some Cons.prems(1) by (rule hex_digit_ip_char [rotated])
    ultimately show ?thesis by (intro exI [of _ "c # pre"]) simp
  qed
qed simp

lemma starts_with_zero_lower [simp]: "starts_with ''0'' (to_ascii_lowercase s) = starts_with ''0'' s"
proof (cases s)
  case (Cons c r)
  have "ascii_lower c = CHR ''0'' \<longleftrightarrow> c = CHR ''0''"
    by (rule ascii_lower_eq_fixed) (simp_all add: is_ascii_lowercase_def is_ascii_uppercase_def)
  with Cons show ?thesis by (simp add: starts_with_def lower_Cons)
qed (simp add: starts_with_def)

lemma read_number_ok: "radix \<le> 16 \<Longrightarrow> reader_ok (read_number radix maxd bound z)"
proof (rule reader_okI)
  assume r: "radix \<le> 16"
  fix s
  show "read_number radix maxd bound z (to_ascii_lowercase s)
      = map_option (apsnd to_ascii_lowercase) (read_number radix maxd bound z s)"
    by (auto simp: read_number_def take_digits_lower [OF r] Let_def split: prod.splits)
next
  fix s x r assume "radix \<le> 16" "read_number radix maxd bound z s = Some (x, r)"
  then show "\<exists>pre. s = pre @ r \<and> list_all ip_char pre"
    by (auto simp: read_number_def Let_def split: prod.splits if_splits dest: take_digits_consumes)
qed

lemma ascii_lower_fixed: "\<not> is_ascii_lowercase c \<Longrightarrow> \<not> is_ascii_uppercase c \<Longrightarrow>
    read_given_char c (to_ascii_lowercase s) = map_option to_ascii_lowercase (read_given_char c s)"
  by (cases s) (auto simp: read_given_char_def lower_Cons ascii_lower_eq_fixed)

lemma read_separator_ok:
  assumes c: "c = CHR ''.'' \<or> c = CHR '':''" and f: "reader_ok f"
  shows "reader_ok (read_separator c i f)"
proof (rule reader_okI)
  fix s
  have "\<not> is_ascii_lowercase c \<and> \<not> is_ascii_uppercase c"
    using c by (auto simp: is_ascii_lowercase_def is_ascii_uppercase_def)
  then show "read_separator c i f (to_ascii_lowercase s)
      = map_option (apsnd to_ascii_lowercase) (read_separator c i f s)"
    using reader_lower [OF f]
    by (cases "read_given_char c s") (auto simp: read_separator_def ascii_lower_fixed)
next
  fix s x r assume "read_separator c i f s = Some (x, r)"
  then consider "f s = Some (x, r)" | s' where "s = c # s'" "f s' = Some (x, r)"
    by (auto simp: read_separator_def read_given_char_def Option.bind_eq_Some_conv
        split: if_splits list.splits)
  then show "\<exists>pre. s = pre @ r \<and> list_all ip_char pre"
  proof cases
    case 2
    then obtain pre where "s' = pre @ r" "list_all ip_char pre" using reader_consumes [OF f] by blast
    with 2 c show ?thesis by (intro exI [of _ "c # pre"]) (auto simp: ip_char_def)
  qed (use reader_consumes [OF f] in blast)
qed

lemma read_octet_ok: "reader_ok (read_octet i)"
  unfolding read_octet_def by (simp add: read_separator_ok read_number_ok)

text \<open>Sequencing two readers, as \<open>read_ipv4_addr\<close> does four times.\<close>

lemma reader_seq_ok:
  assumes f: "reader_ok f" and g: "\<And>x. reader_ok (g x)"
  shows "reader_ok (\<lambda>s. case f s of None \<Rightarrow> None | Some (x, r) \<Rightarrow> g x r)"
proof (rule reader_okI)
  fix s
  show "(case f (to_ascii_lowercase s) of None \<Rightarrow> None | Some (x, r) \<Rightarrow> g x r)
      = map_option (apsnd to_ascii_lowercase) (case f s of None \<Rightarrow> None | Some (x, r) \<Rightarrow> g x r)"
    by (cases "f s") (auto simp: reader_lower [OF f] reader_lower [OF g])
next
  fix s y r assume "(case f s of None \<Rightarrow> None | Some (x, r) \<Rightarrow> g x r) = Some (y, r)"
  then obtain x r1 where 1: "f s = Some (x, r1)" and 2: "g x r1 = Some (y, r)"
    by (auto split: option.splits)
  from reader_consumes [OF f 1] reader_consumes [OF g 2]
  show "\<exists>pre. s = pre @ r \<and> list_all ip_char pre"
    by (metis append.assoc list_all_append)
qed

lemma reader_return_ok: "reader_ok (\<lambda>s. Some (x, s))"
  by (rule reader_okI) (auto intro: exI [of _ "[]"])

lemma read_ipv4_addr_ok: "reader_ok read_ipv4_addr"
  unfolding read_ipv4_addr_def
  by (intro reader_seq_ok read_octet_ok reader_return_ok)

definition groups_ok :: "nat \<Rightarrow> nat \<Rightarrow> bool" where
  "groups_ok n i \<longleftrightarrow> reader_ok (\<lambda>s. Some (let (gs, v4, r) = read_groups n i s in ((gs, v4), r)))"

lemma read_groups_ok: "groups_ok n i"
proof (induction n arbitrary: i)
  case 0
  show ?case unfolding groups_ok_def by (simp add: reader_return_ok)
next
  case (Suc n)
  let ?v4 = "read_separator CHR '':'' i read_ipv4_addr"
  let ?grp = "read_separator CHR '':'' i (read_number 16 4 65535 True)"
  have v4: "reader_ok ?v4" by (simp add: read_separator_ok read_ipv4_addr_ok)
  have grp: "reader_ok ?grp" by (simp add: read_separator_ok read_number_ok)
  have rest: "reader_ok (\<lambda>s. Some (let (gs, v4, r) = read_groups n (Suc i) s in ((gs, v4), r)))"
    using Suc.IH [of "Suc i"] by (simp add: groups_ok_def)
  show ?case unfolding groups_ok_def
  proof (rule reader_okI)
    fix s
    have IH: "read_groups n (Suc i) (to_ascii_lowercase r)
        = (let (gs, b, r') = read_groups n (Suc i) r in (gs, b, to_ascii_lowercase r'))" for r
      using reader_lower [OF rest, of r] by (auto split: prod.splits)
    show "Some (let (gs, v4, r) = read_groups (Suc n) i (to_ascii_lowercase s) in ((gs, v4), r)) =
        map_option (apsnd to_ascii_lowercase)
          (Some (let (gs, v4, r) = read_groups (Suc n) i s in ((gs, v4), r)))"
      by (auto simp: reader_lower [OF v4] reader_lower [OF grp] IH Let_def
          split: option.splits prod.splits)
  next
    fix s x r
    assume "Some (let (gs, v4, r) = read_groups (Suc n) i s in ((gs, v4), r)) = Some (x, r)"
    then consider y where "?v4 s = Some (y, r)" | "r = s"
      | g r1 gs b where "?grp s = Some (g, r1)" "read_groups n (Suc i) r1 = (gs, b, r)"
      by (auto simp: Let_def split: option.splits prod.splits if_splits)
    then show "\<exists>pre. s = pre @ r \<and> list_all ip_char pre"
    proof cases
      case 1
      then show ?thesis using reader_consumes [OF v4] by blast
    next
      case 2
      then show ?thesis by (intro exI [of _ "[]"]) simp
    next
      case 3
      then have "\<exists>pre. r1 = pre @ r \<and> list_all ip_char pre"
        using reader_consumes [OF rest, of r1 "(gs, b)" r] by simp
      with reader_consumes [OF grp 3(1)] show ?thesis
        by (metis append.assoc list_all_append)
    qed
  qed
qed

lemma groups_lower:
  "read_groups n i (to_ascii_lowercase s)
     = (let (gs, b, r) = read_groups n i s in (gs, b, to_ascii_lowercase r))"
  using reader_lower [OF read_groups_ok [unfolded groups_ok_def], of n i s]
  by (auto split: prod.splits)

lemma groups_consume:
  "read_groups n i s = (gs, b, r) \<Longrightarrow> \<exists>pre. s = pre @ r \<and> list_all ip_char pre"
  using reader_consumes [OF read_groups_ok [unfolded groups_ok_def], of n i s "(gs, b)" r] by simp

lemma read_ipv6_addr_ok: "reader_ok read_ipv6_addr"
proof (rule reader_okI)
  fix s
  have colon: "read_given_char CHR '':'' (to_ascii_lowercase r)
      = map_option to_ascii_lowercase (read_given_char CHR '':'' r)" for r
    by (rule ascii_lower_fixed) (simp_all add: is_ascii_lowercase_def is_ascii_uppercase_def)
  obtain h b r where g: "read_groups 8 0 s = (h, b, r)" by (cases "read_groups 8 0 s")
  show "read_ipv6_addr (to_ascii_lowercase s) = map_option (apsnd to_ascii_lowercase) (read_ipv6_addr s)"
    by (cases "Option.bind (read_given_char CHR '':'' r) (read_given_char CHR '':'')";
        cases "read_given_char CHR '':'' r")
      (auto simp: read_ipv6_addr_def groups_lower g colon Let_def split: prod.splits)
next
  fix s x r assume a: "read_ipv6_addr s = Some (x, r)"
  obtain h b r0 where g: "read_groups 8 0 s = (h, b, r0)" by (cases "read_groups 8 0 s")
  from groups_consume [OF g] obtain pre where pre: "s = pre @ r0" "list_all ip_char pre" by blast
  show "\<exists>pre. s = pre @ r \<and> list_all ip_char pre"
  proof (cases "length h = 8")
    case True
    with a g pre show ?thesis by (auto simp: read_ipv6_addr_def)
  next
    case False
    with a g obtain r1 gs b' where r0: "r0 = CHR '':'' # CHR '':'' # r1"
      and "read_groups (8 - (length h + 1)) 0 r1 = (gs, b', r)"
      by (auto simp: read_ipv6_addr_def read_given_char_def Option.bind_eq_Some_conv Let_def
          split: if_splits option.splits list.splits prod.splits)
    from groups_consume [OF this(2)] obtain q where "r1 = q @ r" "list_all ip_char q" by blast
    with pre r0 show ?thesis
      by (intro exI [of _ "pre @ '':'' @ '':'' @ q"]) (simp add: ip_char_def)
  qed
qed

lemma parse_ip_lower [simp]: "parse_ip (to_ascii_lowercase s) = parse_ip s"
  by (auto simp: parse_ip_def reader_lower [OF read_ipv4_addr_ok] reader_lower [OF read_ipv6_addr_ok]
      split: option.splits prod.splits)

lemma parse_ip_chars: "parse_ip s = Some ip \<Longrightarrow> list_all ip_char s"
  by (auto simp: parse_ip_def split: option.splits if_splits prod.splits
      dest!: reader_consumes [OF read_ipv4_addr_ok] reader_consumes [OF read_ipv6_addr_ok])

lemma star_not_ip_char [simp]: "\<not> ip_char CHR ''*''" "\<not> ip_char CHR ''/''"
    "\<not> ip_char CHR ''['' " "\<not> ip_char CHR '']''"
  by (simp_all add: ip_char_def hex_digit_def)

lemma parse_ip_Nil [simp]: "parse_ip [] = None"
  by code_simp

section \<open>Unix paths\<close>

datatype component = RootDir | CurDir | ParentDir | Normal string

text \<open>
  \<open>Path::components\<close>: repeated separators and interior \<open>.\<close> segments disappear; a \<open>.\<close> is kept
  only as the first segment of a relative path.
\<close>

definition segment_component :: "string \<Rightarrow> component option" where
  "segment_component seg =
     (if seg = [] \<or> seg = ''.'' then None
      else if seg = ''..'' then Some ParentDir else Some (Normal seg))"

definition path_components :: "string \<Rightarrow> component list" where
  "path_components p =
     (let segs = split_on CHR ''/'' p;
          body = List.map_filter segment_component segs
      in if starts_with ''/'' p then RootDir # body
         else if hd segs = ''.'' then CurDir # body else body)"

definition path_eq :: "string \<Rightarrow> string \<Rightarrow> bool" where
  "path_eq a b \<longleftrightarrow> path_components a = path_components b"

definition path_file_name :: "string \<Rightarrow> string option" where
  "path_file_name p =
     (case rev (path_components p) of Normal n # _ \<Rightarrow> Some n | _ \<Rightarrow> None)"

text \<open>\<open>file_stem\<close>: the name up to its last dot, unless that dot opens it.\<close>

definition path_file_stem :: "string \<Rightarrow> string option" where
  "path_file_stem p =
     map_option (\<lambda>f. case rsplit_once CHR ''.'' f of
         None \<Rightarrow> f
       | Some (before, _) \<Rightarrow> if before = [] then f else before) (path_file_name p)"

lemma path_eq_equiv: "equivp path_eq"
  by (rule equivpI) (auto simp: reflp_def symp_def transp_def path_eq_def)

lemma path_eq_refl [simp]: "path_eq p p"
  by (simp add: path_eq_def)

lemma path_eq_trans [trans]: "path_eq a b \<Longrightarrow> path_eq b c \<Longrightarrow> path_eq a c"
  by (simp add: path_eq_def)

lemma split_on_nonempty [simp]: "split_on c s \<noteq> []"
  by (induction s) (auto split: list.splits)

end
