(* ===== verification/Policy_Types.thy ===== *)
theory Policy_Types
  imports Rust_Std
begin

text \<open>
  The data of \<open>crates/lns-policy/src/lib.rs\<close>: verdicts, the rules of the two egress tables, the
  tables, and the policy document. A record field carries a prefix of its struct's name, because
  Isabelle's field selectors are global constants. The blocks of a document the policy crate does
  not model travel verbatim in \<open>p_rest\<close>; nothing ever looks inside them.
\<close>

section \<open>Rules\<close>

datatype verdict = Allow | Deny

datatype transport = Upstream | Direct

datatype scheme = Http | Https

record http_rule =
  h_method :: "string option"
  h_path :: "string option"

record route_rule =
  r_match :: string
  r_verdict :: verdict
  r_transport :: transport
  r_scheme :: "scheme option"
  r_description :: "string option"
  r_tls_terminate :: bool
  r_rules :: "http_rule list"
  r_binaries :: "string list option"

record tcp_rule =
  t_match :: string
  t_verdict :: verdict
  t_binaries :: "string list option"
  t_description :: "string option"

section \<open>Tables and documents\<close>

record egress =
  e_http :: "route_rule list"
  e_tcp :: "tcp_rule list"

record network_policy =
  n_egress :: egress

type_synonym yaml_mapping = "(string \<times> string) list"

record policy =
  p_network :: network_policy
  p_name :: "string option"
  p_rest :: yaml_mapping

definition default_policy :: policy where
  "default_policy =
     \<lparr>p_network = \<lparr>n_egress = \<lparr>e_http = [], e_tcp = []\<rparr>\<rparr>, p_name = None, p_rest = []\<rparr>"

text \<open>The two tables of a policy, and replacing one of them.\<close>

abbreviation http_of :: "policy \<Rightarrow> route_rule list" where
  "http_of p \<equiv> e_http (n_egress (p_network p))"

abbreviation tcp_of :: "policy \<Rightarrow> tcp_rule list" where
  "tcp_of p \<equiv> e_tcp (n_egress (p_network p))"

definition set_http :: "route_rule list \<Rightarrow> policy \<Rightarrow> policy" where
  "set_http rs p = p\<lparr>p_network := (p_network p)\<lparr>n_egress := (n_egress (p_network p))\<lparr>e_http := rs\<rparr>\<rparr>\<rparr>"

definition set_tcp :: "tcp_rule list \<Rightarrow> policy \<Rightarrow> policy" where
  "set_tcp rs p = p\<lparr>p_network := (p_network p)\<lparr>n_egress := (n_egress (p_network p))\<lparr>e_tcp := rs\<rparr>\<rparr>\<rparr>"

lemma table_updates [simp]:
  "http_of (set_http rs p) = rs" "tcp_of (set_http rs p) = tcp_of p"
  "tcp_of (set_tcp ts p) = ts" "http_of (set_tcp ts p) = http_of p"
  "p_name (set_http rs p) = p_name p" "p_rest (set_http rs p) = p_rest p"
  "p_name (set_tcp ts p) = p_name p" "p_rest (set_tcp ts p) = p_rest p"
  by (simp_all add: set_http_def set_tcp_def)

lemma set_same_table [simp]: "set_http (http_of p) p = p" "set_tcp (tcp_of p) p = p"
  by (simp_all add: set_http_def set_tcp_def)

end
