(* ===== verification/Matching.thy ===== *)
theory Matching
  imports Policy_Types
begin

text \<open>
  The model of \<open>crates/lns-policy/src/matching.rs\<close>: which destinations a \<open>match\<close> pattern names,
  when one pattern covers another, what two patterns share, and which rule of a table the
  first-match scan of the guest gate reaches before a new one. The CIDR type of the \<open>ipnet\<close>
  crate is a parameter: a record of the four operations the code calls, with what its
  documentation says of them as the predicate \<open>ipnet_ok\<close>.
\<close>

section \<open>The \<open>ipnet\<close> crate\<close>

record 'n ipnet =
  net_parse :: "string \<Rightarrow> 'n option"
  net_contains :: "'n \<Rightarrow> 'n \<Rightarrow> bool"
  net_contains_ip :: "'n \<Rightarrow> ip_addr \<Rightarrow> bool"
  net_to_string :: "'n \<Rightarrow> string"

definition cidr_shaped :: "string \<Rightarrow> bool" where
  "cidr_shaped s \<longleftrightarrow>
     (\<exists>a p. s = a @ CHR ''/'' # p \<and> list_all ip_char a \<and> list_all is_ascii_digit p)"

text \<open>
  The documented behaviour the policy code relies on: the text form is \<open>address/prefix\<close> and
  reads back, a range contains itself, and what an inner range contains its outer one does.
\<close>

definition ipnet_ok :: "'n ipnet \<Rightarrow> bool" where
  "ipnet_ok N \<longleftrightarrow>
     (\<forall>n. net_parse N (net_to_string N n) = Some n) \<and>
     (\<forall>s n. net_parse N s = Some n \<longrightarrow> cidr_shaped s) \<and>
     (\<forall>n. net_contains N n n) \<and>
     (\<forall>a b ip. net_contains N a b \<longrightarrow> net_contains_ip N b ip \<longrightarrow> net_contains_ip N a ip)"

section \<open>Host patterns\<close>

definition catch_all :: string where
  "catch_all = ''*''"

definition domain_matches :: "string \<Rightarrow> string \<Rightarrow> bool" where
  "domain_matches pat host =
     (let p = to_ascii_lowercase pat; h = to_ascii_lowercase host
      in if p = catch_all then h \<noteq> []
         else (case strip_prefix ''*.'' p of
                 Some suffix \<Rightarrow> h = suffix \<or> ends_with (CHR ''.'' # suffix) h
               | None \<Rightarrow>
                   if contains_str ''*.'' p
                   then (let (pre, suf) = (case split_once CHR ''*'' p of Some ps \<Rightarrow> ps | None \<Rightarrow> (p, []))
                         in starts_with pre h \<and> ends_with suf (drop (length pre) h)
                            \<and> length pre + length suf < length h)
                   else h = p))"

definition wildcard_covers :: "string \<Rightarrow> string \<Rightarrow> bool" where
  "wildcard_covers existing new =
     (let e = to_ascii_lowercase existing; n = to_ascii_lowercase new
      in if e = catch_all then True
         else (case strip_prefix ''*.'' e of
                 Some suffix \<Rightarrow>
                   (case rsplit_once CHR ''*'' n of
                      Some (_, tail) \<Rightarrow> ends_with (CHR ''.'' # suffix) tail
                    | None \<Rightarrow> False)
               | None \<Rightarrow> e = n))"

definition host_covers :: "string \<Rightarrow> string \<Rightarrow> bool" where
  "host_covers existing new =
     (if contains_char CHR ''*'' new then wildcard_covers existing new
      else domain_matches existing new)"

definition patterns_overlap :: "string \<Rightarrow> string \<Rightarrow> bool" where
  "patterns_overlap one other \<longleftrightarrow> domain_matches one other \<or> domain_matches other one"

section \<open>Destinations\<close>

datatype 'n hosts = Range 'n | Pattern string

datatype port_scope = Any | Only nat

record 'n destination =
  d_hosts :: "'n hosts"
  d_port :: port_scope

definition unbracketed :: "string \<Rightarrow> string" where
  "unbracketed host =
     (case Option.bind (strip_prefix ''['' host) (strip_suffix '']'') of
        Some inner \<Rightarrow> inner | None \<Rightarrow> host)"

definition port_shaped :: "string \<Rightarrow> bool" where
  "port_shaped s \<longleftrightarrow> s \<noteq> [] \<and> list_all is_ascii_digit s"

definition split_destination :: "string \<Rightarrow> string \<times> string option" where
  "split_destination dest =
     (case rsplit_once_str '']:'' dest of
        Some (bracketed, port) \<Rightarrow> (trim_start_matches CHR ''['' bracketed, Some port)
      | None \<Rightarrow>
          if starts_with ''['' dest \<or> matches_count CHR '':'' dest > 1
          then (unbracketed dest, None)
          else (case rsplit_once CHR '':'' dest of
                  Some (address, port) \<Rightarrow>
                    if port_shaped port then (address, Some port) else (dest, None)
                | None \<Rightarrow> (dest, None)))"

text \<open>The port text the message of \<open>unusable_port\<close> quotes, when there is a reason to give one.\<close>

definition unusable_port :: "string \<Rightarrow> string option" where
  "unusable_port dest =
     (let position =
        (case rsplit_once_str '']:'' dest of
           Some (_, port) \<Rightarrow> Some port
         | None \<Rightarrow>
             if starts_with ''['' dest \<or> matches_count CHR '':'' dest > 1 then None
             else map_option snd (rsplit_once CHR '':'' dest))
      in (case position of
            None \<Rightarrow> None
          | Some port \<Rightarrow> if parse_u16 port = None then Some port else None))"

definition split_port :: "string \<Rightarrow> (string \<times> nat) option" where
  "split_port pattern =
     (let (host, port) = split_destination pattern
      in (case Option.bind port parse_u16 of None \<Rightarrow> None | Some p \<Rightarrow> Some (host, p)))"

definition hosts_of :: "'n ipnet \<Rightarrow> string \<Rightarrow> 'n hosts" where
  "hosts_of N host = (case net_parse N host of Some rng \<Rightarrow> Range rng | None \<Rightarrow> Pattern host)"

definition classify :: "'n ipnet \<Rightarrow> string \<Rightarrow> 'n destination" where
  "classify N pattern =
     (case net_parse N pattern of
        Some rng \<Rightarrow> \<lparr>d_hosts = Range rng, d_port = Any\<rparr>
      | None \<Rightarrow>
          (case split_port pattern of
             Some (host, port) \<Rightarrow> \<lparr>d_hosts = hosts_of N host, d_port = Only port\<rparr>
           | None \<Rightarrow> \<lparr>d_hosts = Pattern pattern, d_port = Any\<rparr>))"

definition port_covers :: "port_scope \<Rightarrow> port_scope \<Rightarrow> bool" where
  "port_covers existing new \<longleftrightarrow> existing = Any \<or> existing = new"

fun hosts_cover :: "'n ipnet \<Rightarrow> 'n hosts \<Rightarrow> 'n hosts \<Rightarrow> bool" where
  "hosts_cover N (Range existing) (Range new) = net_contains N existing new"
| "hosts_cover N (Range existing) (Pattern new) =
     (case parse_ip new of
        Some ip \<Rightarrow> net_contains_ip N existing (to_canonical ip) | None \<Rightarrow> False)"
| "hosts_cover N (Pattern existing) (Range new) = (existing = catch_all)"
| "hosts_cover N (Pattern existing) (Pattern new) = host_covers existing new"

definition destination_covers :: "'n ipnet \<Rightarrow> string \<Rightarrow> string \<Rightarrow> bool" where
  "destination_covers N existing new =
     (let e = classify N existing; n = classify N new
      in port_covers (d_port e) (d_port n) \<and> hosts_cover N (d_hosts e) (d_hosts n))"

definition destinations_overlap :: "'n ipnet \<Rightarrow> string \<Rightarrow> string \<Rightarrow> bool" where
  "destinations_overlap N one other \<longleftrightarrow>
     destination_covers N one other \<or> destination_covers N other one"

section \<open>What two patterns share\<close>

fun intersect_ports :: "port_scope \<Rightarrow> port_scope \<Rightarrow> port_scope option" where
  "intersect_ports Any Any = Some Any"
| "intersect_ports Any (Only p) = Some (Only p)"
| "intersect_ports (Only p) Any = Some (Only p)"
| "intersect_ports (Only one) (Only other) = (if one = other then Some (Only one) else None)"

fun rendered :: "'n ipnet \<Rightarrow> 'n hosts \<Rightarrow> string" where
  "rendered N (Range rng) = net_to_string N rng"
| "rendered N (Pattern pattern) = pattern"

definition intersect_hosts :: "'n ipnet \<Rightarrow> 'n hosts \<Rightarrow> 'n hosts \<Rightarrow> string option" where
  "intersect_hosts N one other =
     (if hosts_cover N one other then Some (rendered N other)
      else if hosts_cover N other one then Some (rendered N one)
      else None)"

definition bracketed_if_v6 :: "string \<Rightarrow> string" where
  "bracketed_if_v6 host = (if contains_char CHR '':'' host then ''['' @ host @ '']'' else host)"

definition intersection :: "'n ipnet \<Rightarrow> string \<Rightarrow> string \<Rightarrow> string option" where
  "intersection N one other =
     (let a = classify N one; b = classify N other
      in (case intersect_ports (d_port a) (d_port b) of
            None \<Rightarrow> None
          | Some port \<Rightarrow>
              (case intersect_hosts N (d_hosts a) (d_hosts b) of
                 None \<Rightarrow> None
               | Some host \<Rightarrow>
                   Some (case port of
                           Any \<Rightarrow> host
                         | Only p \<Rightarrow> bracketed_if_v6 host @ '':'' @ show_nat p))))"

section \<open>Shadowing\<close>

definition scheme_covers :: "scheme option \<Rightarrow> scheme option \<Rightarrow> bool" where
  "scheme_covers existing new \<longleftrightarrow> existing = None \<or> existing = new"

definition same_path :: "string \<Rightarrow> string \<Rightarrow> bool" where
  "same_path one other = path_eq one other"

fun caller_covers :: "string list option \<Rightarrow> string list option \<Rightarrow> bool" where
  "caller_covers None new = True"
| "caller_covers (Some existing) None = True"
| "caller_covers (Some existing) (Some new) =
     list_all (\<lambda>binary. list_ex (\<lambda>listed. same_path listed binary) existing) new"

definition shadows :: "'n ipnet \<Rightarrow> route_rule \<Rightarrow> route_rule \<Rightarrow> bool" where
  "shadows N existing new \<longleftrightarrow>
     scheme_covers (r_scheme existing) (r_scheme new)
     \<and> destination_covers N (r_match existing) (r_match new)
     \<and> caller_covers (r_binaries existing) (r_binaries new)"

definition tcp_shadows :: "'n ipnet \<Rightarrow> tcp_rule \<Rightarrow> tcp_rule \<Rightarrow> bool" where
  "tcp_shadows N existing new \<longleftrightarrow>
     destination_covers N (t_match existing) (t_match new)
     \<and> caller_covers (t_binaries existing) (t_binaries new)"

text \<open>\<open>iter().enumerate().find(P)\<close>: the first index whose entry satisfies \<open>P\<close>, with the entry.\<close>

fun find_index :: "('a \<Rightarrow> bool) \<Rightarrow> 'a list \<Rightarrow> (nat \<times> 'a) option" where
  "find_index P [] = None"
| "find_index P (x # xs) =
     (if P x then Some (0, x) else map_option (\<lambda>(i, y). (Suc i, y)) (find_index P xs))"

definition first_shadowing_rule :: "'n ipnet \<Rightarrow> network_policy \<Rightarrow> route_rule \<Rightarrow> (nat \<times> route_rule) option" where
  "first_shadowing_rule N net new = find_index (\<lambda>existing. shadows N existing new) (e_http (n_egress net))"

definition first_shadowing_tcp_rule :: "'n ipnet \<Rightarrow> network_policy \<Rightarrow> tcp_rule \<Rightarrow> (nat \<times> tcp_rule) option" where
  "first_shadowing_tcp_rule N net new = find_index (\<lambda>existing. tcp_shadows N existing new) (e_tcp (n_egress net))"

section \<open>Denied destinations and pre-empted rules\<close>

fun first_denied :: "'n ipnet \<Rightarrow> (string \<times> verdict) list \<Rightarrow> string \<Rightarrow> string option" where
  "first_denied N [] pattern = None"
| "first_denied N ((match_pattern, verdict) # rules) pattern =
     (case intersection N pattern match_pattern of
        None \<Rightarrow> first_denied N rules pattern
      | Some shared \<Rightarrow>
          if verdict = Deny then Some shared
          else if eq_ignore_ascii_case shared pattern then None
          else first_denied N rules pattern)"

definition first_denied_within :: "'n ipnet \<Rightarrow> network_policy \<Rightarrow> string \<Rightarrow> string option" where
  "first_denied_within N net pattern =
     (let http = map (\<lambda>r. (r_match r, r_verdict r)) (e_http (n_egress net));
          tcp = map (\<lambda>r. (t_match r, t_verdict r)) (e_tcp (n_egress net))
      in (case first_denied N http pattern of
            Some shared \<Rightarrow> Some shared
          | None \<Rightarrow> first_denied N tcp pattern))"

definition denies_every_destination_of :: "'n ipnet \<Rightarrow> network_policy \<Rightarrow> string \<Rightarrow> bool" where
  "denies_every_destination_of N net pattern =
     (case first_denied_within N net pattern of
        Some denied \<Rightarrow> eq_ignore_ascii_case denied pattern | None \<Rightarrow> False)"

definition http_rules_pre_empted_by :: "'n ipnet \<Rightarrow> network_policy \<Rightarrow> tcp_rule \<Rightarrow> route_rule list" where
  "http_rules_pre_empted_by N net raw_rule =
     (if t_verdict raw_rule = Deny then []
      else (let raw = classify N (t_match raw_rule)
            in (case d_hosts raw of
                  Range _ \<Rightarrow> []
                | Pattern host \<Rightarrow>
                    filter (\<lambda>rule.
                      let route = classify N (r_match rule)
                      in port_covers (d_port route) (d_port raw)
                         \<and> (case d_hosts route of
                              Pattern pattern \<Rightarrow> patterns_overlap pattern host
                            | Range _ \<Rightarrow> False))
                      (e_http (n_egress net)))))"

section \<open>Host patterns: covering is sound\<close>

lemma domain_matches_folds:
  assumes "to_ascii_lowercase p = to_ascii_lowercase p'" "to_ascii_lowercase h = to_ascii_lowercase h'"
  shows "domain_matches p h = domain_matches p' h'"
  unfolding domain_matches_def using assms by simp

lemma literal_matches:
  assumes "CHR ''*'' \<notin> set p"
  shows "domain_matches p h \<longleftrightarrow> to_ascii_lowercase h = to_ascii_lowercase p"
proof -
  let ?p = "to_ascii_lowercase p"
  have ns: "CHR ''*'' \<notin> set ?p" using assms by simp
  have "?p \<noteq> catch_all" using ns by (auto simp: catch_all_def simp del: star_in_lower)
  moreover have "strip_prefix ''*.'' ?p = None" using ns by (auto simp: strip_prefix_def starts_with_iff simp del: star_in_lower)
  moreover have "\<not> contains_str ''*.'' ?p" using ns by (auto simp: contains_str_iff simp del: star_in_lower)
  ultimately show ?thesis by (simp add: domain_matches_def Let_def)
qed

lemma catch_all_matches [simp]: "domain_matches catch_all h \<longleftrightarrow> h \<noteq> []"
  by (simp add: domain_matches_def catch_all_def Let_def lower_Cons ascii_lower_def)

text \<open>A host a wildcard matches ends the way the pattern ends after its last star.\<close>

lemma wildcard_match_tail:
  assumes m: "domain_matches p h" and p: "to_ascii_lowercase p = a @ CHR ''*'' # t"
    and t: "CHR ''*'' \<notin> set t" and d: "t = q @ CHR ''.'' # s"
  shows "to_ascii_lowercase h = s \<or> ends_with (CHR ''.'' # s) (to_ascii_lowercase h)"
proof -
  let ?p = "to_ascii_lowercase p" and ?h = "to_ascii_lowercase h"
  have nc: "?p \<noteq> catch_all" using p d by (cases a) (auto simp: catch_all_def)
  have tail: "ends_with (CHR ''.'' # s) x" if "ends_with t x" for x
    using that d by (auto simp: ends_with_iff)
  consider x where "?p = ''*.'' @ x" | "strip_prefix ''*.'' ?p = None" "contains_str ''*.'' ?p"
    | "strip_prefix ''*.'' ?p = None" "\<not> contains_str ''*.'' ?p"
    by (metis not_Some_eq strip_prefix_Some)
  then show ?thesis
  proof cases
    case 1
    then have hx: "?h = x \<or> ends_with (CHR ''.'' # x) ?h"
      using m nc by (auto simp: domain_matches_def strip_prefix_def starts_with_iff)
    have "t = CHR ''.'' # x \<or> (\<exists>y. x = y @ CHR ''*'' # t)"
      using 1 p by (cases a; cases "List.tl a") (auto simp: Cons_eq_append_conv)
    then show ?thesis
    proof
      assume tx: "t = CHR ''.'' # x"
      then have "x = s \<or> ends_with (CHR ''.'' # s) x"
        using d by (cases q) (auto simp: ends_with_iff)
      with hx show ?thesis by (auto simp: ends_with_iff)
    next
      assume "\<exists>y. x = y @ CHR ''*'' # t"
      then have "ends_with t x" by (auto simp: ends_with_iff)
      then show ?thesis using hx tail by (auto simp: ends_with_iff)
    qed
  next
    case 2
    from p obtain pre suf where sp: "split_once CHR ''*'' ?p = Some (pre, suf)"
      by (cases "split_once CHR ''*'' ?p") (auto simp: split_once_None)
    then have ps: "?p = pre @ CHR ''*'' # suf" "CHR ''*'' \<notin> set pre" by (auto simp: split_once_Some)
    have "ends_with t suf"
      using ps p first_separator_last [of pre "CHR ''*''" suf a t] by (simp add: ends_with_iff)
    moreover have "ends_with suf ?h"
      using m nc 2 sp by (auto simp: domain_matches_def Let_def ends_with_iff)
        (metis append_assoc append_take_drop_id)
    ultimately have "ends_with t ?h" by (auto simp: ends_with_iff)
    with tail show ?thesis by blast
  next
    case 3
    then have "?h = ?p" using m nc by (simp add: domain_matches_def Let_def)
    then have "ends_with t ?h" using p by (auto simp: ends_with_iff)
    with tail show ?thesis by blast
  qed
qed

lemma wildcard_covers_sound:
  assumes c: "wildcard_covers e n" and m: "domain_matches n h" and h: "h \<noteq> []"
  shows "domain_matches e h"
proof -
  let ?e = "to_ascii_lowercase e" and ?n = "to_ascii_lowercase n"
  consider "?e = catch_all" | s where "?e = ''*.'' @ s" "?e \<noteq> catch_all"
    | "?e \<noteq> catch_all" "strip_prefix ''*.'' ?e = None"
    by (metis not_Some_eq strip_prefix_Some)
  then show ?thesis
  proof cases
    case 1
    then show ?thesis using h by (simp add: domain_matches_def)
  next
    case 2
    then obtain a t q where r: "rsplit_once CHR ''*'' ?n = Some (a, t)" and t: "t = q @ CHR ''.'' # s"
      using c by (auto simp: wildcard_covers_def strip_prefix_def starts_with_iff Let_def ends_with_iff
          split: option.splits)
    then have "to_ascii_lowercase h = s \<or> ends_with (CHR ''.'' # s) (to_ascii_lowercase h)"
      using wildcard_match_tail [OF m _ _ t] by (auto simp: rsplit_once_Some)
    with 2 show ?thesis by (simp add: domain_matches_def strip_prefix_def starts_with_iff)
  next
    case 3
    then have "?e = ?n" using c by (simp add: wildcard_covers_def)
    then show ?thesis using m domain_matches_folds [of e n h h] by simp
  qed
qed

lemma host_covers_matches:
  assumes c: "host_covers e n" and m: "domain_matches n h" and h: "h \<noteq> []"
  shows "domain_matches e h"
proof (cases "CHR ''*'' \<in> set n")
  case True
  with c m h show ?thesis using wildcard_covers_sound by (simp add: host_covers_def contains_char_def)
next
  case False
  then have "to_ascii_lowercase h = to_ascii_lowercase n" using m literal_matches by blast
  moreover have "domain_matches e n" using c False by (simp add: host_covers_def contains_char_def)
  ultimately show ?thesis using domain_matches_folds [of e e h n] by simp
qed

section \<open>The destinations a pattern names\<close>

text \<open>
  The specification: a request for \<open>host\<close> on \<open>port\<close> is named by a destination when the port is
  open or equal and the host is an address in the range, or a name the pattern matches.
\<close>

fun host_named :: "'n ipnet \<Rightarrow> 'n hosts \<Rightarrow> string \<Rightarrow> bool" where
  "host_named N (Range rng) host =
     (case parse_ip host of Some ip \<Rightarrow> net_contains_ip N rng (to_canonical ip) | None \<Rightarrow> False)"
| "host_named N (Pattern pattern) host = domain_matches pattern host"

fun port_named :: "port_scope \<Rightarrow> nat \<Rightarrow> bool" where
  "port_named Any port = True"
| "port_named (Only p) port = (port = p)"

definition destination_named :: "'n ipnet \<Rightarrow> 'n destination \<Rightarrow> string \<Rightarrow> nat \<Rightarrow> bool" where
  "destination_named N d host port \<longleftrightarrow> port_named (d_port d) port \<and> host_named N (d_hosts d) host"

abbreviation names :: "'n ipnet \<Rightarrow> string \<Rightarrow> string \<Rightarrow> nat \<Rightarrow> bool" where
  "names N pattern host port \<equiv> destination_named N (classify N pattern) host port"

lemma ipnet_okD:
  assumes "ipnet_ok N"
  shows "net_parse N (net_to_string N n) = Some n" "net_parse N s = Some n \<Longrightarrow> cidr_shaped s"
    "net_contains N n n" "net_contains N a b \<Longrightarrow> net_contains_ip N b ip \<Longrightarrow> net_contains_ip N a ip"
  using assms by (auto simp: ipnet_ok_def)

lemma ip_literal_no_star: "parse_ip s = Some ip \<Longrightarrow> CHR ''*'' \<notin> set s"
  using parse_ip_chars by (fastforce simp: list_all_iff)

lemma hosts_cover_sound:
  assumes N: "ipnet_ok N" and c: "hosts_cover N e n" and m: "host_named N n h" and h: "h \<noteq> []"
  shows "host_named N e h"
proof (cases e; cases n)
  fix existing new assume "e = Range existing" "n = Range new"
  with c m show ?thesis using ipnet_okD(4) [OF N] by (auto split: option.splits)
next
  fix existing new assume en: "e = Range existing" "n = Pattern new"
  with c obtain ip where ip: "parse_ip new = Some ip" "net_contains_ip N existing (to_canonical ip)"
    by (auto split: option.splits)
  have "to_ascii_lowercase h = to_ascii_lowercase new"
    using m en literal_matches [OF ip_literal_no_star [OF ip(1)]] by simp
  then have "parse_ip h = parse_ip new" by (metis parse_ip_lower)
  with ip en show ?thesis by simp
next
  fix existing new assume "e = Pattern existing" "n = Range new"
  with c h show ?thesis by simp
next
  fix existing new assume "e = Pattern existing" "n = Pattern new"
  with c m h show ?thesis using host_covers_matches by simp
qed

lemma port_covers_sound: "port_covers e n \<Longrightarrow> port_named n p \<Longrightarrow> port_named e p"
  by (auto simp: port_covers_def)

lemma destination_covers_names:
  assumes "ipnet_ok N" "destination_covers N e n" "names N n h p" "h \<noteq> []"
  shows "names N e h p"
  using assms hosts_cover_sound port_covers_sound
  by (auto simp: destination_covers_def destination_named_def Let_def)

section \<open>A rendered destination reads back\<close>

definition plain_host :: "string \<Rightarrow> bool" where
  "plain_host host \<longleftrightarrow> \<not> starts_with ''['' host \<and> \<not> ends_with '']'' host"

definition render_destination :: "'n ipnet \<Rightarrow> 'n destination \<Rightarrow> string" where
  "render_destination N d =
     (case d_port d of
        Any \<Rightarrow> rendered N (d_hosts d)
      | Only p \<Rightarrow> bracketed_if_v6 (rendered N (d_hosts d)) @ '':'' @ show_nat p)"

lemma digits_no_colon: "list_all is_ascii_digit ds \<Longrightarrow> CHR '':'' \<notin> set ds"
  by (auto simp: list_all_iff is_ascii_digit_def)

lemma rsplit_bracket_port:
  assumes "list_all is_ascii_digit ds"
  shows "rsplit_once_str '']:'' (x @ '']:'' @ ds) = Some (x, ds)"
proof (induction x)
  case Nil
  have "CHR '']'' \<notin> set (CHR '':'' # ds)" using assms by (auto simp: list_all_iff is_ascii_digit_def)
  then have "rsplit_once_str '']:'' (CHR '':'' # ds) = None" by (rule rsplit_once_str_absent)
  then show ?case by (simp add: starts_with_iff)
qed simp

lemma split_plain_port:
  assumes "list_all is_ascii_digit ds" "ds \<noteq> []" "CHR '':'' \<notin> set x" "plain_host x"
  shows "split_destination (x @ '':'' @ ds) = (x, Some ds)"
proof -
  let ?s = "x @ '':'' @ ds"
  have nc: "CHR '':'' \<notin> set ds" using assms(1) by (rule digits_no_colon)
  have "rsplit_once_str '']:'' ?s = None"
  proof (rule ccontr)
    assume "rsplit_once_str '']:'' ?s \<noteq> None"
    then obtain a b where "?s = (a @ '']'') @ CHR '':'' # b"
      using rsplit_once_str_sound by fastforce
    then obtain r where "ds = r @ b" "x @ '':'' @ ds = (a @ '']'') @ CHR '':'' # b"
      using first_separator_last [of x "CHR '':''" ds "a @ '']''" b] assms(3) by auto
    moreover from this have "r = []" using nc assms(3) by (cases r rule: rev_cases) auto
    ultimately have "x = a @ '']''" by simp
    then show False using assms(4) by (simp add: plain_host_def ends_with_iff)
  qed
  moreover have "\<not> starts_with ''['' ?s"
    using assms(4) by (cases x) (auto simp: plain_host_def starts_with_def)
  moreover have "matches_count CHR '':'' ?s = 1" using assms(3) nc by simp
  moreover have "rsplit_once CHR '':'' ?s = Some (x, ds)" using nc by (simp add: rsplit_once_Some)
  ultimately show ?thesis using assms(1,2) by (simp add: split_destination_def port_shaped_def)
qed

lemma split_bracketed_port:
  assumes "list_all is_ascii_digit ds" "plain_host x"
  shows "split_destination ((''['' @ x @ '']'') @ '':'' @ ds) = (x, Some ds)"
proof -
  have "trim_start_matches CHR ''['' (CHR ''['' # x) = x"
    using assms(2) by (cases x) (auto simp: trim_start_matches_def plain_host_def starts_with_def)
  then show ?thesis
    using rsplit_bracket_port [OF assms(1), of "CHR ''['' # x"] by (simp add: split_destination_def)
qed

lemma port_text_not_cidr:
  assumes "list_all is_ascii_digit ds" shows "\<not> cidr_shaped (x @ '':'' @ ds)"
proof
  assume "cidr_shaped (x @ '':'' @ ds)"
  then obtain a p where e: "x @ '':'' @ ds = a @ CHR ''/'' # p" and p: "list_all is_ascii_digit p"
    by (auto simp: cidr_shaped_def)
  have ds: "CHR ''/'' \<notin> set ds" using assms by (auto simp: list_all_iff is_ascii_digit_def)
  have "CHR '':'' \<in> set p"
    using e ds separator_behind [of x "CHR '':''" ds a "CHR ''/''" p] by simp
  then show False using digits_no_colon [OF p] by simp
qed

lemma classify_hosts_text:
  assumes N: "ipnet_ok N" and h: "d_hosts (classify N s) = H"
  shows "hosts_of N (rendered N H) = H"
  using h ipnet_okD(1) [OF N]
  by (auto simp: classify_def hosts_of_def split: option.splits prod.splits)

lemma range_text_plain:
  assumes "ipnet_ok N" shows "plain_host (net_to_string N n)"
proof -
  have "cidr_shaped (net_to_string N n)" using ipnet_okD(1,2) [OF assms] by blast
  then obtain a p where e: "net_to_string N n = a @ CHR ''/'' # p"
      "list_all ip_char a" "list_all is_ascii_digit p" by (auto simp: cidr_shaped_def)
  have "\<not> starts_with ''['' (net_to_string N n)"
    using e by (cases a) (auto simp: starts_with_def)
  moreover have "\<not> ends_with '']'' (net_to_string N n)"
  proof
    assume "ends_with '']'' (net_to_string N n)"
    with e obtain r where "a @ CHR ''/'' # p = r @ '']''" by (auto simp: ends_with_iff)
    then show False using e(3)
      by (cases p rule: rev_cases) (auto simp: is_ascii_digit_def)
  qed
  ultimately show ?thesis by (simp add: plain_host_def)
qed

lemma classify_port_bound: "d_port (classify N s) = Only p \<Longrightarrow> p \<le> 65535"
  by (auto simp: classify_def split_port_def Option.bind_eq_Some_conv split: option.splits prod.splits
      dest: parse_uint_bound)

lemma classify_with_port:
  assumes N: "ipnet_ok N" and x: "plain_host x" and p: "p \<le> 65535"
  shows "classify N (bracketed_if_v6 x @ '':'' @ show_nat p) = \<lparr>d_hosts = hosts_of N x, d_port = Only p\<rparr>"
proof -
  let ?s = "bracketed_if_v6 x @ '':'' @ show_nat p"
  have "split_destination ?s = (x, Some (show_nat p))"
    using split_plain_port [OF show_nat_digits show_nat_nonempty _ x, of p]
      split_bracketed_port [OF show_nat_digits x, of p]
    by (simp add: bracketed_if_v6_def contains_char_def)
  moreover have "net_parse N ?s = None"
    using ipnet_okD(2) [OF N] port_text_not_cidr [OF show_nat_digits] by (metis not_None_eq)
  ultimately show ?thesis using p by (simp add: classify_def split_port_def)
qed

section \<open>The intersection of two patterns\<close>

definition plain_pattern :: "'n ipnet \<Rightarrow> string \<Rightarrow> bool" where
  "plain_pattern N s = plain_host (rendered N (d_hosts (classify N s)))"

lemma classify_portless:
  assumes "ipnet_ok N" "d_port (classify N s) = Any"
  shows "classify N (rendered N (d_hosts (classify N s))) = classify N s"
  using assms ipnet_okD(1) [OF assms(1)]
  by (auto simp: classify_def split: option.splits prod.splits)

lemma intersect_ports_named:
  "intersect_ports a b = Some c \<Longrightarrow> port_named c p \<longleftrightarrow> port_named a p \<and> port_named b p"
  by (induction a b rule: intersect_ports.induct) (auto split: if_splits)

lemma intersect_ports_from: "intersect_ports a b = Some (Only p) \<Longrightarrow> a = Only p \<or> b = Only p"
  by (induction a b rule: intersect_ports.induct) (auto split: if_splits)

lemma intersect_ports_Any: "intersect_ports a b = Some Any \<longleftrightarrow> a = Any \<and> b = Any"
  by (induction a b rule: intersect_ports.induct) auto

lemma intersection_reads_back:
  assumes N: "ipnet_ok N" and i: "intersection N one other = Some shared"
    and plain: "plain_pattern N one" "plain_pattern N other"
  obtains side port where "side \<in> {one, other}"
    "hosts_cover N (d_hosts (classify N (if side = one then other else one))) (d_hosts (classify N side))
     \<or> one = other"
    "intersect_ports (d_port (classify N one)) (d_port (classify N other)) = Some port"
    "classify N shared = \<lparr>d_hosts = d_hosts (classify N side), d_port = port\<rparr>"
proof -
  let ?a = "classify N one" and ?b = "classify N other"
  from i obtain port host where port: "intersect_ports (d_port ?a) (d_port ?b) = Some port"
    and host: "intersect_hosts N (d_hosts ?a) (d_hosts ?b) = Some host"
    and shared: "shared = (case port of Any \<Rightarrow> host | Only p \<Rightarrow> bracketed_if_v6 host @ '':'' @ show_nat p)"
    by (auto simp: intersection_def Let_def split: option.splits)
  define side where "side = (if hosts_cover N (d_hosts ?a) (d_hosts ?b) then other else one)"
  have side: "side \<in> {one, other}" by (simp add: side_def)
  have hs: "host = rendered N (d_hosts (classify N side))"
    using host by (auto simp: intersect_hosts_def side_def split: if_splits)
  have cov: "hosts_cover N (d_hosts (classify N (if side = one then other else one))) (d_hosts (classify N side))
     \<or> one = other"
    using host by (auto simp: intersect_hosts_def side_def split: if_splits)
  have "classify N shared = \<lparr>d_hosts = d_hosts (classify N side), d_port = port\<rparr>"
  proof (cases port)
    case Any
    then have "d_port ?a = Any \<and> d_port ?b = Any" using port by (simp add: intersect_ports_Any)
    then have "d_port (classify N side) = Any" by (simp add: side_def)
    moreover from this have "classify N shared = classify N side"
      using classify_portless [OF N] by (simp add: shared Any hs)
    ultimately show ?thesis using Any by simp
  next
    case (Only p)
    then have "p \<le> 65535" using intersect_ports_from port classify_port_bound by blast
    moreover have "plain_host host" using plain by (auto simp: hs side_def plain_pattern_def)
    ultimately have "classify N shared = \<lparr>d_hosts = hosts_of N host, d_port = Only p\<rparr>"
      using classify_with_port [OF N] by (simp add: shared Only)
    then show ?thesis using classify_hosts_text [OF N refl, of side] by (simp add: Only hs)
  qed
  with side cov port that show ?thesis by blast
qed

lemma intersection_names:
  assumes N: "ipnet_ok N" and i: "intersection N one other = Some shared"
    and plain: "plain_pattern N one" "plain_pattern N other" and h: "h \<noteq> []"
  shows "names N shared h p \<longleftrightarrow> names N one h p \<and> names N other h p"
proof -
  from intersection_reads_back [OF N i plain] obtain side port where
    s: "side \<in> {one, other}"
    "hosts_cover N (d_hosts (classify N (if side = one then other else one))) (d_hosts (classify N side))
     \<or> one = other"
    "intersect_ports (d_port (classify N one)) (d_port (classify N other)) = Some port"
    "classify N shared = \<lparr>d_hosts = d_hosts (classify N side), d_port = port\<rparr>" .
  have "host_named N (d_hosts (classify N side)) h \<longleftrightarrow>
      host_named N (d_hosts (classify N one)) h \<and> host_named N (d_hosts (classify N other)) h"
    using s(1,2) hosts_cover_sound [OF N _ _ h] by (auto split: if_splits)
  then show ?thesis using intersect_ports_named [OF s(3)]
    by (auto simp: destination_named_def s(4))
qed

section \<open>First match over a table\<close>

lemma find_index_Some:
  "find_index P xs = Some (i, x) \<longleftrightarrow> i < length xs \<and> xs ! i = x \<and> P x \<and> (\<forall>y \<in> set (take i xs). \<not> P y)"
proof (induction xs arbitrary: i)
  case (Cons a xs)
  then show ?case by (cases i) auto
qed simp

lemma find_index_None: "find_index P xs = None \<longleftrightarrow> (\<forall>x \<in> set xs. \<not> P x)"
  by (induction xs) auto

text \<open>What settles the scan of \<open>first_denied\<close>: a deny that shares destinations, or an allow over all.\<close>

definition settles :: "'n ipnet \<Rightarrow> string \<Rightarrow> string \<times> verdict \<Rightarrow> bool" where
  "settles N pattern rule \<longleftrightarrow>
     (\<exists>shared. intersection N pattern (fst rule) = Some shared
        \<and> (snd rule = Deny \<or> eq_ignore_ascii_case shared pattern))"

lemma first_denied_scan:
  "first_denied N rules pattern =
     (case List.find (settles N pattern) rules of
        Some (m, Deny) \<Rightarrow> intersection N pattern m
      | _ \<Rightarrow> None)"
proof (induction rules)
  case (Cons r rules)
  obtain m v where r: "r = (m, v)" by (cases r)
  show ?case
    using Cons by (cases v) (auto simp: r settles_def split: option.splits)
qed simp

lemma first_denied_Some:
  "first_denied N rules pattern = Some shared \<Longrightarrow>
     \<exists>m. (m, Deny) \<in> set rules \<and> intersection N pattern m = Some shared"
  by (auto simp: first_denied_scan split: option.splits verdict.splits dest!: find_SomeD)

section \<open>Shadowing is what a first-match scan sees\<close>

text \<open>
  The contract of both tables: an order of coverage between rules, sound for the requests a rule
  claims. A rule appended behind one that covers it is never the first to claim a request.
\<close>

locale first_match =
  fixes ok :: bool
    and covers :: "'r \<Rightarrow> 'r \<Rightarrow> bool"
    and claims :: "'r \<Rightarrow> 'q \<Rightarrow> bool"
  assumes covers_sound: "ok \<Longrightarrow> covers e n \<Longrightarrow> claims n q \<Longrightarrow> claims e q"
begin

lemma shadowed_never_first:
  assumes ok and s: "find_index (\<lambda>e. covers e n) xs = Some (i, e)" and q: "claims n q"
  shows "\<exists>j r. j \<le> i \<and> j < length xs \<and> find_index (\<lambda>r. claims r q) (xs @ [n]) = Some (j, r)"
proof -
  from s have i: "i < length xs" "xs ! i = e" "covers e n" by (auto simp: find_index_Some)
  with q \<open>ok\<close> have "claims (xs ! i) q" using covers_sound by blast
  define j where "j = (LEAST k. claims (xs ! k) q)"
  have j: "j \<le> i" "claims (xs ! j) q" "\<forall>k < j. \<not> claims (xs ! k) q"
    unfolding j_def using \<open>claims (xs ! i) q\<close>
    by (auto intro: Least_le LeastI dest: not_less_Least)
  then have "find_index (\<lambda>r. claims r q) (xs @ [n]) = Some (j, xs ! j)"
    using i(1) by (auto simp: find_index_Some nth_append in_set_conv_nth)
  with j i(1) show ?thesis by auto
qed

lemma unshadowed_reached:
  assumes "claims n q" "\<forall>e \<in> set xs. \<not> claims e q"
  shows "find_index (\<lambda>r. claims r q) (xs @ [n]) = Some (length xs, n)"
  using assms by (auto simp: find_index_Some)

end

record request =
  q_host :: string
  q_port :: nat
  q_scheme :: scheme

definition route_claims :: "'n ipnet \<Rightarrow> route_rule \<Rightarrow> request \<Rightarrow> bool" where
  "route_claims N rule q \<longleftrightarrow>
     q_host q \<noteq> [] \<and> (r_scheme rule = None \<or> r_scheme rule = Some (q_scheme q))
     \<and> names N (r_match rule) (q_host q) (q_port q)"

definition tcp_claims :: "'n ipnet \<Rightarrow> tcp_rule \<Rightarrow> request \<Rightarrow> bool" where
  "tcp_claims N rule q \<longleftrightarrow> q_host q \<noteq> [] \<and> names N (t_match rule) (q_host q) (q_port q)"

interpretation http: first_match "ipnet_ok N" "shadows N" "route_claims N" for N :: "'n ipnet"
  by unfold_locales
    (auto simp: shadows_def route_claims_def scheme_covers_def intro: destination_covers_names)

interpretation tcp: first_match "ipnet_ok N" "tcp_shadows N" "tcp_claims N" for N :: "'n ipnet"
  by unfold_locales (auto simp: tcp_shadows_def tcp_claims_def intro: destination_covers_names)

section \<open>A concrete range type\<close>

text \<open>
  Three IPv4 blocks with the operations of \<^typ>\<open>'n ipnet\<close>, on which the theorems about ranges
  are evaluated.
\<close>

datatype block = Everything | Ten | Ten_One

fun block_text :: "block \<Rightarrow> string" where
  "block_text Everything = ''0.0.0.0/0''"
| "block_text Ten = ''10.0.0.0/8''"
| "block_text Ten_One = ''10.1.0.0/16''"

fun block_has :: "block \<Rightarrow> ip_addr \<Rightarrow> bool" where
  "block_has Everything (V4 a b c d) = True"
| "block_has Ten (V4 a b c d) = (a = 10)"
| "block_has Ten_One (V4 a b c d) = (a = 10 \<and> b = 1)"
| "block_has n (V6 gs) = False"

fun block_within :: "block \<Rightarrow> block \<Rightarrow> bool" where
  "block_within Everything n = True"
| "block_within Ten n = (n \<noteq> Everything)"
| "block_within Ten_One n = (n = Ten_One)"

definition blocks :: "block ipnet" where
  "blocks = \<lparr>net_parse = (\<lambda>s. List.find (\<lambda>n. block_text n = s) [Everything, Ten, Ten_One]),
     net_contains = block_within, net_contains_ip = block_has, net_to_string = block_text\<rparr>"

definition example_route :: "string \<Rightarrow> verdict \<Rightarrow> route_rule" where
  "example_route pattern verdict =
     \<lparr>r_match = pattern, r_verdict = verdict, r_transport = Upstream, r_scheme = None,
      r_description = None, r_tls_terminate = False, r_rules = [], r_binaries = None\<rparr>"

lemma block_text_shaped: "cidr_shaped (block_text n)"
proof (cases n)
  case Everything
  then show ?thesis unfolding cidr_shaped_def
    by (intro exI [of _ "''0.0.0.0''"] exI [of _ "''0''"])
      (simp add: ip_char_def hex_digit_def is_ascii_digit_def)
next
  case Ten
  then show ?thesis unfolding cidr_shaped_def
    by (intro exI [of _ "''10.0.0.0''"] exI [of _ "''8''"])
      (simp add: ip_char_def hex_digit_def is_ascii_digit_def)
next
  case Ten_One
  then show ?thesis unfolding cidr_shaped_def
    by (intro exI [of _ "''10.1.0.0''"] exI [of _ "''16''"])
      (simp add: ip_char_def hex_digit_def is_ascii_digit_def)
qed

lemma block_within_has: "block_within a b \<Longrightarrow> block_has b ip \<Longrightarrow> block_has a ip"
  by (cases a; cases b; cases ip) auto

lemma blocks_ok: "ipnet_ok blocks"
  unfolding ipnet_ok_def
proof (intro conjI allI impI)
  fix n show "net_parse blocks (net_to_string blocks n) = Some n"
    by (cases n) (simp_all add: blocks_def)
  show "net_contains blocks n n" by (cases n) (simp_all add: blocks_def)
next
  fix s n assume "net_parse blocks s = Some n"
  then have "block_text n = s" by (auto simp: blocks_def split: if_splits)
  then show "cidr_shaped s" using block_text_shaped [of n] by simp
next
  fix a b ip assume "net_contains blocks a b" "net_contains_ip blocks b ip"
  then show "net_contains_ip blocks a ip" by (simp add: blocks_def block_within_has)
qed

section \<open>Properties\<close>

text \<open>
  C21: \<open>destination_covers\<close> is sound: when it says one \<open>match\<close> pattern covers another, every
  request the covered pattern names (a non-empty host, any port) the covering pattern names too,
  for CIDR ranges, literal addresses, exact names and wildcards alike.
\<close>

theorem destination_covers_sound:
  assumes "ipnet_ok N" "destination_covers N existing new" "names N new host port" "host \<noteq> []"
  shows "names N existing host port"
  using assms by (rule destination_covers_names)

lemma destination_covers_sound_witness:
  "names blocks ''10.0.0.0/8'' ''10.1.2.3'' 443 \<and> names blocks ''*.example.com'' ''a.b.example.com'' 443"
proof (rule conjI)
  show "names blocks ''10.0.0.0/8'' ''10.1.2.3'' 443"
    by (rule destination_covers_sound [OF blocks_ok, of _ "''10.1.0.0/16''"]) code_simp+
  show "names blocks ''*.example.com'' ''a.b.example.com'' 443"
    by (rule destination_covers_sound [OF blocks_ok, of _ "''*.B.example.com:443''"]) code_simp+
qed



text \<open>
  \<open>first_shadowing_rule\<close> reports a real obstacle: when it answers with the rule at index \<open>i\<close>
  for a \<open>new\<close> rule, every request \<open>new\<close> claims is claimed, in the table with \<open>new\<close> appended, at
  an index at or before \<open>i\<close>, so \<open>new\<close> never fires; and no rule ahead of \<open>i\<close> shadows \<open>new\<close>.
\<close>

theorem first_shadowing_rule_sound:
  assumes "ipnet_ok N" "first_shadowing_rule N net new = Some (i, existing)" "route_claims N new q"
  shows "(\<exists>j r. j \<le> i \<and> j < length (e_http (n_egress net)) \<and>
            find_index (\<lambda>r. route_claims N r q) (e_http (n_egress net) @ [new]) = Some (j, r)) \<and>
         e_http (n_egress net) ! i = existing \<and>
         (\<forall>r \<in> set (take i (e_http (n_egress net))). \<not> shadows N r new)"
  using assms http.shadowed_never_first [OF assms(1), of new _ i existing q]
  by (auto simp: first_shadowing_rule_def find_index_Some)

lemma first_shadowing_rule_sound_witness:
  "\<exists>j r. j \<le> 1 \<and> find_index (\<lambda>r. route_claims blocks r \<lparr>q_host = ''a.dev'', q_port = 80, q_scheme = Http\<rparr>)
     ([example_route ''b.io'' Deny, example_route ''*.dev'' Deny] @ [example_route ''a.dev:80'' Allow])
       = Some (j, r)"
  using first_shadowing_rule_sound [OF blocks_ok,
      of "\<lparr>n_egress = \<lparr>e_http = [example_route ''b.io'' Deny, example_route ''*.dev'' Deny], e_tcp = []\<rparr>\<rparr>"
         "example_route ''a.dev:80'' Allow" 1 "example_route ''*.dev'' Deny"
         "\<lparr>q_host = ''a.dev'', q_port = 80, q_scheme = Http\<rparr>"]
proof -
  have "first_shadowing_rule blocks
      \<lparr>n_egress = \<lparr>e_http = [example_route ''b.io'' Deny, example_route ''*.dev'' Deny], e_tcp = []\<rparr>\<rparr>
      (example_route ''a.dev:80'' Allow) = Some (1, example_route ''*.dev'' Deny)"
    by code_simp
  moreover have "route_claims blocks (example_route ''a.dev:80'' Allow)
      \<lparr>q_host = ''a.dev'', q_port = 80, q_scheme = Http\<rparr>"
    by code_simp
  ultimately show ?thesis using first_shadowing_rule_sound [OF blocks_ok] by fastforce
qed

text \<open>
  \<open>first_denied_within\<close> reads each table first-match-wins: the destination it reports is the
  part of \<open>pattern\<close> inside a deny rule of one of the tables, and everything it reports is named
  both by \<open>pattern\<close> and by that rule.
\<close>

theorem first_denied_within_sound:
  assumes "ipnet_ok N" "first_denied_within N net pattern = Some shared" "plain_pattern N pattern"
    "\<forall>r \<in> set (e_http (n_egress net)). plain_pattern N (r_match r)"
    "\<forall>r \<in> set (e_tcp (n_egress net)). plain_pattern N (t_match r)"
  shows "\<exists>m. ((\<exists>r \<in> set (e_http (n_egress net)). r_match r = m \<and> r_verdict r = Deny)
              \<or> (\<exists>r \<in> set (e_tcp (n_egress net)). t_match r = m \<and> t_verdict r = Deny)) \<and>
           (\<forall>host port. host \<noteq> [] \<longrightarrow>
              names N shared host port = (names N pattern host port \<and> names N m host port))"
proof -
  let ?http = "map (\<lambda>r. (r_match r, r_verdict r)) (e_http (n_egress net))"
    and ?tcp = "map (\<lambda>r. (t_match r, t_verdict r)) (e_tcp (n_egress net))"
  have "first_denied N ?http pattern = Some shared \<or> first_denied N ?tcp pattern = Some shared"
    using assms(2) by (auto simp: first_denied_within_def split: option.splits)
  then obtain m where m: "(m, Deny) \<in> set ?http \<union> set ?tcp" "intersection N pattern m = Some shared"
    using first_denied_Some by blast
  then have "plain_pattern N m" using assms(4,5) by auto
  then have "names N shared host port = (names N pattern host port \<and> names N m host port)"
    if "host \<noteq> []" for host port
    using intersection_names [OF assms(1) m(2) assms(3) _ that] by blast
  with m(1) show ?thesis by (intro exI [of _ m]) auto
qed

lemma first_denied_within_sound_witness:
  "\<exists>m. (\<exists>r \<in> set [example_route ''*.dev:80'' Deny]. r_match r = m \<and> r_verdict r = Deny) \<and>
     names blocks ''a.dev:80'' ''a.dev'' 80 = (names blocks ''a.dev'' ''a.dev'' 80 \<and> names blocks m ''a.dev'' 80)"
proof -
  let ?net = "\<lparr>n_egress = \<lparr>e_http = [example_route ''*.dev:80'' Deny], e_tcp = []\<rparr>\<rparr>"
  have "first_denied_within blocks ?net ''a.dev'' = Some ''a.dev:80''" by code_simp
  moreover have "plain_pattern blocks ''a.dev''" by code_simp
  moreover have "\<forall>r \<in> set (e_http (n_egress ?net)). plain_pattern blocks (r_match r)" by code_simp
  ultimately show ?thesis
    using first_denied_within_sound [OF blocks_ok, of ?net "''a.dev''" "''a.dev:80''"] by auto
qed

end
