(* ===== verification/Policy.thy ===== *)
theory Policy
  imports Matching
begin

text \<open>
  The model of the operations of \<open>crates/lns-policy/src/lib.rs\<close>: what a rule must be to load, how a
  decision made during a run is placed in a table and taken back, and how a decisions document is
  read and written. Parsing and printing YAML are the parameters \<open>from_str\<close> and \<open>to_string\<close>; the
  messages of errors are values that hold the arguments of the source's format strings.
\<close>

section \<open>Constants and small predicates\<close>

definition API_VERSION :: string where
  "API_VERSION = ''lns.run/v1''"

definition KIND :: string where
  "KIND = ''mixin''"

definition APPROVED_NOTE :: string where
  "APPROVED_NOTE = ''approved during a run''"

definition is_dns_label :: "string \<Rightarrow> bool" where
  "is_dns_label n =
     (let alnum = (\<lambda>b. is_ascii_lowercase b \<or> is_ascii_digit b)
      in n \<noteq> [] \<and> length n \<le> 63 \<and> alnum (hd n) \<and> alnum (last n)
         \<and> list_all (\<lambda>b. alnum b \<or> b = CHR ''-'') n)"

text \<open>
  \<open>chars()\<close> visits a UTF-8 string character by character, which is one visit per byte that does
  not continue a character.
\<close>

definition utf8_lead :: "char \<Rightarrow> bool" where
  "utf8_lead c \<longleftrightarrow> \<not> (128 \<le> (of_char c :: nat) \<and> (of_char c :: nat) < 192)"

definition dns_label_for :: "string \<Rightarrow> string" where
  "dns_label_for path =
     (let stem = to_ascii_lowercase (case path_file_stem path of Some s \<Rightarrow> s | None \<Rightarrow> []);
          spelled = map (\<lambda>c. if is_ascii_alphanumeric c then c else CHR ''-'') (filter utf8_lead stem);
          label = take 63 (trim_end_matches CHR ''-'' (trim_start_matches CHR ''-'' spelled));
          label = trim_end_matches CHR ''-'' label
      in if is_dns_label label then label else ''local'')"

section \<open>What a rule must be\<close>

datatype rule_error =
    Port_Zero string
  | Empty_Binaries
  | Unmatchable_Entry string string
  | Needs_A_Port string
  | Ambiguous_V6 string
  | Invalid_Bracketed string
  | Invalid_Port string
  | Invalid_Cidr string
  | No_Host string
  | Not_A_Port string string

text \<open>
  The message of each error. \<open>{:?}\<close> of a string escapes by the Unicode tables of the standard
  library, so that rendering is the argument \<open>debug\<close>.
\<close>

fun rule_error_text :: "(string \<Rightarrow> string) \<Rightarrow> rule_error \<Rightarrow> string" where
  "rule_error_text debug (Port_Zero pattern) =
     ''egress.tcp rule '' @ debug pattern @ '': port 0 is not a valid destination port''"
| "rule_error_text debug Empty_Binaries =
     ''binaries filter is empty: it matches no caller and would deny the host for everyone; omit `binaries` to allow any caller''"
| "rule_error_text debug (Unmatchable_Entry path why) =
     ''binaries entry '' @ debug path @ '' '' @ why @ ''; entries are matched against the kernel-resolved /proc/<pid>/exe, so it can never match''"
| "rule_error_text debug (Needs_A_Port pattern) =
     ''egress.tcp rule '' @ debug pattern @ '' must specify a port, e.g. \"host:443\" or \"10.0.0.0/24:443\"''"
| "rule_error_text debug (Ambiguous_V6 pattern) =
     ''ambiguous IPv6 address without brackets: '' @ pattern @ ''; use [addr]:port notation''"
| "rule_error_text debug (Invalid_Bracketed pattern) = ''invalid bracketed address: '' @ pattern"
| "rule_error_text debug (Invalid_Port pattern) = ''invalid port in '' @ pattern"
| "rule_error_text debug (Invalid_Cidr pattern) = ''invalid CIDR in '' @ pattern"
| "rule_error_text debug (No_Host pattern) =
     ''egress.tcp rule '' @ debug pattern @ '' names no host before its port''"
| "rule_error_text debug (Not_A_Port pattern port) =
     ''egress.tcp rule '' @ debug pattern @ '': '' @ port @ '' is not a valid port number (1-65535)''"

definition unmatchable_binary :: "string \<Rightarrow> string option" where
  "unmatchable_binary binary =
     (if \<not> starts_with ''/'' binary then Some ''is not an absolute path''
      else if ParentDir \<in> set (path_components binary) then Some ''climbs through a \"..\" segment''
      else if path_file_name binary = None then Some ''names no binary''
      else None)"

definition parses_as_cidr :: "'n ipnet \<Rightarrow> string \<Rightarrow> bool" where
  "parses_as_cidr N pattern \<longleftrightarrow> net_parse N pattern \<noteq> None"

definition needs_a_port :: "string \<Rightarrow> rule_error" where
  "needs_a_port pattern = Needs_A_Port pattern"

definition parse_port :: "string \<Rightarrow> string \<Rightarrow> rule_error + nat" where
  "parse_port pattern port =
     (case parse_u16 port of Some p \<Rightarrow> Inr p | None \<Rightarrow> Inl (Not_A_Port pattern port))"

definition named_host :: "string \<Rightarrow> string \<Rightarrow> rule_error + unit" where
  "named_host pattern host = (if host = [] then Inl (No_Host pattern) else Inr ())"

definition prefixed_host_is_a_range :: "'n ipnet \<Rightarrow> string \<Rightarrow> string \<Rightarrow> rule_error + unit" where
  "prefixed_host_is_a_range N pattern host =
     (if contains_char CHR ''/'' host \<and> \<not> parses_as_cidr N host then Inl (Invalid_Cidr pattern)
      else Inr ())"

definition bracketed_port :: "'n ipnet \<Rightarrow> string \<Rightarrow> rule_error + nat" where
  "bracketed_port N pattern =
     (let (host, port) = split_destination pattern
      in (case port of
            None \<Rightarrow> Inl (Invalid_Bracketed pattern)
          | Some port \<Rightarrow>
              and_then (prefixed_host_is_a_range N pattern host) (\<lambda>_.
              and_then (named_host pattern host) (\<lambda>_.
              if \<not> port_shaped port then Inl (Invalid_Port pattern)
              else parse_port pattern port))))"

definition destination_port :: "'n ipnet \<Rightarrow> string \<Rightarrow> rule_error + nat" where
  "destination_port N pattern =
     (if parses_as_cidr N pattern then Inl (needs_a_port pattern)
      else if starts_with ''['' pattern then bracketed_port N pattern
      else if matches_count CHR '':'' pattern > 1 then Inl (Ambiguous_V6 pattern)
      else (case split_destination pattern of
              (_, None) \<Rightarrow> Inl (needs_a_port pattern)
            | (host, Some port) \<Rightarrow>
                and_then (prefixed_host_is_a_range N pattern host) (\<lambda>_.
                and_then (named_host pattern host) (\<lambda>_.
                parse_port pattern port))))"

definition tcp_validate :: "'n ipnet \<Rightarrow> tcp_rule \<Rightarrow> rule_error + unit" where
  "tcp_validate N rule =
     and_then (destination_port N (t_match rule)) (\<lambda>port.
     if port = 0 then Inl (Port_Zero (t_match rule))
     else (case t_binaries rule of
             None \<Rightarrow> Inr ()
           | Some binaries \<Rightarrow>
               if binaries = [] then Inl Empty_Binaries
               else try_for_each (\<lambda>path.
                      case unmatchable_binary path of
                        None \<Rightarrow> Inr ()
                      | Some why \<Rightarrow> Inl (Unmatchable_Entry path why)) binaries))"

record egress_raw =
  raw_http :: "route_rule list"
  raw_tcp :: "tcp_rule list"

definition egress_try_from :: "'n ipnet \<Rightarrow> egress_raw \<Rightarrow> rule_error + egress" where
  "egress_try_from N raw =
     and_then (try_for_each (tcp_validate N) (raw_tcp raw)) (\<lambda>_.
     Inr \<lparr>e_http = raw_http raw, e_tcp = raw_tcp raw\<rparr>)"

datatype load_error =
    Upstream_Transport
  | Empty_Scope string
  | Unmatchable_Binary string string string
  | Yaml string
  | Refused_Rule rule_error
  | Wrong_Api_Version string
  | Wrong_Kind string
  | Wrong_Name string
  | Io string

definition validate_binary :: "route_rule \<Rightarrow> string \<Rightarrow> load_error + unit" where
  "validate_binary rule binary =
     (case unmatchable_binary binary of
        None \<Rightarrow> Inr ()
      | Some why \<Rightarrow> Inl (Unmatchable_Binary (r_match rule) binary why))"

definition validate_binaries :: "route_rule \<Rightarrow> load_error + unit" where
  "validate_binaries rule =
     (case r_binaries rule of
        None \<Rightarrow> Inr ()
      | Some binaries \<Rightarrow>
          if binaries = [] then Inl (Empty_Scope (r_match rule))
          else try_for_each (validate_binary rule) binaries)"

definition egress_validate_local_transport :: "egress \<Rightarrow> load_error + unit" where
  "egress_validate_local_transport e =
     (if list_ex (\<lambda>route. r_transport route = Upstream) (e_http e) then Inl Upstream_Transport
      else Inr ())"

definition egress_validate_binary_scopes :: "egress \<Rightarrow> load_error + unit" where
  "egress_validate_binary_scopes e = try_for_each validate_binaries (e_http e)"

definition validate_local_transport :: "network_policy \<Rightarrow> load_error + unit" where
  "validate_local_transport net = egress_validate_local_transport (n_egress net)"

definition validate_binary_scopes :: "network_policy \<Rightarrow> load_error + unit" where
  "validate_binary_scopes net = egress_validate_binary_scopes (n_egress net)"

definition is_catch_all :: "route_rule \<Rightarrow> bool" where
  "is_catch_all rule \<longleftrightarrow>
     r_match rule = ''*'' \<and> r_binaries rule = None \<and> r_rules rule = [] \<and> r_scheme rule = None"

definition egress_is_closed :: "egress \<Rightarrow> bool" where
  "egress_is_closed e =
     (case List.find is_catch_all (e_http e) of Some rule \<Rightarrow> r_verdict rule = Deny | None \<Rightarrow> False)"

definition is_closed :: "network_policy \<Rightarrow> bool" where
  "is_closed net = egress_is_closed (n_egress net)"

section \<open>Rules an answer writes\<close>

definition for_host :: "string \<Rightarrow> verdict \<Rightarrow> route_rule" where
  "for_host host verdict =
     \<lparr>r_match = host, r_verdict = verdict, r_transport = Direct, r_scheme = None,
      r_description = None, r_tls_terminate = False, r_rules = [], r_binaries = None\<rparr>"

definition allow_host :: "string \<Rightarrow> route_rule" where
  "allow_host host = for_host host Allow"

definition deny_host :: "string \<Rightarrow> route_rule" where
  "deny_host host = for_host host Deny"

definition approved :: "route_rule \<Rightarrow> route_rule" where
  "approved rule = rule\<lparr>r_description := Some APPROVED_NOTE\<rparr>"

definition tcp_new :: "string \<Rightarrow> verdict \<Rightarrow> tcp_rule" where
  "tcp_new pattern verdict =
     \<lparr>t_match = pattern, t_verdict = verdict, t_binaries = None, t_description = None\<rparr>"

definition allow_destination :: "string \<Rightarrow> tcp_rule" where
  "allow_destination pattern = tcp_new pattern Allow"

definition deny_destination :: "string \<Rightarrow> tcp_rule" where
  "deny_destination pattern = tcp_new pattern Deny"

definition tcp_approved :: "tcp_rule \<Rightarrow> tcp_rule" where
  "tcp_approved rule = rule\<lparr>t_description := Some APPROVED_NOTE\<rparr>"

section \<open>Placing a decision in a table\<close>

datatype approval = Stands | Shadowed string | Unreachable string

text \<open>The \<open>Placed\<close> trait: what the placement asks of an entry, one value per implementing type.\<close>

record 'r placed =
  pl_verdict :: "'r \<Rightarrow> verdict"
  pl_match :: "'r \<Rightarrow> string"
  pl_is_approved :: "'r \<Rightarrow> bool"
  pl_already_held_as :: "'r \<Rightarrow> 'r \<Rightarrow> bool"

definition placed_route :: "route_rule placed" where
  "placed_route =
     \<lparr>pl_verdict = r_verdict, pl_match = r_match,
      pl_is_approved = (\<lambda>rule. r_description rule = Some APPROVED_NOTE),
      pl_already_held_as = (\<lambda>rule other. rule\<lparr>r_description := None\<rparr> = other\<lparr>r_description := None\<rparr>)\<rparr>"

definition placed_tcp :: "tcp_rule placed" where
  "placed_tcp =
     \<lparr>pl_verdict = t_verdict, pl_match = t_match,
      pl_is_approved = (\<lambda>rule. t_description rule = Some APPROVED_NOTE),
      pl_already_held_as = (\<lambda>rule other. rule\<lparr>t_description := None\<rparr> = other\<lparr>t_description := None\<rparr>)\<rparr>"

definition place_approved ::
  "'r placed \<Rightarrow> 'r list \<Rightarrow> 'r \<Rightarrow> (nat \<times> 'r) option \<Rightarrow> 'r list \<times> approval" where
  "place_approved P table rule shadowing =
     (let held = map_option fst (find_index (\<lambda>existing. pl_already_held_as P existing rule) table)
      in (case shadowing of
            None \<Rightarrow> (if held = None then table @ [rule] else table, Stands)
          | Some (index, sh) \<Rightarrow>
              (case held of
                 Some held \<Rightarrow> (table, if held \<le> index then Stands else Unreachable (pl_match P sh))
               | None \<Rightarrow>
                   if pl_verdict P sh = pl_verdict P rule then (table, Stands)
                   else (table, Shadowed (pl_match P sh)))))"

definition approved_for :: "'r placed \<Rightarrow> 'r \<Rightarrow> string \<Rightarrow> bool" where
  "approved_for P rule pattern \<longleftrightarrow> pl_is_approved P rule \<and> pl_match P rule = pattern"

definition remove_approved :: "'r placed \<Rightarrow> 'r list \<Rightarrow> string \<Rightarrow> 'r list \<times> bool" where
  "remove_approved P table pattern =
     (let kept = filter (\<lambda>rule. \<not> approved_for P rule pattern) table
      in (kept, length kept \<noteq> length table))"

definition holds_approved :: "'r placed \<Rightarrow> 'r list \<Rightarrow> string \<Rightarrow> bool" where
  "holds_approved P table pattern = list_ex (\<lambda>rule. approved_for P rule pattern) table"

definition add_rule :: "policy \<Rightarrow> route_rule \<Rightarrow> policy" where
  "add_rule p rule = (if rule \<in> set (http_of p) then p else set_http (http_of p @ [rule]) p)"

definition add_approved_rule :: "'n ipnet \<Rightarrow> policy \<Rightarrow> route_rule \<Rightarrow> policy \<times> approval" where
  "add_approved_rule N p rule =
     (let shadowing = first_shadowing_rule N (p_network p) rule;
          (table, approval) = place_approved placed_route (http_of p) rule shadowing
      in (set_http table p, approval))"

definition add_approved_tcp_rule :: "'n ipnet \<Rightarrow> policy \<Rightarrow> tcp_rule \<Rightarrow> policy \<times> approval" where
  "add_approved_tcp_rule N p rule =
     (let shadowing = first_shadowing_tcp_rule N (p_network p) rule;
          (table, approval) = place_approved placed_tcp (tcp_of p) rule shadowing
      in (set_tcp table p, approval))"

definition remove_approved_rule :: "policy \<Rightarrow> string \<Rightarrow> policy \<times> bool" where
  "remove_approved_rule p pattern =
     (let (table, removed) = remove_approved placed_route (http_of p) pattern
      in (set_http table p, removed))"

definition remove_approved_tcp_rule :: "policy \<Rightarrow> string \<Rightarrow> policy \<times> bool" where
  "remove_approved_tcp_rule p dest =
     (let (table, removed) = remove_approved placed_tcp (tcp_of p) dest
      in (set_tcp table p, removed))"

definition holds_approved_rule :: "policy \<Rightarrow> string \<Rightarrow> bool" where
  "holds_approved_rule p pattern = holds_approved placed_route (http_of p) pattern"

definition holds_approved_tcp_rule :: "policy \<Rightarrow> string \<Rightarrow> bool" where
  "holds_approved_tcp_rule p dest = holds_approved placed_tcp (tcp_of p) dest"

section \<open>Documents\<close>

record local_mixin_spec =
  s_egress :: egress_raw
  s_rest :: yaml_mapping

record local_mixin_document =
  m_api_version :: string
  m_kind :: string
  m_name :: string
  m_spec :: local_mixin_spec

text \<open>
  The YAML library as a parameter: reading text gives the raw document or its own message, and the
  egress block is converted by \<open>egress_try_from\<close> while it is read.
\<close>

record yaml =
  from_str :: "string \<Rightarrow> string + local_mixin_document"
  to_yaml :: "local_mixin_document \<Rightarrow> string + string"

definition from_document :: "'n ipnet \<Rightarrow> yaml \<Rightarrow> string \<Rightarrow> load_error + policy" where
  "from_document N Y text =
     and_then (map_err Yaml (from_str Y text)) (\<lambda>doc.
     and_then (map_err Refused_Rule (egress_try_from N (s_egress (m_spec doc)))) (\<lambda>egress.
     if m_api_version doc \<noteq> API_VERSION then Inl (Wrong_Api_Version (m_api_version doc))
     else if m_kind doc \<noteq> KIND then Inl (Wrong_Kind (m_kind doc))
     else if \<not> is_dns_label (m_name doc) then Inl (Wrong_Name (m_name doc))
     else (let policy = \<lparr>p_network = \<lparr>n_egress = egress\<rparr>, p_name = Some (m_name doc),
                         p_rest = s_rest (m_spec doc)\<rparr>
           in and_then (validate_local_transport (p_network policy)) (\<lambda>_.
              and_then (validate_binary_scopes (p_network policy)) (\<lambda>_.
              Inr policy)))))"

text \<open>What \<open>read_to_string\<close> of the file answered: its text, that there is none, or another error.\<close>

datatype file_read = Text string | Not_Found | Failed string

definition load_or_default :: "'n ipnet \<Rightarrow> yaml \<Rightarrow> file_read \<Rightarrow> load_error + policy" where
  "load_or_default N Y contents =
     (case contents of
        Text text \<Rightarrow> if trim_is_empty text then Inr default_policy else from_document N Y text
      | Not_Found \<Rightarrow> Inr default_policy
      | Failed e \<Rightarrow> Inl (Io e))"

definition document_of :: "policy \<Rightarrow> string \<Rightarrow> local_mixin_document" where
  "document_of p path =
     \<lparr>m_api_version = API_VERSION, m_kind = KIND,
      m_name = (case p_name p of Some n \<Rightarrow> n | None \<Rightarrow> dns_label_for path),
      m_spec = \<lparr>s_egress = \<lparr>raw_http = http_of p, raw_tcp = tcp_of p\<rparr>, s_rest = p_rest p\<rparr>\<rparr>"

definition document_bytes :: "yaml \<Rightarrow> policy \<Rightarrow> string \<Rightarrow> load_error + string" where
  "document_bytes Y p path = map_err Yaml (to_yaml Y (document_of p path))"

section \<open>Placement keeps the gate's reading\<close>

text \<open>
  What the placement relies on in both tables: an entry already held decides and claims what the
  new one would, and is covered by the same rules.
\<close>

locale placed_table = first_match ok covers claims
  for ok :: bool and covers :: "'r \<Rightarrow> 'r \<Rightarrow> bool" and claims :: "'r \<Rightarrow> 'q \<Rightarrow> bool" +
  fixes P :: "'r placed"
  assumes held_refl: "pl_already_held_as P r r"
    and held_verdict: "pl_already_held_as P e r \<Longrightarrow> pl_verdict P e = pl_verdict P r"
    and held_claims: "pl_already_held_as P e r \<Longrightarrow> claims e q \<longleftrightarrow> claims r q"
begin

abbreviation (input) place :: "'r list \<Rightarrow> 'r \<Rightarrow> 'r list \<times> approval" where
  "place table rule \<equiv> place_approved P table rule (find_index (\<lambda>e. covers e rule) table)"

lemma place_cases:
  obtains (appended) "place table rule = (table @ [rule], Stands)"
      "\<forall>e \<in> set table. \<not> covers e rule" "\<forall>e \<in> set table. \<not> pl_already_held_as P e rule"
  | (held) k where "place table rule = (table, Stands)" "k < length table"
      "pl_already_held_as P (table ! k) rule" "\<forall>e \<in> set (take k table). \<not> covers e rule"
  | (same) k where "place table rule = (table, Stands)" "k < length table" "covers (table ! k) rule"
      "pl_verdict P (table ! k) = pl_verdict P rule" "\<forall>e \<in> set (take k table). \<not> covers e rule"
  | (blocked) k where "k < length table" "covers (table ! k) rule" "\<forall>e \<in> set (take k table). \<not> covers e rule"
      "\<forall>e \<in> set (take (Suc k) table). \<not> pl_already_held_as P e rule"
      "place table rule = (table, Shadowed (pl_match P (table ! k)))
         \<and> pl_verdict P (table ! k) \<noteq> pl_verdict P rule
       \<or> place table rule = (table, Unreachable (pl_match P (table ! k)))"
proof (cases "find_index (\<lambda>e. covers e rule) table";
       cases "find_index (\<lambda>e. pl_already_held_as P e rule) table")
  assume c: "find_index (\<lambda>e. covers e rule) table = None"
    and h: "find_index (\<lambda>e. pl_already_held_as P e rule) table = None"
  have "place table rule = (table @ [rule], Stands)" by (simp add: place_approved_def c h)
  with c h show ?thesis by (intro appended) (simp_all add: find_index_None)
next
  fix a assume c: "find_index (\<lambda>e. covers e rule) table = None"
    and h: "find_index (\<lambda>e. pl_already_held_as P e rule) table = Some a"
  have "place table rule = (table, Stands)" by (simp add: place_approved_def c h)
  with c h show ?thesis
    by (intro held [of "fst a"]) (cases a; auto simp: find_index_None find_index_Some dest: in_set_takeD)+
next
  fix a assume c: "find_index (\<lambda>e. covers e rule) table = Some a"
    and h: "find_index (\<lambda>e. pl_already_held_as P e rule) table = None"
  have p: "place table rule =
      (table, if pl_verdict P (snd a) = pl_verdict P rule then Stands else Shadowed (pl_match P (snd a)))"
    by (cases a) (simp add: place_approved_def c h)
  have a: "fst a < length table" "table ! fst a = snd a" "covers (snd a) rule"
      "\<forall>e \<in> set (take (fst a) table). \<not> covers e rule"
    using c by (cases a; simp add: find_index_Some)+
  have nh: "\<forall>e \<in> set (take (Suc (fst a)) table). \<not> pl_already_held_as P e rule"
    using h by (auto simp: find_index_None dest: in_set_takeD)
  show ?thesis
  proof (cases "pl_verdict P (snd a) = pl_verdict P rule")
    case True
    with p a show ?thesis by (intro same [of "fst a"]) simp_all
  next
    case False
    with p a nh show ?thesis by (intro blocked [of "fst a"]) simp_all
  qed
next
  fix a b assume c: "find_index (\<lambda>e. covers e rule) table = Some a"
    and h: "find_index (\<lambda>e. pl_already_held_as P e rule) table = Some b"
  have p: "place table rule =
      (table, if fst b \<le> fst a then Stands else Unreachable (pl_match P (snd a)))"
    by (cases a; cases b) (simp add: place_approved_def c h)
  have a: "fst a < length table" "table ! fst a = snd a" "covers (snd a) rule"
      "\<forall>e \<in> set (take (fst a) table). \<not> covers e rule"
    using c by (cases a; simp add: find_index_Some)+
  have b: "fst b < length table" "pl_already_held_as P (table ! fst b) rule"
      "\<forall>e \<in> set (take (fst b) table). \<not> pl_already_held_as P e rule"
    using h by (cases b; simp add: find_index_Some)+
  show ?thesis
  proof (cases "fst b \<le> fst a")
    case True
    with p a b set_take_subset_set_take [OF True, of table] show ?thesis
      by (intro held [of "fst b"]) auto
  next
    case False
    then have "Suc (fst a) \<le> fst b" by simp
    with p a b False set_take_subset_set_take [of "Suc (fst a)" "fst b" table] show ?thesis
      by (intro blocked [of "fst a"]) auto
  qed
qed

lemma place_stands:
  assumes ok "place table rule = (table', Stands)" "claims rule q"
  shows "\<exists>k < length table'. claims (table' ! k) q \<and> pl_verdict P (table' ! k) = pl_verdict P rule
           \<and> (\<forall>e \<in> set (take k table'). \<not> covers e rule)"
proof (cases rule: place_cases [of table rule])
  case appended
  with assms show ?thesis by (intro exI [of _ "length table"]) auto
next
  case (held k)
  with assms held_verdict held_claims show ?thesis by (intro exI [of _ k]) auto
next
  case (same k)
  with assms covers_sound show ?thesis by (intro exI [of _ k]) auto
next
  case (blocked k)
  with assms show ?thesis by auto
qed

lemma place_refused:
  assumes "place table rule = (table', a)" "a \<noteq> Stands"
  shows "table' = table \<and> (\<exists>e \<in> set table. covers e rule)"
  by (cases rule: place_cases [of table rule]) (use assms in auto)

lemma place_idem:
  assumes "place table rule = (table', a)"
  shows "place table' rule = (table', a)"
proof (cases rule: place_cases [of table rule])
  case appended
  then have t: "table' = table @ [rule]" "a = Stands" using assms by auto
  have "find_index (\<lambda>e. pl_already_held_as P e rule) table' = Some (length table, rule)"
    using appended held_refl by (auto simp: t find_index_Some)
  moreover have "find_index (\<lambda>e. covers e rule) table' = None
      \<or> find_index (\<lambda>e. covers e rule) table' = Some (length table, rule)"
    using appended by (cases "covers rule rule") (auto simp: t find_index_Some find_index_None)
  ultimately show ?thesis by (auto simp: place_approved_def t)
qed (use assms in auto)

end

interpretation routes: placed_table "ipnet_ok N" "shadows N" "route_claims N" placed_route
  for N :: "'n ipnet"
proof unfold_locales
  fix e r :: route_rule assume "pl_already_held_as placed_route e r"
  then have "r = e\<lparr>r_description := r_description r\<rparr>"
    by (cases e; cases r) (simp add: placed_route_def)
  then have *: "r_match r = r_match e" "r_verdict r = r_verdict e" "r_scheme r = r_scheme e"
    by (metis route_rule.ext_inject route_rule.surjective route_rule.update_convs(5))+
  then show "pl_verdict placed_route e = pl_verdict placed_route r" by (simp add: placed_route_def)
  show "route_claims N e q = route_claims N r q" for q by (simp add: route_claims_def *)
qed (simp add: placed_route_def)

interpretation tcp_routes: placed_table "ipnet_ok N" "tcp_shadows N" "tcp_claims N" placed_tcp
  for N :: "'n ipnet"
proof unfold_locales
  fix e r :: tcp_rule assume "pl_already_held_as placed_tcp e r"
  then have *: "t_match r = t_match e" "t_verdict r = t_verdict e"
    by (cases e; cases r; simp add: placed_tcp_def)+
  then show "pl_verdict placed_tcp e = pl_verdict placed_tcp r" by (simp add: placed_tcp_def)
  show "tcp_claims N e q = tcp_claims N r q" for q by (simp add: tcp_claims_def *)
qed (simp add: placed_tcp_def)

section \<open>Loading and writing a document\<close>

lemma trim_end_last: "trim_end_matches c s \<noteq> [] \<Longrightarrow> last (trim_end_matches c s) \<noteq> c"
  unfolding trim_end_matches_def
  by (metis (mono_tags, lifting) hd_dropWhile hd_rev rev_is_Nil_conv rev_rev_ident)

lemma local_is_dns_label: "is_dns_label ''local''"
  by code_simp

lemma dns_label_for_ok: "is_dns_label (dns_label_for path)"
  by (auto simp: dns_label_for_def Let_def local_is_dns_label)

text \<open>What the rest of the service relies on in a policy it loaded.\<close>

definition binary_scope_ok :: "string list option \<Rightarrow> bool" where
  "binary_scope_ok scope =
     (case scope of
        None \<Rightarrow> True
      | Some binaries \<Rightarrow> binaries \<noteq> [] \<and> list_all (\<lambda>b. unmatchable_binary b = None) binaries)"

definition tcp_rule_ok :: "'n ipnet \<Rightarrow> tcp_rule \<Rightarrow> bool" where
  "tcp_rule_ok N rule \<longleftrightarrow>
     (case d_port (classify N (t_match rule)) of Any \<Rightarrow> False | Only p \<Rightarrow> 1 \<le> p \<and> p \<le> 65535)
     \<and> binary_scope_ok (t_binaries rule)"

definition policy_ok :: "'n ipnet \<Rightarrow> policy \<Rightarrow> bool" where
  "policy_ok N p \<longleftrightarrow>
     list_all (\<lambda>r. r_transport r = Direct \<and> binary_scope_ok (r_binaries r)) (http_of p)
     \<and> list_all (tcp_rule_ok N) (tcp_of p)"

lemma validate_binaries_ok: "validate_binaries rule = Inr () \<longleftrightarrow> binary_scope_ok (r_binaries rule)"
  by (auto simp: validate_binaries_def binary_scope_ok_def validate_binary_def try_for_each_ok list_all_iff
      split: option.splits)

lemma validate_local_transport_ok:
  "validate_local_transport net = Inr () \<longleftrightarrow> list_all (\<lambda>r. r_transport r = Direct) (e_http (n_egress net))"
proof -
  have "r_transport r = Upstream \<longleftrightarrow> r_transport r \<noteq> Direct" for r :: route_rule
    by (cases "r_transport r") auto
  then show ?thesis
    by (auto simp: validate_local_transport_def egress_validate_local_transport_def list_ex_iff list_all_iff)
qed

lemma destination_port_classify:
  assumes "destination_port N pattern = Inr p"
  shows "d_port (classify N pattern) = Only p"
proof -
  obtain host port where s: "split_destination pattern = (host, port)" by (cases "split_destination pattern")
  have "net_parse N pattern = None"
    using assms by (auto simp: destination_port_def parses_as_cidr_def split: if_splits)
  moreover have "Option.bind port parse_u16 = Some p"
    using assms s
    by (auto simp: destination_port_def bracketed_port_def parse_port_def and_then_Inr
        split: if_splits option.splits prod.splits)
  ultimately show ?thesis by (simp add: classify_def split_port_def s)
qed

lemma tcp_validate_ok: "tcp_validate N rule = Inr () \<Longrightarrow> tcp_rule_ok N rule"
  using destination_port_classify [of N "t_match rule"] classify_port_bound [of N "t_match rule"]
  by (auto simp: tcp_validate_def tcp_rule_ok_def binary_scope_ok_def and_then_Inr try_for_each_ok list_all_iff
      split: if_splits option.splits)

lemma from_document_Inr:
  assumes "from_document N Y text = Inr p"
  obtains doc where "from_str Y text = Inr doc" "m_api_version doc = API_VERSION" "m_kind doc = KIND"
    "is_dns_label (m_name doc)" "p_name p = Some (m_name doc)" "p_rest p = s_rest (m_spec doc)"
    "http_of p = raw_http (s_egress (m_spec doc))" "tcp_of p = raw_tcp (s_egress (m_spec doc))"
    "\<forall>r \<in> set (tcp_of p). tcp_validate N r = Inr ()"
    "validate_local_transport (p_network p) = Inr ()" "validate_binary_scopes (p_network p) = Inr ()"
  using assms
  by (auto simp: from_document_def and_then_Inr map_err_Inr egress_try_from_def try_for_each_ok Let_def
      split: if_splits)

lemma from_document_ok:
  assumes "from_document N Y text = Inr p"
  shows "policy_ok N p"
  using assms
  by (rule from_document_Inr)
    (auto simp: policy_ok_def list_all_iff validate_local_transport_ok validate_binary_scopes_def
      egress_validate_binary_scopes_def try_for_each_ok validate_binaries_ok intro: tcp_validate_ok)

text \<open>The documented behaviour of the YAML library: what it writes it reads back, and it is not blank.\<close>

definition yaml_ok :: "yaml \<Rightarrow> bool" where
  "yaml_ok Y \<longleftrightarrow> (\<forall>d t. to_yaml Y d = Inr t \<longrightarrow> from_str Y t = Inr d \<and> \<not> trim_is_empty t)"

definition writable :: "'n ipnet \<Rightarrow> policy \<Rightarrow> bool" where
  "writable N p \<longleftrightarrow>
     (case p_name p of Some n \<Rightarrow> is_dns_label n | None \<Rightarrow> True)
     \<and> list_all (\<lambda>r. tcp_validate N r = Inr ()) (tcp_of p)
     \<and> list_all (\<lambda>r. r_transport r = Direct \<and> binary_scope_ok (r_binaries r)) (http_of p)"

lemma network_eta: "\<lparr>n_egress = \<lparr>e_http = http_of p, e_tcp = tcp_of p\<rparr>\<rparr> = p_network p"
  by simp

lemma policy_named: "p\<lparr>p_name := n\<rparr> = \<lparr>p_network = p_network p, p_name = n, p_rest = p_rest p\<rparr>"
  by simp

lemma from_document_of:
  assumes "writable N p" "from_str Y text = Inr (document_of p path)"
  shows "from_document N Y text = Inr (p\<lparr>p_name := Some (m_name (document_of p path))\<rparr>)"
proof -
  have "try_for_each (tcp_validate N) (tcp_of p) = Inr ()"
    using assms(1) by (simp add: writable_def try_for_each_ok list_all_iff)
  moreover have "is_dns_label (m_name (document_of p path))"
    using assms(1) by (auto simp: writable_def document_of_def dns_label_for_ok split: option.splits)
  moreover have "validate_local_transport (p_network p) = Inr ()"
      "validate_binary_scopes (p_network p) = Inr ()"
    using assms(1) by (auto simp: writable_def validate_local_transport_ok validate_binary_scopes_def
        egress_validate_binary_scopes_def try_for_each_ok validate_binaries_ok list_all_iff)
  ultimately show ?thesis using assms(2)
    by (simp add: from_document_def egress_try_from_def document_of_def Let_def network_eta policy_named)
qed

text \<open>A one-document YAML library, on which the round trip is evaluated.\<close>

definition sample_policy :: policy where
  "sample_policy = set_http [for_host ''api.dev'' Allow]
     (set_tcp [tcp_new ''db.dev:5432'' Allow] default_policy)"

definition sample_yaml :: yaml where
  "sample_yaml =
     \<lparr>from_str = (\<lambda>t. if t = ''doc'' then Inr (document_of sample_policy ''/work/.lns/My Mixin.yaml'')
        else Inl ''no such document''),
      to_yaml = (\<lambda>d. if d = document_of sample_policy ''/work/.lns/My Mixin.yaml'' then Inr ''doc''
        else Inl ''unsupported'')\<rparr>"

lemma sample_yaml_ok: "yaml_ok sample_yaml"
proof -
  have "\<not> trim_is_empty ''doc''" by code_simp
  then show ?thesis by (auto simp: yaml_ok_def sample_yaml_def)
qed

section \<open>Properties\<close>



text \<open>
  Placing the same decision again changes nothing: \<open>add_approved_rule\<close> is idempotent, both in the
  policy it leaves and in the answer it gives, whatever the table held.
\<close>

theorem add_approved_rule_idem:
  "add_approved_rule N (fst (add_approved_rule N p rule)) rule = add_approved_rule N p rule"
proof -
  obtain table a where t: "place_approved placed_route (http_of p) rule
      (find_index (\<lambda>e. shadows N e rule) (http_of p)) = (table, a)" by fastforce
  then have "place_approved placed_route table rule (find_index (\<lambda>e. shadows N e rule) table) = (table, a)"
    by (rule routes.place_idem)
  with t show ?thesis
    by (simp add: add_approved_rule_def first_shadowing_rule_def set_http_def)
qed

text \<open>
  A decision that does not stand writes nothing: when \<open>add_approved_rule\<close> answers \<open>Shadowed\<close> or
  \<open>Unreachable\<close>, the policy is the one it was given and some rule of the table covers the new one.
\<close>

theorem add_approved_rule_refused:
  assumes "add_approved_rule N p rule = (p', a)" "a \<noteq> Stands"
  shows "p' = p \<and> (\<exists>e \<in> set (http_of p). shadows N e rule)"
proof -
  obtain table where t: "place_approved placed_route (http_of p) rule
      (find_index (\<lambda>e. shadows N e rule) (http_of p)) = (table, a)" and p': "p' = set_http table p"
    using assms(1) by (auto simp: add_approved_rule_def first_shadowing_rule_def split: prod.splits)
  from routes.place_refused [OF t assms(2)] p' show ?thesis by simp
qed

lemma add_approved_rule_refused_witness:
  "\<exists>e \<in> set [for_host ''*.dev'' Deny]. shadows blocks e (approved (for_host ''a.dev'' Allow))"
proof -
  let ?p = "set_http [for_host ''*.dev'' Deny] default_policy"
  have "add_approved_rule blocks ?p (approved (for_host ''a.dev'' Allow)) = (?p, Shadowed ''*.dev'')"
    by code_simp
  then show ?thesis using add_approved_rule_refused by fastforce
qed

text \<open>
  An approval can be taken back exactly: when the table held no approval for the pattern and
  writing one stands by appending it, \<open>remove_approved_rule\<close> restores the policy and says it removed
  something; a rule an author typed is never removed, whatever its pattern.
\<close>

theorem remove_approved_rule_exact:
  "fst (remove_approved_rule p pattern) =
     set_http (filter (\<lambda>r. \<not> (r_description r = Some APPROVED_NOTE \<and> r_match r = pattern)) (http_of p)) p
   \<and> snd (remove_approved_rule p pattern) = holds_approved_rule p pattern
   \<and> (\<not> holds_approved_rule p (r_match rule) \<longrightarrow>
        remove_approved_rule (set_http (http_of p @ [approved rule]) p) (r_match rule) = (p, True))"
  by (auto simp: remove_approved_rule_def remove_approved_def holds_approved_rule_def holds_approved_def
      approved_for_def placed_route_def Let_def length_filter_all list_ex_iff approved_def set_http_def
      intro!: filter_True)

lemma remove_approved_rule_exact_witness:
  "remove_approved_rule (set_http (http_of sample_policy @ [approved (allow_host ''new.example'')]) sample_policy) ''new.example''
     = (sample_policy, True)"
  using remove_approved_rule_exact [of sample_policy "''new.example''" "allow_host ''new.example''"]
  by (simp add: sample_policy_def holds_approved_rule_def holds_approved_def approved_for_def placed_route_def
      allow_host_def deny_host_def for_host_def approved_def APPROVED_NOTE_def)

text \<open>
  C38: an \<open>egress.tcp\<close> rule that validates names one port between 1 and 65535 as the matcher reads
  it, and, when it lists binaries, lists at least one, each an absolute path naming a file with no
  parent segment.
\<close>

theorem tcp_validate_sound:
  assumes "tcp_validate N rule = Inr ()"
  shows "(\<exists>port. d_port (classify N (t_match rule)) = Only port \<and> 1 \<le> port \<and> port \<le> 65535)
     \<and> (\<forall>bs. t_binaries rule = Some bs \<longrightarrow> bs \<noteq> [] \<and>
          (\<forall>b \<in> set bs. starts_with ''/'' b \<and> ParentDir \<notin> set (path_components b) \<and> path_file_name b \<noteq> None))"
  using tcp_validate_ok [OF assms]
  by (auto simp: tcp_rule_ok_def binary_scope_ok_def list_all_iff unmatchable_binary_def
      split: port_scope.splits if_splits)

lemma tcp_validate_sound_witness:
  "\<exists>port. d_port (classify blocks ''10.0.0.0/8:5432'') = Only port \<and> 1 \<le> port \<and> port \<le> 65535"
proof -
  have "tcp_validate blocks (tcp_new ''10.0.0.0/8:5432'' Allow) = Inr ()" by code_simp
  then show ?thesis using tcp_validate_sound by (fastforce simp: tcp_new_def)
qed

text \<open>
  Whatever the decisions file holds, a policy \<open>load_or_default\<close> returns routes nothing upstream,
  scopes rules only to binaries that can match, and has a port on every raw rule.
\<close>

theorem load_or_default_ok:
  assumes "load_or_default N Y contents = Inr p"
  shows "policy_ok N p"
proof -
  have "policy_ok N default_policy" by (simp add: policy_ok_def default_policy_def)
  with assms show ?thesis
    by (auto simp: load_or_default_def from_document_ok split: file_read.splits if_splits)
qed

lemma load_or_default_ok_witness: "policy_ok blocks (sample_policy\<lparr>p_name := Some ''my-mixin''\<rparr>)"
proof -
  have "load_or_default blocks sample_yaml (Text ''doc'') = Inr (sample_policy\<lparr>p_name := Some ''my-mixin''\<rparr>)"
    by code_simp
  then show ?thesis by (rule load_or_default_ok)
qed

text \<open>
  Saving and loading is the identity but for the name: a policy that satisfies the loader's own
  rules, written by \<open>document_bytes\<close> and read back, is the same policy under the document's name,
  its own or the label derived from the file.
\<close>

theorem document_roundtrip:
  assumes "yaml_ok Y" "writable N p" "document_bytes Y p path = Inr text"
  shows "load_or_default N Y (Text text) =
     Inr (p\<lparr>p_name := Some (case p_name p of Some n \<Rightarrow> n | None \<Rightarrow> dns_label_for path)\<rparr>)"
proof -
  have "from_str Y text = Inr (document_of p path)" "\<not> trim_is_empty text"
    using assms(1,3) by (auto simp: yaml_ok_def document_bytes_def map_err_Inr)
  then show ?thesis
    using from_document_of [OF assms(2)] by (simp add: load_or_default_def document_of_def)
qed

lemma document_roundtrip_witness:
  "load_or_default blocks sample_yaml (Text ''doc'') = Inr (sample_policy\<lparr>p_name := Some ''my-mixin''\<rparr>)"
proof -
  have "writable blocks sample_policy" by code_simp
  moreover have "document_bytes sample_yaml sample_policy ''/work/.lns/My Mixin.yaml'' = Inr ''doc''"
    by (simp add: document_bytes_def sample_yaml_def)
  moreover have "dns_label_for ''/work/.lns/My Mixin.yaml'' = ''my-mixin''" by code_simp
  moreover have "p_name sample_policy = None" by code_simp
  ultimately show ?thesis using document_roundtrip [OF sample_yaml_ok] by fastforce
qed

end
