(* ===== verification/Effective_Policy.thy ===== *)
theory Effective_Policy
  imports Policy
begin

text \<open>
  The model of \<open>crates/lns-service/src/artifact/policy.rs\<close>: the three policy sources the guest gate
  installs merged into one table each, and the warnings a shipped policy earns.
\<close>

section \<open>Over-broad grants\<close>

datatype guardrail_flag = WildcardAllow | BroadCidrAllow

definition em_dash :: string where
  "em_dash = map char_of [226, 128, 148 :: nat]"

definition warning_sign :: string where
  "warning_sign = map char_of [226, 154, 160 :: nat]"

fun flag_message :: "guardrail_flag \<Rightarrow> string" where
  "flag_message WildcardAllow =
     ''wildcard allow '' @ em_dash @ '' a catch-all or whole-suffix host pattern is permitted''"
| "flag_message BroadCidrAllow =
     ''broad CIDR allow '' @ em_dash @ '' a large address range is permitted''"

definition BROAD_CIDR_PREFIX :: nat where
  "BROAD_CIDR_PREFIX = 16"

definition is_broad_cidr :: "string \<Rightarrow> bool" where
  "is_broad_cidr pattern =
     (case split_once CHR ''/'' pattern of
        Some (_, prefix) \<Rightarrow>
          (case parse_u8 prefix of Some len \<Rightarrow> len \<le> BROAD_CIDR_PREFIX | None \<Rightarrow> False)
      | None \<Rightarrow> False)"

definition is_broad_wildcard :: "string \<Rightarrow> bool" where
  "is_broad_wildcard pattern \<longleftrightarrow>
     pattern = ''*''
     \<or> (case strip_prefix ''*.'' pattern of
          Some rest \<Rightarrow> rest \<noteq> [] \<and> \<not> contains_char CHR ''.'' rest
        | None \<Rightarrow> False)"

definition flags_of :: "verdict \<times> string \<Rightarrow> guardrail_flag list" where
  "flags_of rule =
     (if fst rule = Allow
      then (let (address, _) = split_destination (snd rule)
            in if is_broad_wildcard address then [WildcardAllow]
               else if is_broad_cidr address then [BroadCidrAllow] else [])
      else [])"

definition guardrail_flags :: "policy \<Rightarrow> guardrail_flag list" where
  "guardrail_flags p =
     (let http = map (\<lambda>r. (r_verdict r, r_match r)) (http_of p);
          tcp = map (\<lambda>r. (t_verdict r, t_match r)) (tcp_of p)
      in concat (map flags_of (http @ tcp)))"

definition run_summary :: "guardrail_flag list \<Rightarrow> string" where
  "run_summary flags =
     (if flags = [] then []
      else foldl (\<lambda>summary flag. summary @ [char_of (10 :: nat)] @ ''  - '' @ flag_message flag)
             (warning_sign @ '' over-broad shipped policy:'') flags)"

section \<open>Merging the sources\<close>

definition push_unique :: "'r list \<Rightarrow> 'r \<Rightarrow> 'r list" where
  "push_unique merged rule = (if rule \<in> set merged then merged else merged @ [rule])"

definition merge_rule_table :: "policy list \<Rightarrow> (policy \<Rightarrow> 'r list) \<Rightarrow> 'r list" where
  "merge_rule_table layers table =
     foldl (\<lambda>merged layer. foldl push_unique merged (table layer)) [] layers"

definition policy_is_closed :: "policy \<Rightarrow> bool" where
  "policy_is_closed p = is_closed (p_network p)"

definition merge_effective :: "policy option \<Rightarrow> policy option \<Rightarrow> policy \<Rightarrow> policy" where
  "merge_effective baseline connectors overlay =
     (let layers = overlay # (case connectors of Some c \<Rightarrow> [c] | None \<Rightarrow> [])
                     @ (case baseline of Some b \<Rightarrow> [b] | None \<Rightarrow> [])
      in default_policy\<lparr>p_network := \<lparr>n_egress =
           \<lparr>e_http = merge_rule_table layers http_of,
            e_tcp = merge_rule_table layers tcp_of\<rparr>\<rparr>\<rparr>)"

section \<open>The merged table reads like its sources one after another\<close>

lemma push_unique_find:
  "List.find P (push_unique m r) = List.find P (m @ [r])"
  by (auto simp: push_unique_def find_append find_None_all split: option.splits)

lemma push_all_find: "List.find P (foldl push_unique m rs) = List.find P (m @ rs)"
proof (induction rs arbitrary: m)
  case (Cons r rs)
  have "List.find P (foldl push_unique m (r # rs)) = List.find P (push_unique m r @ rs)"
    using Cons by simp
  also have "\<dots> = List.find P (m @ r # rs)"
    using push_unique_find [of P m r] by (simp add: find_append split: option.splits if_splits)
  finally show ?case .
qed simp

lemma push_all_distinct: "distinct m \<Longrightarrow> distinct (foldl push_unique m rs)"
  by (induction rs arbitrary: m) (auto simp: push_unique_def)

lemma push_all_set: "set (foldl push_unique m rs) = set m \<union> set rs"
  by (induction rs arbitrary: m) (auto simp: push_unique_def)

lemma merge_find:
  "List.find P (merge_rule_table layers table) = List.find P (concat (map table layers))"
proof -
  have "List.find P (foldl (\<lambda>merged layer. foldl push_unique merged (table layer)) m layers)
      = List.find P (m @ concat (map table layers))" for m
  proof (induction layers arbitrary: m)
    case (Cons l layers)
    show ?case
      using push_all_find [of P m "table l"] by (simp add: Cons find_append split: option.splits)
  qed simp
  from this [of "[]"] show ?thesis by (simp add: merge_rule_table_def)
qed

lemma merge_distinct: "distinct (merge_rule_table layers table)"
proof -
  have "distinct m \<Longrightarrow> distinct (foldl (\<lambda>merged layer. foldl push_unique merged (table layer)) m layers)" for m
    by (induction layers arbitrary: m) (auto intro: push_all_distinct)
  then show ?thesis by (simp add: merge_rule_table_def)
qed

lemma merge_set: "set (merge_rule_table layers table) = (\<Union>l \<in> set layers. set (table l))"
proof -
  have "set (foldl (\<lambda>merged layer. foldl push_unique merged (table layer)) m layers)
      = set m \<union> (\<Union>l \<in> set layers. set (table l))" for m
    by (induction layers arbitrary: m) (auto simp: push_all_set)
  then show ?thesis by (simp add: merge_rule_table_def)
qed

lemma merge_tables [simp]:
  "http_of (merge_effective b c ov) = merge_rule_table
     (ov # (case c of Some c \<Rightarrow> [c] | None \<Rightarrow> []) @ (case b of Some b \<Rightarrow> [b] | None \<Rightarrow> [])) http_of"
  "tcp_of (merge_effective b c ov) = merge_rule_table
     (ov # (case c of Some c \<Rightarrow> [c] | None \<Rightarrow> []) @ (case b of Some b \<Rightarrow> [b] | None \<Rightarrow> [])) tcp_of"
  by (simp_all add: merge_effective_def Let_def)

section \<open>Properties\<close>


end
