(* ===== verification/Wire_Protocol.thy ===== *)
theory Wire_Protocol
  imports Effective_Policy
begin

text \<open>
  The model of \<open>crates/lns-service/src/approval_flow/protocol.rs\<close>: the frames the host sends the
  guest gate, how a policy becomes the \<open>network\<close> section the gate installs, with the destinations
  a connector serves held ahead of the rules that allow them, and the sections a grant adds.
\<close>

section \<open>Frames\<close>

datatype treatment = Raw | Inspected

record request_pending =
  rp_id :: string
  rp_host :: string
  rp_action :: string
  rp_reason :: string
  rp_treatment :: treatment

datatype decision = AllowAlways | AllowOnce | DenyAlways | DenyOnce | Timeout

record request_decision =
  rd_id :: string
  rd_decision :: decision

datatype wire_verdict = WAllow | WDeny | WAsk

fun wire_verdict_from :: "verdict \<Rightarrow> wire_verdict" where
  "wire_verdict_from Allow = WAllow"
| "wire_verdict_from Deny = WDeny"

record wire_route_rule =
  wr_match :: string
  wr_verdict :: wire_verdict
  wr_transport :: transport
  wr_scheme :: "scheme option"
  wr_description :: "string option"
  wr_tls_terminate :: bool
  wr_rules :: "http_rule list"
  wr_binaries :: "string list option"

definition wire_route_from :: "route_rule \<Rightarrow> wire_route_rule" where
  "wire_route_from rule =
     \<lparr>wr_match = r_match rule, wr_verdict = wire_verdict_from (r_verdict rule),
      wr_transport = r_transport rule, wr_scheme = r_scheme rule, wr_description = r_description rule,
      wr_tls_terminate = r_tls_terminate rule, wr_rules = r_rules rule, wr_binaries = r_binaries rule\<rparr>"

record wire_tcp_rule =
  wt_match :: string
  wt_verdict :: wire_verdict
  wt_binaries :: "string list option"
  wt_description :: "string option"

definition wire_tcp_from :: "tcp_rule \<Rightarrow> wire_tcp_rule" where
  "wire_tcp_from rule =
     \<lparr>wt_match = t_match rule, wt_verdict = wire_verdict_from (t_verdict rule),
      wt_binaries = t_binaries rule, wt_description = t_description rule\<rparr>"

record wire_egress =
  we_http :: "wire_route_rule list"
  we_tcp :: "wire_tcp_rule list"

section \<open>Holding a served destination\<close>

definition held_note :: "string option \<Rightarrow> string" where
  "held_note authored =
     (case authored of
        Some a \<Rightarrow> ''held for a connector offer: '' @ a
      | None \<Rightarrow> ''held for a connector offer'')"

text \<open>The entries the two loops of \<open>held_for_offers\<close> push for one rule, the rule itself last.\<close>

definition held_route :: "'n ipnet \<Rightarrow> string list \<Rightarrow> route_rule \<Rightarrow> wire_route_rule list" where
  "held_route N serves rule =
     (if r_verdict rule = Allow
      then List.map_filter (\<lambda>pattern.
             map_option (\<lambda>shared. (wire_route_from rule)\<lparr>wr_match := shared, wr_verdict := WAsk,
                 wr_description := Some (held_note (r_description rule))\<rparr>)
               (intersection N pattern (r_match rule))) serves
      else [])
     @ [wire_route_from rule]"

definition held_tcp :: "'n ipnet \<Rightarrow> string list \<Rightarrow> tcp_rule \<Rightarrow> wire_tcp_rule list" where
  "held_tcp N serves rule =
     (if t_verdict rule = Allow
      then List.map_filter (\<lambda>pattern.
             map_option (\<lambda>shared. (wire_tcp_from rule)\<lparr>wt_match := shared, wt_verdict := WAsk,
                 wt_description := Some (held_note (t_description rule))\<rparr>)
               (intersection N pattern (t_match rule))) serves
      else [])
     @ [wire_tcp_from rule]"

definition held_for_offers :: "'n ipnet \<Rightarrow> egress \<Rightarrow> string list \<Rightarrow> wire_egress" where
  "held_for_offers N e serves =
     \<lparr>we_http = concat (map (held_route N serves) (e_http e)),
      we_tcp = concat (map (held_tcp N serves) (e_tcp e))\<rparr>"

datatype wire_default_verdict = DefaultAsk | DefaultDeny

record wire_network =
  wn_egress :: wire_egress
  wn_default_verdict :: wire_default_verdict
  wn_default_transport :: transport

definition network_seeded_holding :: "'n ipnet \<Rightarrow> network_policy \<Rightarrow> string list \<Rightarrow> wire_network" where
  "network_seeded_holding N net serves =
     \<lparr>wn_egress = held_for_offers N (n_egress net) serves,
      wn_default_verdict = (if is_closed net then DefaultDeny else DefaultAsk),
      wn_default_transport = Direct\<rparr>"

definition network_seeded :: "'n ipnet \<Rightarrow> network_policy \<Rightarrow> wire_network" where
  "network_seeded N net = network_seeded_holding N net []"

section \<open>What a grant adds\<close>

datatype wire_injection =
    Header string string string
  | UriPlaceholder string string

fun injection_value :: "wire_injection \<Rightarrow> string" where
  "injection_value (Header domain header v) = v"
| "injection_value (UriPlaceholder domain v) = v"

record wire_credential =
  wc_id :: string
  wc_env_var :: "string option"
  wc_placeholder :: "string option"
  wc_injections :: "wire_injection list"

datatype wire_file_content = Content string | ContentB64 string

datatype wire_file_owner = Root

datatype fileset_owner = Workload | RootOwner

fun declared_by :: "fileset_owner \<Rightarrow> wire_file_owner option" where
  "declared_by Workload = None"
| "declared_by RootOwner = Some Root"

record wire_file =
  wf_path :: string
  wf_content :: wire_file_content
  wf_mode :: "nat option"
  wf_owner :: "wire_file_owner option"

definition wire_file_text :: "string \<Rightarrow> string \<Rightarrow> nat option \<Rightarrow> wire_file" where
  "wire_file_text path content mode =
     \<lparr>wf_path = path, wf_content = Content content, wf_mode = mode, wf_owner = None\<rparr>"

definition wire_file_bytes :: "(string \<Rightarrow> string) \<Rightarrow> string \<Rightarrow> string \<Rightarrow> nat option \<Rightarrow> wire_file" where
  "wire_file_bytes base64 path content mode =
     \<lparr>wf_path = path, wf_content = ContentB64 (base64 content), wf_mode = mode, wf_owner = None\<rparr>"

definition owned_by :: "wire_file \<Rightarrow> fileset_owner \<Rightarrow> wire_file" where
  "owned_by f owner = f\<lparr>wf_owner := declared_by owner\<rparr>"

record policy_message =
  pm_network :: "wire_network option"
  pm_credentials :: "wire_credential list option"
  pm_env :: "(string \<times> string) list option"
  pm_files :: "wire_file list option"

record granted_payload =
  gp_egress :: policy
  gp_credentials :: "wire_credential list"
  gp_env :: "(string \<times> string) list"
  gp_files :: "wire_file list"

definition default_payload :: granted_payload where
  "default_payload = \<lparr>gp_egress = default_policy, gp_credentials = [], gp_env = [], gp_files = []\<rparr>"

definition combine_grant :: "granted_payload \<Rightarrow> granted_payload \<Rightarrow> granted_payload" where
  "combine_grant combined granted =
     \<lparr>gp_egress = set_tcp (tcp_of (gp_egress combined) @ tcp_of (gp_egress granted))
                    (set_http (http_of (gp_egress combined) @ http_of (gp_egress granted))
                       (gp_egress combined)),
      gp_credentials = gp_credentials combined @ gp_credentials granted,
      gp_env = btree_extend (gp_env combined) (gp_env granted),
      gp_files = gp_files combined @ gp_files granted\<rparr>"

text \<open>\<open>GrantedPayload::combined\<close> over the grants of a project, a map visited in name order.\<close>

definition combined :: "(string \<times> granted_payload) list \<Rightarrow> granted_payload option" where
  "combined grants =
     (if grants = [] then None
      else Some (foldl combine_grant default_payload (map snd grants)))"

definition seeded_holding :: "'n ipnet \<Rightarrow> policy \<Rightarrow> string list \<Rightarrow> policy_message" where
  "seeded_holding N p serves =
     \<lparr>pm_network = Some (network_seeded_holding N (p_network p) serves),
      pm_credentials = None, pm_env = None, pm_files = None\<rparr>"

definition seeded :: "'n ipnet \<Rightarrow> policy \<Rightarrow> policy_message" where
  "seeded N p = seeded_holding N p []"

definition non_empty :: "'a list \<Rightarrow> 'a list option" where
  "non_empty xs = (if xs = [] then None else Some xs)"

definition granting :: "'n ipnet \<Rightarrow> policy \<Rightarrow> string list \<Rightarrow> granted_payload \<Rightarrow> policy_message" where
  "granting N p serves granted =
     (seeded_holding N p serves)\<lparr>pm_credentials := non_empty (gp_credentials granted),
        pm_env := non_empty (gp_env granted), pm_files := non_empty (gp_files granted)\<rparr>"

datatype host_frame = Policy policy_message | RequestDecision request_decision

datatype guest_frame = RequestPending request_pending | Other

section \<open>How the gate reads the held table\<close>

definition wire_claims :: "'n ipnet \<Rightarrow> wire_route_rule \<Rightarrow> request \<Rightarrow> bool" where
  "wire_claims N rule q \<longleftrightarrow>
     q_host q \<noteq> [] \<and> (wr_scheme rule = None \<or> wr_scheme rule = Some (q_scheme q))
     \<and> names N (wr_match rule) (q_host q) (q_port q)"

text \<open>A request an allow rule claims is held when a served pattern that meets the rule names it.\<close>

definition offered :: "'n ipnet \<Rightarrow> string list \<Rightarrow> route_rule \<Rightarrow> request \<Rightarrow> bool" where
  "offered N serves rule q \<longleftrightarrow>
     list_ex (\<lambda>pattern. intersection N pattern (r_match rule) \<noteq> None
        \<and> names N pattern (q_host q) (q_port q)) serves"

lemma wire_from_claims [simp]: "wire_claims N (wire_route_from rule) q = route_claims N rule q"
  by (simp add: wire_claims_def route_claims_def wire_route_from_def)

lemma wire_from_verdict [simp]: "wr_verdict (wire_route_from rule) = wire_verdict_from (r_verdict rule)"
  by (simp add: wire_route_from_def)

lemma find_map_filter:
  "List.find P (List.map_filter f xs) =
     Option.bind (List.find (\<lambda>x. \<exists>y. f x = Some y \<and> P y) xs) f"
  by (induction xs) (auto simp: map_filter_simps split: option.splits)

lemma held_route_verdict:
  assumes N: "ipnet_ok N" and plain: "plain_pattern N (r_match rule)" "list_all (plain_pattern N) serves"
  shows "map_option wr_verdict (List.find (\<lambda>w. wire_claims N w q) (held_route N serves rule)) =
     (if \<not> route_claims N rule q then None
      else if r_verdict rule = Allow \<and> offered N serves rule q then Some WAsk
      else Some (wire_verdict_from (r_verdict rule)))"
proof -
  let ?ask = "\<lambda>shared. (wire_route_from rule)\<lparr>wr_match := shared, wr_verdict := WAsk,
      wr_description := Some (held_note (r_description rule))\<rparr>"
  let ?hit = "\<lambda>pattern. \<exists>w. map_option ?ask (intersection N pattern (r_match rule)) = Some w \<and> wire_claims N w q"
  have hit: "?hit pattern \<longleftrightarrow> route_claims N rule q \<and> intersection N pattern (r_match rule) \<noteq> None
      \<and> names N pattern (q_host q) (q_port q)" if "pattern \<in> set serves" for pattern
  proof (cases "intersection N pattern (r_match rule)")
    case (Some shared)
    have "plain_pattern N pattern" using plain(2) that by (simp add: list_all_iff)
    from intersection_names [OF N Some this plain(1)] Some show ?thesis
      by (auto simp: wire_claims_def route_claims_def wire_route_from_def)
  qed simp
  show ?thesis
  proof (cases "r_verdict rule = Allow \<and> route_claims N rule q \<and> offered N serves rule q")
    case True
    then obtain pattern where "pattern \<in> set serves" "?hit pattern"
      using hit by (auto simp: offered_def list_ex_iff)
    then have "List.find ?hit serves \<noteq> None" by (auto simp: find_None_all)
    then obtain pat where pat: "List.find ?hit serves = Some pat" by auto
    then obtain shared where "intersection N pat (r_match rule) = Some shared"
      using find_SomeD [OF pat] by auto
    with True pat show ?thesis
      by (simp add: held_route_def find_append find_map_filter split: option.splits)
  next
    case False
    then have "r_verdict rule = Allow \<Longrightarrow> List.find ?hit serves = None"
      using hit by (auto simp: find_None_all offered_def list_ex_iff)
    with False show ?thesis
      by (cases "r_verdict rule") (auto simp: held_route_def find_append find_map_filter)
  qed
qed

lemma held_table_verdict:
  assumes N: "ipnet_ok N" and plain: "list_all (\<lambda>r. plain_pattern N (r_match r)) rules"
    "list_all (plain_pattern N) serves"
  shows "map_option wr_verdict (List.find (\<lambda>w. wire_claims N w q) (concat (map (held_route N serves) rules))) =
     map_option (\<lambda>r. if r_verdict r = Allow \<and> offered N serves r q then WAsk
                     else wire_verdict_from (r_verdict r)) (List.find (\<lambda>r. route_claims N r q) rules)"
  using plain(1)
proof (induction rules)
  case (Cons r rules)
  then show ?case
    using held_route_verdict [OF N _ plain(2), of r q]
    by (cases "List.find (\<lambda>w. wire_claims N w q) (held_route N serves r)")
      (auto simp: find_append split: if_splits)
qed simp

section \<open>Properties\<close>

text \<open>
  Holding served destinations changes no other decision. For a request, the gate reading the
  table \<open>held_for_offers\<close> publishes reaches the verdict the policy's own table gives it, except
  that an allow is an ask exactly when a served pattern that meets the allowing rule names the
  request; a deny, and a request no rule decides, are left as they are.
\<close>

theorem held_for_offers_verdict:
  assumes "ipnet_ok N" "list_all (\<lambda>r. plain_pattern N (r_match r)) (e_http e)"
    "list_all (plain_pattern N) serves"
  shows "map_option wr_verdict (List.find (\<lambda>w. wire_claims N w q) (we_http (held_for_offers N e serves))) =
     map_option (\<lambda>r. if r_verdict r = Allow \<and> offered N serves r q then WAsk
                     else wire_verdict_from (r_verdict r)) (List.find (\<lambda>r. route_claims N r q) (e_http e))"
  using held_table_verdict [OF assms] by (simp add: held_for_offers_def)

lemma held_for_offers_verdict_witness:
  "map_option wr_verdict (List.find
     (\<lambda>w. wire_claims blocks w \<lparr>q_host = ''api.dev'', q_port = 443, q_scheme = Https\<rparr>)
     (we_http (held_for_offers blocks
        \<lparr>e_http = [for_host ''x.dev'' Deny, for_host ''*.dev'' Allow], e_tcp = []\<rparr> [''api.dev:443'']))) = Some WAsk"
proof -
  let ?e = "\<lparr>e_http = [for_host ''x.dev'' Deny, for_host ''*.dev'' Allow], e_tcp = []\<rparr>"
    and ?q = "\<lparr>q_host = ''api.dev'', q_port = 443, q_scheme = Https\<rparr>"
  have "list_all (\<lambda>r. plain_pattern blocks (r_match r)) (e_http ?e)" by code_simp
  moreover have "list_all (plain_pattern blocks) [''api.dev:443'']" by code_simp
  moreover have "List.find (\<lambda>r. route_claims blocks r ?q) (e_http ?e) = Some (for_host ''*.dev'' Allow)"
    by code_simp
  moreover have "r_verdict (for_host ''*.dev'' Allow) = Allow" by code_simp
  moreover have "offered blocks [''api.dev:443''] (for_host ''*.dev'' Allow) ?q" by code_simp
  ultimately show ?thesis
    using held_for_offers_verdict [OF blocks_ok, of ?e "[''api.dev:443'']" ?q] by simp
qed

text \<open>
  Combining a project's grants loses nothing: the combined payload has every grant's rules,
  credentials and files in name order, a variable has the value the last grant to set it gave, and
  the frame that publishes it carries exactly the sections that hold something, beside the network
  section the policy has without a grant.
\<close>

theorem combined_sections:
  assumes "combined grants = Some c"
  shows "http_of (gp_egress c) = concat (map (\<lambda>(_, g). http_of (gp_egress g)) grants)
    \<and> tcp_of (gp_egress c) = concat (map (\<lambda>(_, g). tcp_of (gp_egress g)) grants)
    \<and> gp_credentials c = concat (map (\<lambda>(_, g). gp_credentials g) grants)
    \<and> gp_files c = concat (map (\<lambda>(_, g). gp_files g) grants)
    \<and> map_of (gp_env c) = map_of (rev (concat (map (\<lambda>(_, g). gp_env g) grants)))
    \<and> granting N p serves c = (seeded_holding N p serves)
        \<lparr>pm_credentials := (if gp_credentials c = [] then None else Some (gp_credentials c)),
         pm_env := (if gp_env c = [] then None else Some (gp_env c)),
         pm_files := (if gp_files c = [] then None else Some (gp_files c))\<rparr>"
proof -
  have extend: "map_of (btree_extend m new) = map_of (rev new @ m)" for m new :: "(string \<times> string) list"
    by (induction new arbitrary: m) (auto simp: btree_extend_def btree_insert_get fun_eq_iff map_add_def
        split: option.splits)
  have fold: "http_of (gp_egress (foldl combine_grant a gs)) = http_of (gp_egress a) @ concat (map (\<lambda>g. http_of (gp_egress g)) gs)"
    "tcp_of (gp_egress (foldl combine_grant a gs)) = tcp_of (gp_egress a) @ concat (map (\<lambda>g. tcp_of (gp_egress g)) gs)"
    "gp_credentials (foldl combine_grant a gs) = gp_credentials a @ concat (map gp_credentials gs)"
    "gp_files (foldl combine_grant a gs) = gp_files a @ concat (map gp_files gs)"
    "map_of (gp_env (foldl combine_grant a gs)) = map_of (rev (concat (map gp_env gs)) @ gp_env a)" for a gs
    by (induction gs arbitrary: a; simp add: combine_grant_def extend)+
  show ?thesis using assms
    by (auto simp: combined_def fold default_payload_def default_policy_def case_prod_unfold comp_def
        granting_def non_empty_def split: if_splits)
qed

lemma combined_sections_witness:
  "map_of (gp_env (foldl combine_grant default_payload
      [default_payload\<lparr>gp_env := [(''A'', ''1'')]\<rparr>, default_payload\<lparr>gp_env := [(''A'', ''2'')]\<rparr>])) ''A'' = Some ''2''"
proof -
  have "combined [(''a'', default_payload\<lparr>gp_env := [(''A'', ''1'')]\<rparr>),
      (''b'', default_payload\<lparr>gp_env := [(''A'', ''2'')]\<rparr>)] = Some (foldl combine_grant default_payload
      [default_payload\<lparr>gp_env := [(''A'', ''1'')]\<rparr>, default_payload\<lparr>gp_env := [(''A'', ''2'')]\<rparr>])"
    by (simp add: combined_def)
  note env = combined_sections [OF this, THEN conjunct2, THEN conjunct2, THEN conjunct2, THEN conjunct2, THEN conjunct1]
  show ?thesis unfolding env by simp
qed

end
