(* ===== verification/Connectors.thy ===== *)
theory Connectors
  imports Effective_Policy
begin

text \<open>
  The connector views of \<open>crates/lns-ipc/src/protocol.rs\<close>, the name a new connection takes, and
  \<open>crates/lns-service/src/connector/offer.rs\<close>: which installed connector a held destination offers.
\<close>

section \<open>Views\<close>

record oauth_scope_option =
  so_name :: string
  so_label :: string
  so_scopes :: "string list"

record oauth_disclosure =
  od_destinations :: "string list"
  od_scope_options :: "oauth_scope_option list"
  od_callback :: "string option"

datatype oauth_progress =
    SelectingScopes "oauth_scope_option list"
  | Starting "string list" "string list"
  | DeviceAuthorization string string
  | WaitingForBrowser string string
  | Canceled
  | Expired

record connector_field_view =
  fv_name :: string
  fv_label :: string
  fv_secret :: bool

record connector_connection_view =
  cc_label :: string
  cc_method :: string
  cc_authority :: "string list"

record connector_method_view =
  cm_oauth :: "oauth_disclosure option"
  cm_name :: string
  cm_label :: string
  cm_auth_label :: "string option"
  cm_offerable :: bool
  cm_opens :: "string list"
  cm_writes :: "string list"
  cm_env :: "string list"
  cm_credentials :: "string list"
  cm_asks :: "string list"
  cm_hosts :: "string list"
  cm_runs_programs :: bool
  cm_carries_code :: bool
  cm_help :: "string option"
  cm_overrides :: "string list option"

record connector_view =
  cv_name :: string
  cv_digest :: string
  cv_serves :: "string list"
  cv_methods :: "connector_method_view list"
  cv_connections :: "connector_connection_view list"

type_synonym secret_values = "(string \<times> string) list"

definition connector_says :: "string \<Rightarrow> string \<Rightarrow> string" where
  "connector_says connector message = connector @ '' says: '' @ message"

definition connector_asks :: "string \<Rightarrow> string" where
  "connector_asks connector = connector @ '' asks, in its own words:''"

definition sets :: "connector_method_view \<Rightarrow> string list" where
  "sets m = cm_env m @ cm_credentials m"

section \<open>The name of a new connection\<close>

definition candidate :: "string \<Rightarrow> nat \<Rightarrow> string" where
  "candidate method num = (if num = 1 then method else method @ ''-'' @ show_nat num)"

lemma candidate_inj: "1 \<le> i \<Longrightarrow> 1 \<le> j \<Longrightarrow> candidate meth i = candidate meth j \<Longrightarrow> i = j"
  by (auto simp: candidate_def split: if_splits) (metis dec_val_show_nat)

lemma finite_candidates: "finite {k. 1 \<le> k \<and> num \<le> k \<and> candidate meth k \<in> set labels}"
proof (rule inj_on_finite)
  show "inj_on (candidate meth) {k. 1 \<le> k \<and> num \<le> k \<and> candidate meth k \<in> set labels}"
    by (rule inj_onI) (use candidate_inj in blast)
  show "candidate meth ` {k. 1 \<le> k \<and> num \<le> k \<and> candidate meth k \<in> set labels} \<subseteq> set labels"
    by auto
qed simp

text \<open>The \<open>while\<close> loop of \<open>free_connection_name\<close>, entered with \<open>num = 1\<close>.\<close>

function free_from :: "string list \<Rightarrow> string \<Rightarrow> nat \<Rightarrow> string" where
  "free_from labels meth num =
     (if candidate meth num \<in> set labels \<and> 1 \<le> num then free_from labels meth (Suc num)
      else candidate meth num)"
  by pat_completeness auto

termination
proof (relation "measure (\<lambda>(labels, meth, num).
    card {k. 1 \<le> k \<and> num \<le> k \<and> candidate meth k \<in> set labels})")
  fix labels meth and num :: nat
  assume a: "candidate meth num \<in> set labels \<and> 1 \<le> num"
  let ?A = "{k. 1 \<le> k \<and> Suc num \<le> k \<and> candidate meth k \<in> set labels}"
    and ?B = "{k. 1 \<le> k \<and> num \<le> k \<and> candidate meth k \<in> set labels}"
  have "?A \<subseteq> ?B" by (blast dest: Suc_leD)
  moreover have "num \<in> ?B" using a by blast
  moreover have "num \<notin> ?A" by simp
  ultimately have "?A \<subset> ?B" by blast
  then show "((labels, meth, Suc num), labels, meth, num)
      \<in> measure (\<lambda>(labels, meth, num). card {k. 1 \<le> k \<and> num \<le> k \<and> candidate meth k \<in> set labels})"
    by (simp only: in_measure prod.case psubset_card_mono [OF finite_candidates])
qed (rule wf_measure)

declare free_from.simps [simp del]

definition free_connection_name :: "connector_view \<Rightarrow> string \<Rightarrow> string" where
  "free_connection_name c meth = free_from (map cc_label (cv_connections c)) meth 1"

section \<open>Offers\<close>

datatype offer = NoOffer | One connector_view | Ambiguous "string list"

definition serves :: "'n ipnet \<Rightarrow> connector_view \<Rightarrow> string \<Rightarrow> bool" where
  "serves N connector dest = list_ex (\<lambda>pattern. destination_covers N pattern dest) (cv_serves connector)"

definition offers_for :: "'n ipnet \<Rightarrow> string \<Rightarrow> connector_view list \<Rightarrow> offer" where
  "offers_for N dest offers =
     (let serving = filter (\<lambda>connector. serves N connector dest) offers
      in (case serving of
            [] \<Rightarrow> NoOffer
          | [connector] \<Rightarrow> One connector
          | _ \<Rightarrow> Ambiguous (map cv_name serving)))"

lemma free_from_props:
  assumes "1 \<le> num"
  shows "\<exists>k \<ge> num. free_from labels meth num = candidate meth k \<and> candidate meth k \<notin> set labels
           \<and> (\<forall>j. num \<le> j \<and> j < k \<longrightarrow> candidate meth j \<in> set labels)"
  using assms
proof (induction labels meth num rule: free_from.induct)
  case (1 labels meth num)
  show ?case
  proof (cases "candidate meth num \<in> set labels")
    case True
    with 1 obtain k where k: "k \<ge> Suc num" "free_from labels meth (Suc num) = candidate meth k"
        "candidate meth k \<notin> set labels" "\<forall>j. Suc num \<le> j \<and> j < k \<longrightarrow> candidate meth j \<in> set labels"
      by auto
    have "free_from labels meth num = candidate meth k"
      using True 1(2) k(2) by (simp add: free_from.simps [of labels meth num])
    moreover have "candidate meth j \<in> set labels" if "num \<le> j" "j < k" for j
      using k(4) True that by (cases "j = num") auto
    ultimately show ?thesis using k(1,3) by (intro exI [of _ k]) auto
  next
    case False
    then show ?thesis by (intro exI [of _ num]) (auto simp: free_from.simps [of labels meth num])
  qed
qed

lemma offers_for_One:
  "offers_for N dest offers = One c \<longleftrightarrow> filter (\<lambda>x. serves N x dest) offers = [c]"
  by (auto simp: offers_for_def Let_def split: list.splits)

lemma offers_for_NoOffer:
  "offers_for N dest offers = NoOffer \<longleftrightarrow> filter (\<lambda>x. serves N x dest) offers = []"
  by (auto simp: offers_for_def Let_def split: list.splits)

section \<open>Properties\<close>

text \<open>
  C39: the loop that names a new connection ends, and its answer is the first of the method's name,
  \<open>-2\<close>, \<open>-3\<close>, \<dots> the connector does not already hold, so a new account never replaces one.
\<close>

theorem free_connection_name_fresh:
  "free_connection_name c meth \<notin> cc_label ` set (cv_connections c) \<and>
   (\<exists>k \<ge> 1. free_connection_name c meth = candidate meth k \<and>
      candidate meth ` {1..<k} \<subseteq> cc_label ` set (cv_connections c))"
proof -
  obtain k where k: "1 \<le> k" "free_connection_name c meth = candidate meth k"
      "candidate meth k \<notin> cc_label ` set (cv_connections c)"
      "\<forall>j. 1 \<le> j \<and> j < k \<longrightarrow> candidate meth j \<in> cc_label ` set (cv_connections c)"
    using free_from_props [of 1 "map cc_label (cv_connections c)" meth]
    unfolding free_connection_name_def by auto
  then have "candidate meth ` {1..<k} \<subseteq> cc_label ` set (cv_connections c)" by auto
  with k(1-3) show ?thesis by metis
qed

text \<open>
  A connector is offered only when it is the only one: \<open>offers_for\<close> answers \<open>One\<close> exactly when a
  single installed connector serves the destination, and that connector then names every request
  the destination pattern names; with several it names them all and chooses none.
\<close>

theorem offers_for_unambiguous:
  assumes "ipnet_ok N"
  shows "(offers_for N dest offers = One c \<longleftrightarrow> filter (\<lambda>x. serves N x dest) offers = [c])
    \<and> (offers_for N dest offers = NoOffer \<longleftrightarrow> \<not> list_ex (\<lambda>x. serves N x dest) offers)
    \<and> (offers_for N dest offers = One c \<and> names N dest host port \<and> host \<noteq> [] \<longrightarrow>
         list_ex (\<lambda>pattern. names N pattern host port) (cv_serves c))"
proof -
  have "list_ex (\<lambda>pattern. names N pattern host port) (cv_serves c)"
    if "offers_for N dest offers = One c" "names N dest host port" "host \<noteq> []"
  proof -
    have "filter (\<lambda>x. serves N x dest) offers = [c]" using that(1) by (simp add: offers_for_One)
    then have "c \<in> set (filter (\<lambda>x. serves N x dest) offers)" by simp
    then obtain pattern where "pattern \<in> set (cv_serves c)" "destination_covers N pattern dest"
      by (auto simp: serves_def list_ex_iff)
    with that show ?thesis
      using destination_covers_names [OF assms, of pattern dest host port]
      unfolding list_ex_iff by blast
  qed
  then show ?thesis by (simp add: offers_for_One offers_for_NoOffer filter_empty_conv list_ex_iff)
qed

definition sample_connector :: "string \<Rightarrow> string list \<Rightarrow> connector_view" where
  "sample_connector n patterns =
     \<lparr>cv_name = n, cv_digest = ''d'', cv_serves = patterns, cv_methods = [], cv_connections = []\<rparr>"

lemma offers_for_unambiguous_witness:
  "offers_for blocks ''api.dev'' [sample_connector ''a'' [''*.dev''], sample_connector ''b'' [''*.io'']]
     = One (sample_connector ''a'' [''*.dev''])
   \<and> list_ex (\<lambda>pattern. names blocks pattern ''api.dev'' 443) (cv_serves (sample_connector ''a'' [''*.dev'']))"
proof -
  have o: "offers_for blocks ''api.dev'' [sample_connector ''a'' [''*.dev''], sample_connector ''b'' [''*.io'']]
     = One (sample_connector ''a'' [''*.dev''])" by code_simp
  have n: "names blocks ''api.dev'' ''api.dev'' 443" by code_simp
  from offers_for_unambiguous [OF blocks_ok, of "''api.dev''" _ _ "''api.dev''" 443] o n show ?thesis by blast
qed

end
