(* ===== verification/Entries.thy ===== *)
theory Entries
  imports Effective_Policy "HOL-Library.Countable"
begin

text \<open>
  The model of \<open>crates/lns-service/src/approval_flow/entries.rs\<close>: the questions a run keeps, what
  identifies one, the store interface, the store that keeps nothing and the store over a file. The
  SHA-256 digest, the JSON library and the file system are parameters.
\<close>

section \<open>Entries\<close>

datatype entry_kind =
    Destination string string bool
  | Connector string
  | Notice string

datatype entry_state = Undecided | Withdrawn | AlwaysAllowed | AlwaysDenied | Granted | Declined | Noted

fun state_label :: "entry_state \<Rightarrow> string" where
  "state_label Undecided = ''undecided''"
| "state_label Withdrawn = ''withdrawn''"
| "state_label AlwaysAllowed = ''always allow''"
| "state_label AlwaysDenied = ''always deny''"
| "state_label Granted = ''granted''"
| "state_label Declined = ''declined''"
| "state_label Noted = ''notice''"

record entry =
  en_id :: string
  en_sandbox :: "string option"
  en_kind :: entry_kind
  en_state :: entry_state

definition separator :: char where
  "separator = char_of (1 :: nat)"

definition bool_text :: "bool \<Rightarrow> string" where
  "bool_text b = (if b then ''true'' else ''false'')"

definition identity_key :: "string option \<Rightarrow> entry_kind \<Rightarrow> string" where
  "identity_key sandbox kind =
     (let run = (case sandbox of Some r \<Rightarrow> r | None \<Rightarrow> [])
      in (case kind of
            Destination dest _ raw \<Rightarrow>
              ''d'' @ [separator] @ run @ [separator] @ dest @ [separator] @ bool_text raw
          | Connector n \<Rightarrow> ''c'' @ [separator] @ run @ [separator] @ n
          | Notice message \<Rightarrow> ''n'' @ [separator] @ run @ [separator] @ message))"

definition identity :: "(string \<Rightarrow> string) \<Rightarrow> string option \<Rightarrow> entry_kind \<Rightarrow> string" where
  "identity sha256 sandbox kind = concat (map byte_hex (take 8 (sha256 (identity_key sandbox kind))))"

definition entry_new :: "(string \<Rightarrow> string) \<Rightarrow> string option \<Rightarrow> entry_kind \<Rightarrow> entry_state \<Rightarrow> entry" where
  "entry_new sha256 sandbox kind state =
     \<lparr>en_id = identity sha256 sandbox kind, en_sandbox = sandbox, en_kind = kind, en_state = state\<rparr>"

definition subject :: "entry \<Rightarrow> string" where
  "subject e = (case en_kind e of Destination dest _ _ \<Rightarrow> dest | Connector n \<Rightarrow> n | Notice m \<Rightarrow> m)"

definition is_settled :: "entry \<Rightarrow> bool" where
  "is_settled e = (en_state e \<in> {AlwaysAllowed, AlwaysDenied, Granted, Declined})"

definition is_answerable :: "entry \<Rightarrow> bool" where
  "is_answerable e = (case en_kind e of Destination _ _ _ \<Rightarrow> True | _ \<Rightarrow> False)"

section \<open>Stores\<close>

text \<open>The \<open>EntryStore\<close> trait over a world \<open>'w\<close>.\<close>

record 'w entry_store =
  es_record :: "entry \<Rightarrow> 'w \<Rightarrow> 'w"
  es_list :: "'w \<Rightarrow> entry list"
  es_forget :: "string \<Rightarrow> 'w \<Rightarrow> 'w \<times> (string + unit)"

datatype remove_outcome = Removed | RemoveUnknownId | NotCleared string

definition remove_from :: "'w entry_store \<Rightarrow> string \<Rightarrow> 'w \<Rightarrow> 'w \<times> remove_outcome" where
  "remove_from S eid w =
     (if \<not> list_ex (\<lambda>held. en_id held = eid) (es_list S w) then (w, RemoveUnknownId)
      else (case es_forget S eid w of
              (w', Inr _) \<Rightarrow> (w', Removed)
            | (w', Inl why) \<Rightarrow> (w', NotCleared why)))"

definition no_entry_store :: "'w entry_store" where
  "no_entry_store = \<lparr>es_record = (\<lambda>_ w. w), es_list = (\<lambda>_. []), es_forget = (\<lambda>_ w. (w, Inr ()))\<rparr>"

text \<open>What the file store calls outside this crate: the file at its path, JSON, the wake-up.\<close>

record 'w entry_fs =
  ef_read :: "'w \<Rightarrow> file_read"
  ef_write :: "string \<Rightarrow> 'w \<Rightarrow> 'w \<times> (string + unit)"
  ef_to_json :: "entry list \<Rightarrow> string + string"
  ef_from_json :: "string \<Rightarrow> string + entry list"
  ef_wake :: "'w \<Rightarrow> 'w"

datatype held = Read "entry list" | Unreadable

definition parse :: "'w entry_fs \<Rightarrow> string \<Rightarrow> entry list" where
  "parse F bytes = (case ef_from_json F bytes of Inr entries \<Rightarrow> entries | Inl _ \<Rightarrow> [])"

definition read_all :: "'w entry_fs \<Rightarrow> 'w \<Rightarrow> held" where
  "read_all F w =
     (case ef_read F w of
        Text bytes \<Rightarrow> Read (parse F bytes)
      | Not_Found \<Rightarrow> Read []
      | Failed _ \<Rightarrow> Unreadable)"

definition render_and_write :: "'w entry_fs \<Rightarrow> entry list \<Rightarrow> 'w \<Rightarrow> 'w \<times> (string + unit)" where
  "render_and_write F entries w =
     (case ef_to_json F entries of
        Inl e \<Rightarrow> (w, Inl e)
      | Inr bytes \<Rightarrow> ef_write F bytes w)"

definition write_all :: "'w entry_fs \<Rightarrow> entry list \<Rightarrow> 'w \<Rightarrow> 'w \<times> (string + unit)" where
  "write_all F entries w =
     (case render_and_write F entries w of
        (w', Inr _) \<Rightarrow> (ef_wake F w', Inr ())
      | (w', Inl e) \<Rightarrow> (w', Inl e))"

text \<open>\<open>iter_mut().find\<close> and the replacement or push behind it.\<close>

fun put_entry :: "entry \<Rightarrow> entry list \<Rightarrow> entry list" where
  "put_entry e [] = [e]"
| "put_entry e (held # es) = (if en_id held = en_id e then e # es else held # put_entry e es)"

definition file_record :: "'w entry_fs \<Rightarrow> entry \<Rightarrow> 'w \<Rightarrow> 'w" where
  "file_record F e w =
     (case read_all F w of
        Unreadable \<Rightarrow> w
      | Read entries \<Rightarrow> fst (write_all F (put_entry e entries) w))"

definition file_list :: "'w entry_fs \<Rightarrow> 'w \<Rightarrow> entry list" where
  "file_list F w = (case read_all F w of Read entries \<Rightarrow> entries | Unreadable \<Rightarrow> [])"

definition file_forget :: "'w entry_fs \<Rightarrow> string \<Rightarrow> 'w \<Rightarrow> 'w \<times> (string + unit)" where
  "file_forget F eid w =
     (case read_all F w of
        Unreadable \<Rightarrow> (w, Inl ''this run's approvals could not be read, so nothing was removed'')
      | Read entries \<Rightarrow>
          (case write_all F (filter (\<lambda>held. en_id held \<noteq> eid) entries) w of
             (w', Inr _) \<Rightarrow> (w', Inr ())
           | (w', Inl e) \<Rightarrow> (w', Inl (''this run's approvals could not be written: '' @ e))))"

definition file_entry_store :: "'w entry_fs \<Rightarrow> 'w entry_store" where
  "file_entry_store F =
     \<lparr>es_record = file_record F, es_list = file_list F, es_forget = file_forget F\<rparr>"

section \<open>The store interface\<close>

definition ids_distinct :: "entry list \<Rightarrow> bool" where
  "ids_distinct es = distinct (map en_id es)"

definition entry_of :: "entry list \<Rightarrow> string \<Rightarrow> entry option" where
  "entry_of es eid = List.find (\<lambda>held. en_id held = eid) es"

lemma put_entry_lookup [simp]:
  "entry_of (put_entry e es) eid = (if eid = en_id e then Some e else entry_of es eid)"
  by (induction es) (auto simp: entry_of_def)

lemma put_entry_ids: "en_id ` set (put_entry e es) = insert (en_id e) (en_id ` set es)"
  by (induction es) auto

lemma put_entry_subset: "set (put_entry e es) \<subseteq> insert e (set es)"
  by (induction es) auto

lemma put_entry_keeps: "x \<in> set es \<Longrightarrow> en_id x \<noteq> en_id e \<Longrightarrow> x \<in> set (put_entry e es)"
  by (induction es) auto

lemma put_entry_mem: "e \<in> set (put_entry e es)"
  by (induction es) auto

lemma put_entry_distinct [simp]: "ids_distinct es \<Longrightarrow> ids_distinct (put_entry e es)"
proof (induction es)
  case (Cons x es)
  then show ?case using put_entry_ids [of e es] by (auto simp: ids_distinct_def)
qed (simp add: ids_distinct_def)

lemma entry_of_filter:
  "entry_of (filter (\<lambda>held. en_id held \<noteq> eid) es) k = (if k = eid then None else entry_of es k)"
  by (induction es) (auto simp: entry_of_def)

text \<open>
  What a session relies on: a recorded entry replaces the one of its identity and no other, and
  forgetting removes an identity; both while the world is one the store can use.
\<close>

locale entry_store =
  fixes S :: "'w entry_store" and ok :: "'w \<Rightarrow> bool"
  assumes record_list: "ok w \<Longrightarrow> es_list S (es_record S e w) = put_entry e (es_list S w)"
    and record_ok: "ok w \<Longrightarrow> ok (es_record S e w)"
    and forget_list: "ok w \<Longrightarrow> es_forget S eid w = (w', r) \<Longrightarrow>
          r = Inr () \<and> ok w' \<and> es_list S w' = filter (\<lambda>held. en_id held \<noteq> eid) (es_list S w)"
begin

lemma record_lookup:
  "ok w \<Longrightarrow> entry_of (es_list S (es_record S e w)) k = (if k = en_id e then Some e else entry_of (es_list S w) k)"
  by (simp add: record_list)

lemma record_twice:
  "ok w \<Longrightarrow> en_id a = en_id b \<Longrightarrow>
     es_list S (es_record S b (es_record S a w)) = es_list S (es_record S b w)"
proof -
  assume ok: "ok w" and ab: "en_id a = en_id b"
  have "put_entry b (put_entry a es) = put_entry b es" for es
    using ab by (induction es) auto
  with ok show ?thesis by (simp add: record_list record_ok)
qed

lemma remove_from_spec:
  assumes "ok w" "remove_from S eid w = (w', out)"
  shows "ok w' \<and> es_list S w' = filter (\<lambda>held. en_id held \<noteq> eid) (es_list S w)
     \<and> (out = Removed \<longleftrightarrow> entry_of (es_list S w) eid \<noteq> None)
     \<and> (out = RemoveUnknownId \<longleftrightarrow> entry_of (es_list S w) eid = None)"
proof (cases "list_ex (\<lambda>held. en_id held = eid) (es_list S w)")
  case True
  obtain w1 r where f: "es_forget S eid w = (w1, r)" by fastforce
  from forget_list [OF assms(1) f] have r: "r = Inr ()" "ok w1"
      "es_list S w1 = filter (\<lambda>held. en_id held \<noteq> eid) (es_list S w)" by auto
  have "entry_of (es_list S w) eid \<noteq> None"
    using True by (auto simp: entry_of_def find_None_all list_ex_iff)
  with True f r assms(2) show ?thesis by (auto simp: remove_from_def)
next
  case False
  then have "entry_of (es_list S w) eid = None" "filter (\<lambda>held. en_id held \<noteq> eid) (es_list S w) = es_list S w"
    by (auto simp: entry_of_def find_None_all list_ex_iff filter_id_conv)
  with False assms show ?thesis by (auto simp: remove_from_def)
qed

end

text \<open>
  A file the store can use: reading never fails outright, a write lands and reads back, the wake-up
  leaves the file alone, and JSON reads back what it wrote.
\<close>

definition fs_ok :: "'w entry_fs \<Rightarrow> ('w \<Rightarrow> bool) \<Rightarrow> bool" where
  "fs_ok F I \<longleftrightarrow>
     (\<forall>w e. I w \<longrightarrow> ef_read F w \<noteq> Failed e)
     \<and> (\<forall>w bytes. I w \<longrightarrow> snd (ef_write F bytes w) = Inr () \<and> I (fst (ef_write F bytes w))
          \<and> ef_read F (fst (ef_write F bytes w)) = Text bytes)
     \<and> (\<forall>w. I w \<longrightarrow> I (ef_wake F w) \<and> ef_read F (ef_wake F w) = ef_read F w)
     \<and> (\<forall>es. \<exists>bytes. ef_to_json F es = Inr bytes \<and> ef_from_json F bytes = Inr es)"

lemma write_all_ok:
  assumes "fs_ok F I" "I w"
  shows "snd (write_all F es w) = Inr () \<and> I (fst (write_all F es w)) \<and> file_list F (fst (write_all F es w)) = es"
proof -
  obtain bytes where b: "ef_to_json F es = Inr bytes" "ef_from_json F bytes = Inr es"
    using assms(1) unfolding fs_ok_def by blast
  obtain w1 where w: "ef_write F bytes w = (w1, Inr ())" "I w1" "ef_read F w1 = Text bytes"
    using assms by (auto simp: fs_ok_def) (metis prod.collapse)
  then have "I (ef_wake F w1) \<and> ef_read F (ef_wake F w1) = Text bytes" using assms(1) by (auto simp: fs_ok_def)
  with b w show ?thesis
    by (simp add: write_all_def render_and_write_def file_list_def read_all_def parse_def)
qed

lemma read_all_ok: "fs_ok F I \<Longrightarrow> I w \<Longrightarrow> read_all F w = Read (file_list F w)"
  by (auto simp: read_all_def file_list_def fs_ok_def split: file_read.splits)

interpretation files: entry_store "file_entry_store F" "\<lambda>w. fs_ok F I \<and> I w"
  for F :: "'w entry_fs" and I
proof unfold_locales
  fix w e assume w: "fs_ok F I \<and> I w"
  show "es_list (file_entry_store F) (es_record (file_entry_store F) e w)
      = put_entry e (es_list (file_entry_store F) w)"
    and "fs_ok F I \<and> I (es_record (file_entry_store F) e w)"
    using write_all_ok [of F I w] read_all_ok [of F I w] w
    by (simp_all add: file_entry_store_def file_record_def)
next
  fix w eid w' r
  assume w: "fs_ok F I \<and> I w" and f: "es_forget (file_entry_store F) eid w = (w', r)"
  show "r = Inr () \<and> (fs_ok F I \<and> I w') \<and>
      es_list (file_entry_store F) w' = filter (\<lambda>held. en_id held \<noteq> eid) (es_list (file_entry_store F) w)"
    using f write_all_ok [of F I w "filter (\<lambda>held. en_id held \<noteq> eid) (file_list F w)"]
      read_all_ok [of F I w] w
    by (cases "write_all F (filter (\<lambda>held. en_id held \<noteq> eid) (file_list F w)) w")
      (auto simp: file_entry_store_def file_forget_def)
qed

text \<open>The same interface over a list in memory.\<close>

definition list_store :: "entry list entry_store" where
  "list_store =
     \<lparr>es_record = put_entry, es_list = (\<lambda>w. w),
      es_forget = (\<lambda>eid w. (filter (\<lambda>held. en_id held \<noteq> eid) w, Inr ()))\<rparr>"

interpretation lists: entry_store list_store "\<lambda>_. True"
  by unfold_locales (auto simp: list_store_def)

section \<open>A concrete file\<close>

text \<open>
  One file in memory, with a coding of entry lists as numbers in place of JSON, on which the laws
  of a usable file hold.
\<close>

instance entry_kind :: countable
  by countable_datatype

instance entry_state :: countable
  by countable_datatype

definition entry_tuple :: "entry \<Rightarrow> string \<times> string option \<times> entry_kind \<times> entry_state" where
  "entry_tuple e = (en_id e, en_sandbox e, en_kind e, en_state e)"

definition tuple_entry :: "string \<times> string option \<times> entry_kind \<times> entry_state \<Rightarrow> entry" where
  "tuple_entry t = (case t of (i, s, k, st) \<Rightarrow> \<lparr>en_id = i, en_sandbox = s, en_kind = k, en_state = st\<rparr>)"

definition memory_file :: "string option entry_fs" where
  "memory_file =
     \<lparr>ef_read = (\<lambda>w. case w of None \<Rightarrow> Not_Found | Some bytes \<Rightarrow> Text bytes),
      ef_write = (\<lambda>bytes w. (Some bytes, Inr ())),
      ef_to_json = (\<lambda>es. Inr (show_nat (to_nat (map entry_tuple es)))),
      ef_from_json = (\<lambda>s. Inr (map tuple_entry (from_nat (dec_val s)))),
      ef_wake = (\<lambda>w. w)\<rparr>"

lemma tuple_entry_inverse [simp]: "tuple_entry (entry_tuple e) = e"
  by (simp add: tuple_entry_def entry_tuple_def)

lemma memory_file_ok: "fs_ok memory_file (\<lambda>_. True)"
  by (auto simp: fs_ok_def memory_file_def comp_def split: option.splits)

text \<open>What an entry asks, apart from how the gate spelled the action.\<close>

definition question :: "string option \<Rightarrow> entry_kind \<Rightarrow> string \<times> entry_kind" where
  "question sandbox kind =
     (case sandbox of Some r \<Rightarrow> r | None \<Rightarrow> [],
      case kind of Destination dest _ raw \<Rightarrow> Destination dest [] raw | k \<Rightarrow> k)"

definition separator_free :: "string option \<Rightarrow> entry_kind \<Rightarrow> bool" where
  "separator_free sandbox kind \<longleftrightarrow>
     separator \<notin> set (case sandbox of Some r \<Rightarrow> r | None \<Rightarrow> [])
     \<and> (case kind of Destination dest _ _ \<Rightarrow> separator \<notin> set dest | _ \<Rightarrow> True)"

lemma split_at_separator:
  "a @ c # b = a' @ (c::char) # b' \<Longrightarrow> c \<notin> set a \<Longrightarrow> c \<notin> set a' \<Longrightarrow> a = a' \<and> b = b'"
  using split_once_Some [of c "a @ c # b" a b] split_once_Some [of c "a @ c # b" a' b'] by auto

lemma bool_text_inj: "bool_text x = bool_text y \<Longrightarrow> x = y"
  by (auto simp: bool_text_def split: if_splits)

lemma identity_key_inj:
  assumes "identity_key s k = identity_key s' k'" "separator_free s k" "separator_free s' k'"
  shows "question s k = question s' k'"
proof -
  let ?r = "case s of Some r \<Rightarrow> r | None \<Rightarrow> []" and ?r' = "case s' of Some r \<Rightarrow> r | None \<Rightarrow> []"
  have r: "separator \<notin> set ?r" "separator \<notin> set ?r'" using assms(2,3) by (auto simp: separator_free_def)
  show ?thesis
  proof (cases k; cases k')
    fix d a w d' a' w' assume k: "k = Destination d a w" "k' = Destination d' a' w'"
    then have "?r @ separator # d @ separator # bool_text w = ?r' @ separator # d' @ separator # bool_text w'"
      using assms(1) by (simp add: identity_key_def Let_def)
    from split_at_separator [OF this r]
    have *: "?r = ?r'" "d @ separator # bool_text w = d' @ separator # bool_text w'" by simp_all
    have "separator \<notin> set d" "separator \<notin> set d'" using assms(2,3) k by (auto simp: separator_free_def)
    from split_at_separator [OF *(2) this] have "d = d'" "bool_text w = bool_text w'" by simp_all
    with k *(1) show ?thesis by (simp add: question_def bool_text_inj)
  next
    fix n n' assume k: "k = Connector n" "k' = Connector n'"
    then have "?r @ separator # n = ?r' @ separator # n'"
      using assms(1) by (simp add: identity_key_def Let_def)
    from split_at_separator [OF this r] k show ?thesis by (simp add: question_def)
  next
    fix n n' assume k: "k = Notice n" "k' = Notice n'"
    then have "?r @ separator # n = ?r' @ separator # n'"
      using assms(1) by (simp add: identity_key_def Let_def)
    from split_at_separator [OF this r] k show ?thesis by (simp add: question_def)
  qed (use assms(1) in \<open>simp_all add: identity_key_def Let_def\<close>)
qed

section \<open>Properties\<close>

text \<open>
  C40: the file store keeps one answer per question: on a usable file, after \<open>record\<close> the list holds
  the recorded entry under its identity and every other entry as it was, identities stay distinct,
  and \<open>remove_from\<close> takes out exactly the entry named and says whether there was one.
\<close>

theorem file_store_laws:
  assumes "fs_ok F I" "I w" "remove_from (file_entry_store F) eid w = (w', out)"
  shows "entry_of (file_list F (file_record F e w)) k = (if k = en_id e then Some e else entry_of (file_list F w) k)
     \<and> (ids_distinct (file_list F w) \<longrightarrow> ids_distinct (file_list F (file_record F e w)))
     \<and> file_list F w' = filter (\<lambda>held. en_id held \<noteq> eid) (file_list F w)
     \<and> (out = Removed \<longleftrightarrow> entry_of (file_list F w) eid \<noteq> None)"
proof -
  have ok: "fs_ok F I \<and> I w" using assms by simp
  show ?thesis
    using files.record_lookup [OF ok, of e k] files.record_list [OF ok, of e]
      files.remove_from_spec [OF ok assms(3)]
    by (simp add: file_entry_store_def)
qed

definition sample_entry :: entry where
  "sample_entry = entry_new (\<lambda>s. s) None (Notice ''hello'') Noted"

lemma file_store_laws_witness:
  "entry_of (file_list memory_file (file_record memory_file sample_entry None)) (en_id sample_entry) = Some sample_entry"
proof -
  obtain w' out where "remove_from (file_entry_store memory_file) [] None = (w', out)"
    by (cases "remove_from (file_entry_store memory_file) [] None")
  from file_store_laws [OF memory_file_ok TrueI this, of sample_entry "en_id sample_entry", THEN conjunct1]
  show ?thesis by (simp only: refl if_True)
qed

text \<open>
  An identity names a question: where the digest's first eight bytes tell two keys apart, two
  entries share an identity only if they ask the same run the same thing, whatever the gate called
  the action. The separator character must not occur in the names themselves.
\<close>

theorem identity_names_question:
  assumes "identity sha256 s k = identity sha256 s' k'"
    "take 8 (sha256 (identity_key s k)) = take 8 (sha256 (identity_key s' k')) \<longrightarrow>
       identity_key s k = identity_key s' k'"
    "separator_free s k" "separator_free s' k'"
  shows "question s k = question s' k'"
proof -
  have "take 8 (sha256 (identity_key s k)) = take 8 (sha256 (identity_key s' k'))"
    using assms(1) unfolding identity_def by (rule hex_text_inj)
  with assms(2) have "identity_key s k = identity_key s' k'" by simp
  then show ?thesis using assms(3,4) by (rule identity_key_inj)
qed

lemma identity_names_question_witness:
  "question (Some ''run'') (Destination ''db:1'' ''CONNECT db:1'' True)
     = question (Some ''run'') (Destination ''db:1'' ''other'' True)"
proof -
  have "separator_free (Some ''run'') (Destination ''db:1'' ''CONNECT db:1'' True)"
    and "separator_free (Some ''run'') (Destination ''db:1'' ''other'' True)" by code_simp+
  then show ?thesis
    by (intro identity_names_question [of "\<lambda>x. x" "Some ''run''" _ "Some ''run''"])
      (simp_all add: identity_def identity_key_def)
qed

end
