(* ===== verification/Approval_Session.thy ===== *)
theory Approval_Session
  imports Wire_Protocol Connectors Entries
begin

text \<open>
  The model of \<open>crates/lns-service/src/approval_flow/session.rs\<close>: the state of one run's approval
  session and every method that changes it. The ports the session is built over (the policy store,
  the connector store, the driver of sign-in rounds, the entry store) are the flds of an
  environment over a world \<open>'w\<close>; the notifier, the frame sink and the ledger only receive, so what
  reaches them is appended to the trace \<open>s_out\<close> in the order it is sent. The locks of the session
  are taken one field at a time, so a method is a step of one thread. Instants and durations are
  nanoseconds.
\<close>

section \<open>Cards\<close>

record connect_ask =
  ca_oauth :: "oauth_progress option"
  ca_connector :: string
  ca_method :: string
  ca_message :: string
  ca_fields :: "connector_field_view list"
  ca_from_code :: bool

record pending_prompt =
  pp_id :: string
  pp_host :: string
  pp_action :: string
  pp_treatment :: treatment
  pp_run :: "string option"
  pp_offer :: "connector_view option"
  pp_connect :: "connect_ask option"
  pp_connect_seq :: nat

definition action_port :: "pending_prompt \<Rightarrow> string option" where
  "action_port p =
     (case snd (split_destination (pp_action p)) of
        Some port \<Rightarrow> if parse_u16 port \<noteq> None then Some port else None
      | None \<Rightarrow> None)"

definition badges :: "pending_prompt \<Rightarrow> string list" where
  "badges p =
     (if pp_treatment p = Raw then [''RAW''] else [])
     @ (case action_port p of Some port \<Rightarrow> [''TCP'', port] | None \<Rightarrow> [pp_action p])"

definition RAW_SPLICE_CAPTION :: string where
  "RAW_SPLICE_CAPTION = ''lns cannot inspect this traffic.''"

definition caption :: "pending_prompt \<Rightarrow> string option" where
  "caption p = (case pp_treatment p of Raw \<Rightarrow> Some RAW_SPLICE_CAPTION | Inspected \<Rightarrow> None)"

section \<open>Held requests\<close>

record pending_entry =
  pe_host :: string
  pe_action :: string
  pe_treatment :: treatment
  pe_deadline :: nat
  pe_reason :: string
  pe_offer :: "connector_view option"
  pe_expired :: bool

definition raw_destination :: "string \<Rightarrow> string \<Rightarrow> string option" where
  "raw_destination action host =
     (case strip_prefix ''CONNECT '' action of
        None \<Rightarrow> None
      | Some dest \<Rightarrow> if fst (split_destination dest) = unbracketed host then Some dest else None)"

definition entry_raw_destination :: "pending_entry \<Rightarrow> string option" where
  "entry_raw_destination e = raw_destination (pe_action e) (pe_host e)"

definition audit_target :: "pending_entry \<Rightarrow> string" where
  "audit_target e =
     (case pe_treatment e of
        Raw \<Rightarrow> (case entry_raw_destination e of Some dest \<Rightarrow> dest | None \<Rightarrow> pe_host e)
      | Inspected \<Rightarrow> pe_host e)"

definition kind_of_pending :: "pending_entry \<Rightarrow> entry_kind" where
  "kind_of_pending e = Destination (audit_target e) (pe_action e) (pe_treatment e = Raw)"

definition offered_destination :: "request_pending \<Rightarrow> string" where
  "offered_destination req =
     (case rp_treatment req of
        Raw \<Rightarrow> (case raw_destination (rp_action req) (rp_host req) of Some d \<Rightarrow> d | None \<Rightarrow> rp_host req)
      | Inspected \<Rightarrow> rp_host req)"

section \<open>Choices, rounds and verdicts\<close>

datatype connection_choice = NoConnection | Held string | New string secret_values

datatype connect_round =
    Pending string oauth_progress
  | Asks string string "connector_field_view list" bool
  | Connected string "string list"
  | RoundFailed string

record open_round =
  or_offer :: connector_view
  or_method :: string
  or_handle :: string
  or_ask :: connect_ask

definition NO_CONNECTOR_STORE :: string where
  "NO_CONNECTOR_STORE = ''no connector store is wired to this run, so nothing was granted''"

definition NO_RULE_OF_ITS_OWN :: string where
  "NO_RULE_OF_ITS_OWN = ''this entry holds no rule of its own to take back''"

datatype answer_outcome = AnswerRecorded entry_state | AnswerUnknownId | NotAnswerable | NoRuleWritten string

datatype answer = AlwaysAllow | AlwaysDeny | AskAgain

datatype always_verdict = VAllow | VDeny

fun answer_always :: "answer \<Rightarrow> always_verdict option" where
  "answer_always AlwaysAllow = Some VAllow"
| "answer_always AlwaysDeny = Some VDeny"
| "answer_always AskAgain = None"

fun always_of :: "decision \<Rightarrow> always_verdict option" where
  "always_of AllowAlways = Some VAllow"
| "always_of DenyAlways = Some VDeny"
| "always_of AllowOnce = None"
| "always_of DenyOnce = None"
| "always_of Timeout = None"

fun verdict_state :: "always_verdict \<Rightarrow> entry_state" where
  "verdict_state VAllow = AlwaysAllowed"
| "verdict_state VDeny = AlwaysDenied"

fun route :: "always_verdict \<Rightarrow> string \<Rightarrow> route_rule" where
  "route VAllow host = approved (allow_host host)"
| "route VDeny host = approved (deny_host host)"

fun splice :: "always_verdict \<Rightarrow> string \<Rightarrow> tcp_rule" where
  "splice VAllow dest = tcp_approved (allow_destination dest)"
| "splice VDeny dest = tcp_approved (deny_destination dest)"

datatype decision_outcome = Resolved | UnknownId

datatype ledger_decision = LAllowOnce | LAllowAlways | LDenyOnce | LDenyAlways | LAllow | LDeny

fun ledger_decision_of :: "decision \<Rightarrow> ledger_decision option" where
  "ledger_decision_of AllowAlways = Some LAllowAlways"
| "ledger_decision_of AllowOnce = Some LAllowOnce"
| "ledger_decision_of DenyAlways = Some LDenyAlways"
| "ledger_decision_of DenyOnce = Some LDenyOnce"
| "ledger_decision_of Timeout = None"

record ledger_approval =
  la_target :: string
  la_decision :: ledger_decision
  la_reason :: "string option"

datatype rule_placement = Written | Refused string

section \<open>State, ports and effects\<close>

datatype effect =
    Frame host_frame
  | Present pending_prompt
  | Dismiss string
  | Expire string
  | Inform string
  | ClearInforms
  | Save policy
  | Ledger ledger_approval
  | Abandon string

record ('n, 'w) env =
  v_ipnet :: "'n ipnet"
  v_sha256 :: "string \<Rightarrow> string"
  v_debug :: "string \<Rightarrow> string"
  v_save :: "policy \<Rightarrow> 'w \<Rightarrow> 'w \<times> (string + unit)"
  v_store :: "'w entry_store"
  v_refresh_after :: "'w \<Rightarrow> nat"
  v_current_offers :: "'w \<Rightarrow> 'w \<times> connector_view list option"
  v_current_supply :: "'w \<Rightarrow> 'w \<times> (string \<times> granted_payload) list option"
  v_connect :: "string \<Rightarrow> string \<Rightarrow> string \<Rightarrow> secret_values \<Rightarrow> 'w \<Rightarrow> 'w \<times> (string + string list)"
  v_grant :: "string \<Rightarrow> string \<Rightarrow> string \<Rightarrow> string option \<Rightarrow> 'w \<Rightarrow> 'w \<times> (string + granted_payload)"
  v_decline :: "string \<Rightarrow> 'w \<Rightarrow> 'w \<times> (string + unit)"
  v_poll_connect :: "string \<Rightarrow> 'w \<Rightarrow> 'w \<times> (string + connect_round)"
  v_open_browser :: "string \<Rightarrow> 'w \<Rightarrow> 'w \<times> (string + unit)"
  v_begin_connect :: "string \<Rightarrow> string \<Rightarrow> string \<Rightarrow> 'w \<Rightarrow> 'w \<times> (string + connect_round)"
  v_answer_connect :: "string \<Rightarrow> secret_values \<Rightarrow> 'w \<Rightarrow> 'w \<times> (string + connect_round)"
  v_abandon_connect :: "string \<Rightarrow> 'w \<Rightarrow> 'w"

record 'w session =
  s_policy :: policy
  s_persisted :: policy
  s_pending :: "(string, pending_entry) hmap"
  s_timeout :: nat
  s_ledger :: bool
  s_shipped :: "policy option"
  s_granted :: "(string \<times> granted_payload) list"
  s_said :: "string list"
  s_connectors :: bool
  s_connector_clock :: "nat option"
  s_next_refresh :: nat
  s_connect_rounds :: bool
  s_offers :: "connector_view list"
  s_entries :: bool
  s_run :: "string option"
  s_rounds :: "(string, open_round) hmap"
  s_settled :: "(string, nat) hmap"
  s_withdrawn :: bool
  s_out :: "effect list"
  s_world :: 'w

definition session_new :: "policy \<Rightarrow> policy \<Rightarrow> nat \<Rightarrow> 'w \<Rightarrow> 'w session" where
  "session_new policy persisted timeout w =
     \<lparr>s_policy = policy, s_persisted = persisted, s_pending = [], s_timeout = timeout,
      s_ledger = False, s_shipped = None, s_granted = [], s_said = [], s_connectors = False,
      s_connector_clock = None, s_next_refresh = 0, s_connect_rounds = False, s_offers = [],
      s_entries = False, s_run = None, s_rounds = [], s_settled = [], s_withdrawn = False,
      s_out = [], s_world = w\<rparr>"

definition emit :: "effect \<Rightarrow> 'w session \<Rightarrow> 'w session" where
  "emit e s = s\<lparr>s_out := s_out s @ [e]\<rparr>"

text \<open>The setters: each port is installed once and the first wins, so installing is a flag.\<close>

definition set_entry_store :: "'w session \<Rightarrow> 'w session" where
  "set_entry_store s = s\<lparr>s_entries := True\<rparr>"

definition for_run :: "string \<Rightarrow> 'w session \<Rightarrow> 'w session" where
  "for_run run s = s\<lparr>s_run := Some run\<rparr>"

definition set_shipped_policy :: "policy \<Rightarrow> 'w session \<Rightarrow> 'w session" where
  "set_shipped_policy shipped s =
     (case s_shipped s of None \<Rightarrow> s\<lparr>s_shipped := Some shipped\<rparr> | Some _ \<Rightarrow> s)"

definition set_connector_port :: "'w session \<Rightarrow> 'w session" where
  "set_connector_port s = s\<lparr>s_connectors := True\<rparr>"

definition set_connect_round_port :: "'w session \<Rightarrow> 'w session" where
  "set_connect_round_port s = s\<lparr>s_connect_rounds := True\<rparr>"

definition set_ledger_recorder :: "'w session \<Rightarrow> 'w session" where
  "set_ledger_recorder s = s\<lparr>s_ledger := True\<rparr>"

definition hold_for_offers :: "connector_view list \<Rightarrow> 'w session \<Rightarrow> 'w session" where
  "hold_for_offers offers s = s\<lparr>s_offers := offers\<rparr>"

section \<open>Entries\<close>

definition entries :: "('n, 'w) env \<Rightarrow> 'w session \<Rightarrow> 'w entry_store" where
  "entries E s = (if s_entries s then v_store E else no_entry_store)"

definition record_entry :: "('n, 'w) env \<Rightarrow> entry \<Rightarrow> 'w session \<Rightarrow> 'w session" where
  "record_entry E e s = s\<lparr>s_world := es_record (entries E s) e (s_world s)\<rparr>"

definition listed :: "('n, 'w) env \<Rightarrow> 'w session \<Rightarrow> entry list" where
  "listed E s = es_list (entries E s) (s_world s)"

definition note_card :: "('n, 'w) env \<Rightarrow> pending_entry \<Rightarrow> entry_state \<Rightarrow> 'w session \<Rightarrow> 'w session" where
  "note_card E entry state s =
     record_entry E (entry_new (v_sha256 E) (s_run s) (kind_of_pending entry) state) s"

definition note_if_open :: "('n, 'w) env \<Rightarrow> pending_entry \<Rightarrow> entry_state \<Rightarrow> 'w session \<Rightarrow> 'w session" where
  "note_if_open E entry state s =
     (let asked = entry_new (v_sha256 E) (s_run s) (kind_of_pending entry) state;
          settled = list_ex (\<lambda>held. en_id held = en_id asked \<and> is_settled held) (listed E s)
      in if settled then s else record_entry E asked s)"

definition holds_rule_for :: "pending_entry \<Rightarrow> 'w session \<Rightarrow> bool" where
  "holds_rule_for entry s =
     (case pe_treatment entry of
        Inspected \<Rightarrow> holds_approved_rule (s_policy s) (pe_host entry)
      | Raw \<Rightarrow>
          (case entry_raw_destination entry of
             Some dest \<Rightarrow> holds_approved_tcp_rule (s_policy s) dest
           | None \<Rightarrow> False))"

definition reopen_unless_decided :: "('n, 'w) env \<Rightarrow> pending_entry \<Rightarrow> 'w session \<Rightarrow> 'w session" where
  "reopen_unless_decided E entry s =
     (let asked = entry_new (v_sha256 E) (s_run s) (kind_of_pending entry) Undecided;
          is_listed = list_ex (\<lambda>held. en_id held = en_id asked) (listed E s)
      in if is_listed \<and> holds_rule_for entry s then s else record_entry E asked s)"

definition connector_entry :: "('n, 'w) env \<Rightarrow> string \<Rightarrow> entry_state \<Rightarrow> 'w session \<Rightarrow> entry" where
  "connector_entry E n state s = entry_new (v_sha256 E) (s_run s) (Connector n) state"

definition note_connector :: "('n, 'w) env \<Rightarrow> string \<Rightarrow> entry_state \<Rightarrow> 'w session \<Rightarrow> 'w session" where
  "note_connector E n state s = record_entry E (connector_entry E n state s) s"

definition note_connector_if_open :: "('n, 'w) env \<Rightarrow> string \<Rightarrow> 'w session \<Rightarrow> 'w session" where
  "note_connector_if_open E n s =
     (let offered = connector_entry E n Undecided s;
          answered = list_ex (\<lambda>held. en_id held = en_id offered \<and> is_settled held) (listed E s)
      in if answered then s else record_entry E offered s)"

definition tell :: "('n, 'w) env \<Rightarrow> string \<Rightarrow> 'w session \<Rightarrow> 'w session" where
  "tell E message s =
     (if s_withdrawn s then s
      else emit (Inform message)
             (record_entry E (entry_new (v_sha256 E) (s_run s) (Notice message) Noted) s))"

definition inform_once :: "('n, 'w) env \<Rightarrow> string \<Rightarrow> 'w session \<Rightarrow> 'w session" where
  "inform_once E message s =
     (if message \<in> set (s_said s) then s
      else tell E message (s\<lparr>s_said := message # s_said s\<rparr>))"

section \<open>Rounds\<close>

definition round_of :: "string \<Rightarrow> 'w session \<Rightarrow> open_round option" where
  "round_of rid s = hm_get (s_rounds s) rid"

definition hold_round :: "string \<Rightarrow> open_round \<Rightarrow> 'w session \<Rightarrow> 'w session" where
  "hold_round rid r s = s\<lparr>s_rounds := hm_insert rid r (s_rounds s)\<rparr>"

definition forget_round :: "string \<Rightarrow> 'w session \<Rightarrow> 'w session \<times> open_round option" where
  "forget_round rid s = (s\<lparr>s_rounds := hm_remove rid (s_rounds s)\<rparr>, hm_get (s_rounds s) rid)"

text \<open>\<open>abandon_connect\<close> of the round port: the port is told, which the trace shows.\<close>

definition abandon_handle :: "('n, 'w) env \<Rightarrow> string \<Rightarrow> 'w session \<Rightarrow> 'w session" where
  "abandon_handle E handle s =
     emit (Abandon handle) (s\<lparr>s_world := v_abandon_connect E handle (s_world s)\<rparr>)"

definition abandon_round :: "('n, 'w) env \<Rightarrow> string \<Rightarrow> 'w session \<Rightarrow> 'w session" where
  "abandon_round E rid s =
     (case forget_round rid s of
        (s1, None) \<Rightarrow> s
      | (s1, Some open) \<Rightarrow> abandon_handle E (or_handle open) s1)"

definition abandon_every_round :: "('n, 'w) env \<Rightarrow> 'w session \<Rightarrow> 'w session" where
  "abandon_every_round E s =
     foldl (\<lambda>acc (_, r). abandon_handle E (or_handle r) acc) (s\<lparr>s_rounds := []\<rparr>) (s_rounds s)"

definition settled_count :: "string \<Rightarrow> 'w session \<Rightarrow> nat" where
  "settled_count rid s = (case hm_get (s_settled s) rid of Some n \<Rightarrow> n | None \<Rightarrow> 0)"

definition count_settled :: "string \<Rightarrow> 'w session \<Rightarrow> 'w session" where
  "count_settled rid s = s\<lparr>s_settled := hm_insert rid (settled_count rid s + 1) (s_settled s)\<rparr>"

section \<open>Pending requests and cards\<close>

definition pending_entry_of :: "string \<Rightarrow> 'w session \<Rightarrow> pending_entry option" where
  "pending_entry_of rid s = hm_get (s_pending s) rid"

definition remove_pending :: "string \<Rightarrow> 'w session \<Rightarrow> 'w session \<times> pending_entry option" where
  "remove_pending rid s = (s\<lparr>s_pending := hm_remove rid (s_pending s)\<rparr>, hm_get (s_pending s) rid)"

definition offer_of :: "string \<Rightarrow> 'w session \<Rightarrow> connector_view option" where
  "offer_of rid s = Option.bind (hm_get (s_pending s) rid) pe_offer"

definition offers_connector :: "string \<Rightarrow> pending_entry \<Rightarrow> bool" where
  "offers_connector n entry =
     (case pe_offer entry of Some offer \<Rightarrow> cv_name offer = n | None \<Rightarrow> False)"

definition held_for :: "string \<Rightarrow> 'w session \<Rightarrow> string list" where
  "held_for n s = map fst (filter (\<lambda>(_, entry). offers_connector n entry) (s_pending s))"

definition prompt_of :: "string \<Rightarrow> 'w session \<Rightarrow> pending_prompt option" where
  "prompt_of rid s =
     map_option (\<lambda>entry.
       \<lparr>pp_id = rid, pp_host = pe_host entry, pp_action = pe_action entry,
        pp_treatment = pe_treatment entry, pp_run = s_run s, pp_offer = pe_offer entry,
        pp_connect = map_option or_ask (round_of rid s), pp_connect_seq = settled_count rid s\<rparr>)
       (hm_get (s_pending s) rid)"

definition represent_one :: "string \<Rightarrow> 'w session \<Rightarrow> 'w session" where
  "represent_one rid s =
     (case prompt_of rid s of Some prompt \<Rightarrow> emit (Present prompt) s | None \<Rightarrow> s)"

definition represent :: "string list \<Rightarrow> 'w session \<Rightarrow> 'w session" where
  "represent ids s = foldl (\<lambda>acc rid. represent_one rid acc) s ids"

definition still_holding :: "string \<Rightarrow> string \<Rightarrow> 'w session \<Rightarrow> bool" where
  "still_holding rid connector s =
     (case offer_of rid s of Some held \<Rightarrow> cv_name held = connector | None \<Rightarrow> False)"

definition forget_offer :: "('n, 'w) env \<Rightarrow> string \<Rightarrow> 'w session \<Rightarrow> 'w session" where
  "forget_offer E n s =
     (let stripped = held_for n s;
          s1 = s\<lparr>s_offers := filter (\<lambda>offer. cv_name offer \<noteq> n) (s_offers s),
                 s_pending := map (\<lambda>(rid, entry).
                   (rid, if offers_connector n entry then entry\<lparr>pe_offer := None\<rparr> else entry)) (s_pending s)\<rparr>
      in foldl (\<lambda>acc rid. abandon_round E rid acc) s1 stripped)"

section \<open>The published policy\<close>

definition granted_layer :: "'w session \<Rightarrow> granted_payload option" where
  "granted_layer s = combined (s_granted s)"

definition held_patterns :: "'w session \<Rightarrow> string list" where
  "held_patterns s = concat (map cv_serves (s_offers s))"

definition policy_message_of :: "('n, 'w) env \<Rightarrow> 'w session \<Rightarrow> policy_message" where
  "policy_message_of E s =
     (case granted_layer s of
        Some granted \<Rightarrow> granting (v_ipnet E) (s_policy s) (held_patterns s) granted
      | None \<Rightarrow> seeded_holding (v_ipnet E) (s_policy s) (held_patterns s))"

definition send_policy_frame :: "('n, 'w) env \<Rightarrow> 'w session \<Rightarrow> 'w session" where
  "send_policy_frame E s = emit (Frame (host_frame.Policy (policy_message_of E s))) s"

definition send_decision_frame :: "string \<Rightarrow> decision \<Rightarrow> 'w session \<Rightarrow> 'w session" where
  "send_decision_frame rid d s = emit (Frame (RequestDecision \<lparr>rd_id = rid, rd_decision = d\<rparr>)) s"

definition effective_over :: "policy \<Rightarrow> 'w session \<Rightarrow> policy" where
  "effective_over own s =
     (let opened = map_option gp_egress (granted_layer s)
      in (case (s_shipped s, opened) of
            (None, None) \<Rightarrow> own
          | (shipped, opened) \<Rightarrow> merge_effective shipped opened own))"

definition apply_external_policy :: "('n, 'w) env \<Rightarrow> policy \<Rightarrow> 'w session \<Rightarrow> 'w session" where
  "apply_external_policy E new_policy s =
     (let s1 = s\<lparr>s_persisted := new_policy\<rparr>;
          s2 = s1\<lparr>s_policy := effective_over new_policy s1\<rparr>
      in send_policy_frame E s2)"

definition apply_granted_egress ::
  "('n, 'w) env \<Rightarrow> string \<Rightarrow> granted_payload \<Rightarrow> 'w session \<Rightarrow> 'w session" where
  "apply_granted_egress E connector granted s =
     (let s1 = s\<lparr>s_granted := btree_insert connector granted (s_granted s), s_next_refresh := 0\<rparr>;
          s2 = s1\<lparr>s_policy := effective_over (s_persisted s1) s1\<rparr>
      in send_policy_frame E s2)"

definition save_persisted :: "('n, 'w) env \<Rightarrow> 'w session \<Rightarrow> 'w session" where
  "save_persisted E s =
     (let (w, result) = v_save E (s_persisted s) (s_world s);
          s1 = emit (Save (s_persisted s)) (s\<lparr>s_world := w\<rparr>)
      in (case result of
            Inr _ \<Rightarrow> s1
          | Inl e \<Rightarrow> tell E (''policy rule applied in-memory but not persisted: '' @ e) s1))"

section \<open>Placing a rule\<close>

definition unwritten_because :: "('n, 'w) env \<Rightarrow> approval \<Rightarrow> string option" where
  "unwritten_because E a =
     (case a of
        Stands \<Rightarrow> None
      | Shadowed pattern \<Rightarrow>
          Some (''the rule for '' @ v_debug E pattern
            @ '' already decides this destination and the guest stops at the first matching rule'')
      | Unreachable pattern \<Rightarrow>
          Some (''this exact rule is already in the policy file, but behind the rule for '' @ v_debug E pattern
            @ '' that the guest reaches first '' @ em_dash @ '' move it ahead of that rule to stop being asked''))"

definition pre_empted_http_patterns :: "('n, 'w) env \<Rightarrow> policy \<Rightarrow> tcp_rule \<Rightarrow> string list" where
  "pre_empted_http_patterns E p rule =
     map (\<lambda>r. v_debug E (r_match r)) (http_rules_pre_empted_by (v_ipnet E) (p_network p) rule)"

definition apply_persistent_rule ::
  "('n, 'w) env \<Rightarrow> route_rule \<Rightarrow> 'w session \<Rightarrow> 'w session \<times> approval" where
  "apply_persistent_rule E rule s =
     (let (p, approval) = add_approved_rule (v_ipnet E) (s_policy s) rule;
          s1 = s\<lparr>s_policy := p\<rparr>
      in (if approval = Stands
          then s1\<lparr>s_persisted := fst (add_approved_rule (v_ipnet E) (s_persisted s) rule)\<rparr>
          else s1, approval))"

definition apply_persistent_tcp_rule ::
  "('n, 'w) env \<Rightarrow> tcp_rule \<Rightarrow> 'w session \<Rightarrow> 'w session \<times> approval \<times> string list" where
  "apply_persistent_tcp_rule E rule s =
     (let pre_empted = pre_empted_http_patterns E (s_policy s) rule;
          (p, approval) = add_approved_tcp_rule (v_ipnet E) (s_policy s) rule;
          s1 = s\<lparr>s_policy := p\<rparr>
      in (if approval = Stands
          then s1\<lparr>s_persisted := fst (add_approved_tcp_rule (v_ipnet E) (s_persisted s) rule)\<rparr>
          else s1, approval, pre_empted))"

definition settle :: "('n, 'w) env \<Rightarrow> approval \<Rightarrow> 'w session \<Rightarrow> 'w session \<times> rule_placement" where
  "settle E approval s =
     (case unwritten_because E approval of
        None \<Rightarrow> (send_policy_frame E s, Written)
      | Some why \<Rightarrow> (s, Refused why))"

definition place_raw_rule ::
  "('n, 'w) env \<Rightarrow> string \<Rightarrow> always_verdict \<Rightarrow> 'w session \<Rightarrow> 'w session \<times> rule_placement" where
  "place_raw_rule E dest verdict s =
     (case tcp_validate (v_ipnet E) (splice verdict dest) of
        Inl e \<Rightarrow> (s, Refused (rule_error_text (v_debug E) e))
      | Inr _ \<Rightarrow>
          (let (s1, approval, pre_empted) = apply_persistent_tcp_rule E (splice verdict dest) s;
               (s2, placement) = settle E approval s1
           in (if placement = Written \<and> pre_empted \<noteq> []
               then tell E (''that traffic is now spliced raw, so these HTTP rules no longer apply to it: ''
                      @ join_with '', '' pre_empted) s2
               else s2, placement)))"

definition place_always_rule ::
  "('n, 'w) env \<Rightarrow> string \<Rightarrow> bool \<Rightarrow> always_verdict \<Rightarrow> 'w session \<Rightarrow> 'w session \<times> rule_placement" where
  "place_always_rule E dest raw verdict s =
     (if raw then place_raw_rule E dest verdict s
      else (let (s1, approval) = apply_persistent_rule E (route verdict dest) s
            in settle E approval s1))"

definition report_no_rule_written :: "('n, 'w) env \<Rightarrow> string \<Rightarrow> 'w session \<Rightarrow> 'w session" where
  "report_no_rule_written E why s =
     tell E (''decision applied to this request only; no policy rule could be written: '' @ why) s"

definition apply_always_decision ::
  "('n, 'w) env \<Rightarrow> pending_entry \<Rightarrow> decision \<Rightarrow> 'w session \<Rightarrow> 'w session \<times> bool" where
  "apply_always_decision E entry d s =
     (case always_of d of
        None \<Rightarrow> (s, False)
      | Some verdict \<Rightarrow>
          (case (case pe_treatment entry of
                   Inspected \<Rightarrow> Some (pe_host entry)
                 | Raw \<Rightarrow> entry_raw_destination entry) of
             None \<Rightarrow>
               (report_no_rule_written E
                  (''the gate named the destination '' @ v_debug E (pe_action entry)
                    @ '', which this lns cannot read as a rule for '' @ v_debug E (pe_host entry)) s, False)
           | Some dest \<Rightarrow>
               (case place_always_rule E dest (pe_treatment entry = Raw) verdict s of
                  (s1, Written) \<Rightarrow> (s1, True)
                | (s1, Refused why) \<Rightarrow> (report_no_rule_written E why s1, False))))"

section \<open>Decisions\<close>

definition send_answer :: "string \<Rightarrow> pending_entry \<Rightarrow> decision \<Rightarrow> 'w session \<Rightarrow> 'w session" where
  "send_answer rid entry d s = (if pe_expired entry then s else send_decision_frame rid d s)"

definition record_approval ::
  "pending_entry \<Rightarrow> decision \<Rightarrow> string option \<Rightarrow> 'w session \<Rightarrow> 'w session" where
  "record_approval entry d why s =
     (if \<not> s_ledger s then s
      else (case ledger_decision_of d of
              None \<Rightarrow> s
            | Some ld \<Rightarrow>
                emit (Ledger \<lparr>la_target = audit_target entry, la_decision = ld,
                  la_reason = (case why of
                      Some w \<Rightarrow> Some w
                    | None \<Rightarrow> if pe_reason entry = [] then None else Some (pe_reason entry))\<rparr>) s))"

definition note_the_card ::
  "('n, 'w) env \<Rightarrow> pending_entry \<Rightarrow> decision \<Rightarrow> bool \<Rightarrow> 'w session \<Rightarrow> 'w session" where
  "note_the_card E entry d rule_stands s =
     (case (if rule_stands then always_of d else None) of
        Some verdict \<Rightarrow> note_card E entry (verdict_state verdict) s
      | None \<Rightarrow> note_if_open E entry Undecided s)"

definition record_decision ::
  "('n, 'w) env \<Rightarrow> string \<Rightarrow> decision \<Rightarrow> 'w session \<Rightarrow> 'w session \<times> decision_outcome" where
  "record_decision E rid d s =
     (case remove_pending rid s of
        (_, None) \<Rightarrow> (s, UnknownId)
      | (s1, Some entry) \<Rightarrow>
          (let s2 = emit (Dismiss rid) s1;
               (s3, rule_stands) = apply_always_decision E entry d s2;
               s4 = send_answer rid entry d s3;
               s5 = (if rule_stands then save_persisted E s4 else s4);
               s6 = note_the_card E entry d rule_stands s5
           in (record_approval entry d None s6, Resolved)))"

definition dismiss_request :: "('n, 'w) env \<Rightarrow> string \<Rightarrow> 'w session \<Rightarrow> 'w session \<times> decision_outcome" where
  "dismiss_request E rid s =
     (case remove_pending rid s of
        (_, None) \<Rightarrow> (s, UnknownId)
      | (s1, Some entry) \<Rightarrow>
          (let s2 = emit (Dismiss rid) (abandon_round E rid s1);
               s3 = send_answer rid entry Timeout s2
           in (note_if_open E entry Undecided s3, Resolved)))"

section \<open>Answers away from the card\<close>

definition remove_entry :: "('n, 'w) env \<Rightarrow> string \<Rightarrow> 'w session \<Rightarrow> 'w session \<times> remove_outcome" where
  "remove_entry E eid s =
     (let (w, out) = remove_from (entries E s) eid (s_world s) in (s\<lparr>s_world := w\<rparr>, out))"

definition take_back_rule :: "string \<Rightarrow> bool \<Rightarrow> 'w session \<Rightarrow> 'w session \<times> bool" where
  "take_back_rule dest raw s =
     (if raw
      then (let (p, running) = remove_approved_tcp_rule (s_policy s) dest;
                (q, filed) = remove_approved_tcp_rule (s_persisted s) dest
            in (s\<lparr>s_policy := p, s_persisted := q\<rparr>, filed \<or> running))
      else (let (p, running) = remove_approved_rule (s_policy s) dest;
                (q, filed) = remove_approved_rule (s_persisted s) dest
            in (s\<lparr>s_policy := p, s_persisted := q\<rparr>, filed \<or> running)))"

definition rules_as_they_stand :: "'w session \<Rightarrow> policy \<times> policy" where
  "rules_as_they_stand s = (s_policy s, s_persisted s)"

definition put_rules_back :: "policy \<times> policy \<Rightarrow> 'w session \<Rightarrow> 'w session" where
  "put_rules_back rules s = s\<lparr>s_policy := fst rules, s_persisted := snd rules\<rparr>"

definition keep :: "('n, 'w) env \<Rightarrow> entry \<Rightarrow> entry_state \<Rightarrow> 'w session \<Rightarrow> 'w session \<times> answer_outcome" where
  "keep E entry state s = (record_entry E (entry\<lparr>en_state := state\<rparr>) s, AnswerRecorded state)"

definition settle_ask_again ::
  "('n, 'w) env \<Rightarrow> entry \<Rightarrow> bool \<Rightarrow> 'w session \<Rightarrow> 'w session \<times> answer_outcome" where
  "settle_ask_again E entry held_a_rule s =
     (if \<not> held_a_rule then (s, NoRuleWritten NO_RULE_OF_ITS_OWN)
      else keep E entry Undecided (save_persisted E (send_policy_frame E s)))"

definition settle_late_answer ::
  "('n, 'w) env \<Rightarrow> entry \<Rightarrow> string \<Rightarrow> bool \<Rightarrow> always_verdict \<Rightarrow> 'w session \<Rightarrow> 'w session \<times> answer_outcome" where
  "settle_late_answer E entry dest raw verdict s =
     (case place_always_rule E dest raw verdict s of
        (s1, Written) \<Rightarrow> keep E entry (verdict_state verdict) (save_persisted E s1)
      | (s1, Refused why) \<Rightarrow> (s1, NoRuleWritten why))"

definition answer_entry :: "('n, 'w) env \<Rightarrow> string \<Rightarrow> answer \<Rightarrow> 'w session \<Rightarrow> 'w session \<times> answer_outcome" where
  "answer_entry E eid a s =
     (case List.find (\<lambda>held. en_id held = eid) (listed E s) of
        None \<Rightarrow> (s, AnswerUnknownId)
      | Some entry \<Rightarrow>
          (case en_kind entry of
             Destination dest _ raw \<Rightarrow>
               (let before = rules_as_they_stand s;
                    (s1, held_a_rule) = take_back_rule dest raw s
                in (case answer_always a of
                      None \<Rightarrow> settle_ask_again E entry held_a_rule s1
                    | Some verdict \<Rightarrow>
                        (case settle_late_answer E entry dest raw verdict s1 of
                           (s2, NoRuleWritten why) \<Rightarrow> (put_rules_back before s2, NoRuleWritten why)
                         | settled \<Rightarrow> settled)))
           | _ \<Rightarrow> (s, NotAnswerable)))"

section \<open>Offers and new requests\<close>

definition answered_here :: "('n, 'w) env \<Rightarrow> policy \<Rightarrow> string \<Rightarrow> bool" where
  "answered_here E own shared =
     (case first_denied_within (v_ipnet E) (p_network own) shared of
        Some denied \<Rightarrow> eq_ignore_ascii_case denied shared
      | None \<Rightarrow> False)"

definition overridden_by :: "('n, 'w) env \<Rightarrow> connector_method_view \<Rightarrow> 'w session \<Rightarrow> string list option" where
  "overridden_by E method s =
     map_option (\<lambda>shipped.
       filter (\<lambda>shared. \<not> answered_here E (s_persisted s) shared)
         (List.map_filter (first_denied_within (v_ipnet E) (p_network shipped)) (cm_opens method)))
       (s_shipped s)"

definition with_overrides :: "('n, 'w) env \<Rightarrow> connector_view \<Rightarrow> 'w session \<Rightarrow> connector_view" where
  "with_overrides E connector s =
     connector\<lparr>cv_methods := map (\<lambda>m. m\<lparr>cm_overrides := overridden_by E m s\<rparr>) (cv_methods connector)\<rparr>"

definition offer_named :: "('n, 'w) env \<Rightarrow> string \<Rightarrow> 'w session \<Rightarrow> connector_view option" where
  "offer_named E n s =
     map_option (\<lambda>held. with_overrides E held s) (List.find (\<lambda>offer. cv_name offer = n) (s_offers s))"

definition offer_for ::
  "('n, 'w) env \<Rightarrow> request_pending \<Rightarrow> 'w session \<Rightarrow> 'w session \<times> connector_view option" where
  "offer_for E req s =
     (let dest = offered_destination req
      in (case offers_for (v_ipnet E) dest (s_offers s) of
            One connector \<Rightarrow> (s, Some (with_overrides E connector s))
          | NoOffer \<Rightarrow> (s, None)
          | Ambiguous cs \<Rightarrow>
              (inform_once E (join_with '' and '' cs @ '' both serve '' @ dest
                 @ '', so neither is offered; uninstall one'') s, None)))"

definition submit_pending :: "('n, 'w) env \<Rightarrow> request_pending \<Rightarrow> nat \<Rightarrow> 'w session \<Rightarrow> 'w session" where
  "submit_pending E req now s =
     (if hm_get (s_pending s) (rp_id req) \<noteq> None then s
      else
       (let raised = \<lparr>pe_host = rp_host req, pe_action = rp_action req, pe_treatment = rp_treatment req,
              pe_deadline = now + s_timeout s, pe_reason = rp_reason req, pe_offer = None, pe_expired = False\<rparr>;
            s1 = s\<lparr>s_pending := hm_insert (rp_id req) raised (s_pending s)\<rparr>;
            s2 = reopen_unless_decided E raised s1;
            (s3, offer) = offer_for E req s2;
            s4 = (case offer of
                    None \<Rightarrow> s3
                  | Some c \<Rightarrow>
                      (let s' = note_connector_if_open E (cv_name c) s3
                       in (case hm_get (s_pending s') (rp_id req) of
                             Some entry \<Rightarrow> s'\<lparr>s_pending := hm_insert (rp_id req) (entry\<lparr>pe_offer := Some c\<rparr>) (s_pending s')\<rparr>
                           | None \<Rightarrow> s')))
        in emit (Present \<lparr>pp_id = rp_id req, pp_host = rp_host req, pp_action = rp_action req,
             pp_treatment = rp_treatment req, pp_run = s_run s4, pp_offer = offer, pp_connect = None,
             pp_connect_seq = settled_count (rp_id req) s4\<rparr>) s4))"

section \<open>Grants\<close>

definition report_invalidated :: "('n, 'w) env \<Rightarrow> string list \<Rightarrow> 'w session \<Rightarrow> 'w session" where
  "report_invalidated E invalidated s =
     (if invalidated = [] then s
      else tell E (''this connection no longer covers what '' @ join_with '', '' invalidated
             @ '' granted, so '' @ (if length invalidated = 1 then ''it'' else ''they'')
             @ '' must decide again'') s)"

definition resolve_connection ::
  "('n, 'w) env \<Rightarrow> string \<Rightarrow> string \<Rightarrow> connection_choice \<Rightarrow> 'w session \<Rightarrow> 'w session \<times> (string + string option)" where
  "resolve_connection E n method connection s =
     (case connection of
        NoConnection \<Rightarrow> (s, Inr None)
      | Held label \<Rightarrow> (s, Inr (Some label))
      | New label vals \<Rightarrow>
          (let (w, result) = v_connect E n method label vals (s_world s);
               s1 = s\<lparr>s_world := w\<rparr>
           in (case result of
                 Inl e \<Rightarrow> (s1, Inl e)
               | Inr invalidated \<Rightarrow> (report_invalidated E invalidated s1, Inr (Some label)))))"

definition release_one :: "string \<Rightarrow> string \<Rightarrow> 'w session \<Rightarrow> 'w session" where
  "release_one connector rid s =
     (case remove_pending rid (emit (Dismiss rid) s) of
        (s1, None) \<Rightarrow> s1
      | (s1, Some entry) \<Rightarrow>
          record_approval entry AllowOnce (Some (''granted '' @ connector)) (send_answer rid entry AllowOnce s1))"

definition release :: "string \<Rightarrow> string list \<Rightarrow> 'w session \<Rightarrow> 'w session" where
  "release connector ids s = foldl (\<lambda>acc rid. release_one connector rid acc) s ids"

definition grant_the ::
  "('n, 'w) env \<Rightarrow> connector_view \<Rightarrow> string \<Rightarrow> connection_choice \<Rightarrow> 'w session \<Rightarrow> 'w session \<times> decision_outcome" where
  "grant_the E offer method connection s =
     (if \<not> s_connectors s then (emit (Inform NO_CONNECTOR_STORE) s, Resolved)
      else (case resolve_connection E (cv_name offer) method connection s of
              (s1, Inl why) \<Rightarrow> (tell E why s1, Resolved)
            | (s1, Inr label) \<Rightarrow>
                (let held = held_for (cv_name offer) s1;
                     (w, result) = v_grant E (cv_name offer) (cv_digest offer) method label (s_world s1);
                     s2 = s1\<lparr>s_world := w\<rparr>
                 in (case result of
                       Inr opened \<Rightarrow>
                         (let s3 = forget_offer E (cv_name offer) s2;
                              s4 = note_connector E (cv_name offer) Granted s3;
                              s5 = apply_granted_egress E (cv_name offer) opened s4
                          in (release (cv_name offer) held s5, Resolved))
                     | Inl why \<Rightarrow> (tell E why s2, Resolved)))))"

definition grant_offer ::
  "('n, 'w) env \<Rightarrow> string \<Rightarrow> string \<Rightarrow> connection_choice \<Rightarrow> 'w session \<Rightarrow> 'w session \<times> decision_outcome" where
  "grant_offer E rid method connection s =
     (case offer_of rid s of
        Some offer \<Rightarrow> grant_the E offer method connection (abandon_round E rid s)
      | None \<Rightarrow> (s, UnknownId))"

definition grant_offered ::
  "('n, 'w) env \<Rightarrow> string \<Rightarrow> string \<Rightarrow> connection_choice \<Rightarrow> 'w session \<Rightarrow> 'w session \<times> decision_outcome" where
  "grant_offered E n method connection s =
     (case offer_named E n s of
        Some offer \<Rightarrow> grant_the E offer method connection s
      | None \<Rightarrow> (s, UnknownId))"

definition decline_offer :: "('n, 'w) env \<Rightarrow> string \<Rightarrow> 'w session \<Rightarrow> 'w session \<times> decision_outcome" where
  "decline_offer E rid s =
     (case offer_of rid s of
        None \<Rightarrow> (s, UnknownId)
      | Some offer \<Rightarrow>
          (let s1 = abandon_round E rid s;
               (w, result) = (if s_connectors s1 then v_decline E (cv_name offer) (s_world s1)
                              else (s_world s1, Inr ()));
               s2 = s1\<lparr>s_world := w\<rparr>
           in (case result of
                 Inl why \<Rightarrow> (tell E why s2, Resolved)
               | Inr _ \<Rightarrow>
                   (let held = held_for (cv_name offer) s2;
                        s3 = forget_offer E (cv_name offer) s2;
                        s4 = note_connector E (cv_name offer) Declined s3
                    in (represent held (send_policy_frame E s4), Resolved)))))"

section \<open>Sign-in rounds\<close>

definition hold_ask ::
  "string \<Rightarrow> connector_view \<Rightarrow> string \<Rightarrow> string \<Rightarrow> oauth_progress option \<Rightarrow> string
     \<Rightarrow> connector_field_view list \<Rightarrow> bool \<Rightarrow> 'w session \<Rightarrow> 'w session" where
  "hold_ask rid offer method handle progress message flds from_code s =
     hold_round rid
       \<lparr>or_offer = offer, or_method = method, or_handle = handle,
        or_ask = \<lparr>ca_oauth = progress, ca_connector = cv_name offer, ca_method = method,
          ca_message = message, ca_fields = flds, ca_from_code = from_code\<rparr>\<rparr> s"

definition settle_round ::
  "('n, 'w) env \<Rightarrow> string \<Rightarrow> connector_view \<Rightarrow> string \<Rightarrow> string + connect_round \<Rightarrow> 'w session
     \<Rightarrow> 'w session \<times> decision_outcome" where
  "settle_round E rid offer method rnd s =
     (let s0 = count_settled rid s
      in (case rnd of
            Inr (Pending handle progress) \<Rightarrow>
              if \<not> still_holding rid (cv_name offer) s0 then (abandon_handle E handle s0, Resolved)
              else
               (let s1 = (if progress = Canceled \<or> progress = Expired
                          then tell E (if progress = Canceled then ''OAuth authorization canceled''
                                       else ''OAuth authorization expired'') (abandon_handle E handle s0)
                          else hold_ask rid offer method handle (Some progress) [] [] False s0)
                in (represent [rid] s1, Resolved))
          | Inr (Asks handle message flds from_code) \<Rightarrow>
              if \<not> still_holding rid (cv_name offer) s0 then (abandon_handle E handle s0, Resolved)
              else (represent [rid] (hold_ask rid offer method handle None message flds from_code s0), Resolved)
          | Inr (Connected connection invalidated) \<Rightarrow>
              (let s1 = report_invalidated E invalidated s0
               in if \<not> still_holding rid (cv_name offer) s1
                  then (tell E (''the connection '' @ connection
                          @ '' was kept, but this card is gone, so '' @ cv_name offer
                          @ '' was granted to nothing'') s1, Resolved)
                  else
                   (let (s2, outcome) = grant_the E offer method (Held connection) s1
                    in (if offer_of rid s2 \<noteq> None then represent [rid] s2 else s2, outcome)))
          | Inr (RoundFailed reason) \<Rightarrow> (represent [rid] (tell E reason s0), Resolved)
          | Inl reason \<Rightarrow> (represent [rid] (tell E reason s0), Resolved)))"

definition begin_connect ::
  "('n, 'w) env \<Rightarrow> string \<Rightarrow> string \<Rightarrow> string \<Rightarrow> 'w session \<Rightarrow> 'w session \<times> decision_outcome" where
  "begin_connect E rid method label s =
     (case offer_of rid s of
        None \<Rightarrow> (s, UnknownId)
      | Some offer \<Rightarrow>
          if \<not> s_connect_rounds s
          then (represent [rid] (tell E NO_CONNECTOR_STORE (count_settled rid s)), Resolved)
          else
           (let s1 = abandon_round E rid s;
                (w, opened) = v_begin_connect E (cv_name offer) method label (s_world s1)
            in settle_round E rid offer method opened (s1\<lparr>s_world := w\<rparr>)))"

definition answer_connect ::
  "('n, 'w) env \<Rightarrow> string \<Rightarrow> secret_values \<Rightarrow> 'w session \<Rightarrow> 'w session \<times> decision_outcome" where
  "answer_connect E rid vals s =
     (case forget_round rid s of
        (_, None) \<Rightarrow>
          (if prompt_of rid s \<noteq> None then represent [rid] (count_settled rid s) else s, UnknownId)
      | (s1, Some open) \<Rightarrow>
          (let (w, answered) = v_answer_connect E (or_handle open) vals (s_world s1);
               s2 = s1\<lparr>s_world := w\<rparr>;
               s3 = (if is_ok answered then s2 else abandon_handle E (or_handle open) s2)
           in settle_round E rid (or_offer open) (or_method open) answered s3))"

definition open_connect_browser :: "('n, 'w) env \<Rightarrow> string \<Rightarrow> 'w session \<Rightarrow> 'w session" where
  "open_connect_browser E rid s =
     (case round_of rid s of
        None \<Rightarrow> s
      | Some open \<Rightarrow>
          (let (w, result) = v_open_browser E (or_handle open) (s_world s);
               s1 = s\<lparr>s_world := w\<rparr>
           in (case result of Inl why \<Rightarrow> tell E why s1 | Inr _ \<Rightarrow> s1)))"

definition poll_one :: "('n, 'w) env \<Rightarrow> string \<times> open_round \<Rightarrow> 'w session \<Rightarrow> 'w session" where
  "poll_one E ro s =
     (let (rid, open) = ro;
          (w, rnd) = v_poll_connect E (or_handle open) (s_world s);
          s1 = s\<lparr>s_world := w\<rparr>;
          unchanged = (case rnd of
              Inr (Pending _ progress) \<Rightarrow> Some progress = ca_oauth (or_ask open)
            | _ \<Rightarrow> False)
      in if unchanged then s1
         else (case hm_get (s_rounds s1) rid of
                 Some current \<Rightarrow>
                   if or_handle current = or_handle open
                   then fst (settle_round E rid (or_offer open) (or_method open) rnd
                              (s1\<lparr>s_rounds := hm_remove rid (s_rounds s1)\<rparr>))
                   else s1
               | None \<Rightarrow> s1))"

definition poll_native_rounds :: "('n, 'w) env \<Rightarrow> 'w session \<Rightarrow> 'w session" where
  "poll_native_rounds E s =
     foldl (\<lambda>acc ro. poll_one E ro acc) s
       (filter (\<lambda>(_, open). ca_oauth (or_ask open) \<noteq> None) (s_rounds s))"

section \<open>Time\<close>

definition second :: nat where
  "second = 1000000000"

definition duration_max :: nat where
  "duration_max = (2 ^ 64 - 1) * second + 999999999"

definition saturating_add :: "nat \<Rightarrow> nat \<Rightarrow> nat" where
  "saturating_add a b = min (a + b) duration_max"

definition replace_changed :: "'a \<Rightarrow> 'a \<Rightarrow> 'a \<times> bool" where
  "replace_changed state current = (if state = current then (state, False) else (current, True))"

definition refresh_connector_supply :: "('n, 'w) env \<Rightarrow> 'w session \<Rightarrow> 'w session" where
  "refresh_connector_supply E s =
     (if \<not> s_connectors s then s
      else
       (let (w1, supply) = v_current_supply E (s_world s);
            (granted, supply_changed) = (case supply of
                Some current \<Rightarrow> replace_changed (s_granted s) current
              | None \<Rightarrow> (s_granted s, False));
            (w2, listing) = v_current_offers E w1;
            (offers, offers_changed) = (case listing of
                Some current \<Rightarrow> replace_changed (s_offers s) current
              | None \<Rightarrow> (s_offers s, False));
            s1 = s\<lparr>s_world := w2, s_granted := granted, s_offers := offers\<rparr>
        in if \<not> supply_changed \<and> \<not> offers_changed then s1
           else
            (let s2 = s1\<lparr>s_policy := effective_over (s_persisted s1) s1\<rparr>;
                 message = policy_message_of E s2;
                 layer = (case granted_layer s2 of Some g \<Rightarrow> g | None \<Rightarrow> default_payload);
                 message = (if supply_changed
                            then message\<lparr>pm_credentials := Some (gp_credentials layer),
                                   pm_env := Some (gp_env layer), pm_files := Some (gp_files layer)\<rparr>
                            else message)
             in emit (Frame (host_frame.Policy message)) s2)))"

definition refresh_connector_supply_due :: "('n, 'w) env \<Rightarrow> nat \<Rightarrow> 'w session \<Rightarrow> 'w session" where
  "refresh_connector_supply_due E elapsed s =
     (if elapsed < s_next_refresh s then s
      else
       (let s1 = s\<lparr>s_next_refresh := saturating_add elapsed (30 * second)\<rparr>;
            s2 = refresh_connector_supply E s1
        in if s_connectors s2
           then (let due = saturating_add elapsed (min (v_refresh_after E (s_world s2)) (30 * second))
                 in s2\<lparr>s_next_refresh := min (s_next_refresh s2) due\<rparr>)
           else s2))"

definition keep_offer :: "string \<Rightarrow> pending_entry \<Rightarrow> 'w session \<Rightarrow> 'w session" where
  "keep_offer rid entry s = s\<lparr>s_pending := hm_insert rid (entry\<lparr>pe_expired := True\<rparr>) (s_pending s)\<rparr>"

definition timeout_one :: "('n, 'w) env \<Rightarrow> string \<Rightarrow> 'w session \<Rightarrow> 'w session \<times> bool" where
  "timeout_one E rid s =
     (case remove_pending rid s of
        (_, None) \<Rightarrow> (s, False)
      | (s1, Some entry) \<Rightarrow>
          (let s2 = note_if_open E entry Undecided s1;
               s3 = (if pe_offer entry \<noteq> None then emit (Expire rid) (keep_offer rid entry s2)
                     else emit (Dismiss rid) s2)
           in (send_decision_frame rid Timeout s3, True)))"

definition timeout_all :: "('n, 'w) env \<Rightarrow> string list \<Rightarrow> 'w session \<Rightarrow> 'w session \<times> nat" where
  "timeout_all E ids s =
     foldl (\<lambda>(acc, n) rid. let (acc', hit) = timeout_one E rid acc in (acc', if hit then Suc n else n))
       (s, 0) ids"

definition due_ids :: "nat \<Rightarrow> 'w session \<Rightarrow> string list" where
  "due_ids now s = map fst (filter (\<lambda>(_, entry). \<not> pe_expired entry \<and> pe_deadline entry \<le> now) (s_pending s))"

definition tick_timeouts :: "('n, 'w) env \<Rightarrow> nat \<Rightarrow> 'w session \<Rightarrow> 'w session \<times> nat" where
  "tick_timeouts E now s =
     (let s1 = poll_native_rounds E s;
          start = (case s_connector_clock s1 of Some t \<Rightarrow> t | None \<Rightarrow> now);
          s2 = s1\<lparr>s_connector_clock := Some start\<rparr>;
          s3 = refresh_connector_supply_due E (now - start) s2
      in timeout_all E (due_ids now s3) s3)"

section \<open>The end of a run\<close>

definition withdraw_one :: "('n, 'w) env \<Rightarrow> string \<times> pending_entry \<Rightarrow> 'w session \<Rightarrow> 'w session" where
  "withdraw_one E held s = emit (Dismiss (fst held)) (note_if_open E (snd held) Withdrawn s)"

definition withdraw_run :: "('n, 'w) env \<Rightarrow> 'w session \<Rightarrow> 'w session" where
  "withdraw_run E s =
     (let s1 = s\<lparr>s_withdrawn := True, s_pending := []\<rparr>;
          s2 = foldl (\<lambda>acc held. withdraw_one E held acc) s1 (s_pending s)
      in emit ClearInforms (abandon_every_round E s2))"

end
