(* ===== verification/Session_Runs.thy ===== *)
theory Session_Runs
  imports Approval_Session
begin

text \<open>
  The approval session as a state machine: one command per public method of the session, runs as
  sequences of commands, and the properties every run has. Each held request is answered exactly
  once, the guest's table is always the running policy, an answer that writes nothing changes
  nothing, and a run that is gone is told nothing.
\<close>

section \<open>Commands and runs\<close>

datatype command =
    Submit request_pending nat
  | Decide string decision
  | CloseCard string
  | AnswerEntry string answer
  | RemoveEntry string
  | GrantOffer string string connection_choice
  | GrantOffered string string connection_choice
  | DeclineOffer string
  | BeginConnect string string string
  | AnswerConnect string secret_values
  | OpenBrowser string
  | Tick nat
  | ExternalPolicy policy
  | GrantedEgress string granted_payload
  | Withdraw

fun step :: "('n, 'w) env \<Rightarrow> command \<Rightarrow> 'w session \<Rightarrow> 'w session" where
  "step E (Submit req now) s = submit_pending E req now s"
| "step E (Decide rid d) s = fst (record_decision E rid d s)"
| "step E (CloseCard rid) s = fst (dismiss_request E rid s)"
| "step E (AnswerEntry eid a) s = fst (answer_entry E eid a s)"
| "step E (RemoveEntry eid) s = fst (remove_entry E eid s)"
| "step E (GrantOffer rid method c) s = fst (grant_offer E rid method c s)"
| "step E (GrantOffered n method c) s = fst (grant_offered E n method c s)"
| "step E (DeclineOffer rid) s = fst (decline_offer E rid s)"
| "step E (BeginConnect rid method label) s = fst (begin_connect E rid method label s)"
| "step E (AnswerConnect rid vals) s = fst (answer_connect E rid vals s)"
| "step E (OpenBrowser rid) s = open_connect_browser E rid s"
| "step E (Tick now) s = fst (tick_timeouts E now s)"
| "step E (ExternalPolicy p) s = apply_external_policy E p s"
| "step E (GrantedEgress n g) s = apply_granted_egress E n g s"
| "step E Withdraw s = withdraw_run E s"

inductive reachable :: "('n, 'w) env \<Rightarrow> 'w session \<Rightarrow> 'w session \<Rightarrow> bool" for E start where
  reach_start: "reachable E start start"
| reach_step: "reachable E start s \<Longrightarrow> reachable E start (step E c s)"

fun run :: "('n, 'w) env \<Rightarrow> command list \<Rightarrow> 'w session \<Rightarrow> 'w session" where
  "run E [] s = s"
| "run E (c # cs) s = run E cs (step E c s)"

inductive_cases reachable_stepE: "reachable E start t"

section \<open>What a request is owed\<close>

fun is_decision :: "effect \<Rightarrow> bool" where
  "is_decision (Frame (RequestDecision _)) = True"
| "is_decision _ = False"

fun answers :: "string \<Rightarrow> effect \<Rightarrow> bool" where
  "answers rid (Frame (RequestDecision rd)) = (rd_id rd = rid)"
| "answers rid _ = False"

definition answered :: "string \<Rightarrow> 'w session \<Rightarrow> nat" where
  "answered rid s = length (filter (answers rid) (s_out s))"

definition waiting :: "string \<Rightarrow> 'w session \<Rightarrow> nat" where
  "waiting rid s =
     (case hm_get (s_pending s) rid of Some e \<Rightarrow> if pe_expired e then 0 else 1 | None \<Rightarrow> 0)"

definition owed :: "string \<Rightarrow> 'w session \<Rightarrow> nat" where
  "owed rid s = answered rid s + waiting rid s"

text \<open>What the accounting reads of a state; everything else a method does leaves it alone.\<close>

definition account :: "'w session \<Rightarrow> (string, pending_entry) hmap \<times> effect list" where
  "account s = (s_pending s, filter is_decision (s_out s))"

lemma answers_decision: "answers rid e \<Longrightarrow> is_decision e"
  by (cases "(rid, e)" rule: answers.cases) auto

lemma answers_filtered: "filter (answers rid) (filter is_decision xs) = filter (answers rid) xs"
  by (induction xs) (auto dest: answers_decision)

lemma account_owed:
  assumes "account s = account t"
  shows "owed rid s = owed rid t"
proof -
  have "filter is_decision (s_out s) = filter is_decision (s_out t)" and p: "s_pending s = s_pending t"
    using assms by (simp_all add: account_def)
  then have "filter (answers rid) (s_out s) = filter (answers rid) (s_out t)"
    by (metis answers_filtered)
  with p show ?thesis by (simp add: owed_def answered_def waiting_def)
qed

lemma account_updates [simp]:
  "account (s\<lparr>s_world := w\<rparr>) = account s" "account (s\<lparr>s_policy := p\<rparr>) = account s"
  "account (s\<lparr>s_persisted := p\<rparr>) = account s" "account (s\<lparr>s_rounds := r\<rparr>) = account s"
  "account (s\<lparr>s_settled := n\<rparr>) = account s" "account (s\<lparr>s_offers := os\<rparr>) = account s"
  "account (s\<lparr>s_granted := g\<rparr>) = account s" "account (s\<lparr>s_next_refresh := k\<rparr>) = account s"
  "account (s\<lparr>s_said := sd\<rparr>) = account s" "account (s\<lparr>s_connector_clock := ck\<rparr>) = account s"
  "account (s\<lparr>s_withdrawn := b\<rparr>) = account s"
  by (simp_all add: account_def)

lemma emit_fields [simp]:
  "s_policy (emit e s) = s_policy s" "s_persisted (emit e s) = s_persisted s"
  "s_pending (emit e s) = s_pending s" "s_timeout (emit e s) = s_timeout s"
  "s_ledger (emit e s) = s_ledger s" "s_shipped (emit e s) = s_shipped s"
  "s_granted (emit e s) = s_granted s" "s_connectors (emit e s) = s_connectors s"
  "s_offers (emit e s) = s_offers s" "s_entries (emit e s) = s_entries s"
  "s_run (emit e s) = s_run s" "s_rounds (emit e s) = s_rounds s"
  "s_settled (emit e s) = s_settled s" "s_withdrawn (emit e s) = s_withdrawn s"
  "s_world (emit e s) = s_world s" "s_out (emit e s) = s_out s @ [e]"
  by (simp_all add: emit_def)

lemma account_emit [simp]: "\<not> is_decision e \<Longrightarrow> account (emit e s) = account s"
  by (simp add: account_def emit_def)

lemma account_foldl: "(\<And>x acc. account (f acc x) = account acc) \<Longrightarrow> account (foldl f s xs) = account s"
  by (induction xs arbitrary: s) auto

lemma account_entries [simp]:
  "account (record_entry E e s) = account s" "account (note_card E pe st s) = account s"
  "account (note_if_open E pe st s) = account s" "account (reopen_unless_decided E pe s) = account s"
  "account (note_connector E n st s) = account s" "account (note_connector_if_open E n s) = account s"
  "account (tell E m s) = account s" "account (inform_once E m s) = account s"
  by (simp_all add: record_entry_def note_card_def note_if_open_def reopen_unless_decided_def
      note_connector_def note_connector_if_open_def tell_def inform_once_def Let_def)

lemma account_rounds [simp]:
  "account (hold_round rid r s) = account s" "account (abandon_handle E h s) = account s"
  "account (abandon_round E rid s) = account s" "account (abandon_every_round E s) = account s"
  "account (count_settled rid s) = account s"
  by (auto simp: hold_round_def abandon_handle_def abandon_round_def forget_round_def
      abandon_every_round_def count_settled_def split: option.splits intro!: trans [OF account_foldl])

lemma account_cards [simp]:
  "account (represent_one rid s) = account s" "account (represent ids s) = account s"
  by (auto simp: represent_def represent_one_def intro!: account_foldl split: option.splits)

lemma account_policy [simp]:
  "account (send_policy_frame E s) = account s" "account (save_persisted E s) = account s"
  "account (apply_external_policy E p s) = account s" "account (apply_granted_egress E n g s) = account s"
  "account (report_no_rule_written E why s) = account s" "account (report_invalidated E ivs s) = account s"
  by (auto simp: send_policy_frame_def save_persisted_def apply_external_policy_def apply_granted_egress_def
      report_no_rule_written_def report_invalidated_def Let_def split: prod.splits sum.splits)

lemma account_ledger [simp]: "account (record_approval e d why s) = account s"
  by (simp add: record_approval_def split: option.splits)

lemma account_placing [simp]:
  "account (fst (settle E a s)) = account s" "account (fst (apply_persistent_rule E r s)) = account s"
  "account (fst (apply_persistent_tcp_rule E t s)) = account s"
  "account (fst (take_back_rule dest raw s)) = account s" "account (put_rules_back rules s) = account s"
  by (simp_all add: settle_def apply_persistent_rule_def apply_persistent_tcp_rule_def take_back_rule_def
      put_rules_back_def Let_def split: option.splits prod.splits)

lemma account_place_raw [simp]: "account (fst (place_raw_rule E dest v s)) = account s"
proof (cases "tcp_validate (v_ipnet E) (splice v dest)")
  case (Inr u)
  obtain s1 a pre where 1: "apply_persistent_tcp_rule E (splice v dest) s = (s1, a, pre)"
    by (cases "apply_persistent_tcp_rule E (splice v dest) s") auto
  obtain s2 pl where 2: "settle E a s1 = (s2, pl)" by (cases "settle E a s1")
  have "account s1 = account s" by (metis 1 account_placing fst_conv)
  moreover have "account s2 = account s1" by (metis 2 account_placing fst_conv)
  ultimately show ?thesis using Inr 1 2 by (simp add: place_raw_rule_def)
qed (simp add: place_raw_rule_def)

lemma account_place [simp]: "account (fst (place_always_rule E dest raw v s)) = account s"
proof (cases raw)
  case False
  obtain s1 a where 1: "apply_persistent_rule E (route v dest) s = (s1, a)"
    by (cases "apply_persistent_rule E (route v dest) s")
  have "account s1 = account s" by (metis 1 account_placing fst_conv)
  with False 1 show ?thesis by (simp add: place_always_rule_def)
qed (simp add: place_always_rule_def)

lemma account_always [simp]: "account (fst (apply_always_decision E e d s)) = account s"
proof -
  have "account (fst (case place_always_rule E dest raw v s of
      (s1, Written) \<Rightarrow> (s1, True) | (s1, Refused why) \<Rightarrow> (report_no_rule_written E why s1, False))) = account s"
    for dest raw v
    using account_place [of E dest raw v s]
    by (cases "place_always_rule E dest raw v s") (auto split: rule_placement.splits)
  then show ?thesis by (auto simp: apply_always_decision_def split: option.splits)
qed

lemma account_late [simp]:
  "account (fst (keep E en st s)) = account s"
  "account (fst (settle_ask_again E en h s)) = account s"
  by (simp_all add: keep_def settle_ask_again_def)

lemma account_late_answer [simp]: "account (fst (settle_late_answer E en dest raw v s)) = account s"
proof -
  obtain s1 pl where 1: "place_always_rule E dest raw v s = (s1, pl)"
    by (cases "place_always_rule E dest raw v s")
  then have "account s1 = account s" by (metis account_place fst_conv)
  with 1 show ?thesis by (cases pl) (simp_all add: settle_late_answer_def)
qed

lemma account_answer_entry [simp]: "account (fst (answer_entry E eid a s)) = account s"
proof -
  have late: "account (fst (case settle_late_answer E en dest raw v t of
        (s2, NoRuleWritten why) \<Rightarrow> (put_rules_back before s2, NoRuleWritten why) | r \<Rightarrow> r)) = account t"
    for en dest raw v t before
    using account_late_answer [of E en dest raw v t]
    by (cases "settle_late_answer E en dest raw v t") (auto split: answer_outcome.splits)
  show ?thesis
  proof (cases "List.find (\<lambda>held. en_id held = eid) (listed E s)")
    case (Some entry)
    show ?thesis
    proof (cases "en_kind entry")
      case (Destination dest act raw)
      obtain s1 h where 1: "take_back_rule dest raw s = (s1, h)" by (cases "take_back_rule dest raw s")
      then have "account s1 = account s" by (metis account_placing(4) fst_conv)
      with Some Destination 1 late show ?thesis
        by (cases "answer_always a") (simp_all add: answer_entry_def Let_def)
    qed (use Some in \<open>simp_all add: answer_entry_def\<close>)
  qed (simp add: answer_entry_def)
qed

lemma account_misc [simp]:
  "account (fst (remove_entry E eid s)) = account s"
  "account (open_connect_browser E rid s) = account s"
  "account (refresh_connector_supply E s) = account s"
  "account (refresh_connector_supply_due E n s) = account s"
proof -
  show 1: "account (refresh_connector_supply E s) = account s" for s
    by (auto simp: refresh_connector_supply_def replace_changed_def Let_def split: prod.splits option.splits)
  show "account (refresh_connector_supply_due E n s) = account s"
    by (simp add: refresh_connector_supply_due_def Let_def 1)
qed (auto simp: remove_entry_def open_connect_browser_def Let_def split: prod.splits option.splits sum.splits)

section \<open>Every method keeps the account\<close>

definition conserves :: "'w session \<Rightarrow> 'w session \<Rightarrow> bool" where
  "conserves s t \<longleftrightarrow>
     (hm_wf (s_pending s) \<longrightarrow> hm_wf (s_pending t) \<and> (\<forall>rid. owed rid t = owed rid s))"

lemma conserves_refl [simp]: "conserves s s"
  by (simp add: conserves_def)

lemma conserves_trans [trans]: "conserves s t \<Longrightarrow> conserves t u \<Longrightarrow> conserves s u"
  by (simp add: conserves_def)

lemma account_conserves: "account t = account s \<Longrightarrow> conserves s t"
  using account_owed [of t s] by (auto simp: conserves_def) (simp add: account_def)

lemma conserves_account: "conserves s t \<Longrightarrow> account u = account t \<Longrightarrow> conserves s u"
  using account_conserves conserves_trans by blast

lemma owed_decision [simp]:
  "owed rid (send_decision_frame r d s) = owed rid s + (if r = rid then 1 else 0)"
  by (simp add: send_decision_frame_def emit_def owed_def answered_def waiting_def)

lemma owed_removed:
  "owed rid s = owed rid (s\<lparr>s_pending := hm_remove r (s_pending s)\<rparr>) + (if r = rid then waiting r s else 0)"
  by (auto simp: owed_def answered_def waiting_def hm_get_remove)

lemma answering_conserves:
  assumes e: "hm_get (s_pending s) r = Some e"
    and t: "account t = account (s\<lparr>s_pending := hm_remove r (s_pending s)\<rparr>)"
  shows "conserves s (send_answer r e d t)"
  unfolding conserves_def
proof (intro impI conjI allI)
  assume wf: "hm_wf (s_pending s)"
  have p: "s_pending t = hm_remove r (s_pending s)" using t by (simp add: account_def)
  then show "hm_wf (s_pending (send_answer r e d t))"
    using wf by (simp add: send_answer_def send_decision_frame_def emit_def distinct_delete)
  fix rid
  have "owed rid t = owed rid (s\<lparr>s_pending := hm_remove r (s_pending s)\<rparr>)" using t by (rule account_owed)
  then show "owed rid (send_answer r e d t) = owed rid s"
    using owed_removed [of rid s r] e by (auto simp: send_answer_def waiting_def)
qed

lemma record_decision_conserves: "conserves s (fst (record_decision E rid d s))"
proof (cases "hm_get (s_pending s) rid")
  case (Some e)
  let ?s2 = "emit (Dismiss rid) (s\<lparr>s_pending := hm_remove rid (s_pending s)\<rparr>)"
  obtain s3 b where 3: "apply_always_decision E e d ?s2 = (s3, b)"
    by (cases "apply_always_decision E e d ?s2")
  have "account s3 = account (s\<lparr>s_pending := hm_remove rid (s_pending s)\<rparr>)"
    using account_always [of E e d ?s2] 3 by simp
  then have "conserves s (send_answer rid e d s3)" by (rule answering_conserves [OF Some])
  moreover have "account (fst (record_decision E rid d s)) = account (send_answer rid e d s3)"
    using Some 3
    by (simp add: record_decision_def remove_pending_def Let_def note_the_card_def split: option.splits)
  ultimately show ?thesis by (rule conserves_account)
qed (simp add: record_decision_def remove_pending_def)

lemma dismiss_request_conserves: "conserves s (fst (dismiss_request E rid s))"
proof (cases "hm_get (s_pending s) rid")
  case (Some e)
  let ?s2 = "emit (Dismiss rid) (abandon_round E rid (s\<lparr>s_pending := hm_remove rid (s_pending s)\<rparr>))"
  have "conserves s (send_answer rid e Timeout ?s2)" by (rule answering_conserves [OF Some]) simp
  then show ?thesis
    by (rule conserves_account) (simp add: dismiss_request_def remove_pending_def Some Let_def)
qed (simp add: dismiss_request_def remove_pending_def)

lemma release_one_conserves: "conserves s (release_one c rid s)"
proof (cases "hm_get (s_pending s) rid")
  case (Some e)
  let ?s1 = "(emit (Dismiss rid) s)\<lparr>s_pending := hm_remove rid (s_pending s)\<rparr>"
  have "conserves s (send_answer rid e AllowOnce ?s1)"
    by (rule answering_conserves [OF Some]) (simp add: account_def)
  then show ?thesis
    by (rule conserves_account) (simp add: release_one_def remove_pending_def Some)
next
  case None
  then have "hm_remove rid (s_pending s) = s_pending s"
    by (simp add: delete_id map_of_eq_None_iff)
  with None show ?thesis
    by (intro account_conserves) (simp add: release_one_def remove_pending_def account_def)
qed

lemma foldl_conserves: "(\<And>x acc. conserves acc (f acc x)) \<Longrightarrow> conserves s (foldl f s xs)"
proof (induction xs arbitrary: s)
  case (Cons x xs)
  show ?case using conserves_trans [OF Cons.prems [of s x] Cons.IH [OF Cons.prems]] by simp
qed simp

lemma release_conserves: "conserves s (release c ids s)"
  unfolding release_def by (rule foldl_conserves) (rule release_one_conserves)

lemma forget_offer_conserves: "conserves s (forget_offer E n s)"
proof -
  let ?f = "\<lambda>rid e. if offers_connector n e then e\<lparr>pe_offer := None\<rparr> else e"
  let ?s1 = "s\<lparr>s_offers := filter (\<lambda>offer. cv_name offer \<noteq> n) (s_offers s),
      s_pending := map (\<lambda>(rid, e). (rid, ?f rid e)) (s_pending s)\<rparr>"
  have "waiting rid ?s1 = waiting rid s" for rid
    by (auto simp: waiting_def hm_get_map_snd split: option.splits)
  then have "conserves s ?s1"
    by (simp add: conserves_def owed_def answered_def del: map_map)
  moreover have "account (forget_offer E n s) = account ?s1"
    unfolding forget_offer_def Let_def by (rule account_foldl) simp
  ultimately show ?thesis by (rule conserves_account)
qed

lemma account_resolve: "resolve_connection E n m c s = (s1, r) \<Longrightarrow> account s1 = account s"
  by (auto simp: resolve_connection_def Let_def split: connection_choice.splits prod.splits sum.splits)

lemma grant_the_conserves: "conserves s (fst (grant_the E offer m c s))"
proof (cases "s_connectors s")
  case True
  obtain s1 r where 1: "resolve_connection E (cv_name offer) m c s = (s1, r)"
    by (cases "resolve_connection E (cv_name offer) m c s")
  have a1: "account s1 = account s" using 1 by (rule account_resolve)
  show ?thesis
  proof (cases r)
    case (Inl why)
    with True 1 a1 show ?thesis by (intro account_conserves) (simp add: grant_the_def)
  next
    case (Inr label)
    obtain w res where g: "v_grant E (cv_name offer) (cv_digest offer) m label (s_world s1) = (w, res)"
      by (cases "v_grant E (cv_name offer) (cv_digest offer) m label (s_world s1)")
    show ?thesis
    proof (cases res)
      case (Inl why)
      with True 1 Inr g a1 show ?thesis by (intro account_conserves) (simp add: grant_the_def)
    next
      case (Inr opened)
      let ?s2 = "s1\<lparr>s_world := w\<rparr>"
      let ?s3 = "forget_offer E (cv_name offer) ?s2"
      let ?s5 = "apply_granted_egress E (cv_name offer) opened (note_connector E (cv_name offer) Granted ?s3)"
      have "conserves s ?s2" using a1 by (intro account_conserves) simp
      also have "conserves ?s2 ?s3" by (rule forget_offer_conserves)
      also have "conserves ?s3 ?s5" by (rule account_conserves) simp
      also have "conserves ?s5 (release (cv_name offer) (held_for (cv_name offer) s1) ?s5)"
        by (rule release_conserves)
      finally show ?thesis using True 1 \<open>r = Inr label\<close> g Inr by (simp add: grant_the_def Let_def)
    qed
  qed
qed (simp add: grant_the_def account_conserves)

lemma grant_offer_conserves:
  "conserves s (fst (grant_offer E rid m c s))" "conserves s (fst (grant_offered E n m c s))"
proof -
  have "conserves s (abandon_round E rid s)" by (rule account_conserves) simp
  then show "conserves s (fst (grant_offer E rid m c s))"
    using conserves_trans grant_the_conserves by (fastforce simp: grant_offer_def split: option.splits)
  show "conserves s (fst (grant_offered E n m c s))"
    using grant_the_conserves by (auto simp: grant_offered_def split: option.splits)
qed

lemma decline_offer_conserves: "conserves s (fst (decline_offer E rid s))"
proof (cases "offer_of rid s")
  case (Some offer)
  let ?s1 = "abandon_round E rid s"
  obtain w r where d: "(if s_connectors ?s1 then v_decline E (cv_name offer) (s_world ?s1)
      else (s_world ?s1, Inr ())) = (w, r)" by (metis surj_pair)
  let ?s2 = "?s1\<lparr>s_world := w\<rparr>"
  show ?thesis
  proof (cases r)
    case (Inl why)
    with Some d show ?thesis by (intro account_conserves) (simp add: decline_offer_def Let_def)
  next
    case (Inr u)
    have "conserves s ?s2" by (rule account_conserves) simp
    also have "conserves ?s2 (forget_offer E (cv_name offer) ?s2)" by (rule forget_offer_conserves)
    finally show ?thesis
      by (rule conserves_account) (use Some d Inr in \<open>simp add: decline_offer_def Let_def\<close>)
  qed
qed (simp add: decline_offer_def)

lemma settle_round_conserves: "conserves s (fst (settle_round E rid offer m r s))"
proof -
  let ?s0 = "count_settled rid s"
  have quiet: "account (fst (settle_round E rid offer m r s)) = account s"
    if "\<And>c iv. r \<noteq> Inr (Connected c iv)"
    using that
    by (auto simp: settle_round_def hold_ask_def Let_def split: sum.splits connect_round.splits)
  show ?thesis
  proof (cases "\<exists>c iv. r = Inr (Connected c iv)")
    case True
    then obtain c iv where r: "r = Inr (Connected c iv)" by blast
    let ?s1 = "report_invalidated E iv ?s0"
    obtain s2 out where g: "grant_the E offer m (Held c) ?s1 = (s2, out)"
      by (cases "grant_the E offer m (Held c) ?s1")
    have "conserves s ?s1" by (rule account_conserves) simp
    also have "conserves ?s1 s2" using grant_the_conserves [of ?s1 E offer m "Held c"] g by simp
    finally have s2: "conserves s s2" .
    show ?thesis
    proof (cases "still_holding rid (cv_name offer) ?s1")
      case True
      then have "account (fst (settle_round E rid offer m r s)) = account s2"
        using g by (simp add: settle_round_def r Let_def)
      with s2 show ?thesis by (rule conserves_account)
    next
      case False
      then show ?thesis by (intro account_conserves) (simp add: settle_round_def r Let_def)
    qed
  qed (use quiet in \<open>auto intro: account_conserves\<close>)
qed

lemma begin_connect_conserves: "conserves s (fst (begin_connect E rid m l s))"
proof (cases "offer_of rid s")
  case (Some offer)
  let ?s1 = "abandon_round E rid s"
  obtain w r where b: "v_begin_connect E (cv_name offer) m l (s_world ?s1) = (w, r)"
    by (cases "v_begin_connect E (cv_name offer) m l (s_world ?s1)")
  have "conserves s (?s1\<lparr>s_world := w\<rparr>)" by (rule account_conserves) simp
  also have "conserves \<dots> (fst (settle_round E rid offer m r (?s1\<lparr>s_world := w\<rparr>)))"
    by (rule settle_round_conserves)
  finally show ?thesis
    using Some b by (auto simp: begin_connect_def Let_def intro: account_conserves)
qed (simp add: begin_connect_def)

lemma answer_connect_conserves: "conserves s (fst (answer_connect E rid vals s))"
proof (cases "hm_get (s_rounds s) rid")
  case None
  then show ?thesis by (intro account_conserves) (simp add: answer_connect_def forget_round_def)
next
  case (Some opn)
  let ?s1 = "s\<lparr>s_rounds := hm_remove rid (s_rounds s)\<rparr>"
  obtain w r where a: "v_answer_connect E (or_handle opn) vals (s_world s) = (w, r)"
    by (cases "v_answer_connect E (or_handle opn) vals (s_world s)")
  let ?s3 = "if is_ok r then ?s1\<lparr>s_world := w\<rparr> else abandon_handle E (or_handle opn) (?s1\<lparr>s_world := w\<rparr>)"
  have "conserves s ?s3" by (rule account_conserves) simp
  also have "conserves ?s3 (fst (settle_round E rid (or_offer opn) (or_method opn) r ?s3))"
    by (rule settle_round_conserves)
  finally show ?thesis using Some a by (simp add: answer_connect_def forget_round_def Let_def)
qed

lemma poll_one_conserves: "conserves s (poll_one E ro s)"
proof -
  obtain rid opn where ro: "ro = (rid, opn)" by (cases ro)
  obtain w r where p: "v_poll_connect E (or_handle opn) (s_world s) = (w, r)"
    by (cases "v_poll_connect E (or_handle opn) (s_world s)")
  let ?s1 = "s\<lparr>s_world := w\<rparr>"
  let ?s2 = "?s1\<lparr>s_rounds := hm_remove rid (s_rounds s)\<rparr>"
  have 1: "conserves s ?s1" by (rule account_conserves) simp
  have "conserves s ?s2" by (rule account_conserves) simp
  also have "conserves ?s2 (fst (settle_round E rid (or_offer opn) (or_method opn) r ?s2))"
    by (rule settle_round_conserves)
  finally have 2: "conserves s (fst (settle_round E rid (or_offer opn) (or_method opn) r ?s2))" .
  show ?thesis
    by (simp add: poll_one_def ro p 1 2 Let_def split: option.splits)
qed

lemma poll_native_rounds_conserves: "conserves s (poll_native_rounds E s)"
  unfolding poll_native_rounds_def by (rule foldl_conserves) (rule poll_one_conserves)

lemma timeout_one_conserves:
  assumes e: "hm_get (s_pending s) rid = Some e" "\<not> pe_expired e"
  shows "conserves s (fst (timeout_one E rid s))"
    and "r \<noteq> rid \<Longrightarrow> hm_get (s_pending (fst (timeout_one E rid s))) r = hm_get (s_pending s) r"
proof -
  let ?s1 = "s\<lparr>s_pending := hm_remove rid (s_pending s)\<rparr>"
  let ?s2 = "note_if_open E e Undecided ?s1"
  let ?s3 = "if pe_offer e \<noteq> None then emit (Expire rid) (keep_offer rid e ?s2) else emit (Dismiss rid) ?s2"
  have t: "fst (timeout_one E rid s) = send_decision_frame rid Timeout ?s3"
    using e by (simp add: timeout_one_def remove_pending_def Let_def)
  have p2: "s_pending ?s2 = hm_remove rid (s_pending s)"
    using account_entries(3) [of E e Undecided ?s1] by (simp add: account_def)
  have o2: "owed r' ?s2 = owed r' ?s1" for r' by (rule account_owed) simp
  have k: "owed r' (keep_offer rid e u) = owed r' u" if "hm_get (s_pending u) rid = None" for r' u
    using that by (auto simp: keep_offer_def owed_def answered_def waiting_def hm_get_insert)
  have o3: "owed r' ?s3 = owed r' ?s1" for r'
  proof (cases "pe_offer e = None")
    case True
    then show ?thesis using o2 account_owed [of ?s3 ?s2 r'] by simp
  next
    case False
    then have "owed r' ?s3 = owed r' (keep_offer rid e ?s2)" by (intro account_owed) simp
    then show ?thesis using k [of ?s2 r'] p2 o2 by (simp add: hm_get_remove)
  qed
  show "conserves s (fst (timeout_one E rid s))"
    unfolding conserves_def t
  proof (intro impI conjI allI)
    assume "hm_wf (s_pending s)"
    then show "hm_wf (s_pending (send_decision_frame rid Timeout ?s3))"
      by (simp add: send_decision_frame_def keep_offer_def p2 distinct_delete distinct_update)
    show "owed r' (send_decision_frame rid Timeout ?s3) = owed r' s" for r'
      using owed_removed [of r' s rid] e o3 by (auto simp: waiting_def)
  qed
  show "r \<noteq> rid \<Longrightarrow> hm_get (s_pending (fst (timeout_one E rid s))) r = hm_get (s_pending s) r"
    by (simp add: t send_decision_frame_def keep_offer_def p2 hm_get_insert hm_get_remove)
qed

lemma timeout_all_conserves:
  assumes "distinct ids" "\<forall>rid \<in> set ids. \<exists>e. hm_get (s_pending s) rid = Some e \<and> \<not> pe_expired e"
  shows "conserves s (fst (timeout_all E ids s))"
proof -
  have "conserves s (fst (foldl (\<lambda>(acc, n) rid. let (acc', hit) = timeout_one E rid acc
      in (acc', if hit then Suc n else n)) (s, n) ids))" for n
    using assms
  proof (induction ids arbitrary: s n)
    case (Cons rid ids)
    then obtain e where e: "hm_get (s_pending s) rid = Some e" "\<not> pe_expired e" by auto
    obtain s' hit where t: "timeout_one E rid s = (s', hit)" by (cases "timeout_one E rid s")
    have "conserves s s'" using timeout_one_conserves(1) [OF e, of E] t by simp
    moreover have "\<forall>r \<in> set ids. \<exists>e. hm_get (s_pending s') r = Some e \<and> \<not> pe_expired e"
      using timeout_one_conserves(2) [OF e, of _ E] t Cons.prems by (metis distinct.simps(2) fst_conv list.set_intros(2))
    ultimately show ?case using Cons.IH [of s'] Cons.prems(1) t conserves_trans by (fastforce simp: Let_def)
  qed simp
  then show ?thesis by (simp add: timeout_all_def)
qed

lemma tick_timeouts_conserves: "conserves s (fst (tick_timeouts E now s))"
proof (cases "hm_wf (s_pending s)")
  case True
  let ?s1 = "poll_native_rounds E s"
  let ?start = "case s_connector_clock ?s1 of Some t \<Rightarrow> t | None \<Rightarrow> now"
  let ?s3 = "refresh_connector_supply_due E (now - ?start) (?s1\<lparr>s_connector_clock := Some ?start\<rparr>)"
  have s3: "conserves s ?s3"
    using poll_native_rounds_conserves by (rule conserves_account) simp
  then have wf: "hm_wf (s_pending ?s3)" using True by (simp add: conserves_def)
  have "conserves ?s3 (fst (timeout_all E (due_ids now ?s3) ?s3))"
  proof (rule timeout_all_conserves)
    show "distinct (due_ids now ?s3)" unfolding due_ids_def using wf by (rule distinct_map_filter)
    show "\<forall>rid \<in> set (due_ids now ?s3). \<exists>e. hm_get (s_pending ?s3) rid = Some e \<and> \<not> pe_expired e"
      using wf by (auto simp: due_ids_def map_of_eq_Some_iff)
  qed
  with s3 have "conserves s (fst (timeout_all E (due_ids now ?s3) ?s3))" by (rule conserves_trans)
  then show ?thesis by (simp add: tick_timeouts_def Let_def)
qed (simp add: conserves_def)

definition accepts :: "command \<Rightarrow> string \<Rightarrow> 'w session \<Rightarrow> nat" where
  "accepts c rid s =
     (case c of
        Submit req _ \<Rightarrow> if rp_id req = rid \<and> hm_get (s_pending s) rid = None then 1 else 0
      | _ \<Rightarrow> 0)"

lemma account_offer_for: "offer_for E req s = (t, o') \<Longrightarrow> account t = account s"
  by (auto simp: offer_for_def Let_def split: offer.splits)

lemma submit_pending_owed:
  assumes wf: "hm_wf (s_pending s)"
  shows "hm_wf (s_pending (submit_pending E req now s))"
    "owed rid (submit_pending E req now s) = owed rid s + accepts (Submit req now) rid s"
proof -
  let ?raised = "\<lparr>pe_host = rp_host req, pe_action = rp_action req, pe_treatment = rp_treatment req,
      pe_deadline = now + s_timeout s, pe_reason = rp_reason req, pe_offer = None, pe_expired = False\<rparr>"
  let ?s2 = "reopen_unless_decided E ?raised (s\<lparr>s_pending := hm_insert (rp_id req) ?raised (s_pending s)\<rparr>)"
  obtain s3 oc where o: "offer_for E req ?s2 = (s3, oc)" by (cases "offer_for E req ?s2")
  have a3: "account s3 = account (s\<lparr>s_pending := hm_insert (rp_id req) ?raised (s_pending s)\<rparr>)"
    using account_offer_for [OF o] by simp
  then have p3: "s_pending s3 = hm_insert (rp_id req) ?raised (s_pending s)" by (simp add: account_def)
  have o3: "owed rid s3 = owed rid (s\<lparr>s_pending := hm_insert (rp_id req) ?raised (s_pending s)\<rparr>)"
    using a3 by (rule account_owed)
  have new: "owed rid (s\<lparr>s_pending := hm_insert (rp_id req) ?raised (s_pending s)\<rparr>)
      = owed rid s + (if rp_id req = rid then 1 else 0)" if "hm_get (s_pending s) (rp_id req) = None"
    using that by (auto simp: owed_def answered_def waiting_def hm_get_insert)
  define s4 where "s4 = (case oc of None \<Rightarrow> s3 | Some c \<Rightarrow>
      let s' = note_connector_if_open E (cv_name c) s3
      in (case hm_get (s_pending s') (rp_id req) of
            Some entry \<Rightarrow> s'\<lparr>s_pending := hm_insert (rp_id req) (entry\<lparr>pe_offer := Some c\<rparr>) (s_pending s')\<rparr>
          | None \<Rightarrow> s'))"
  have s4: "hm_wf (s_pending s4) \<and> owed rid s4 = owed rid s3"
  proof (cases oc)
    case None
    then show ?thesis using wf by (simp add: s4_def p3 distinct_update)
  next
    case (Some c)
    let ?s' = "note_connector_if_open E (cv_name c) s3"
    have a': "account ?s' = account s3" by simp
    then have p': "s_pending ?s' = s_pending s3" by (simp add: account_def)
    have "owed rid ?s' = owed rid s3" using a' by (rule account_owed)
    then have "owed rid (?s'\<lparr>s_pending := hm_insert (rp_id req) (?raised\<lparr>pe_offer := Some c\<rparr>) (s_pending ?s')\<rparr>)
        = owed rid s3"
      by (simp add: owed_def answered_def waiting_def p' p3 hm_get_insert)
    then show ?thesis using wf Some
      by (simp add: s4_def Let_def p' p3 hm_get_insert distinct_update)
  qed
  have "hm_wf (s_pending (submit_pending E req now s))
      \<and> owed rid (submit_pending E req now s) = owed rid s + accepts (Submit req now) rid s"
  proof (cases "hm_get (s_pending s) (rp_id req)")
    case None
    then have a: "account (submit_pending E req now s) = account s4"
      by (simp add: submit_pending_def Let_def o s4_def)
    then have "s_pending (submit_pending E req now s) = s_pending s4" by (simp add: account_def)
    moreover have "owed rid (submit_pending E req now s) = owed rid s4" using a by (rule account_owed)
    moreover have "accepts (Submit req now) rid s = (if rp_id req = rid then 1 else 0)"
      using None by (auto simp: accepts_def)
    ultimately show ?thesis using s4 o3 new [OF None] by simp
  next
    case (Some e)
    then have "submit_pending E req now s = s" "accepts (Submit req now) rid s = 0"
      by (auto simp: submit_pending_def accepts_def)
    with wf show ?thesis by simp
  qed
  then show "hm_wf (s_pending (submit_pending E req now s))"
    "owed rid (submit_pending E req now s) = owed rid s + accepts (Submit req now) rid s" by auto
qed

lemma withdraw_run_owed:
  "s_pending (withdraw_run E s) = []" "answered rid (withdraw_run E s) = answered rid s"
proof -
  let ?s1 = "s\<lparr>s_withdrawn := True, s_pending := []\<rparr>"
  have "account (withdraw_run E s) = account ?s1"
    by (auto simp: withdraw_run_def withdraw_one_def Let_def simp del: account_updates intro!: account_foldl)
  then have p: "s_pending (withdraw_run E s) = []"
    and d: "filter is_decision (s_out (withdraw_run E s)) = filter is_decision (s_out s)"
    by (simp_all add: account_def)
  show "s_pending (withdraw_run E s) = []" by (fact p)
  show "answered rid (withdraw_run E s) = answered rid s"
    unfolding answered_def by (metis d answers_filtered)
qed

lemma step_conserves:
  assumes "\<And>req now. c \<noteq> Submit req now" "c \<noteq> Withdraw"
  shows "conserves s (step E c s)"
  using assms
  by (cases c) (auto simp: record_decision_conserves dismiss_request_conserves grant_offer_conserves
      decline_offer_conserves begin_connect_conserves answer_connect_conserves tick_timeouts_conserves
      account_conserves)

lemma step_owed:
  assumes wf: "hm_wf (s_pending s)"
  shows "hm_wf (s_pending (step E c s))"
    and "c \<noteq> Withdraw \<Longrightarrow> owed rid (step E c s) = owed rid s + accepts c rid s"
    and "owed rid (step E c s) \<le> owed rid s + accepts c rid s"
proof -
  consider req now where "c = Submit req now" | "c = Withdraw" | "\<And>req now. c \<noteq> Submit req now" "c \<noteq> Withdraw"
    by blast
  then have "hm_wf (s_pending (step E c s)) \<and> (c \<noteq> Withdraw \<longrightarrow> owed rid (step E c s) = owed rid s + accepts c rid s)
      \<and> owed rid (step E c s) \<le> owed rid s + accepts c rid s"
  proof cases
    case 1
    then show ?thesis using submit_pending_owed [OF wf, where E = E and req = req and now = now] by simp
  next
    case 2
    then show ?thesis using withdraw_run_owed [where E = E and s = s] by (simp add: owed_def waiting_def)
  next
    case 3
    then have "accepts c rid s = 0" by (cases c) (auto simp: accepts_def)
    then show ?thesis using step_conserves [OF 3, of s E] wf by (simp add: conserves_def)
  qed
  then show "hm_wf (s_pending (step E c s))"
    and "c \<noteq> Withdraw \<Longrightarrow> owed rid (step E c s) = owed rid s + accepts c rid s"
    and "owed rid (step E c s) \<le> owed rid s + accepts c rid s" by auto
qed

fun accepted :: "('n, 'w) env \<Rightarrow> string \<Rightarrow> command list \<Rightarrow> 'w session \<Rightarrow> nat" where
  "accepted E rid [] s = 0"
| "accepted E rid (c # cs) s = accepts c rid s + accepted E rid cs (step E c s)"

lemma run_owed:
  assumes "hm_wf (s_pending s)"
  shows "owed rid (run E cs s) \<le> owed rid s + accepted E rid cs s
     \<and> (Withdraw \<notin> set cs \<longrightarrow> owed rid (run E cs s) = owed rid s + accepted E rid cs s)"
  using assms
proof (induction cs arbitrary: s)
  case (Cons c cs)
  have "hm_wf (s_pending (step E c s))" using Cons.prems by (rule step_owed)
  from Cons.IH [OF this] step_owed(2,3) [OF Cons.prems, where E = E and rid = rid and c = c]
  show ?case by fastforce
qed simp

section \<open>A concrete session\<close>

text \<open>An environment whose ports all answer, with its entries in memory, to evaluate runs on.\<close>

definition sample_env :: "(block, entry list) env" where
  "sample_env =
     \<lparr>v_ipnet = blocks, v_sha256 = (\<lambda>s. s), v_debug = (\<lambda>s. s), v_save = (\<lambda>p w. (w, Inr ())),
      v_store = list_store, v_refresh_after = (\<lambda>_. 30 * second),
      v_current_offers = (\<lambda>w. (w, None)), v_current_supply = (\<lambda>w. (w, None)),
      v_connect = (\<lambda>_ _ _ _ w. (w, Inr [])), v_grant = (\<lambda>_ _ _ _ w. (w, Inr default_payload)),
      v_decline = (\<lambda>_ w. (w, Inr ())), v_poll_connect = (\<lambda>_ w. (w, Inl ''gone'')),
      v_open_browser = (\<lambda>_ w. (w, Inr ())), v_begin_connect = (\<lambda>_ _ _ w. (w, Inl ''refused'')),
      v_answer_connect = (\<lambda>_ _ w. (w, Inl ''refused'')), v_abandon_connect = (\<lambda>_ w. w)\<rparr>"

definition sample_request :: request_pending where
  "sample_request = \<lparr>rp_id = ''r1'', rp_host = ''api.dev'', rp_action = ''CONNECT api.dev:443'',
     rp_reason = ''no rule'', rp_treatment = Inspected\<rparr>"

definition sample_session :: "entry list session" where
  "sample_session = set_entry_store (set_ledger_recorder (for_run ''web''
     (session_new default_policy default_policy (60 * second) [])))"

section \<open>Properties\<close>

text \<open>
  C1: no request is answered twice and none is lost. In any run of a fresh session, the decision
  frames sent for an id and the id's open request together never exceed the requests accepted
  under it; and until the run is withdrawn they are exactly as many, whatever cards, grants,
  sign-ins, timeouts and late answers happen in between.
\<close>

theorem every_request_answered_once:
  assumes "s_pending start = []" "answered rid start = 0"
  shows "answered rid (run E cs start) + waiting rid (run E cs start) \<le> accepted E rid cs start
     \<and> (Withdraw \<notin> set cs \<longrightarrow>
          answered rid (run E cs start) + waiting rid (run E cs start) = accepted E rid cs start)"
  using run_owed [of start rid E cs] assms by (simp add: owed_def waiting_def [of rid start])

lemma every_request_answered_once_witness:
  "answered ''r1'' (run sample_env [Submit sample_request 0, Tick 5, Decide ''r1'' AllowAlways] sample_session) = 1"
proof -
  let ?cs = "[Submit sample_request 0, Tick 5, Decide ''r1'' AllowAlways]"
  have p: "s_pending sample_session = []" by code_simp
  have a: "answered ''r1'' sample_session = 0" by code_simp
  have w: "waiting ''r1'' (run sample_env ?cs sample_session) = 0" by code_simp
  have c: "accepted sample_env ''r1'' ?cs sample_session = 1" by code_simp
  from every_request_answered_once [OF p a, of sample_env ?cs] w c show ?thesis by simp
qed

end
