(* ===== verification/Session_Policy.thy ===== *)
theory Session_Policy
  imports Session_Runs
begin

text \<open>
  What a session's methods do to the policy: the network section the guest last received is the
  running policy with the current holds after every method, decisions that earn no rule leave both
  policies alone, and an answer that is refused puts back what it lifted out.
\<close>

section \<open>The table the guest holds\<close>

fun frame_network :: "effect \<Rightarrow> wire_network option" where
  "frame_network (Frame (host_frame.Policy m)) = pm_network m"
| "frame_network _ = None"

definition installed :: "'w session \<Rightarrow> wire_network option" where
  "installed s =
     (let ns = List.map_filter frame_network (s_out s) in if ns = [] then None else Some (last ns))"

definition in_sync :: "('n, 'w) env \<Rightarrow> 'w session \<Rightarrow> bool" where
  "in_sync E s \<longleftrightarrow>
     installed s = Some (network_seeded_holding (v_ipnet E) (p_network (s_policy s)) (held_patterns s))"

definition table :: "'w session \<Rightarrow> policy \<times> connector_view list \<times> wire_network option" where
  "table s = (s_policy s, s_offers s, installed s)"

lemma table_sync: "table t = table s \<Longrightarrow> in_sync E t = in_sync E s"
  by (simp add: table_def in_sync_def held_patterns_def)

lemma installed_emit [simp]:
  "installed (emit e s) = (case frame_network e of Some n \<Rightarrow> Some n | None \<Rightarrow> installed s)"
  by (simp add: installed_def map_filter_append map_filter_simps Let_def split: option.splits)

lemma table_updates' [simp]:
  "table (s\<lparr>s_world := w\<rparr>) = table s" "table (s\<lparr>s_persisted := p\<rparr>) = table s"
  "table (s\<lparr>s_rounds := r\<rparr>) = table s" "table (s\<lparr>s_pending := pe\<rparr>) = table s"
  "table (s\<lparr>s_settled := n\<rparr>) = table s" "table (s\<lparr>s_granted := g\<rparr>) = table s"
  "table (s\<lparr>s_next_refresh := k\<rparr>) = table s" "table (s\<lparr>s_said := sd\<rparr>) = table s"
  "table (s\<lparr>s_connector_clock := ck\<rparr>) = table s" "table (s\<lparr>s_withdrawn := b\<rparr>) = table s"
  by (simp_all add: table_def installed_def)

lemma table_emit [simp]: "frame_network e = None \<Longrightarrow> table (emit e s) = table s"
  by (simp add: table_def)

lemma table_foldl: "(\<And>x acc. table (f acc x) = table acc) \<Longrightarrow> table (foldl f s xs) = table s"
  by (induction xs arbitrary: s) auto

lemma table_entries [simp]:
  "table (record_entry E e s) = table s" "table (note_card E pe st s) = table s"
  "table (note_if_open E pe st s) = table s" "table (reopen_unless_decided E pe s) = table s"
  "table (note_connector E n st s) = table s" "table (note_connector_if_open E n s) = table s"
  "table (tell E m s) = table s" "table (inform_once E m s) = table s"
  "table (report_no_rule_written E m s) = table s" "table (report_invalidated E ivs s) = table s"
  by (simp_all add: record_entry_def note_card_def note_if_open_def reopen_unless_decided_def
      note_connector_def note_connector_if_open_def tell_def inform_once_def Let_def
      report_no_rule_written_def report_invalidated_def)

lemma table_rounds [simp]:
  "table (hold_round rid r s) = table s" "table (abandon_handle E h s) = table s"
  "table (abandon_round E rid s) = table s" "table (abandon_every_round E s) = table s"
  "table (count_settled rid s) = table s"
  by (auto simp: hold_round_def abandon_handle_def abandon_round_def forget_round_def
      abandon_every_round_def count_settled_def split: option.splits intro!: trans [OF table_foldl])

lemma table_cards [simp]:
  "table (represent_one rid s) = table s" "table (represent ids s) = table s"
  "table (send_decision_frame rid d s) = table s" "table (send_answer rid pe d s) = table s"
  "table (record_approval pe d why s) = table s" "table (release_one c rid s) = table s"
  "table (release c ids s) = table s" "table (save_persisted E s) = table s"
  "table (keep_offer rid pe s) = table s"
proof -
  show 1: "table (represent_one rid s) = table s" for rid s
    by (simp add: represent_one_def split: option.splits)
  show 2: "table (send_decision_frame rid d s) = table s" for rid d s
    by (simp add: send_decision_frame_def)
  show 3: "table (send_answer rid pe d s) = table s" for rid pe d s
    by (simp add: send_answer_def 2)
  show 4: "table (record_approval pe d why s) = table s" for pe d why s
    by (simp add: record_approval_def split: option.splits)
  show 5: "table (release_one c rid s) = table s" for rid s
    by (simp add: release_one_def remove_pending_def 3 4 split: option.splits)
  show "table (represent ids s) = table s" unfolding represent_def by (rule table_foldl) (rule 1)
  show "table (release c ids s) = table s" unfolding release_def by (rule table_foldl) (rule 5)
  show "table (save_persisted E s) = table s"
    by (auto simp: save_persisted_def Let_def split: prod.splits sum.splits)
qed (simp add: keep_offer_def)

lemma policy_message_network:
  "pm_network (policy_message_of E s) =
     Some (network_seeded_holding (v_ipnet E) (p_network (s_policy s)) (held_patterns s))"
  by (simp add: policy_message_of_def granting_def seeded_holding_def split: option.splits)

lemma send_policy_frame_sync [simp]: "in_sync E (send_policy_frame E s)"
  by (simp add: in_sync_def send_policy_frame_def policy_message_network held_patterns_def)

lemma sync_through: "table t = table (send_policy_frame E s) \<Longrightarrow> in_sync E t"
  using table_sync by fastforce

lemma apply_policies_sync [simp]:
  "in_sync E (apply_external_policy E p s)" "in_sync E (apply_granted_egress E n g s)"
  by (simp_all add: apply_external_policy_def apply_granted_egress_def Let_def)

section \<open>Placing and taking back\<close>

lemma add_approved_unchanged:
  "add_approved_rule N p r = (q, a) \<Longrightarrow> a \<noteq> Stands \<Longrightarrow> q = p"
  "add_approved_tcp_rule N p t = (q, a) \<Longrightarrow> a \<noteq> Stands \<Longrightarrow> q = p"
  using routes.place_refused [of "http_of p" r N] tcp_routes.place_refused [of "tcp_of p" t N]
  by (auto simp: add_approved_rule_def add_approved_tcp_rule_def first_shadowing_rule_def
      first_shadowing_tcp_rule_def split: prod.splits)

lemma unwritten_Stands: "unwritten_because E a = None \<longleftrightarrow> a = Stands"
  by (simp add: unwritten_because_def split: approval.splits)

lemma place_always_rule_cases:
  assumes "place_always_rule E dest raw v s = (t, pl)"
  obtains (written) "pl = Written" "in_sync E t"
  | (refused) why where "pl = Refused why" "t = s"
proof (cases raw)
  case False
  obtain s1 a where 1: "apply_persistent_rule E (route v dest) s = (s1, a)"
    by (cases "apply_persistent_rule E (route v dest) s")
  have s1: "a \<noteq> Stands \<Longrightarrow> s1 = s"
    using 1 by (auto simp: apply_persistent_rule_def Let_def split: prod.splits dest: add_approved_unchanged)
  show ?thesis
  proof (cases "unwritten_because E a")
    case None
    with assms False 1 written show ?thesis by (auto simp: place_always_rule_def settle_def)
  next
    case (Some why)
    with assms False 1 s1 refused show ?thesis
      by (auto simp: place_always_rule_def settle_def) (metis unwritten_Stands option.distinct(1))
  qed
next
  case True
  show ?thesis
  proof (cases "tcp_validate (v_ipnet E) (splice v dest)")
    case (Inl e)
    with assms True refused show ?thesis by (auto simp: place_always_rule_def place_raw_rule_def)
  next
    case (Inr u)
    obtain s1 a pre where 1: "apply_persistent_tcp_rule E (splice v dest) s = (s1, a, pre)"
      by (cases "apply_persistent_tcp_rule E (splice v dest) s") auto
    have s1: "a \<noteq> Stands \<Longrightarrow> s1 = s"
      using 1 by (auto simp: apply_persistent_tcp_rule_def Let_def split: prod.splits dest: add_approved_unchanged)
    show ?thesis
    proof (cases "unwritten_because E a")
      case None
      then have "pl = Written" "table t = table (send_policy_frame E s1)"
        using assms True Inr 1 by (auto simp: place_always_rule_def place_raw_rule_def settle_def split: if_splits)
      then show ?thesis using written sync_through by blast
    next
      case (Some why)
      then have "s1 = s" using s1 unwritten_Stands by (metis option.distinct(1))
      with Some assms True Inr 1 refused show ?thesis
        by (auto simp: place_always_rule_def place_raw_rule_def settle_def)
    qed
  qed
qed

lemma filter_same_length: "length (filter P xs) = length xs \<Longrightarrow> filter P xs = xs"
  by (simp add: length_filter_all filter_id_conv)

lemma remove_nothing:
  "remove_approved_rule p dest = (q, False) \<Longrightarrow> q = p"
  "remove_approved_tcp_rule p dest = (q, False) \<Longrightarrow> q = p"
  by (auto simp: remove_approved_rule_def remove_approved_tcp_rule_def remove_approved_def Let_def
      dest!: filter_same_length)

lemma rules_unchanged [simp]: "s\<lparr>s_policy := s_policy s, s_persisted := s_persisted s\<rparr> = s"
  by (cases s) simp

lemma take_back_rule_eq:
  "take_back_rule dest raw s =
     (let (p, running) = (if raw then remove_approved_tcp_rule (s_policy s) dest else remove_approved_rule (s_policy s) dest);
          (q, filed) = (if raw then remove_approved_tcp_rule (s_persisted s) dest else remove_approved_rule (s_persisted s) dest)
      in (s\<lparr>s_policy := p, s_persisted := q\<rparr>, filed \<or> running))"
  by (simp add: take_back_rule_def)

lemma take_back_nothing:
  assumes "take_back_rule dest raw s = (t, False)"
  shows "t = s"
proof -
  obtain p running where p: "(if raw then remove_approved_tcp_rule (s_policy s) dest
      else remove_approved_rule (s_policy s) dest) = (p, running)" by (metis surj_pair)
  obtain q filed where q: "(if raw then remove_approved_tcp_rule (s_persisted s) dest
      else remove_approved_rule (s_persisted s) dest) = (q, filed)" by (metis surj_pair)
  have "t = s\<lparr>s_policy := p, s_persisted := q\<rparr>" "\<not> running" "\<not> filed"
    using assms by (simp_all add: take_back_rule_eq p q)
  moreover from this p q have "p = s_policy s" "q = s_persisted s"
    by (auto split: if_splits dest: remove_nothing)
  ultimately show ?thesis by simp
qed

lemma take_back_fields:
  assumes "take_back_rule dest raw s = (t, h)"
  shows "t\<lparr>s_policy := s_policy s, s_persisted := s_persisted s\<rparr> = s"
proof -
  obtain p q where "t = s\<lparr>s_policy := p, s_persisted := q\<rparr>"
    using assms by (auto simp: take_back_rule_eq Let_def split: prod.splits)
  then show ?thesis by (cases s) simp
qed

lemma put_rules_back_taken:
  "take_back_rule dest raw s = (t, h) \<Longrightarrow> put_rules_back (rules_as_they_stand s) t = s"
  unfolding put_rules_back_def rules_as_they_stand_def fst_conv snd_conv by (rule take_back_fields)

lemma answer_entry_cases:
  assumes "answer_entry E eid a s = (t, out)"
  obtains (recorded) st where "out = AnswerRecorded st" "in_sync E t"
  | (unchanged) "t = s" "\<forall>st. out \<noteq> AnswerRecorded st"
proof (cases "List.find (\<lambda>held. en_id held = eid) (listed E s)")
  case None
  with assms unchanged show ?thesis by (auto simp: answer_entry_def)
next
  case (Some entry)
  show ?thesis
  proof (cases "en_kind entry")
    case (Destination dest act raw)
    obtain s1 h where 1: "take_back_rule dest raw s = (s1, h)" by (cases "take_back_rule dest raw s")
    show ?thesis
    proof (cases "answer_always a")
      case None
      show ?thesis
      proof (cases h)
        case True
        with assms Some Destination 1 None
        have "out = AnswerRecorded Undecided" "table t = table (send_policy_frame E s1)"
          by (auto simp: answer_entry_def settle_ask_again_def keep_def Let_def)
        then show ?thesis using recorded sync_through by blast
      next
        case False
        with 1 have "s1 = s" by (simp add: take_back_nothing)
        with assms Some Destination 1 None False unchanged show ?thesis
          by (auto simp: answer_entry_def settle_ask_again_def Let_def)
      qed
    next
      case (Some v)
      obtain s2 pl where 2: "place_always_rule E dest raw v s1 = (s2, pl)"
        by (cases "place_always_rule E dest raw v s1")
      from 2 show ?thesis
      proof (cases rule: place_always_rule_cases)
        case written
        then have "out = AnswerRecorded (verdict_state v)" "table t = table s2"
          using assms \<open>List.find _ _ = _\<close> Destination 1 Some 2
          by (auto simp: answer_entry_def settle_late_answer_def keep_def Let_def)
        with written recorded table_sync show ?thesis by blast
      next
        case (refused why)
        then have "out = NoRuleWritten why" "t = put_rules_back (rules_as_they_stand s) s1"
          using assms \<open>List.find _ _ = _\<close> Destination 1 Some 2
          by (auto simp: answer_entry_def settle_late_answer_def Let_def)
        with put_rules_back_taken [OF 1] unchanged show ?thesis by simp
      qed
    qed
  qed (use assms Some unchanged in \<open>auto simp: answer_entry_def\<close>)
qed

section \<open>Every method leaves the guest in sync\<close>

lemma always_decision_sync:
  assumes "in_sync E s"
  shows "in_sync E (fst (apply_always_decision E e d s))"
proof -
  have "in_sync E (fst (case place_always_rule E dest raw v s of
      (s1, Written) \<Rightarrow> (s1, True) | (s1, Refused why) \<Rightarrow> (report_no_rule_written E why s1, False)))"
    for dest raw v
  proof -
    obtain t pl where p: "place_always_rule E dest raw v s = (t, pl)"
      by (cases "place_always_rule E dest raw v s")
    then show ?thesis
    proof (cases rule: place_always_rule_cases)
      case (refused why)
      then have "in_sync E (report_no_rule_written E why t)"
        using assms table_sync [of "report_no_rule_written E why t" t E] by simp
      with p refused show ?thesis by simp
    qed (simp add: p)
  qed
  moreover have "in_sync E (report_no_rule_written E why s)" for why
    using assms table_sync [of "report_no_rule_written E why s" s E] by simp
  ultimately show ?thesis using assms by (simp add: apply_always_decision_def split: option.splits)
qed

lemma record_decision_sync:
  assumes "in_sync E s"
  shows "in_sync E (fst (record_decision E rid d s))"
proof (cases "hm_get (s_pending s) rid")
  case (Some e)
  let ?s2 = "emit (Dismiss rid) (s\<lparr>s_pending := hm_remove rid (s_pending s)\<rparr>)"
  obtain s3 b where 3: "apply_always_decision E e d ?s2 = (s3, b)" by (cases "apply_always_decision E e d ?s2")
  have "in_sync E ?s2" using assms table_sync [of ?s2 s E] by simp
  then have "in_sync E s3" using always_decision_sync [of E ?s2 e d] 3 by simp
  moreover have "table (fst (record_decision E rid d s)) = table s3"
    by (simp add: record_decision_def remove_pending_def Some 3 Let_def note_the_card_def split: option.splits)
  ultimately show ?thesis using table_sync by blast
qed (simp add: record_decision_def remove_pending_def assms)

lemma table_resolve: "resolve_connection E n m c s = (s1, r) \<Longrightarrow> table s1 = table s"
  by (auto simp: resolve_connection_def Let_def split: connection_choice.splits prod.splits sum.splits)

lemma grant_the_sync:
  assumes "in_sync E s"
  shows "in_sync E (fst (grant_the E offer m c s))"
proof (cases "s_connectors s")
  case True
  obtain s1 r where 1: "resolve_connection E (cv_name offer) m c s = (s1, r)"
    by (cases "resolve_connection E (cv_name offer) m c s")
  then have a1: "table s1 = table s" by (rule table_resolve)
  show ?thesis
  proof (cases r)
    case (Inl why)
    with True 1 have "table (fst (grant_the E offer m c s)) = table s" by (simp add: grant_the_def a1)
    with assms table_sync show ?thesis by blast
  next
    case (Inr label)
    obtain w res where g: "v_grant E (cv_name offer) (cv_digest offer) m label (s_world s1) = (w, res)"
      by (cases "v_grant E (cv_name offer) (cv_digest offer) m label (s_world s1)")
    show ?thesis
    proof (cases res)
      case (Inl why)
      with True 1 Inr g have "table (fst (grant_the E offer m c s)) = table s" by (simp add: grant_the_def a1)
      with assms table_sync show ?thesis by blast
    next
      case (Inr opened)
      let ?s5 = "apply_granted_egress E (cv_name offer) opened
        (note_connector E (cv_name offer) Granted (forget_offer E (cv_name offer) (s1\<lparr>s_world := w\<rparr>)))"
      have "table (fst (grant_the E offer m c s)) = table ?s5"
        using True 1 \<open>r = Inr label\<close> g Inr by (simp add: grant_the_def Let_def)
      moreover have "in_sync E ?s5" by simp
      ultimately show ?thesis using table_sync by blast
    qed
  qed
next
  case False
  then show ?thesis using assms table_sync [of "emit (Inform NO_CONNECTOR_STORE) s" s E]
    by (simp add: grant_the_def)
qed

lemma sync_same: "in_sync E s \<Longrightarrow> table t = table s \<Longrightarrow> in_sync E t"
  using table_sync by blast

lemma settle_round_sync:
  assumes "in_sync E s"
  shows "in_sync E (fst (settle_round E rid offer m r s))"
proof (cases "\<exists>c iv. r = Inr (Connected c iv)")
  case True
  then obtain c iv where r: "r = Inr (Connected c iv)" by blast
  let ?s1 = "report_invalidated E iv (count_settled rid s)"
  have s1: "in_sync E ?s1" using assms by (rule sync_same) simp
  obtain s2 out where g: "grant_the E offer m (Held c) ?s1 = (s2, out)"
    by (cases "grant_the E offer m (Held c) ?s1")
  show ?thesis
  proof (cases "still_holding rid (cv_name offer) ?s1")
    case True
    have "in_sync E s2" using grant_the_sync [OF s1, of offer m "Held c"] g by simp
    then show ?thesis by (rule sync_same) (simp add: settle_round_def r Let_def True g)
  next
    case False
    show ?thesis using assms by (rule sync_same) (simp add: settle_round_def r Let_def False)
  qed
next
  case False
  then have "table (fst (settle_round E rid offer m r s)) = table s"
    by (auto simp: settle_round_def hold_ask_def Let_def split: sum.splits connect_round.splits)
  with assms show ?thesis by (rule sync_same)
qed

lemma connect_sync:
  assumes "in_sync E s"
  shows "in_sync E (fst (begin_connect E rid m l s))" "in_sync E (fst (answer_connect E rid vals s))"
    "in_sync E (poll_one E ro s)"
proof -
  show "in_sync E (fst (begin_connect E rid m l s))"
  proof (cases "offer_of rid s")
    case (Some offer)
    obtain w r where b: "v_begin_connect E (cv_name offer) m l (s_world (abandon_round E rid s)) = (w, r)"
      by (cases "v_begin_connect E (cv_name offer) m l (s_world (abandon_round E rid s))")
    have "in_sync E ((abandon_round E rid s)\<lparr>s_world := w\<rparr>)" using assms by (rule sync_same) simp
    from settle_round_sync [OF this]
    have 1: "in_sync E (fst (settle_round E rid offer m r ((abandon_round E rid s)\<lparr>s_world := w\<rparr>)))" .
    have 2: "in_sync E (represent [rid] (tell E NO_CONNECTOR_STORE (count_settled rid s)))"
      using assms by (rule sync_same) simp
    show ?thesis using Some b 1 2 by (simp add: begin_connect_def Let_def)
  qed (simp add: begin_connect_def assms)
  show "in_sync E (fst (answer_connect E rid vals s))"
  proof (cases "hm_get (s_rounds s) rid")
    case None
    have "in_sync E (represent [rid] (count_settled rid s))" using assms by (rule sync_same) simp
    with None assms show ?thesis by (simp add: answer_connect_def forget_round_def)
  next
    case (Some opn)
    obtain w r where a: "v_answer_connect E (or_handle opn) vals (s_world s) = (w, r)"
      by (cases "v_answer_connect E (or_handle opn) vals (s_world s)")
    let ?s2 = "s\<lparr>s_rounds := hm_remove rid (s_rounds s), s_world := w\<rparr>"
    let ?s3 = "if is_ok r then ?s2 else abandon_handle E (or_handle opn) ?s2"
    have "in_sync E ?s3" using assms by (rule sync_same) simp
    from settle_round_sync [OF this] Some a show ?thesis
      by (simp add: answer_connect_def forget_round_def Let_def)
  qed
  show "in_sync E (poll_one E ro s)"
  proof -
    obtain rid' opn where ro: "ro = (rid', opn)" by (cases ro)
    obtain w r where p: "v_poll_connect E (or_handle opn) (s_world s) = (w, r)"
      by (cases "v_poll_connect E (or_handle opn) (s_world s)")
    have 1: "in_sync E (s\<lparr>s_world := w\<rparr>)" using assms by (rule sync_same) simp
    have "in_sync E (s\<lparr>s_world := w, s_rounds := hm_remove rid' (s_rounds s)\<rparr>)"
      using assms by (rule sync_same) simp
    note 2 = settle_round_sync [OF this]
    show ?thesis by (simp add: poll_one_def ro p 1 2 Let_def split: option.splits)
  qed
qed

lemma decline_offer_sync:
  assumes "in_sync E s"
  shows "in_sync E (fst (decline_offer E rid s))"
proof (cases "offer_of rid s")
  case (Some offer)
  let ?s1 = "abandon_round E rid s"
  obtain w r where d: "(if s_connectors ?s1 then v_decline E (cv_name offer) (s_world ?s1)
      else (s_world ?s1, Inr ())) = (w, r)" by (metis surj_pair)
  show ?thesis
  proof (cases r)
    case (Inl why)
    show ?thesis using assms by (rule sync_same) (simp add: decline_offer_def Let_def Some d Inl)
  next
    case (Inr u)
    have "table (fst (decline_offer E rid s)) = table (send_policy_frame E
        (note_connector E (cv_name offer) Declined (forget_offer E (cv_name offer) (?s1\<lparr>s_world := w\<rparr>))))"
      by (simp add: decline_offer_def Let_def Some d Inr)
    then show ?thesis by (rule sync_through)
  qed
qed (simp add: decline_offer_def assms)

lemma refresh_sync:
  assumes "in_sync E s"
  shows "in_sync E (refresh_connector_supply E s)"
proof (cases "s_connectors s")
  case True
  obtain w1 sup where 1: "v_current_supply E (s_world s) = (w1, sup)" by (cases "v_current_supply E (s_world s)")
  obtain w2 lst where 2: "v_current_offers E w1 = (w2, lst)" by (cases "v_current_offers E w1")
  obtain g gc where g: "(case sup of Some c \<Rightarrow> replace_changed (s_granted s) c | None \<Rightarrow> (s_granted s, False)) = (g, gc)"
    by (metis surj_pair)
  obtain os oc where os: "(case lst of Some c \<Rightarrow> replace_changed (s_offers s) c | None \<Rightarrow> (s_offers s, False)) = (os, oc)"
    by (metis surj_pair)
  have same: "\<not> oc \<Longrightarrow> os = s_offers s"
    using os by (auto simp: replace_changed_def split: option.splits if_splits)
  let ?s1 = "s\<lparr>s_world := w2, s_granted := g, s_offers := os\<rparr>"
  let ?s2 = "?s1\<lparr>s_policy := effective_over (s_persisted s) ?s1\<rparr>"
  show ?thesis
  proof (cases "gc \<or> oc")
    case True
    then obtain m where m: "refresh_connector_supply E s = emit (Frame (host_frame.Policy m)) ?s2"
        "pm_network m = pm_network (policy_message_of E ?s2)"
      using \<open>s_connectors s\<close> 1 2 g os by (auto simp: refresh_connector_supply_def Let_def)
    then show ?thesis
      by (simp add: in_sync_def policy_message_network held_patterns_def del: emit_fields(1))
        (simp add: emit_def held_patterns_def)
  next
    case False
    then have "table (refresh_connector_supply E s) = table ?s1"
      using \<open>s_connectors s\<close> 1 2 g os by (simp add: refresh_connector_supply_def Let_def)
    moreover have "table ?s1 = table s" using same False by (simp add: table_def installed_def)
    ultimately show ?thesis using assms sync_same by metis
  qed
qed (simp add: refresh_connector_supply_def assms)

lemma table_timeout_one: "table (fst (timeout_one E rid s)) = table s"
  by (simp add: timeout_one_def remove_pending_def Let_def split: option.splits)

lemma table_timeout_all: "table (fst (timeout_all E ids s)) = table s"
proof -
  have "table (fst (foldl (\<lambda>(acc, n) rid. let (acc', hit) = timeout_one E rid acc
      in (acc', if hit then Suc n else n)) (s, n) ids)) = table s" for n
  proof (induction ids arbitrary: s n)
    case (Cons rid ids)
    obtain s' hit where t: "timeout_one E rid s = (s', hit)" by (cases "timeout_one E rid s")
    have "table s' = table s" using table_timeout_one [of E rid s] t by simp
    then show ?case using Cons.IH [of s'] by (simp add: t)
  qed simp
  then show ?thesis by (simp add: timeout_all_def)
qed

lemma tick_timeouts_sync:
  assumes "in_sync E s"
  shows "in_sync E (fst (tick_timeouts E now s))"
proof -
  have poll: "in_sync E s \<Longrightarrow> in_sync E (foldl (\<lambda>acc ro. poll_one E ro acc) s ros)" for s ros
    by (induction ros arbitrary: s) (simp_all add: connect_sync(3))
  let ?s1 = "poll_native_rounds E s"
  let ?start = "case s_connector_clock ?s1 of Some t \<Rightarrow> t | None \<Rightarrow> now"
  let ?s2 = "?s1\<lparr>s_connector_clock := Some ?start\<rparr>"
  have "in_sync E ?s1" unfolding poll_native_rounds_def using assms by (rule poll)
  then have s2: "in_sync E ?s2" by (rule sync_same) simp
  have due: "in_sync E u \<Longrightarrow> in_sync E (refresh_connector_supply_due E n u)" for u n
  proof -
    assume u: "in_sync E u"
    let ?u1 = "u\<lparr>s_next_refresh := saturating_add n (30 * second)\<rparr>"
    have "in_sync E ?u1" using u by (rule sync_same) simp
    then have r: "in_sync E (refresh_connector_supply E ?u1)" by (rule refresh_sync)
    then have "in_sync E ((refresh_connector_supply E ?u1)\<lparr>s_next_refresh := k\<rparr>)" for k
      by (rule sync_same) simp
    with u r show ?thesis by (simp add: refresh_connector_supply_due_def Let_def)
  qed
  from due [OF s2, of "now - ?start"] show ?thesis
    by (rule sync_same) (simp add: tick_timeouts_def Let_def table_timeout_all)
qed

lemma submit_pending_table: "table (submit_pending E req now s) = table s"
proof -
  have "offer_for E req u = (t, oc) \<Longrightarrow> table t = table u" for u t oc
    by (auto simp: offer_for_def Let_def split: offer.splits)
  then show ?thesis
    by (auto simp: submit_pending_def Let_def split: prod.splits option.splits)
qed

lemma withdraw_run_table: "table (withdraw_run E s) = table s"
  by (auto simp: withdraw_run_def withdraw_one_def Let_def intro!: trans [OF table_foldl])

lemma answer_entry_sync:
  assumes "in_sync E s"
  shows "in_sync E (fst (answer_entry E eid a s))"
proof -
  obtain t out where t: "answer_entry E eid a s = (t, out)" by (cases "answer_entry E eid a s")
  then show ?thesis by (cases rule: answer_entry_cases) (simp_all add: t assms)
qed

lemma step_sync:
  assumes "in_sync E s"
  shows "in_sync E (step E c s)"
proof (cases c)
  case (Submit req now)
  show ?thesis using assms by (rule sync_same) (simp add: Submit submit_pending_table)
next
  case (CloseCard rid)
  show ?thesis using assms
    by (rule sync_same) (simp add: CloseCard dismiss_request_def remove_pending_def Let_def split: option.splits)
next
  case (GrantOffer rid m ch)
  have "in_sync E (abandon_round E rid s)" using assms by (rule sync_same) simp
  then show ?thesis using assms by (simp add: GrantOffer grant_offer_def grant_the_sync split: option.splits)
next
  case (GrantOffered n m ch)
  then show ?thesis using assms by (simp add: grant_offered_def grant_the_sync split: option.splits)
next
  case (OpenBrowser rid)
  show ?thesis using assms
    by (rule sync_same) (auto simp: OpenBrowser open_connect_browser_def Let_def split: prod.splits option.splits sum.splits)
next
  case (RemoveEntry eid)
  show ?thesis using assms
    by (rule sync_same) (auto simp: RemoveEntry remove_entry_def split: prod.splits)
next
  case Withdraw
  show ?thesis using assms by (rule sync_same) (simp add: Withdraw withdraw_run_table)
qed (use assms in \<open>simp_all add: record_decision_sync answer_entry_sync decline_offer_sync connect_sync
      tick_timeouts_sync\<close>)

section \<open>What is written and saved\<close>

fun is_save :: "effect \<Rightarrow> bool" where
  "is_save (Save _) = True"
| "is_save _ = False"

definition rules :: "'w session \<Rightarrow> policy \<times> policy \<times> wire_network option \<times> effect list" where
  "rules s = (s_policy s, s_persisted s, installed s, filter is_save (s_out s))"

lemma rules_updates [simp]:
  "rules (s\<lparr>s_world := w\<rparr>) = rules s" "rules (s\<lparr>s_rounds := r\<rparr>) = rules s"
  "rules (s\<lparr>s_pending := pe\<rparr>) = rules s"
  by (simp_all add: rules_def installed_def)

lemma rules_emit [simp]: "frame_network e = None \<Longrightarrow> \<not> is_save e \<Longrightarrow> rules (emit e s) = rules s"
  by (simp add: rules_def)

lemma rules_quiet [simp]:
  "rules (record_entry E e s) = rules s" "rules (note_if_open E pe st s) = rules s"
  "rules (abandon_handle E h s) = rules s" "rules (abandon_round E rid s) = rules s"
  "rules (send_answer rid pe d s) = rules s" "rules (send_decision_frame rid d s) = rules s"
  "rules (record_approval pe d why s) = rules s" "rules (keep_offer rid pe s) = rules s"
  by (simp_all add: record_entry_def note_if_open_def abandon_handle_def abandon_round_def forget_round_def
      send_answer_def send_decision_frame_def record_approval_def keep_offer_def Let_def split: option.splits)

section \<open>Properties\<close>

text \<open>
  C2: the guest always holds the running policy: in every state a session reaches from one whose
  policy frame was sent, the network section last sent is the running policy's tables with exactly
  the holds of the connectors still on offer, whichever methods ran in between.
\<close>

theorem guest_table_in_sync:
  assumes "reachable E start s" "in_sync E start"
  shows "installed s =
     Some (network_seeded_holding (v_ipnet E) (p_network (s_policy s)) (concat (map cv_serves (s_offers s))))"
proof -
  have "in_sync E s"
    using assms by (induction rule: reachable.induct) (simp_all add: step_sync)
  then show ?thesis by (simp add: in_sync_def held_patterns_def)
qed

lemma guest_table_in_sync_witness:
  "installed (step sample_env (Decide ''r1'' AllowAlways)
       (step sample_env (Submit sample_request 0) (send_policy_frame sample_env sample_session))) =
     Some (network_seeded blocks (p_network (set_http [approved (allow_host ''api.dev'')] default_policy)))"
proof -
  let ?start = "send_policy_frame sample_env sample_session"
  let ?s = "step sample_env (Decide ''r1'' AllowAlways) (step sample_env (Submit sample_request 0) ?start)"
  have "reachable sample_env ?start ?s" by (intro reach_step reach_start)
  moreover have "in_sync sample_env ?start" by simp
  moreover have "p_network (s_policy ?s) = p_network (set_http [approved (allow_host ''api.dev'')] default_policy)"
    by code_simp
  moreover have "s_offers ?s = []" by code_simp
  moreover have "v_ipnet sample_env = blocks" by (simp add: sample_env_def)
  ultimately show ?thesis
    using guest_table_in_sync [of sample_env ?start ?s] by (simp add: network_seeded_def)
qed

text \<open>
  An answer given away from the card either takes effect or changes nothing. When
  \<open>answer_entry\<close> does not record an answer, the session is exactly the one before the call, with the
  rule it lifted out back in both policies; when it does, the guest holds the policy with the new
  rule or without the old one.
\<close>

theorem answer_entry_all_or_nothing:
  assumes "answer_entry E eid a s = (t, out)"
  shows "case out of AnswerRecorded _ \<Rightarrow> in_sync E t | _ \<Rightarrow> t = s"
  using assms by (cases rule: answer_entry_cases) (auto split: answer_outcome.splits)

definition denied_session :: "entry list session" where
  "denied_session = step sample_env (Submit sample_request 0)
     (sample_session\<lparr>s_policy := set_http [for_host ''*.dev'' Deny] default_policy\<rparr>)"

lemma answer_entry_all_or_nothing_witness:
  "answer_entry sample_env (en_id (hd (listed sample_env denied_session))) AlwaysAllow denied_session =
     (denied_session, NoRuleWritten (''the rule for *.dev already decides this destination and the guest stops at the first matching rule''))"
proof -
  obtain t out where t: "answer_entry sample_env (en_id (hd (listed sample_env denied_session))) AlwaysAllow
      denied_session = (t, out)" by (metis surj_pair)
  have "snd (answer_entry sample_env (en_id (hd (listed sample_env denied_session))) AlwaysAllow denied_session)
      = NoRuleWritten (''the rule for *.dev already decides this destination and the guest stops at the first matching rule'')"
    by code_simp
  with t have "out = NoRuleWritten (''the rule for *.dev already decides this destination and the guest stops at the first matching rule'')"
    by simp
  with t answer_entry_all_or_nothing [OF t] show ?thesis by simp
qed

text \<open>
  Only a standing answer is remembered: a verdict for one request, a card that is closed and a
  request that times out leave the running policy, the developer's file and the guest's table as
  they are, and nothing is saved.
\<close>

theorem once_writes_no_rule:
  "rules (fst (record_decision E rid AllowOnce s)) = rules s
   \<and> rules (fst (record_decision E rid DenyOnce s)) = rules s
   \<and> rules (fst (record_decision E rid Timeout s)) = rules s
   \<and> rules (fst (dismiss_request E rid s)) = rules s
   \<and> rules (fst (timeout_one E rid s)) = rules s"
  by (simp add: record_decision_def dismiss_request_def timeout_one_def apply_always_decision_def
      note_the_card_def remove_pending_def Let_def split: option.splits)

end
