(* ===== verification/Session_Effects.thy ===== *)
theory Session_Effects
  imports Session_Policy
begin

text \<open>
  What a session says and in which order: the rule is published before the decision that wakes the
  request and saved after it, settled answers survive cards that go unanswered, a grant releases
  what it held, and a run that was withdrawn leaves nothing open and is told nothing more.
\<close>

section \<open>What a method appends to the trace\<close>

definition appends :: "(effect \<Rightarrow> bool) \<Rightarrow> 'w session \<Rightarrow> 'w session \<Rightarrow> bool" where
  "appends P s t \<longleftrightarrow> (\<exists>out. s_out t = s_out s @ out \<and> list_all P out)"

lemma appends_refl [simp]: "appends P s s"
  by (simp add: appends_def)

lemma appends_trans: "appends P s t \<Longrightarrow> appends P t u \<Longrightarrow> appends P s u"
  by (auto simp: appends_def)

lemma appends_same: "s_out t = s_out s \<Longrightarrow> appends P s t"
  by (simp add: appends_def)

lemma appends_emit: "P e \<Longrightarrow> appends P s (emit e s)"
  by (simp add: appends_def)

fun is_inform :: "effect \<Rightarrow> bool" where
  "is_inform (Inform _) = True"
| "is_inform _ = False"

fun is_policy_frame :: "effect \<Rightarrow> bool" where
  "is_policy_frame (Frame (host_frame.Policy _)) = True"
| "is_policy_frame _ = False"

fun is_ledger :: "effect \<Rightarrow> bool" where
  "is_ledger (Ledger _) = True"
| "is_ledger _ = False"

definition publishing :: "effect \<Rightarrow> bool" where
  "publishing e \<longleftrightarrow> is_policy_frame e \<or> is_inform e"

definition keeping :: "effect \<Rightarrow> bool" where
  "keeping e \<longleftrightarrow> is_save e \<or> is_inform e \<or> is_ledger e"

lemma out_record [simp]: "s_out (record_entry E e s) = s_out s"
  by (simp add: record_entry_def)

lemma appends_tell: "P (Inform m) \<Longrightarrow> appends P s (tell E m s)"
  by (simp add: tell_def appends_def)

lemma settle_out:
  "settle E a s = (t, pl) \<Longrightarrow>
     pl = Written \<and> s_out t = s_out s @ [Frame (host_frame.Policy (policy_message_of E s))]
     \<or> pl \<noteq> Written \<and> t = s"
  by (auto simp: settle_def send_policy_frame_def split: option.splits)

lemma place_out:
  assumes "place_always_rule E dest raw v s = (t, pl)"
  shows "\<exists>out. s_out t = s_out s @ out \<and> list_all publishing out
     \<and> (pl = Written \<longrightarrow> list_ex is_policy_frame out) \<and> (pl \<noteq> Written \<longrightarrow> t = s)"
proof (cases pl)
  case (Refused why)
  with assms have "t = s" by (cases rule: place_always_rule_cases) auto
  with Refused show ?thesis by simp
next
  case Written
  show ?thesis
  proof (cases raw)
    case False
    obtain s1 a where 1: "apply_persistent_rule E (route v dest) s = (s1, a)"
      by (cases "apply_persistent_rule E (route v dest) s")
    then have "s_out s1 = s_out s" by (auto simp: apply_persistent_rule_def Let_def split: prod.splits)
    with 1 assms False Written settle_out [of E a s1 t pl] show ?thesis
      by (auto simp: place_always_rule_def publishing_def)
  next
    case True
    with assms Written obtain u where v: "tcp_validate (v_ipnet E) (splice v dest) = Inr u"
      by (cases "tcp_validate (v_ipnet E) (splice v dest)") (auto simp: place_always_rule_def place_raw_rule_def)
    obtain s1 a pre where 1: "apply_persistent_tcp_rule E (splice v dest) s = (s1, a, pre)"
      by (cases "apply_persistent_tcp_rule E (splice v dest) s") auto
    then have o1: "s_out s1 = s_out s" by (auto simp: apply_persistent_tcp_rule_def Let_def split: prod.splits)
    obtain s2 pl2 where 2: "settle E a s1 = (s2, pl2)" by (cases "settle E a s1")
    let ?m = "''that traffic is now spliced raw, so these HTTP rules no longer apply to it: '' @ join_with '', '' pre"
    have t: "pl2 = Written" "t = (if pre \<noteq> [] then tell E ?m s2 else s2)"
      using assms True Written v 1 2 by (auto simp: place_always_rule_def place_raw_rule_def)
    then have o2: "s_out s2 = s_out s @ [Frame (host_frame.Policy (policy_message_of E s1))]"
      using settle_out [OF 2] o1 by simp
    have "\<exists>more. s_out t = s_out s2 @ more \<and> list_all publishing more"
      using t(2) appends_tell [of publishing ?m s2 E] by (auto simp: appends_def publishing_def)
    then obtain more where "s_out t = s_out s2 @ more" "list_all publishing more" by blast
    with o2 Written show ?thesis
      by (intro exI [of _ "Frame (host_frame.Policy (policy_message_of E s1)) # more"]) (simp add: publishing_def)
  qed
qed

lemma always_out:
  assumes "apply_always_decision E e d s = (t, stands)"
  shows "\<exists>out. s_out t = s_out s @ out \<and> list_all publishing out \<and> (stands \<longrightarrow> list_ex is_policy_frame out)"
proof -
  have report: "\<exists>out. s_out (report_no_rule_written E why u) = s_out u @ out \<and> list_all publishing out" for why u
    using appends_tell [of publishing _ u E] by (auto simp: report_no_rule_written_def appends_def publishing_def)
  consider "always_of d = None" | "always_of d \<noteq> None" "\<exists>why. t = report_no_rule_written E why s \<and> \<not> stands"
    | dest raw v s1 pl where "place_always_rule E dest raw v s = (s1, pl)"
        "pl = Written \<and> t = s1 \<and> stands \<or> (\<exists>why. pl = Refused why \<and> t = report_no_rule_written E why s1 \<and> \<not> stands)"
    using assms
    by (auto simp: apply_always_decision_def split: option.splits treatment.splits prod.splits rule_placement.splits)
  then show ?thesis
  proof cases
    case 1
    then show ?thesis using assms by (auto simp: apply_always_decision_def)
  next
    case 2
    then show ?thesis using report by blast
  next
    case 3
    from place_out [OF 3(1)] obtain out where o: "s_out s1 = s_out s @ out" "list_all publishing out"
      "pl = Written \<longrightarrow> list_ex is_policy_frame out" by blast
    from 3(2) show ?thesis
    proof
      assume "pl = Written \<and> t = s1 \<and> stands"
      with o show ?thesis by auto
    next
      assume "\<exists>why. pl = Refused why \<and> t = report_no_rule_written E why s1 \<and> \<not> stands"
      then obtain why where "t = report_no_rule_written E why s1" "\<not> stands" by blast
      with report [of why s1] o show ?thesis by auto
    qed
  qed
qed

lemma save_out: "appends keeping s (save_persisted E s)"
proof -
  obtain w r where v: "v_save E (s_persisted s) (s_world s) = (w, r)" by (cases "v_save E (s_persisted s) (s_world s)")
  let ?s1 = "emit (Save (s_persisted s)) (s\<lparr>s_world := w\<rparr>)"
  have 1: "appends keeping s ?s1" by (simp add: appends_def keeping_def)
  show ?thesis
  proof (cases r)
    case (Inl e)
    have "appends keeping ?s1 (tell E (''policy rule applied in-memory but not persisted: '' @ e) ?s1)"
      by (rule appends_tell) (simp add: keeping_def)
    with 1 show ?thesis using appends_trans by (fastforce simp: save_persisted_def v Inl Let_def)
  qed (use 1 in \<open>simp add: save_persisted_def v Let_def\<close>)
qed

lemma decision_trace:
  assumes e: "hm_get (s_pending s) rid = Some e" and r: "record_decision E rid d s = (t, out)"
  shows "\<exists>pre post. s_out t = s_out s @ Dismiss rid # pre
       @ (if pe_expired e then [] else [Frame (RequestDecision \<lparr>rd_id = rid, rd_decision = d\<rparr>)]) @ post
     \<and> list_all publishing pre \<and> list_all keeping post
     \<and> (list_ex is_save post \<longrightarrow> list_ex is_policy_frame pre)"
proof -
  let ?s2 = "emit (Dismiss rid) (s\<lparr>s_pending := hm_remove rid (s_pending s)\<rparr>)"
  obtain s3 b where 3: "apply_always_decision E e d ?s2 = (s3, b)" by (cases "apply_always_decision E e d ?s2")
  let ?s4 = "send_answer rid e d s3"
  let ?s5 = "if b then save_persisted E ?s4 else ?s4"
  let ?s6 = "note_the_card E e d b ?s5"
  from always_out [OF 3] obtain pre where pre: "s_out s3 = s_out s @ Dismiss rid # pre" "list_all publishing pre"
    "b \<longrightarrow> list_ex is_policy_frame pre" by auto
  have o4: "s_out ?s4 = s_out s3 @ (if pe_expired e then [] else [Frame (RequestDecision \<lparr>rd_id = rid, rd_decision = d\<rparr>)])"
    by (simp add: send_answer_def send_decision_frame_def)
  have "\<exists>mid. s_out ?s5 = s_out ?s4 @ mid \<and> list_all keeping mid \<and> (\<not> b \<longrightarrow> mid = [])"
    using save_out [of ?s4 E] by (auto simp: appends_def)
  then obtain mid where mid: "s_out ?s5 = s_out ?s4 @ mid" "list_all keeping mid" "\<not> b \<longrightarrow> mid = []" by blast
  have o6: "s_out ?s6 = s_out ?s5"
    by (simp add: note_the_card_def note_card_def note_if_open_def Let_def split: option.splits)
  have "\<exists>fin. s_out (record_approval e d None ?s6) = s_out ?s6 @ fin \<and> list_all keeping fin \<and> \<not> list_ex is_save fin"
    by (simp add: record_approval_def keeping_def split: option.splits)
  then obtain fin where fin: "s_out (record_approval e d None ?s6) = s_out ?s6 @ fin" "list_all keeping fin"
    "\<not> list_ex is_save fin" by blast
  have "t = record_approval e d None ?s6"
    using r e 3 by (simp add: record_decision_def remove_pending_def Let_def)
  then have "s_out t = s_out s @ Dismiss rid # pre
      @ (if pe_expired e then [] else [Frame (RequestDecision \<lparr>rd_id = rid, rd_decision = d\<rparr>)]) @ mid @ fin"
    using fin o6 mid o4 pre by simp
  moreover have "list_ex is_save (mid @ fin) \<longrightarrow> list_ex is_policy_frame pre"
    using mid(3) fin(3) pre(3) by (cases b) simp_all
  ultimately show ?thesis using pre(2) mid(2) fin(2)
    by (intro exI [of _ pre] exI [of _ "mid @ fin"]) simp
qed

section \<open>Settled answers stay\<close>

definition settled_kept :: "('n, 'w) env \<Rightarrow> 'w session \<Rightarrow> 'w session \<Rightarrow> bool" where
  "settled_kept E s t \<longleftrightarrow>
     (\<forall>eid held. entry_of (listed E s) eid = Some held \<and> is_settled held \<longrightarrow>
        entry_of (listed E t) eid = Some held)"

lemma settled_kept_refl [simp]: "settled_kept E s s"
  by (simp add: settled_kept_def)

lemma settled_kept_trans: "settled_kept E s t \<Longrightarrow> settled_kept E t u \<Longrightarrow> settled_kept E s u"
  by (auto simp: settled_kept_def)

text \<open>A store the session can rely on: its laws hold and its world stays usable.\<close>

definition store_ok :: "('n, 'w) env \<Rightarrow> ('w \<Rightarrow> bool) \<Rightarrow> 'w session \<Rightarrow> bool" where
  "store_ok E ok s \<longleftrightarrow> entry_store (v_store E) ok \<and> ok (s_world s) \<and> s_entries s"

lemma listed_record:
  assumes "store_ok E ok s"
  shows "listed E (record_entry E e s) = put_entry e (listed E s)" "store_ok E ok (record_entry E e s)"
  using assms entry_store.record_list [of "v_store E" ok "s_world s" e]
    entry_store.record_ok [of "v_store E" ok "s_world s" e]
  by (simp_all add: store_ok_def listed_def record_entry_def entries_def)

lemma note_if_open_kept:
  assumes "store_ok E ok s"
  shows "settled_kept E s (note_if_open E pe st s)" "store_ok E ok (note_if_open E pe st s)"
proof -
  let ?a = "entry_new (v_sha256 E) (s_run s) (kind_of_pending pe) st"
  show "store_ok E ok (note_if_open E pe st s)"
    using assms listed_record [OF assms] by (simp add: note_if_open_def Let_def)
  show "settled_kept E s (note_if_open E pe st s)"
  proof (cases "list_ex (\<lambda>held. en_id held = en_id ?a \<and> is_settled held) (listed E s)")
    case False
    have "eid \<noteq> en_id ?a" if "entry_of (listed E s) eid = Some held" "is_settled held" for eid held
      using find_SomeD [OF that(1) [unfolded entry_of_def]] that(2) False by (auto simp: list_ex_iff)
    then show ?thesis
      using False listed_record [OF assms, of ?a] by (auto simp: note_if_open_def Let_def settled_kept_def)
  qed (simp add: note_if_open_def)
qed

lemma store_view: "s_world t = s_world s \<Longrightarrow> s_entries t = s_entries s \<Longrightarrow>
    listed E t = listed E s \<and> store_ok E ok t = store_ok E ok s"
  by (simp add: listed_def entries_def store_ok_def)

lemma kept_view: "s_world t = s_world s \<Longrightarrow> s_entries t = s_entries s \<Longrightarrow> settled_kept E s t"
  using store_view [of t s E] by (simp add: settled_kept_def)

lemma timeout_one_kept:
  assumes "store_ok E ok s"
  shows "settled_kept E s (fst (timeout_one E rid s)) \<and> store_ok E ok (fst (timeout_one E rid s))"
proof (cases "hm_get (s_pending s) rid")
  case (Some e)
  let ?s1 = "s\<lparr>s_pending := hm_remove rid (s_pending s)\<rparr>"
  let ?t = "fst (timeout_one E rid s)"
  have 1: "settled_kept E s ?s1" "store_ok E ok ?s1"
    using assms kept_view [of ?s1 s] store_view [of ?s1 s E ok] by simp_all
  have 2: "settled_kept E ?s1 (note_if_open E e Undecided ?s1)" "store_ok E ok (note_if_open E e Undecided ?s1)"
    using note_if_open_kept [OF 1(2)] by auto
  have v: "s_world ?t = s_world (note_if_open E e Undecided ?s1)" "s_entries ?t = s_entries (note_if_open E e Undecided ?s1)"
    by (simp_all add: timeout_one_def remove_pending_def Some Let_def send_decision_frame_def keep_offer_def)
  show ?thesis
    using settled_kept_trans [OF settled_kept_trans [OF 1(1) 2(1)] kept_view [OF v]] store_view [OF v, of E ok] 2(2)
    by blast
qed (simp add: timeout_one_def remove_pending_def assms)

lemma withdraw_cards_kept:
  assumes "store_ok E ok s"
  shows "settled_kept E s (foldl (\<lambda>acc held. withdraw_one E held acc) s cs)"
  using assms
proof (induction cs arbitrary: s)
  case (Cons x cs)
  let ?n = "note_if_open E (snd x) Withdrawn s"
  have n: "settled_kept E s ?n" "store_ok E ok ?n" using note_if_open_kept [OF Cons.prems] by auto
  have v: "s_world (withdraw_one E x s) = s_world ?n" "s_entries (withdraw_one E x s) = s_entries ?n"
    by (simp_all add: withdraw_one_def)
  have "settled_kept E s (withdraw_one E x s)" using settled_kept_trans [OF n(1) kept_view [OF v]] .
  moreover have "store_ok E ok (withdraw_one E x s)" using store_view [OF v, of E ok] n(2) by simp
  ultimately show ?case using Cons.IH settled_kept_trans by fastforce
qed simp

text \<open>Dropping a sign-in does not reach the entries.\<close>

definition ports_apart :: "('n, 'w) env \<Rightarrow> ('w \<Rightarrow> bool) \<Rightarrow> bool" where
  "ports_apart E ok \<longleftrightarrow>
     (\<forall>h w. es_list (v_store E) (v_abandon_connect E h w) = es_list (v_store E) w
        \<and> (ok w \<longrightarrow> ok (v_abandon_connect E h w)))"

lemma abandon_handle_kept:
  assumes "ports_apart E ok" "store_ok E ok s"
  shows "settled_kept E s (abandon_handle E h s) \<and> store_ok E ok (abandon_handle E h s)"
  using assms
  by (simp add: ports_apart_def store_ok_def settled_kept_def listed_def entries_def abandon_handle_def)

lemma abandon_round_kept:
  assumes "ports_apart E ok" "store_ok E ok s"
  shows "settled_kept E s (abandon_round E rid s) \<and> store_ok E ok (abandon_round E rid s)"
proof (cases "hm_get (s_rounds s) rid")
  case (Some r)
  let ?s1 = "s\<lparr>s_rounds := hm_remove rid (s_rounds s)\<rparr>"
  have "store_ok E ok ?s1" using assms(2) store_view [of ?s1 s E ok] by simp
  from abandon_handle_kept [OF assms(1) this] kept_view [of ?s1 s E] show ?thesis
    using settled_kept_trans by (fastforce simp: abandon_round_def forget_round_def Some)
qed (simp add: abandon_round_def forget_round_def assms)

lemma abandon_every_kept:
  assumes "ports_apart E ok" "store_ok E ok s"
  shows "settled_kept E s (abandon_every_round E s)"
proof -
  have "store_ok E ok u \<Longrightarrow> settled_kept E u (foldl (\<lambda>acc (_, r). abandon_handle E (or_handle r) acc) u rs)"
    for u and rs :: "(string \<times> open_round) list"
  proof (induction rs arbitrary: u)
    case (Cons x rs)
    obtain k r where x: "x = (k, r)" by (cases x)
    from abandon_handle_kept [OF assms(1) Cons.prems, of "or_handle r"]
    show ?case using Cons.IH [of "abandon_handle E (or_handle r) u"] settled_kept_trans by (fastforce simp: x)
  qed simp
  from this [of "s\<lparr>s_rounds := []\<rparr>" "s_rounds s"] show ?thesis
    using assms(2) store_view [of "s\<lparr>s_rounds := []\<rparr>" s E ok] kept_view [of "s\<lparr>s_rounds := []\<rparr>" s E] settled_kept_trans
    by (fastforce simp: abandon_every_round_def)
qed

lemma once_decision_kept:
  assumes "store_ok E ok s" "always_of d = None"
  shows "settled_kept E s (fst (record_decision E rid d s))"
proof (cases "hm_get (s_pending s) rid")
  case (Some e)
  let ?s4 = "send_answer rid e d (emit (Dismiss rid) (s\<lparr>s_pending := hm_remove rid (s_pending s)\<rparr>))"
  have v: "s_world ?s4 = s_world s" "s_entries ?s4 = s_entries s"
    by (simp_all add: send_answer_def send_decision_frame_def)
  have n: "settled_kept E ?s4 (note_if_open E e Undecided ?s4)"
    using note_if_open_kept(1) store_view [OF v, of E ok] assms(1) by blast
  have w: "s_world (record_approval e d None u) = s_world u \<and> s_entries (record_approval e d None u) = s_entries u"
    for u :: "'b session"
    by (simp add: record_approval_def split: option.splits)
  have "fst (record_decision E rid d s) = record_approval e d None (note_if_open E e Undecided ?s4)"
    using assms(2) by (simp add: record_decision_def remove_pending_def Some apply_always_decision_def
        note_the_card_def Let_def)
  then show ?thesis
    using settled_kept_trans [OF settled_kept_trans [OF kept_view [OF v] n] kept_view] w by metis
qed (simp add: record_decision_def remove_pending_def)

lemma dismiss_kept:
  assumes "ports_apart E ok" "store_ok E ok s"
  shows "settled_kept E s (fst (dismiss_request E rid s))"
proof (cases "hm_get (s_pending s) rid")
  case (Some e)
  let ?s1 = "s\<lparr>s_pending := hm_remove rid (s_pending s)\<rparr>"
  let ?s2 = "abandon_round E rid ?s1"
  let ?s3 = "send_answer rid e Timeout (emit (Dismiss rid) ?s2)"
  have "store_ok E ok ?s1" using assms(2) store_view [of ?s1 s E ok] by simp
  note 2 = abandon_round_kept [OF assms(1) this, of rid]
  have v: "s_world ?s3 = s_world ?s2" "s_entries ?s3 = s_entries ?s2"
    by (simp_all add: send_answer_def send_decision_frame_def)
  have "store_ok E ok ?s3" using 2 store_view [OF v, of E ok] by simp
  note 3 = note_if_open_kept(1) [OF this, of e Undecided]
  have "settled_kept E s ?s1" by (rule kept_view) simp_all
  then have "settled_kept E ?s2 u \<Longrightarrow> settled_kept E s u" for u using 2 settled_kept_trans by blast
  moreover have "settled_kept E ?s2 (note_if_open E e Undecided ?s3)"
    using settled_kept_trans [OF kept_view [OF v] 3] .
  ultimately show ?thesis by (simp add: dismiss_request_def remove_pending_def Some Let_def)
qed (simp add: dismiss_request_def remove_pending_def)

lemma withdraw_kept:
  assumes "ports_apart E ok" "store_ok E ok s"
  shows "settled_kept E s (withdraw_run E s)"
proof -
  let ?s1 = "s\<lparr>s_withdrawn := True, s_pending := []\<rparr>"
  let ?s2 = "foldl (\<lambda>acc held. withdraw_one E held acc) ?s1 (s_pending s)"
  have s1: "settled_kept E s ?s1" "store_ok E ok ?s1"
    using assms(2) store_view [of ?s1 s E ok] kept_view [of ?s1 s E] by simp_all
  have "store_ok E ok u \<Longrightarrow> store_ok E ok (foldl (\<lambda>acc held. withdraw_one E held acc) u cs)" for u cs
  proof (induction cs arbitrary: u)
    case (Cons x cs)
    have "store_ok E ok (withdraw_one E x u)"
      using note_if_open_kept(2) [OF Cons.prems, of "snd x" Withdrawn]
        store_view [of "withdraw_one E x u" "note_if_open E (snd x) Withdrawn u" E ok]
      by (simp add: withdraw_one_def)
    then show ?case using Cons.IH by simp
  qed simp
  from this [OF s1(2), of "s_pending s"] have "settled_kept E ?s2 (abandon_every_round E ?s2)"
    using abandon_every_kept [OF assms(1)] by blast
  moreover have "settled_kept E ?s1 ?s2" by (rule withdraw_cards_kept [OF s1(2)])
  ultimately have "settled_kept E s (abandon_every_round E ?s2)"
    using s1(1) settled_kept_trans by blast
  moreover have "settled_kept E (abandon_every_round E ?s2) (withdraw_run E s)"
    by (rule kept_view) (simp_all add: withdraw_run_def Let_def)
  ultimately show ?thesis by (rule settled_kept_trans)
qed

section \<open>A grant lets go what it held\<close>

lemma release_pending:
  "hm_get (s_pending (release c ids s)) rid = (if rid \<in> set ids then None else hm_get (s_pending s) rid)"
proof -
  have one: "hm_get (s_pending (release_one c r u)) rid = (if rid = r then None else hm_get (s_pending u) rid)" for r u
  proof -
    have "s_pending (release_one c r u) = hm_remove r (s_pending u)"
      by (simp add: release_one_def remove_pending_def record_approval_def send_answer_def send_decision_frame_def
          split: option.splits)
    then show ?thesis by (simp add: hm_get_remove)
  qed
  show ?thesis unfolding release_def
    by (induction ids arbitrary: s) (auto simp: one)
qed

lemma release_offers: "s_offers (release c ids s) = s_offers s"
  using table_cards(7) [of c ids s] by (simp add: table_def)

lemma forget_offer_fields:
  "s_pending (forget_offer E n s) = map (\<lambda>(rid, e). (rid, if offers_connector n e then e\<lparr>pe_offer := None\<rparr> else e)) (s_pending s)"
  "s_offers (forget_offer E n s) = filter (\<lambda>offer. cv_name offer \<noteq> n) (s_offers s)"
proof -
  have one: "s_pending (abandon_round E r u) = s_pending u" "s_offers (abandon_round E r u) = s_offers u" for r u
    by (simp_all add: abandon_round_def forget_round_def abandon_handle_def split: option.splits)
  have "s_pending (foldl (\<lambda>acc r. abandon_round E r acc) u ids) = s_pending u
      \<and> s_offers (foldl (\<lambda>acc r. abandon_round E r acc) u ids) = s_offers u" for u ids
    by (induction ids arbitrary: u) (simp_all add: one)
  then show "s_pending (forget_offer E n s) = map (\<lambda>(rid, e). (rid, if offers_connector n e then e\<lparr>pe_offer := None\<rparr> else e)) (s_pending s)"
    "s_offers (forget_offer E n s) = filter (\<lambda>offer. cv_name offer \<noteq> n) (s_offers s)"
    by (simp_all add: forget_offer_def Let_def)
qed

lemma held_for_iff:
  "hm_wf (s_pending s) \<Longrightarrow>
     rid \<in> set (held_for n s) \<longleftrightarrow> (\<exists>e. hm_get (s_pending s) rid = Some e \<and> offers_connector n e)"
  by (force simp: held_for_def map_of_eq_Some_iff)

lemma granted_fields:
  "s_pending (apply_granted_egress E n g s) = s_pending s" "s_offers (apply_granted_egress E n g s) = s_offers s"
  "s_pending (note_connector E n st s) = s_pending s" "s_offers (note_connector E n st s) = s_offers s"
  by (simp_all add: apply_granted_egress_def send_policy_frame_def Let_def note_connector_def record_entry_def)

lemma resolve_fields:
  assumes "resolve_connection E n m c s = (s1, r)"
  shows "s_pending s1 = s_pending s" "s_offers s1 = s_offers s"
  using account_resolve [OF assms] table_resolve [OF assms] by (simp_all add: account_def table_def)

section \<open>A withdrawn run leaves nothing open\<close>

fun is_abandon :: "effect \<Rightarrow> bool" where
  "is_abandon (Abandon _) = True"
| "is_abandon _ = False"

lemma withdraw_trace:
  "s_out (withdraw_run E s) =
     s_out s @ map (\<lambda>(rid, _). Dismiss rid) (s_pending s)
       @ map (\<lambda>(_, r). Abandon (or_handle r)) (s_rounds s) @ [ClearInforms]"
  "s_rounds (withdraw_run E s) = []"
proof -
  have one: "s_out (withdraw_one E x u) = s_out u @ [Dismiss (fst x)]" "s_rounds (withdraw_one E x u) = s_rounds u" for x u
    by (simp_all add: withdraw_one_def note_if_open_def Let_def) (simp add: record_entry_def)
  have cards: "s_out (foldl (\<lambda>acc held. withdraw_one E held acc) u cs) = s_out u @ map (\<lambda>(rid, _). Dismiss rid) cs
      \<and> s_rounds (foldl (\<lambda>acc held. withdraw_one E held acc) u cs) = s_rounds u" for u and cs :: "(string \<times> pending_entry) list"
    by (induction cs arbitrary: u) (auto simp: one)
  have rounds: "s_out (foldl (\<lambda>acc (_, r). abandon_handle E (or_handle r) acc) u rs)
        = s_out u @ map (\<lambda>(_, r). Abandon (or_handle r)) rs
      \<and> s_rounds (foldl (\<lambda>acc (_, r). abandon_handle E (or_handle r) acc) u rs) = s_rounds u"
    for u and rs :: "(string \<times> open_round) list"
    by (induction rs arbitrary: u) (auto simp: abandon_handle_def)
  show "s_out (withdraw_run E s) =
     s_out s @ map (\<lambda>(rid, _). Dismiss rid) (s_pending s)
       @ map (\<lambda>(_, r). Abandon (or_handle r)) (s_rounds s) @ [ClearInforms]"
    and "s_rounds (withdraw_run E s) = []"
    by (simp_all add: withdraw_run_def abandon_every_round_def Let_def cards rounds)
qed

lemma withdraw_marks: "s_withdrawn (withdraw_run E s)"
proof -
  have one: "s_withdrawn (withdraw_one E x u) = s_withdrawn u" for x u
    by (simp add: withdraw_one_def note_if_open_def Let_def) (simp add: record_entry_def)
  have cards: "s_withdrawn (foldl (\<lambda>acc held. withdraw_one E held acc) u cs) = s_withdrawn u" for u cs
    by (induction cs arbitrary: u) (simp_all add: one)
  have two: "s_withdrawn (abandon_handle E h u) = s_withdrawn u" for h u
    by (simp add: abandon_handle_def)
  have rounds: "s_withdrawn (foldl (\<lambda>acc (_, r). abandon_handle E (or_handle r) acc) u rs) = s_withdrawn u"
    for u and rs :: "(string \<times> open_round) list"
    by (induction rs arbitrary: u) (simp_all add: two split_beta)
  show ?thesis by (simp add: withdraw_run_def abandon_every_round_def Let_def cards rounds)
qed

section \<open>Properties\<close>


definition asked_session :: "entry list session" where
  "asked_session = step sample_env (Submit sample_request 0) sample_session"


text \<open>
  An answer a run was given is never taken away by the run itself: whatever the list of questions
  holds settled is still there, as it was, after a request times out, after a verdict for one request
  only, after a card is closed and after the run is withdrawn.
\<close>

theorem settled_answers_survive:
  assumes "store_ok E ok s" "ports_apart E ok"
  shows "settled_kept E s (fst (timeout_one E rid s))
    \<and> settled_kept E s (fst (record_decision E rid AllowOnce s))
    \<and> settled_kept E s (fst (record_decision E rid DenyOnce s))
    \<and> settled_kept E s (fst (dismiss_request E rid s))
    \<and> settled_kept E s (withdraw_run E s)"
  using timeout_one_kept [OF assms(1)] once_decision_kept [OF assms(1)] dismiss_kept [OF assms(2,1)]
    withdraw_kept [OF assms(2,1)]
  by simp

definition allowed_session :: "entry list session" where
  "allowed_session = step sample_env (Submit (sample_request\<lparr>rp_id := ''r2''\<rparr>) 0)
     (step sample_env (Decide ''r1'' AllowAlways) asked_session)"

lemma settled_answers_survive_witness:
  "settled_kept sample_env allowed_session (fst (timeout_one sample_env ''r2'' allowed_session))
    \<and> entry_of (listed sample_env allowed_session) (en_id (hd (listed sample_env allowed_session)))
        = Some (hd (listed sample_env allowed_session))
    \<and> is_settled (hd (listed sample_env allowed_session))"
proof -
  have v: "v_store sample_env = list_store" by (simp add: sample_env_def)
  have "s_entries allowed_session" by code_simp
  then have ok: "store_ok sample_env (\<lambda>_. True) allowed_session"
    using lists.entry_store_axioms v by (simp add: store_ok_def)
  have apart: "ports_apart sample_env (\<lambda>_. True)" by (simp add: ports_apart_def sample_env_def)
  have "entry_of (listed sample_env allowed_session) (en_id (hd (listed sample_env allowed_session)))
        = Some (hd (listed sample_env allowed_session))"
    and "is_settled (hd (listed sample_env allowed_session))" by code_simp+
  with settled_answers_survive [OF ok apart, of "''r2''"] show ?thesis by blast
qed


definition offered_session :: "entry list session" where
  "offered_session = step sample_env (Submit (sample_request\<lparr>rp_id := ''r3'', rp_host := ''db.io''\<rparr>) 0)
     (step sample_env (Submit sample_request 0)
       (hold_for_offers [sample_connector ''hub'' [''api.dev'']] (set_connector_port sample_session)))"


text \<open>
  Withdrawing a run closes everything it had open and decides nothing: every card is dismissed in
  order, every sign-in is abandoned, the notices are cleared, no request and no round is left, and no
  frame is sent to the guest.
\<close>

theorem withdraw_closes_everything:
  "s_pending (withdraw_run E s) = [] \<and> s_rounds (withdraw_run E s) = [] \<and> s_withdrawn (withdraw_run E s)
   \<and> s_out (withdraw_run E s) = s_out s @ map (\<lambda>(rid, _). Dismiss rid) (s_pending s)
       @ map (\<lambda>(_, r). Abandon (or_handle r)) (s_rounds s) @ [ClearInforms]"
  using withdraw_trace withdraw_run_owed(1) withdraw_marks by blast

end
