(* ===== verification/Session_Silence.thy ===== *)
theory Session_Silence
  imports Session_Effects
begin

text \<open>
  A run that has been withdrawn is told nothing more: no method of the session reaches the
  notifier's \<open>inform\<close> once the run is gone and a connector store is wired.
\<close>

definition voice :: "'w session \<Rightarrow> bool \<times> bool \<times> effect list" where
  "voice s = (s_withdrawn s, s_connectors s, filter is_inform (s_out s))"

definition hush :: "'w session \<Rightarrow> 'w session \<Rightarrow> bool" where
  "hush s t \<longleftrightarrow> (s_withdrawn s \<and> s_connectors s \<longrightarrow> voice t = voice s)"

lemma hush_refl [simp]: "hush s s"
  by (simp add: hush_def)

lemma hush_trans [trans]: "hush s t \<Longrightarrow> hush t u \<Longrightarrow> hush s u"
  by (auto simp: hush_def voice_def)

lemma voice_hush: "voice t = voice s \<Longrightarrow> hush s t"
  by (simp add: hush_def)

lemma hush_voice: "hush s t \<Longrightarrow> voice u = voice t \<Longrightarrow> hush s u"
  by (simp add: hush_def)

lemma hush_foldl: "(\<And>x acc. hush acc (f acc x)) \<Longrightarrow> hush s (foldl f s xs)"
proof (induction xs arbitrary: s)
  case (Cons x xs)
  show ?case using hush_trans [OF Cons.prems [of s x] Cons.IH [OF Cons.prems]] by simp
qed simp

lemma voice_updates [simp]:
  "voice (s\<lparr>s_world := w\<rparr>) = voice s" "voice (s\<lparr>s_policy := p\<rparr>) = voice s"
  "voice (s\<lparr>s_persisted := p\<rparr>) = voice s" "voice (s\<lparr>s_rounds := r\<rparr>) = voice s"
  "voice (s\<lparr>s_settled := n\<rparr>) = voice s" "voice (s\<lparr>s_offers := os\<rparr>) = voice s"
  "voice (s\<lparr>s_granted := g\<rparr>) = voice s" "voice (s\<lparr>s_next_refresh := k\<rparr>) = voice s"
  "voice (s\<lparr>s_said := sd\<rparr>) = voice s" "voice (s\<lparr>s_connector_clock := ck\<rparr>) = voice s"
  "voice (s\<lparr>s_pending := pe\<rparr>) = voice s"
  by (simp_all add: voice_def)

lemma voice_emit [simp]: "\<not> is_inform e \<Longrightarrow> voice (emit e s) = voice s"
  by (simp add: voice_def)

lemma voice_foldl: "(\<And>x acc. voice (f acc x) = voice acc) \<Longrightarrow> voice (foldl f s xs) = voice s"
  by (induction xs arbitrary: s) auto

lemma voice_entries [simp]:
  "voice (record_entry E e s) = voice s" "voice (note_card E pe st s) = voice s"
  "voice (note_if_open E pe st s) = voice s" "voice (reopen_unless_decided E pe s) = voice s"
  "voice (note_connector E n st s) = voice s" "voice (note_connector_if_open E n s) = voice s"
  "voice (note_the_card E pe d b s) = voice s"
  by (simp_all add: record_entry_def note_card_def note_if_open_def reopen_unless_decided_def
      note_connector_def note_connector_if_open_def note_the_card_def Let_def split: option.splits)

lemma voice_rounds [simp]:
  "voice (hold_round rid r s) = voice s" "voice (abandon_handle E h s) = voice s"
  "voice (abandon_round E rid s) = voice s" "voice (count_settled rid s) = voice s"
  by (auto simp: hold_round_def abandon_handle_def abandon_round_def forget_round_def count_settled_def
      split: option.splits)

lemma voice_frames [simp]:
  "voice (represent_one rid s) = voice s" "voice (represent ids s) = voice s"
  "voice (send_policy_frame E s) = voice s" "voice (send_decision_frame rid d s) = voice s"
  "voice (send_answer rid pe d s) = voice s" "voice (record_approval pe d why s) = voice s"
  "voice (keep_offer rid pe s) = voice s" "voice (apply_external_policy E p s) = voice s"
  "voice (apply_granted_egress E n g s) = voice s" "voice (forget_offer E n s) = voice s"
  "voice (fst (settle E a s)) = voice s" "voice (put_rules_back rs s) = voice s"
  "voice (fst (apply_persistent_rule E r s)) = voice s" "voice (fst (take_back_rule dest raw s)) = voice s"
  "voice (fst (apply_persistent_tcp_rule E tr s)) = voice s"
proof -
  show 1: "voice (represent_one rid s) = voice s" for rid s
    by (simp add: represent_one_def split: option.splits)
  show "voice (represent ids s) = voice s" unfolding represent_def by (rule voice_foldl) (rule 1)
  show "voice (forget_offer E n s) = voice s"
    unfolding forget_offer_def Let_def by (rule trans [OF voice_foldl]) simp_all
qed (simp_all add: send_policy_frame_def send_decision_frame_def send_answer_def record_approval_def
      keep_offer_def apply_external_policy_def apply_granted_egress_def settle_def put_rules_back_def
      apply_persistent_rule_def apply_persistent_tcp_rule_def take_back_rule_def Let_def
      split: option.splits prod.splits)

lemma voice_release [simp]: "voice (release c ids s) = voice s"
proof -
  have "voice (release_one c rid u) = voice u" for rid u
    by (simp add: release_one_def remove_pending_def split: option.splits)
  then show ?thesis unfolding release_def by (rule voice_foldl)
qed

lemma hush_tell: "hush s (tell E m s)"
  by (simp add: hush_def tell_def)

lemma hush_tellers:
  "hush s (report_no_rule_written E why s)" "hush s (report_invalidated E ivs s)" "hush s (inform_once E m s)"
proof -
  show "hush s (inform_once E m s)"
    using hush_trans [OF voice_hush hush_tell, of "s\<lparr>s_said := m # s_said s\<rparr>" s E m]
    by (simp add: inform_once_def)
qed (simp_all add: report_no_rule_written_def report_invalidated_def hush_tell)

lemma hush_save: "hush s (save_persisted E s)"
proof -
  obtain w r where v: "v_save E (s_persisted s) (s_world s) = (w, r)" by (cases "v_save E (s_persisted s) (s_world s)")
  let ?s1 = "emit (Save (s_persisted s)) (s\<lparr>s_world := w\<rparr>)"
  have "hush s ?s1" by (rule voice_hush) simp
  then show ?thesis
    using hush_trans [OF _ hush_tell] by (cases r) (auto simp: save_persisted_def v Let_def)
qed

lemma hush_place: "place_always_rule E dest raw v s = (t, pl) \<Longrightarrow> hush s t"
proof -
  assume p: "place_always_rule E dest raw v s = (t, pl)"
  show ?thesis
  proof (cases "\<not> raw \<or> (\<exists>e. tcp_validate (v_ipnet E) (splice v dest) = Inl e)")
    case True
    obtain s1 a where 1: "apply_persistent_rule E (route v dest) s = (s1, a)"
      by (cases "apply_persistent_rule E (route v dest) s")
    have "t = s \<or> settle E a s1 = (t, pl)"
      using p True 1 by (auto simp: place_always_rule_def place_raw_rule_def split: if_splits)
    moreover have "voice s1 = voice s" using voice_frames(13) [of E "route v dest" s] 1 by simp
    ultimately have "voice t = voice s" using voice_frames(11) [of E a s1] by (metis fst_conv)
    then show ?thesis by (rule voice_hush)
  next
    case False
    then obtain u where r: raw and v: "tcp_validate (v_ipnet E) (splice v dest) = Inr u"
      by (cases "tcp_validate (v_ipnet E) (splice v dest)") auto
    obtain s1 a pre where 1: "apply_persistent_tcp_rule E (splice v dest) s = (s1, a, pre)"
      by (cases "apply_persistent_tcp_rule E (splice v dest) s") auto
    obtain s2 pl2 where 2: "settle E a s1 = (s2, pl2)" by (cases "settle E a s1")
    have "voice s2 = voice s"
      using voice_frames(15) [of E "splice v dest" s] voice_frames(11) [of E a s1] 1 2 by simp
    then have "hush s s2" by (rule voice_hush)
    moreover have "t = s2 \<or> (\<exists>m. t = tell E m s2)"
      using p r v 1 2 unfolding place_always_rule_def place_raw_rule_def
      by (cases "pl2 = Written \<and> pre \<noteq> []") (simp_all, blast)
    ultimately show ?thesis using hush_tell hush_trans by blast
  qed
qed

lemma hush_always: "hush s (fst (apply_always_decision E e d s))"
proof -
  have "hush s (fst (case place_always_rule E dest raw v s of
      (s1, Written) \<Rightarrow> (s1, True) | (s1, Refused why) \<Rightarrow> (report_no_rule_written E why s1, False)))" for dest raw v
  proof -
    obtain t pl where p: "place_always_rule E dest raw v s = (t, pl)" by (cases "place_always_rule E dest raw v s")
    from hush_place [OF this] hush_trans [OF _ hush_tellers(1)] show ?thesis by (cases pl) (auto simp: p)
  qed
  then show ?thesis by (auto simp: apply_always_decision_def hush_tellers split: option.splits)
qed

lemma voice_always [simp]:
  "always_of d = None \<Longrightarrow> voice (fst (apply_always_decision E e d s)) = voice s"
  by (simp add: apply_always_decision_def)

lemma hush_decision: "hush s (fst (record_decision E rid d s))"
proof (cases "hm_get (s_pending s) rid")
  case (Some e)
  let ?s2 = "emit (Dismiss rid) (s\<lparr>s_pending := hm_remove rid (s_pending s)\<rparr>)"
  obtain s3 st where 3: "apply_always_decision E e d ?s2 = (s3, st)" by (cases "apply_always_decision E e d ?s2")
  let ?s4 = "send_answer rid e d s3"
  let ?s5 = "if st then save_persisted E ?s4 else ?s4"
  have "hush s ?s2" by (rule voice_hush) simp
  also have "hush ?s2 s3" using hush_always [of ?s2 E e d] 3 by simp
  also have "hush s3 ?s4" by (rule voice_hush) simp
  also have "hush ?s4 ?s5" by (simp add: hush_save)
  also have "hush ?s5 (record_approval e d None (note_the_card E e d st ?s5))" by (rule voice_hush) simp
  finally show ?thesis by (simp add: record_decision_def remove_pending_def Some Let_def 3)
qed (simp add: record_decision_def remove_pending_def)

lemma hush_dismiss: "hush s (fst (dismiss_request E rid s))"
  by (rule voice_hush) (simp add: dismiss_request_def remove_pending_def Let_def split: option.splits)

lemma voice_keep [simp]: "voice (fst (keep E entry st s)) = voice s"
  by (simp add: keep_def)

lemma hush_late: "hush s (fst (settle_late_answer E entry dest raw v s))"
proof -
  obtain t pl where p: "place_always_rule E dest raw v s = (t, pl)" by (cases "place_always_rule E dest raw v s")
  note 1 = hush_place [OF p]
  show ?thesis
  proof (cases pl)
    case Written
    have "hush s (save_persisted E t)" using hush_trans [OF 1 hush_save] .
    then show ?thesis using Written by (auto simp: settle_late_answer_def p intro: hush_voice)
  qed (use 1 in \<open>simp add: settle_late_answer_def p\<close>)
qed

lemma hush_ask_again: "hush s (fst (settle_ask_again E entry b s))"
proof -
  have "hush s (save_persisted E (send_policy_frame E s))"
    by (rule hush_trans [OF voice_hush hush_save]) simp
  then show ?thesis by (auto simp: settle_ask_again_def intro: hush_voice)
qed

lemma hush_answer: "hush s (fst (answer_entry E eid a s))"
proof (cases "\<exists>entry dest port raw. List.find (\<lambda>held. en_id held = eid) (listed E s) = Some entry
    \<and> en_kind entry = Destination dest port raw")
  case True
  then obtain entry dest port raw where f: "List.find (\<lambda>held. en_id held = eid) (listed E s) = Some entry"
    and k: "en_kind entry = Destination dest port raw" by blast
  obtain s1 b where 1: "take_back_rule dest raw s = (s1, b)" by (cases "take_back_rule dest raw s")
  have h1: "hush s s1" using voice_frames(14) [of dest raw s] 1 by (simp add: voice_hush)
  show ?thesis
  proof (cases "answer_always a")
    case None
    then show ?thesis using hush_trans [OF h1 hush_ask_again] by (simp add: answer_entry_def f k 1)
  next
    case (Some v)
    obtain s2 out where 2: "settle_late_answer E entry dest raw v s1 = (s2, out)"
      by (cases "settle_late_answer E entry dest raw v s1")
    then have "hush s s2" using hush_trans [OF h1 hush_late, of E entry dest raw v] by simp
    then show ?thesis using Some
      by (auto simp: answer_entry_def f k 1 2 intro: hush_voice split: answer_outcome.splits)
  qed
next
  case False
  then have "fst (answer_entry E eid a s) = s"
    by (auto simp: answer_entry_def split: option.splits entry_kind.splits)
  then show ?thesis by simp
qed

section \<open>Offers, grants and sign-ins\<close>

lemma hush_submit: "hush s (submit_pending E req now s)"
proof (cases "hm_get (s_pending s) (rp_id req) \<noteq> None")
  case False
  let ?raised = "\<lparr>pe_host = rp_host req, pe_action = rp_action req, pe_treatment = rp_treatment req,
      pe_deadline = now + s_timeout s, pe_reason = rp_reason req, pe_offer = None, pe_expired = False\<rparr>"
  let ?s2 = "reopen_unless_decided E ?raised (s\<lparr>s_pending := hm_insert (rp_id req) ?raised (s_pending s)\<rparr>)"
  obtain s3 oc where 3: "offer_for E req ?s2 = (s3, oc)" by (cases "offer_for E req ?s2")
  have "hush ?s2 s3" using 3 hush_tellers(3)
    by (auto simp: offer_for_def Let_def split: offer.splits)
  then have "hush s s3" by (rule hush_trans [OF voice_hush, rotated]) simp
  then show ?thesis
    by (rule hush_voice) (use False 3 in \<open>simp add: submit_pending_def Let_def split: option.splits\<close>)
qed (simp add: submit_pending_def)

lemma hush_resolve:
  assumes "resolve_connection E n m c s = (s1, r)"
  shows "hush s s1"
proof (cases c)
  case (New label vals)
  obtain w res where v: "v_connect E n m label vals (s_world s) = (w, res)"
    by (cases "v_connect E n m label vals (s_world s)")
  have w: "hush s (s\<lparr>s_world := w\<rparr>)" by (rule voice_hush) simp
  from hush_trans [OF this hush_tellers(2)] w assms New v show ?thesis
    by (auto simp: resolve_connection_def Let_def split: sum.splits)
qed (use assms in \<open>simp_all add: resolve_connection_def\<close>)

lemma hush_grant: "hush s (fst (grant_the E offer m c s))"
proof (cases "s_connectors s")
  case True
  obtain s1 r where 1: "resolve_connection E (cv_name offer) m c s = (s1, r)"
    by (cases "resolve_connection E (cv_name offer) m c s")
  note h1 = hush_resolve [OF 1]
  show ?thesis
  proof (cases r)
    case (Inl why)
    then show ?thesis using True 1 hush_trans [OF h1 hush_tell] by (simp add: grant_the_def)
  next
    case (Inr label)
    obtain w g where g: "v_grant E (cv_name offer) (cv_digest offer) m label (s_world s1) = (w, g)"
      by (cases "v_grant E (cv_name offer) (cv_digest offer) m label (s_world s1)")
    have "hush s (s1\<lparr>s_world := w\<rparr>)" using h1 by (rule hush_voice) simp
    from this hush_trans [OF this hush_tell] True 1 Inr g show ?thesis
      by (cases g) (auto simp: grant_the_def Let_def intro: hush_voice)
  qed
qed (simp add: hush_def)

lemma hush_offers:
  "hush s (fst (grant_offer E rid m c s))" "hush s (fst (grant_offered E n m c s))"
proof -
  have "hush s (fst (grant_the E offer m c (abandon_round E rid s)))" for offer
    by (rule hush_trans [OF voice_hush hush_grant]) simp
  then show "hush s (fst (grant_offer E rid m c s))" by (simp add: grant_offer_def split: option.splits)
  show "hush s (fst (grant_offered E n m c s))" by (simp add: grant_offered_def hush_grant split: option.splits)
qed

lemma hush_decline: "hush s (fst (decline_offer E rid s))"
proof (cases "offer_of rid s")
  case (Some offer)
  let ?s1 = "abandon_round E rid s"
  obtain w r where v: "(if s_connectors ?s1 then v_decline E (cv_name offer) (s_world ?s1)
      else (s_world ?s1, Inr ())) = (w, r)" by (metis surj_pair)
  have "hush s (?s1\<lparr>s_world := w\<rparr>)" by (rule voice_hush) simp
  from this hush_trans [OF this hush_tell] show ?thesis
    unfolding decline_offer_def Some option.case Let_def v prod.case
    by (cases r) (auto intro: hush_voice)
qed (simp add: decline_offer_def)

lemma hush_round: "hush s (fst (settle_round E rid offer m rnd s))"
proof -
  let ?s0 = "count_settled rid s"
  have 0: "hush s ?s0" by (rule voice_hush) simp
  have after_tell: "hush s (represent ids (tell E msg u))" if "voice u = voice s" for ids msg u
    using hush_trans [OF voice_hush [OF that] hush_tell] by (rule hush_voice) simp
  consider c iv where "rnd = Inr (Connected c iv)" | "\<nexists>c iv. rnd = Inr (Connected c iv)" by blast
  then show ?thesis
  proof cases
    case (1 c iv)
    let ?s1 = "report_invalidated E iv ?s0"
    have h1: "hush s ?s1" by (rule hush_trans [OF 0 hush_tellers(2)])
    obtain s2 out where 2: "grant_the E offer m (Held c) ?s1 = (s2, out)"
      by (cases "grant_the E offer m (Held c) ?s1")
    have "hush s s2" using hush_trans [OF h1 hush_grant, of E offer m "Held c"] 2 by simp
    with hush_trans [OF h1 hush_tell] show ?thesis
      by (auto simp: settle_round_def 1 Let_def 2 intro: hush_voice)
  next
    case 2
    then show ?thesis using 0
      by (auto simp: settle_round_def Let_def hold_ask_def voice_hush intro!: after_tell
          split: sum.splits connect_round.splits)
  qed
qed

lemma hush_begin: "hush s (fst (begin_connect E rid m label s))"
proof (cases "offer_of rid s")
  case (Some offer)
  obtain w r where v: "v_begin_connect E (cv_name offer) m label (s_world (abandon_round E rid s)) = (w, r)"
    by (cases "v_begin_connect E (cv_name offer) m label (s_world (abandon_round E rid s))")
  have "hush s (fst (settle_round E rid offer m r ((abandon_round E rid s)\<lparr>s_world := w\<rparr>)))"
    by (rule hush_trans [OF voice_hush hush_round]) simp
  moreover have "hush s (represent [rid] (tell E NO_CONNECTOR_STORE (count_settled rid s)))"
    by (rule hush_voice [OF hush_trans [OF voice_hush hush_tell, of "count_settled rid s"]]) simp_all
  ultimately show ?thesis by (simp add: begin_connect_def Some v Let_def)
qed (simp add: begin_connect_def)

lemma hush_answer_connect: "hush s (fst (answer_connect E rid vals s))"
proof (cases "hm_get (s_rounds s) rid")
  case None
  then show ?thesis by (simp add: answer_connect_def forget_round_def voice_hush)
next
  case (Some r)
  let ?s1 = "s\<lparr>s_rounds := hm_remove rid (s_rounds s)\<rparr>"
  obtain w a where v: "v_answer_connect E (or_handle r) vals (s_world ?s1) = (w, a)"
    by (cases "v_answer_connect E (or_handle r) vals (s_world ?s1)")
  have "hush s (fst (settle_round E rid (or_offer r) (or_method r) a u))" if "voice u = voice s" for u
    by (rule hush_trans [OF voice_hush [OF that] hush_round])
  then show ?thesis using v by (simp add: answer_connect_def forget_round_def Some Let_def)
qed

lemma hush_browser: "hush s (open_connect_browser E rid s)"
proof (cases "round_of rid s")
  case (Some r)
  obtain w a where v: "v_open_browser E (or_handle r) (s_world s) = (w, a)"
    by (cases "v_open_browser E (or_handle r) (s_world s)")
  have "hush s (s\<lparr>s_world := w\<rparr>)" by (rule voice_hush) simp
  from this hush_trans [OF this hush_tell] show ?thesis
    by (cases a) (simp_all add: open_connect_browser_def Some v Let_def)
qed (simp add: open_connect_browser_def)

section \<open>Time and the end of a run\<close>

lemma hush_poll: "hush s (poll_native_rounds E s)"
proof -
  have "hush u (poll_one E ro u)" for ro u
  proof -
    obtain rid r where ro: "ro = (rid, r)" by (cases ro)
    obtain w a where v: "v_poll_connect E (or_handle r) (s_world u) = (w, a)"
      by (cases "v_poll_connect E (or_handle r) (s_world u)")
    have "hush u (fst (settle_round E rid (or_offer r) (or_method r) a t))" if "voice t = voice u" for t
      by (rule hush_trans [OF voice_hush [OF that] hush_round])
    then show ?thesis by (auto simp: poll_one_def ro v Let_def voice_hush split: option.splits)
  qed
  then show ?thesis unfolding poll_native_rounds_def by (rule hush_foldl)
qed

lemma voice_refresh: "voice (refresh_connector_supply_due E elapsed s) = voice s"
proof -
  have "voice (refresh_connector_supply E u) = voice u" for u
    by (simp add: refresh_connector_supply_def voice_def Let_def split: prod.splits option.splits)
  then show ?thesis by (simp add: refresh_connector_supply_due_def Let_def)
qed

lemma voice_timeout_one: "voice (fst (timeout_one E rid s)) = voice s"
  by (simp add: timeout_one_def remove_pending_def Let_def split: option.splits)

lemma voice_timeout_all: "voice (fst (timeout_all E ids s)) = voice s"
proof -
  have "voice (fst (foldl (\<lambda>(acc, n) rid. let (acc', hit) = timeout_one E rid acc in (acc', if hit then Suc n else n))
      (u, n) ids)) = voice u" for u n
  proof (induction ids arbitrary: u n)
    case (Cons rid ids)
    obtain u' hit where t: "timeout_one E rid u = (u', hit)" by (cases "timeout_one E rid u")
    show ?case using voice_timeout_one [of E rid u] Cons.IH [of u'] by (simp add: t Let_def)
  qed simp
  then show ?thesis by (simp add: timeout_all_def)
qed

lemma hush_tick: "hush s (fst (tick_timeouts E now s))"
proof -
  have "voice (fst (tick_timeouts E now s)) = voice (poll_native_rounds E s)"
    by (simp add: tick_timeouts_def Let_def voice_timeout_all voice_refresh)
  with hush_poll show ?thesis by (rule hush_voice)
qed

lemma hush_withdraw: "hush s (withdraw_run E s)"
proof -
  let ?s1 = "s\<lparr>s_withdrawn := True, s_pending := []\<rparr>"
  have one: "voice (withdraw_one E held u) = voice u" for held u by (simp add: withdraw_one_def)
  have "voice (withdraw_run E s) = voice ?s1"
    unfolding withdraw_run_def abandon_every_round_def Let_def
    by (simp add: voice_foldl one split_beta)
  moreover have "s_withdrawn s \<Longrightarrow> voice ?s1 = voice s" by (simp add: voice_def)
  ultimately show ?thesis by (simp add: hush_def)
qed

lemma step_hush: "hush s (step E c s)"
  by (cases c) (simp_all add: hush_submit hush_decision hush_dismiss hush_answer hush_offers hush_decline
      hush_begin hush_answer_connect hush_browser hush_tick hush_withdraw voice_hush remove_entry_def split_beta)

text \<open>The one message that bypasses \<open>tell\<close>: a grant with no store wired informs even a withdrawn run.\<close>

lemma missing_store_informs_withdrawn_run:
  "\<not> s_connectors s \<Longrightarrow> s_out (fst (grant_the E offer m c s)) = s_out s @ [Inform NO_CONNECTOR_STORE]"
  by (simp add: grant_the_def)

section \<open>Properties\<close>

text \<open>
  C36: a run that is gone is told nothing more. With a connector store wired, no sequence of commands
  after the withdrawal reaches the notifier's \<open>inform\<close>, whatever fails in between.
\<close>

theorem withdrawn_run_is_silent:
  assumes "s_withdrawn s" "s_connectors s"
  shows "filter is_inform (s_out (run E cs s)) = filter is_inform (s_out s)"
proof -
  have "hush s (run E cs s)"
  proof (induction cs arbitrary: s)
    case (Cons c cs)
    show ?case using hush_trans [OF step_hush Cons.IH] by simp
  qed simp
  with assms show ?thesis by (simp add: hush_def voice_def)
qed

definition full_disk_env :: "(block, entry list) env" where
  "full_disk_env = sample_env\<lparr>v_save := (\<lambda>p w. (w, Inl ''disk full''))\<rparr>"

lemma withdrawn_run_is_silent_witness:
  "filter is_inform (s_out (run full_disk_env
      [Withdraw, Submit sample_request 0, Decide ''r1'' AllowAlways] (set_connector_port sample_session))) = []
   \<and> filter is_inform (s_out (run full_disk_env
      [Submit sample_request 0, Decide ''r1'' AllowAlways] (set_connector_port sample_session))) \<noteq> []"
proof -
  let ?s = "step full_disk_env Withdraw (set_connector_port sample_session)"
  have "s_withdrawn ?s" "s_connectors ?s" by code_simp+
  note q = withdrawn_run_is_silent [OF this, of full_disk_env "[Submit sample_request 0, Decide ''r1'' AllowAlways]"]
  have "filter is_inform (s_out ?s) = []" by code_simp
  moreover have "filter is_inform (s_out (run full_disk_env
      [Submit sample_request 0, Decide ''r1'' AllowAlways] (set_connector_port sample_session))) \<noteq> []" by code_simp
  ultimately show ?thesis using q by simp
qed

end
