(* ===== verification/Frames.thy ===== *)
theory Frames
  imports Prelude "HOL-Library.Word"
begin

text \<open>
  The two framed byte streams of the program: the socket between the command line tool and the
  service (\<open>crates/lns-ipc/src/codec.rs\<close>: magic, length, kind and payload) and the channel between
  the service and the guest's session broker (\<open>crates/lns-session/src/lib.rs\<close>: length and body), with
  the service's reader of the broker's output (\<open>crates/lns-service/src/vm/session_client.rs\<close>).
  The encodings of the messages themselves, \<open>serde_json\<close> and \<open>postcard\<close>, are parameters. A reader is
  the bytes still to come and the error it ends in.
\<close>

unbundle bit_operations_syntax

type_synonym byte = "8 word"
type_synonym bytes = "byte list"

datatype io_kind = UnexpectedEof | OtherIo

type_synonym reader = "bytes \<times> io_kind"

definition read_exact :: "nat \<Rightarrow> reader \<Rightarrow> io_kind + bytes \<times> reader" where
  "read_exact n r = (if n \<le> length (fst r) then Inr (take n (fst r), drop n (fst r), snd r) else Inl (snd r))"

definition to_be_bytes :: "32 word \<Rightarrow> bytes" where
  "to_be_bytes w = [ucast (drop_bit 24 w), ucast (drop_bit 16 w), ucast (drop_bit 8 w), ucast w]"

fun from_be_bytes :: "bytes \<Rightarrow> 32 word" where
  "from_be_bytes [a, b, c, d] = push_bit 24 (ucast a) OR push_bit 16 (ucast b) OR push_bit 8 (ucast c) OR ucast d"
| "from_be_bytes _ = 0"

section \<open>The socket of the service\<close>

definition MAX_FRAME_SIZE :: "32 word" where
  "MAX_FRAME_SIZE = 1024 * 1024"

definition FRAME_MAGIC :: bytes where
  "FRAME_MAGIC = [0x4C, 0x4E, 0x53, 0x32]"

definition SUBTYPE_JSON :: byte where
  "SUBTYPE_JSON = 1"

definition SUBTYPE_STDOUT :: byte where
  "SUBTYPE_STDOUT = 2"

definition SUBTYPE_STDERR :: byte where
  "SUBTYPE_STDERR = 3"

datatype 'j frame_error =
    Io io_kind
  | TooLarge "32 word"
  | Empty
  | BadMagic bytes
  | UnexpectedSubType byte
  | Json 'j

definition encode_raw_frame :: "byte \<times> bytes \<Rightarrow> 'j frame_error + bytes" where
  "encode_raw_frame raw = (case raw of (sub_type, payload) \<Rightarrow>
     if 2 ^ 32 \<le> 1 + length payload then Inl (TooLarge (- 1))
     else let len = of_nat (1 + length payload)
       in if MAX_FRAME_SIZE < len then Inl (TooLarge len)
          else Inr (FRAME_MAGIC @ to_be_bytes len @ sub_type # payload))"

definition decode_raw_frame :: "reader \<Rightarrow> 'j frame_error + (byte \<times> bytes) \<times> reader" where
  "decode_raw_frame r =
     and_then (map_err Io (read_exact 4 r)) (\<lambda>(magic, r).
     if magic \<noteq> FRAME_MAGIC then Inl (BadMagic magic)
     else and_then (map_err Io (read_exact 4 r)) (\<lambda>(len_buf, r).
       let len = from_be_bytes len_buf
       in if MAX_FRAME_SIZE < len then Inl (TooLarge len)
          else if len = 0 then Inl Empty
          else and_then (map_err Io (read_exact (unat len) r)) (\<lambda>(body, r). Inr ((hd body, tl body), r))))"

definition encode_frame :: "('m \<Rightarrow> 'j + bytes) \<Rightarrow> 'm \<Rightarrow> 'j frame_error + bytes" where
  "encode_frame to_vec msg = and_then (map_err Json (to_vec msg)) (\<lambda>json. encode_raw_frame (SUBTYPE_JSON, json))"

definition decode_frame :: "(bytes \<Rightarrow> 'j + 'm) \<Rightarrow> reader \<Rightarrow> 'j frame_error + 'm \<times> reader" where
  "decode_frame from_slice r = and_then (decode_raw_frame r) (\<lambda>((sub_type, payload), r).
     if sub_type \<noteq> SUBTYPE_JSON then Inl (UnexpectedSubType sub_type)
     else and_then (map_err Json (from_slice payload)) (\<lambda>msg. Inr (msg, r)))"

datatype 'm wire_frame = Json_Frame 'm | Stdout bytes | Stderr bytes

definition raw_wire_frame :: "('m \<Rightarrow> 'j + bytes) \<Rightarrow> 'm wire_frame \<Rightarrow> 'j frame_error + byte \<times> bytes" where
  "raw_wire_frame to_vec f = (case f of
     Json_Frame resp \<Rightarrow> and_then (map_err Json (to_vec resp)) (\<lambda>json. Inr (SUBTYPE_JSON, json))
   | Stdout bs \<Rightarrow> Inr (SUBTYPE_STDOUT, bs)
   | Stderr bs \<Rightarrow> Inr (SUBTYPE_STDERR, bs))"

definition encode_wire_frame :: "('m \<Rightarrow> 'j + bytes) \<Rightarrow> 'm wire_frame \<Rightarrow> 'j frame_error + bytes" where
  "encode_wire_frame to_vec f = and_then (raw_wire_frame to_vec f) encode_raw_frame"

definition decode_wire_frame_from_payload ::
    "(bytes \<Rightarrow> 'j + 'm) \<Rightarrow> byte \<times> bytes \<Rightarrow> 'j frame_error + 'm wire_frame" where
  "decode_wire_frame_from_payload from_slice raw = (case raw of (sub_type, payload) \<Rightarrow>
     if sub_type = SUBTYPE_JSON then and_then (map_err Json (from_slice payload)) (\<lambda>resp. Inr (Json_Frame resp))
     else if sub_type = SUBTYPE_STDOUT then Inr (Stdout payload)
     else if sub_type = SUBTYPE_STDERR then Inr (Stderr payload)
     else Inl (UnexpectedSubType sub_type))"

definition decode_wire_frame_sync ::
    "(bytes \<Rightarrow> 'j + 'm) \<Rightarrow> reader \<Rightarrow> 'j frame_error + 'm wire_frame \<times> reader" where
  "decode_wire_frame_sync from_slice r = and_then (decode_raw_frame r) (\<lambda>(raw, r).
     and_then (decode_wire_frame_from_payload from_slice raw) (\<lambda>f. Inr (f, r)))"

definition decode_wire_frame_from_bytes :: "(bytes \<Rightarrow> 'j + 'm) \<Rightarrow> bytes \<Rightarrow> 'j frame_error + 'm wire_frame" where
  "decode_wire_frame_from_bytes from_slice buf = and_then (decode_raw_frame (buf, UnexpectedEof)) (\<lambda>(raw, r).
     decode_wire_frame_from_payload from_slice raw)"

definition read_frame_bytes_async :: "reader \<Rightarrow> 'j frame_error + bytes \<times> reader" where
  "read_frame_bytes_async r =
     and_then (map_err Io (read_exact 8 r)) (\<lambda>(header, r).
     let magic = take 4 header; len = from_be_bytes (drop 4 header)
     in if magic \<noteq> FRAME_MAGIC then Inl (BadMagic magic)
        else if MAX_FRAME_SIZE < len then Inl (TooLarge len)
        else and_then (map_err Io (read_exact (unat len) r)) (\<lambda>(body, r). Inr (header @ body, r)))"

text \<open>The command line tool reads a frame's bytes from the socket and decodes them.\<close>

definition read_wire_frame_async ::
    "(bytes \<Rightarrow> 'j + 'm) \<Rightarrow> reader \<Rightarrow> 'j frame_error + 'm wire_frame \<times> reader" where
  "read_wire_frame_async from_slice r = and_then (read_frame_bytes_async r) (\<lambda>(buf, r).
     and_then (decode_wire_frame_from_bytes from_slice buf) (\<lambda>f. Inr (f, r)))"

section \<open>The channel of the session broker\<close>

definition MAX_FRAME_BYTES :: nat where
  "MAX_FRAME_BYTES = 16 * 1024 * 1024"

record winsize =
  rows :: "16 word"
  cols :: "16 word"

datatype signal_kind = Sig_Int | Sig_Term | Sig_Quit | Sig_Hup | Sig_Winch | Sig_Kill

fun as_libc :: "signal_kind \<Rightarrow> int" where
  "as_libc Sig_Int = 2"
| "as_libc Sig_Term = 15"
| "as_libc Sig_Quit = 3"
| "as_libc Sig_Hup = 1"
| "as_libc Sig_Winch = 28"
| "as_libc Sig_Kill = 9"

record open_session =
  os_argv :: "string list"
  os_env :: "string list"
  os_cwd :: "string option"
  os_hostname :: "string option"
  os_tty :: bool
  os_stdin :: bool
  os_winsize :: "winsize option"
  os_confine :: bool
  os_dies_with_client :: bool

datatype client_frame =
    OpenSession open_session
  | StdinBytes bytes
  | StdinClose
  | Resize winsize
  | Signal signal_kind
  | Detach

datatype server_frame = StdoutBytes bytes | StderrBytes bytes | ExitStatus int

datatype 'c protocol_error = Codec 'c | FrameTooLarge nat

definition length_prefixed :: "bytes \<Rightarrow> 'c protocol_error + bytes" where
  "length_prefixed body =
     (if MAX_FRAME_BYTES < length body then Inl (FrameTooLarge (length body))
      else Inr (to_be_bytes (of_nat (length body)) @ body))"

definition encode_session_frame :: "('f \<Rightarrow> 'c + bytes) \<Rightarrow> 'f \<Rightarrow> 'c protocol_error + bytes" where
  "encode_session_frame to_allocvec frame = and_then (map_err Codec (to_allocvec frame)) length_prefixed"

definition decode_session_frame :: "(bytes \<Rightarrow> 'c + 'f) \<Rightarrow> bytes \<Rightarrow> 'c protocol_error + 'f" where
  "decode_session_frame from_bytes body = map_err Codec (from_bytes body)"

definition decode_length_prefix :: "bytes \<Rightarrow> 'c protocol_error + nat" where
  "decode_length_prefix buf = (let len = unat (from_be_bytes buf)
     in if MAX_FRAME_BYTES < len then Inl (FrameTooLarge len) else Inr len)"

text \<open>\<open>read_client_frame\<close> of the broker: whatever goes wrong, there is no frame.\<close>

definition read_client_frame :: "(bytes \<Rightarrow> 'c + 'f) \<Rightarrow> reader \<Rightarrow> ('f \<times> reader) option" where
  "read_client_frame from_bytes r = (case read_exact 4 r of
     Inl e \<Rightarrow> None
   | Inr (len_buf, r) \<Rightarrow> (case decode_length_prefix len_buf :: 'c protocol_error + nat of
       Inl e \<Rightarrow> None
     | Inr len \<Rightarrow> (case read_exact len r of
         Inl e \<Rightarrow> None
       | Inr (body, r) \<Rightarrow> (case decode_session_frame from_bytes body of
           Inl e \<Rightarrow> None
         | Inr f \<Rightarrow> Some (f, r)))))"

datatype 'c client_error = Broken_Stream io_kind | Bad_Prefix "'c protocol_error" | Bad_Body "'c protocol_error"

definition read_one_frame :: "(bytes \<Rightarrow> 'c + 'f) \<Rightarrow> reader \<Rightarrow> 'c client_error + ('f \<times> reader) option" where
  "read_one_frame from_bytes r = (case read_exact 4 r of
     Inl UnexpectedEof \<Rightarrow> Inr None
   | Inl e \<Rightarrow> Inl (Broken_Stream e)
   | Inr (len_buf, r) \<Rightarrow> (case decode_length_prefix len_buf of
       Inl e \<Rightarrow> Inl (Bad_Prefix e)
     | Inr len \<Rightarrow> (case read_exact len r of
         Inl UnexpectedEof \<Rightarrow> Inr None
       | Inl e \<Rightarrow> Inl (Broken_Stream e)
       | Inr (body, r) \<Rightarrow> (case decode_session_frame from_bytes body of
           Inl e \<Rightarrow> Inl (Bad_Body e)
         | Inr f \<Rightarrow> Inr (Some (f, r))))))"

lemma read_exact_length: "read_exact n r = Inr (b, r') \<Longrightarrow> length b = n \<and> length (fst r) = n + length (fst r')"
  by (auto simp: read_exact_def split: if_splits)

lemma read_one_frame_progress: "read_one_frame from_bytes r = Inr (Some (f, r')) \<Longrightarrow> length (fst r') < length (fst r)"
  by (auto simp: read_one_frame_def dest!: read_exact_length split: sum.split_asm io_kind.split_asm prod.split_asm)

text \<open>
  \<open>read_server_frames\<close>: what the workload wrote goes down a channel whose receiver takes \<open>room\<close> more
  frames before it is dropped; the result is the exit status, if the broker reported one.
\<close>

function read_server_frames ::
    "(bytes \<Rightarrow> 'c + server_frame) \<Rightarrow> nat \<Rightarrow> reader \<Rightarrow> ('c client_error + int option) \<times> 'm wire_frame list" where
  "read_server_frames from_bytes room r = (case read_one_frame from_bytes r of
     Inl e \<Rightarrow> (Inl e, [])
   | Inr None \<Rightarrow> (Inr None, [])
   | Inr (Some (ExitStatus code, _)) \<Rightarrow> (Inr (Some code), [])
   | Inr (Some (StdoutBytes bs, r')) \<Rightarrow> if room = 0 then (Inr None, [])
       else (let (outcome, sent) = read_server_frames from_bytes (room - 1) r' in (outcome, Stdout bs # sent))
   | Inr (Some (StderrBytes bs, r')) \<Rightarrow> if room = 0 then (Inr None, [])
       else (let (outcome, sent) = read_server_frames from_bytes (room - 1) r' in (outcome, Stderr bs # sent)))"
  by pat_completeness auto

termination
  by (relation "measure (\<lambda>(_, _, r). length (fst r))") (auto dest: read_one_frame_progress)

declare read_server_frames.simps [simp del]

datatype 'c exit_error = Ended_Early | Reading_Failed "'c client_error"

fun session_exit_code :: "'c client_error + int option \<Rightarrow> 'c exit_error + int" where
  "session_exit_code (Inr (Some code)) = Inr code"
| "session_exit_code (Inr None) = Inl Ended_Early"
| "session_exit_code (Inl e) = Inl (Reading_Failed e)"

datatype session_input = In_StdinBytes bytes | In_StdinClose | In_Resize "16 word" "16 word" | In_Signal signal_kind | In_Detach

fun input_to_frame :: "session_input \<Rightarrow> client_frame" where
  "input_to_frame (In_StdinBytes bs) = StdinBytes bs"
| "input_to_frame In_StdinClose = StdinClose"
| "input_to_frame (In_Resize h w) = Resize \<lparr>rows = h, cols = w\<rparr>"
| "input_to_frame (In_Signal kind) = Signal kind"
| "input_to_frame In_Detach = Detach"

record capture_buffers =
  cb_stdout :: bytes
  cb_stderr :: bytes
  cb_max_bytes :: nat

definition capture_new :: "nat \<Rightarrow> capture_buffers" where
  "capture_new max_bytes = \<lparr>cb_stdout = [], cb_stderr = [], cb_max_bytes = max_bytes\<rparr>"

definition capture_push :: "'m wire_frame \<Rightarrow> capture_buffers \<Rightarrow> string + capture_buffers" where
  "capture_push frame b = (case frame of
     Stdout bs \<Rightarrow> if length (cb_stdout b) + length bs \<le> cb_max_bytes b
       then Inr (b\<lparr>cb_stdout := cb_stdout b @ bs\<rparr>)
       else Inl (''capture output exceeded '' @ show_nat (cb_max_bytes b) @ '' bytes'')
   | Stderr bs \<Rightarrow>
       (let err = cb_stderr b @ bs; overflow = length err - cb_max_bytes b
        in Inr (b\<lparr>cb_stderr := if 0 < overflow then drop overflow err else err\<rparr>))
   | Json_Frame _ \<Rightarrow> Inr b)"

section \<open>Framed streams\<close>

text \<open>
  What a client of a framing relies on: a frame is read back whatever follows it, a frame cut short and
  a stream at its end are reported as the reader's own error. From these a whole stream, cut anywhere,
  is read as the frames that arrived whole.
\<close>

fun encode_all :: "('f \<Rightarrow> 'x + bytes) \<Rightarrow> 'f list \<Rightarrow> 'x + bytes" where
  "encode_all enc [] = Inr []"
| "encode_all enc (f # fs) = and_then (enc f) (\<lambda>b. and_then (encode_all enc fs) (\<lambda>bs. Inr (b @ bs)))"

fun read_frames :: "(reader \<Rightarrow> 'e + 'f \<times> reader) \<Rightarrow> nat \<Rightarrow> reader \<Rightarrow> 'f list \<times> 'e option" where
  "read_frames rd 0 r = ([], None)"
| "read_frames rd (Suc n) r = (case rd r of
     Inl e \<Rightarrow> ([], Some e)
   | Inr (f, r') \<Rightarrow> (let (fs, e) = read_frames rd n r' in (f # fs, e)))"

text \<open>How many of the frames are whole in the first \<open>n\<close> bytes of their stream.\<close>

fun whole_frames :: "('f \<Rightarrow> 'x + bytes) \<Rightarrow> 'f list \<Rightarrow> nat \<Rightarrow> nat" where
  "whole_frames enc [] n = 0"
| "whole_frames enc (f # fs) n = (case enc f of
     Inl _ \<Rightarrow> 0
   | Inr b \<Rightarrow> if length b \<le> n then Suc (whole_frames enc fs (n - length b)) else 0)"

lemma whole_frames_all: "encode_all enc fs = Inr bs \<Longrightarrow> whole_frames enc fs (length bs) = length fs"
  by (induction fs arbitrary: bs) (auto simp: and_then_Inr)

locale framing =
  fixes enc :: "'f \<Rightarrow> 'x + bytes"
    and rd :: "reader \<Rightarrow> 'e + 'f \<times> reader"
    and eof :: "io_kind \<Rightarrow> 'e"
  assumes reads_back: "enc f = Inr bs \<Longrightarrow> rd (bs @ rest, e) = Inr (f, rest, e)"
    and truncated: "enc f = Inr bs \<Longrightarrow> bs = p @ q \<Longrightarrow> q \<noteq> [] \<Longrightarrow> rd (p, e) = Inl (eof e)"
    and ended: "rd ([], e) = Inl (eof e)"
begin

lemma stream_cut:
  "encode_all enc fs = Inr (p @ q) \<Longrightarrow>
     read_frames rd (Suc (length fs)) (p, e) = (take (whole_frames enc fs (length p)) fs, Some (eof e))"
proof (induction fs arbitrary: p)
  case Nil
  then show ?case by (simp add: ended)
next
  case (Cons f fs)
  from Cons.prems obtain b rest where b: "enc f = Inr b" and rest: "encode_all enc fs = Inr rest"
    and bs: "p @ q = b @ rest" by (auto simp: and_then_Inr)
  show ?case
  proof (cases "length b \<le> length p")
    case True
    with bs obtain p' where p: "p = b @ p'" and rest': "rest = p' @ q" by (auto simp: append_eq_append_conv2)
    from Cons.IH rest rest' have "read_frames rd (Suc (length fs)) (p', e)
        = (take (whole_frames enc fs (length p')) fs, Some (eof e))" by simp
    moreover have "rd (p, e) = Inr (f, p', e)" using reads_back [OF b] by (simp add: p)
    ultimately show ?thesis by (simp add: b p)
  next
    case False
    with bs obtain q' where "b = p @ q'" "q' \<noteq> []" by (auto simp: append_eq_append_conv2)
    with truncated [OF b] have "rd (p, e) = Inl (eof e)" by simp
    with False show ?thesis by (simp add: b)
  qed
qed

lemma typed:
  assumes "\<And>m f. pack m = Inr f \<Longrightarrow> unpack f = Inr m"
  shows "framing (\<lambda>m. and_then (pack m) enc)
    (\<lambda>r. and_then (rd r) (\<lambda>(f, r). and_then (unpack f) (\<lambda>m. Inr (m, r)))) eof"
  by unfold_locales (auto simp: and_then_Inr ended assms reads_back truncated)

end

subsection \<open>The framings of the sources\<close>

lemma be_roundtrip [simp]: "from_be_bytes (to_be_bytes w) = w"
proof (rule bit_word_eqI)
  fix n
  assume "n < LENGTH(32)"
  then consider "n < 8" | "8 \<le> n" "n < 16" | "16 \<le> n" "n < 24" | "24 \<le> n" "n < 32" by fastforce
  then show "bit (from_be_bytes (to_be_bytes w)) n = bit w n"
    by cases (auto simp: to_be_bytes_def bit_simps)
qed

lemma unat_u32: "n < 2 ^ 32 \<Longrightarrow> unat (of_nat n :: 32 word) = n"
  by (simp add: unat_of_nat take_bit_nat_eq_self)

lemma to_be_bytes_length [simp]: "length (to_be_bytes w) = 4"
  by (simp add: to_be_bytes_def)

lemma magic_length [simp]: "length FRAME_MAGIC = 4"
  by (simp add: FRAME_MAGIC_def)

lemma read_exact_cut:
  assumes "a @ b = p @ q" "length a = n"
  shows "read_exact n (p, e) = (if n \<le> length p then Inr (a, drop n p, e) else Inl e)"
    and "n \<le> length p \<Longrightarrow> b = drop n p @ q"
  using assms by (auto simp: read_exact_def append_eq_append_conv2)

lemma header_cut:
  assumes "FRAME_MAGIC @ to_be_bytes len @ body = p @ q"
  shows "4 \<le> length p \<Longrightarrow> 8 \<le> length p \<Longrightarrow> body = drop 8 p @ q"
    and "read_exact 4 (p, e) = (if 4 \<le> length p then Inr (FRAME_MAGIC, drop 4 p, e) else Inl e)"
    and "4 \<le> length p \<Longrightarrow> read_exact 4 (drop 4 p, e)
      = (if 8 \<le> length p then Inr (to_be_bytes len, drop 8 p, e) else Inl e)"
    and "read_exact 8 (p, e) = (if 8 \<le> length p then Inr (FRAME_MAGIC @ to_be_bytes len, drop 8 p, e) else Inl e)"
proof -
  have m: "4 \<le> length p \<Longrightarrow> to_be_bytes len @ body = drop 4 p @ q"
    using read_exact_cut(2) [OF assms] by simp
  from read_exact_cut(1) [OF assms] show "read_exact 4 (p, e)
      = (if 4 \<le> length p then Inr (FRAME_MAGIC, drop 4 p, e) else Inl e)" by simp
  from read_exact_cut(2) [OF m] show "4 \<le> length p \<Longrightarrow> 8 \<le> length p \<Longrightarrow> body = drop 8 p @ q" by simp
  from read_exact_cut(1) [OF m] show "4 \<le> length p \<Longrightarrow> read_exact 4 (drop 4 p, e)
      = (if 8 \<le> length p then Inr (to_be_bytes len, drop 8 p, e) else Inl e)" by auto
  from assms have "(FRAME_MAGIC @ to_be_bytes len) @ body = p @ q" by simp
  from read_exact_cut(1) [OF this] show "read_exact 8 (p, e)
      = (if 8 \<le> length p then Inr (FRAME_MAGIC @ to_be_bytes len, drop 8 p, e) else Inl e)" by simp
qed

lemma decode_raw_cut:
  assumes "FRAME_MAGIC @ to_be_bytes len @ body @ rest = p @ q" "unat len = length body" "\<not> MAX_FRAME_SIZE < len"
    and "body \<noteq> []"
  shows "decode_raw_frame (p, e) = (if 8 + length body \<le> length p
      then Inr ((hd body, tl body), drop (8 + length body) p, e) else Inl (Io e))"
proof -
  have "len \<noteq> 0" using assms(2,4) by auto
  moreover have "4 \<le> length p \<Longrightarrow> 8 \<le> length p \<Longrightarrow> read_exact (unat len) (drop 8 p, e)
      = (if 8 + length body \<le> length p then Inr (body, drop (8 + length body) p, e) else Inl e)"
    using read_exact_cut(1) [OF header_cut(1) [OF assms(1)], of "unat len" e] assms(2) by (auto simp: add.commute)
  ultimately show ?thesis
    using header_cut(2-3) [OF assms(1), of e] assms(3) by (auto simp: decode_raw_frame_def Let_def)
qed

lemma async_cut:
  assumes "FRAME_MAGIC @ to_be_bytes len @ body @ rest = p @ q" "unat len = length body" "\<not> MAX_FRAME_SIZE < len"
  shows "read_frame_bytes_async (p, e) = (if 8 + length body \<le> length p
      then Inr (FRAME_MAGIC @ to_be_bytes len @ body, drop (8 + length body) p, e) else Inl (Io e))"
proof -
  have "8 \<le> length p \<Longrightarrow> read_exact (unat len) (drop 8 p, e)
      = (if 8 + length body \<le> length p then Inr (body, drop (8 + length body) p, e) else Inl e)"
    using read_exact_cut(1) [OF header_cut(1) [OF assms(1)], of "unat len" e] assms(2) by (auto simp: add.commute)
  then show ?thesis
    using header_cut(4) [OF assms(1), of e] assms(3) by (auto simp: read_frame_bytes_async_def Let_def)
qed

lemma encode_raw_InrE:
  assumes "encode_raw_frame raw = Inr bs"
  obtains len where "bs = FRAME_MAGIC @ to_be_bytes len @ fst raw # snd raw" "unat len = length (fst raw # snd raw)"
    "\<not> MAX_FRAME_SIZE < len"
proof -
  obtain sub payload where raw: "raw = (sub, payload)" by (cases raw)
  let ?len = "of_nat (1 + length payload) :: 32 word"
  have "\<not> 2 ^ 32 \<le> 1 + length payload" "\<not> MAX_FRAME_SIZE < ?len" "bs = FRAME_MAGIC @ to_be_bytes ?len @ sub # payload"
    using assms by (auto simp: encode_raw_frame_def raw Let_def split: if_splits)
  moreover from this have "unat ?len = length (sub # payload)" using unat_u32 [of "1 + length payload"] by simp
  ultimately show thesis using that raw by simp
qed

interpretation ipc: framing encode_raw_frame decode_raw_frame Io
proof
  fix f bs p q rest :: bytes and e
  show "decode_raw_frame ([], e) = Inl (Io e)" for e by (simp add: decode_raw_frame_def read_exact_def)
  fix raw :: "byte \<times> bytes"
  assume "encode_raw_frame raw = Inr bs"
  then obtain len where bs: "bs = FRAME_MAGIC @ to_be_bytes len @ fst raw # snd raw"
    and len: "unat len = length (fst raw # snd raw)" "\<not> MAX_FRAME_SIZE < len" by (rule encode_raw_InrE)
  show "decode_raw_frame (bs @ rest, e) = Inr (raw, rest, e)"
    using decode_raw_cut [of len "fst raw # snd raw" rest "bs @ rest" "[]" e] bs len by simp
  show "bs = p @ q \<Longrightarrow> q \<noteq> [] \<Longrightarrow> decode_raw_frame (p, e) = Inl (Io e)"
    using decode_raw_cut [of len "fst raw # snd raw" "[]" p q e] bs len by (auto dest: arg_cong [of _ _ length])
qed

definition read_raw_async :: "reader \<Rightarrow> 'j frame_error + (byte \<times> bytes) \<times> reader" where
  "read_raw_async r = and_then (read_frame_bytes_async r) (\<lambda>(buf, r).
     and_then (decode_raw_frame (buf, UnexpectedEof)) (\<lambda>(raw, _). Inr (raw, r)))"

interpretation ipc_async: framing encode_raw_frame read_raw_async Io
proof
  show "read_raw_async ([], e) = Inl (Io e)" for e
    by (simp add: read_raw_async_def read_frame_bytes_async_def read_exact_def)
  fix raw :: "byte \<times> bytes" and bs p q rest :: bytes and e
  assume enc: "encode_raw_frame raw = (Inr bs :: 'a frame_error + bytes)"
  then obtain len where bs: "bs = FRAME_MAGIC @ to_be_bytes len @ fst raw # snd raw"
    and len: "unat len = length (fst raw # snd raw)" "\<not> MAX_FRAME_SIZE < len" by (rule encode_raw_InrE)
  show "read_raw_async (bs @ rest, e) = Inr (raw, rest, e)"
    using len by (simp add: bs read_raw_async_def
        async_cut [of len "fst raw # snd raw" rest "FRAME_MAGIC @ to_be_bytes len @ fst raw # snd raw @ rest" "[]" e]
        decode_raw_cut [of len "fst raw # snd raw" "[]" "FRAME_MAGIC @ to_be_bytes len @ fst raw # snd raw" "[]"])
  assume "bs = p @ q" "q \<noteq> []"
  moreover from this bs have "\<not> 8 + length (fst raw # snd raw) \<le> length p" by (auto dest: arg_cong [of _ _ length])
  ultimately show "read_raw_async (p, e) = Inl (Io e)"
    using bs len by (simp add: read_raw_async_def async_cut [of len "fst raw # snd raw" "[]" p q e])
qed

lemma wire_frame_unpack:
  assumes "\<And>m b. to_vec m = Inr b \<Longrightarrow> from_slice b = Inr m" "raw_wire_frame to_vec f = Inr raw"
  shows "decode_wire_frame_from_payload from_slice raw = Inr f"
  using assms by (cases f) (auto simp: raw_wire_frame_def decode_wire_frame_from_payload_def and_then_Inr map_err_Inr
      SUBTYPE_JSON_def SUBTYPE_STDOUT_def SUBTYPE_STDERR_def)

lemma wire_framing:
  assumes "\<And>m b. to_vec m = Inr b \<Longrightarrow> from_slice b = Inr m"
  shows "framing (encode_wire_frame to_vec) (decode_wire_frame_sync from_slice) Io"
    and "framing (encode_wire_frame to_vec) (read_wire_frame_async from_slice) Io"
proof -
  have "decode_wire_frame_sync from_slice = (\<lambda>r. and_then (decode_raw_frame r) (\<lambda>(raw, r).
      and_then (decode_wire_frame_from_payload from_slice raw) (\<lambda>f. Inr (f, r))))"
    by (rule ext) (simp add: decode_wire_frame_sync_def)
  with ipc.typed [OF wire_frame_unpack [OF assms]]
  show "framing (encode_wire_frame to_vec) (decode_wire_frame_sync from_slice) Io"
    by (simp add: encode_wire_frame_def [abs_def])
  have "read_wire_frame_async from_slice = (\<lambda>r. and_then (read_raw_async r) (\<lambda>(raw, r).
      and_then (decode_wire_frame_from_payload from_slice raw) (\<lambda>f. Inr (f, r))))"
    by (rule ext) (auto simp: read_wire_frame_async_def read_raw_async_def decode_wire_frame_from_bytes_def and_then_def
        split: sum.splits)
  with ipc_async.typed [OF wire_frame_unpack [OF assms]]
  show "framing (encode_wire_frame to_vec) (read_wire_frame_async from_slice) Io"
    by (simp add: encode_wire_frame_def [abs_def])
qed

text \<open>The service's reader of the broker's channel, the end of the stream as an outcome of its own.\<close>

definition next_frame :: "(bytes \<Rightarrow> 'c + 'f) \<Rightarrow> reader \<Rightarrow> 'c client_error option + 'f \<times> reader" where
  "next_frame from_bytes r = (case read_one_frame from_bytes r of
     Inl e \<Rightarrow> Inl (Some e)
   | Inr None \<Rightarrow> Inl None
   | Inr (Some fr) \<Rightarrow> Inr fr)"

fun stream_end :: "io_kind \<Rightarrow> 'c client_error option" where
  "stream_end UnexpectedEof = None"
| "stream_end OtherIo = Some (Broken_Stream OtherIo)"

lemma prefix_cut:
  assumes "to_be_bytes (of_nat (length body)) @ body @ rest = p @ q" "length body \<le> MAX_FRAME_BYTES"
  shows "next_frame from_bytes (p, e) = (if 4 + length body \<le> length p
      then (case from_bytes body of Inl c \<Rightarrow> Inl (Some (Bad_Body (Codec c))) | Inr f \<Rightarrow> Inr (f, drop (4 + length body) p, e))
      else Inl (stream_end e))"
proof -
  have len: "unat (of_nat (length body) :: 32 word) = length body"
    using assms(2) by (intro unat_u32) (simp add: MAX_FRAME_BYTES_def)
  have b: "4 \<le> length p \<Longrightarrow> body @ rest = drop 4 p @ q" using read_exact_cut(2) [OF assms(1)] by simp
  have "4 \<le> length p \<Longrightarrow> read_exact (length body) (drop 4 p, e)
      = (if 4 + length body \<le> length p then Inr (body, drop (4 + length body) p, e) else Inl e)"
    using read_exact_cut(1) [OF b] by (auto simp: add.commute)
  moreover have "read_exact 4 (p, e)
      = (if 4 \<le> length p then Inr (to_be_bytes (of_nat (length body)), drop 4 p, e) else Inl e)"
    using read_exact_cut(1) [OF assms(1)] by simp
  ultimately show ?thesis using assms(2) len
    by (cases e; cases "from_bytes body")
      (auto simp: next_frame_def read_one_frame_def decode_length_prefix_def decode_session_frame_def)
qed

interpretation broker: framing length_prefixed "next_frame Inr" stream_end
proof
  show "next_frame Inr ([], e) = Inl (stream_end e)" for e
    by (cases e) (simp_all add: next_frame_def read_one_frame_def read_exact_def)
  fix body bs p q rest :: bytes and e
  assume "length_prefixed body = (Inr bs :: 'a protocol_error + bytes)"
  then have bs: "bs = to_be_bytes (of_nat (length body)) @ body" and le: "length body \<le> MAX_FRAME_BYTES"
    by (auto simp: length_prefixed_def split: if_splits)
  show "next_frame Inr (bs @ rest, e) = Inr (body, rest, e)"
    using le by (simp add: bs prefix_cut [of body rest "to_be_bytes (of_nat (length body)) @ body @ rest" "[]"])
  assume "bs = p @ q" "q \<noteq> []"
  moreover from this bs have "\<not> 4 + length body \<le> length p" by (auto dest: arg_cong [of _ _ length])
  ultimately show "next_frame Inr (p, e) = Inl (stream_end e)"
    using bs le by (simp add: prefix_cut [of body "[]" p q])
qed

lemma next_frame_typed:
  "next_frame from_bytes r = and_then (next_frame Inr r) (\<lambda>(b, r).
     and_then (map_err (\<lambda>c. Some (Bad_Body (Codec c))) (from_bytes b)) (\<lambda>f. Inr (f, r)))"
proof -
  have "decode_session_frame from_bytes b = (case from_bytes b of Inl c \<Rightarrow> Inl (Codec c) | Inr f \<Rightarrow> Inr f)" for b
    by (simp add: decode_session_frame_def split: sum.splits)
  then show ?thesis
    by (auto simp: next_frame_def read_one_frame_def decode_session_frame_def [of Inr]
        split: sum.splits io_kind.splits prod.splits)
qed

lemma session_framing:
  assumes "\<And>m b. to_allocvec m = Inr b \<Longrightarrow> from_bytes b = Inr m"
  shows "framing (encode_session_frame to_allocvec) (next_frame from_bytes) stream_end"
proof -
  have "next_frame from_bytes = (\<lambda>r. and_then (next_frame Inr r) (\<lambda>(b, r).
     and_then (map_err (\<lambda>c. Some (Bad_Body (Codec c))) (from_bytes b)) (\<lambda>f. Inr (f, r))))"
    by (rule ext) (rule next_frame_typed)
  moreover have "framing (\<lambda>m. and_then (map_err Codec (to_allocvec m)) length_prefixed)
      (\<lambda>r. and_then (next_frame Inr r) (\<lambda>(b, r).
        and_then (map_err (\<lambda>c. Some (Bad_Body (Codec c))) (from_bytes b)) (\<lambda>f. Inr (f, r)))) stream_end"
    by (rule broker.typed) (auto simp: map_err_Inr assms)
  ultimately show ?thesis by (simp add: encode_session_frame_def [abs_def])
qed

section \<open>The output of a session\<close>

fun wire_of :: "server_frame \<Rightarrow> 'm wire_frame option" where
  "wire_of (StdoutBytes bs) = Some (Stdout bs)"
| "wire_of (StderrBytes bs) = Some (Stderr bs)"
| "wire_of (ExitStatus _) = None"

lemma read_server_frames_step:
  "next_frame from_bytes r = Inl None \<Longrightarrow> read_server_frames from_bytes room r = (Inr None, [])"
  "next_frame from_bytes r = Inr (ExitStatus code, r') \<Longrightarrow> read_server_frames from_bytes room r = (Inr (Some code), [])"
  "next_frame from_bytes r = Inr (f, r') \<Longrightarrow> wire_of f = Some w \<Longrightarrow> 0 < room \<Longrightarrow>
     read_server_frames from_bytes room r
       = (let (outcome, sent) = read_server_frames from_bytes (room - 1) r' in (outcome, w # sent))"
  by (subst read_server_frames.simps; cases "read_one_frame from_bytes r"; cases f;
      auto simp: next_frame_def split: option.splits)+

lemma server_stream_cut:
  assumes fr: "framing enc (next_frame from_bytes) stream_end"
  shows "encode_all enc (outs @ [ExitStatus code]) = Inr (p @ q) \<Longrightarrow> \<forall>f \<in> set outs. wire_of f \<noteq> (None :: 'm wire_frame option)
    \<Longrightarrow> length outs \<le> room \<Longrightarrow> read_server_frames from_bytes room (p, UnexpectedEof)
      = (Inr (if q = [] then Some code else None),
         List.map_filter (wire_of :: _ \<Rightarrow> 'm wire_frame option) (take (whole_frames enc outs (length p)) outs))"
proof (induction outs arbitrary: p room)
  case Nil
  then have enc: "enc (ExitStatus code) = Inr (p @ q)" by (auto simp: and_then_Inr)
  show ?case
  proof (cases "q = []")
    case True
    with framing.reads_back [OF fr, of "ExitStatus code" p "[]" UnexpectedEof] enc show ?thesis
      by (simp add: read_server_frames_step map_filter_simps)
  next
    case False
    with framing.truncated [OF fr enc, of p q UnexpectedEof] show ?thesis
      by (simp add: read_server_frames_step map_filter_simps)
  qed
next
  case (Cons f outs)
  from Cons.prems(1) obtain b rest where b: "enc f = Inr b" and rest: "encode_all enc (outs @ [ExitStatus code]) = Inr rest"
    and bs: "p @ q = b @ rest" by (auto simp: and_then_Inr)
  obtain w :: "'m wire_frame" where w: "wire_of f = Some w" using Cons.prems(2) by auto
  show ?case
  proof (cases "length b \<le> length p")
    case True
    with bs obtain p' where p: "p = b @ p'" and rest': "rest = p' @ q" by (auto simp: append_eq_append_conv2)
    have "next_frame from_bytes (p, UnexpectedEof) = Inr (f, p', UnexpectedEof)"
      using framing.reads_back [OF fr b] by (simp add: p)
    moreover note Cons.IH [of p' "room - 1"]
    ultimately show ?thesis using Cons.prems w rest rest'
      by (simp add: read_server_frames_step(3) b p map_filter_simps)
  next
    case False
    with bs obtain q' where q': "b = p @ q'" "q' \<noteq> []" "q \<noteq> []" by (auto simp: append_eq_append_conv2)
    with framing.truncated [OF fr b] have "next_frame from_bytes (p, UnexpectedEof) = Inl None" by simp
    with False q' show ?thesis by (simp add: b read_server_frames_step(1) map_filter_simps)
  qed
qed

fun capture_all :: "'m wire_frame list \<Rightarrow> capture_buffers \<Rightarrow> string + capture_buffers" where
  "capture_all [] b = Inr b"
| "capture_all (f # fs) b = and_then (capture_push f b) (capture_all fs)"

fun out_bytes :: "'m wire_frame \<Rightarrow> bytes" where
  "out_bytes (Stdout bs) = bs"
| "out_bytes _ = []"

fun err_bytes :: "'m wire_frame \<Rightarrow> bytes" where
  "err_bytes (Stderr bs) = bs"
| "err_bytes _ = []"

definition last_bytes :: "nat \<Rightarrow> bytes \<Rightarrow> bytes" where
  "last_bytes n bs = drop (length bs - n) bs"

lemma last_bytes_append: "last_bytes n (last_bytes n a @ b) = last_bytes n (a @ b)"
  by (cases "length a \<le> n"; cases "length b \<le> n") (auto simp: last_bytes_def add.commute)

lemma capture_all_from:
  "length out \<le> n \<Longrightarrow> capture_all fs \<lparr>cb_stdout = out, cb_stderr = last_bytes n err, cb_max_bytes = n\<rparr>
     = (if length out + length (concat (map out_bytes fs)) \<le> n
        then Inr \<lparr>cb_stdout = out @ concat (map out_bytes fs),
          cb_stderr = last_bytes n (err @ concat (map err_bytes fs)), cb_max_bytes = n\<rparr>
        else Inl (''capture output exceeded '' @ show_nat n @ '' bytes''))"
proof (induction fs arbitrary: out err)
  case (Cons f fs)
  show ?case
  proof (cases f)
    case (Stderr bs)
    have "capture_push f \<lparr>cb_stdout = out, cb_stderr = last_bytes n err, cb_max_bytes = n\<rparr>
        = Inr \<lparr>cb_stdout = out, cb_stderr = last_bytes n (err @ bs), cb_max_bytes = n\<rparr>"
      by (simp add: capture_push_def Stderr Let_def flip: last_bytes_append [of n err]) (simp add: last_bytes_def)
    with Cons Stderr show ?thesis by simp
  qed (use Cons in \<open>auto simp: capture_push_def\<close>)
qed simp

section \<open>Properties\<close>

text \<open>
  The socket between the tool and the service. For an encoding of messages that reads back what it
  wrote, a stream of frames cut anywhere is read, by the blocking and by the asynchronous reader
  alike, as exactly the frames that arrived whole, in order, and then the reader's own error; a
  complete stream gives every frame.
\<close>

theorem ipc_stream_faithful:
  assumes "\<forall>m b. to_vec m = Inr b \<longrightarrow> from_slice b = Inr m"
    and "encode_all (encode_wire_frame to_vec) fs = Inr (p @ q)"
  shows "read_frames (decode_wire_frame_sync from_slice) (Suc (length fs)) (p, e)
       = (take (whole_frames (encode_wire_frame to_vec) fs (length p)) fs, Some (Io e))
     \<and> read_frames (read_wire_frame_async from_slice) (Suc (length fs)) (p, e)
       = (take (whole_frames (encode_wire_frame to_vec) fs (length p)) fs, Some (Io e))
     \<and> (q = [] \<longrightarrow> whole_frames (encode_wire_frame to_vec) fs (length p) = length fs)"
proof -
  have codec: "to_vec m = Inr b \<Longrightarrow> from_slice b = Inr m" for m b using assms(1) by blast
  show ?thesis
    using framing.stream_cut [OF wire_framing(1) [of to_vec from_slice, OF codec] assms(2), of e]
      framing.stream_cut [OF wire_framing(2) [of to_vec from_slice, OF codec] assms(2), of e] whole_frames_all [OF assms(2)] by auto
qed

definition sample_to_vec :: "bool \<Rightarrow> unit + bytes" where
  "sample_to_vec b = Inr [if b then 1 else 0]"

definition sample_from_slice :: "bytes \<Rightarrow> unit + bool" where
  "sample_from_slice bs = (if bs = [1] then Inr True else if bs = [0] then Inr False else Inl ())"

definition sample_frames :: "bool wire_frame list" where
  "sample_frames = [Stdout [7, 8], Json_Frame True]"

definition sample_cut :: bytes where
  "sample_cut = [0x4C, 0x4E, 0x53, 0x32, 0, 0, 0, 3, 2, 7, 8, 0x4C, 0x4E, 0x53, 0x32, 0, 0]"

theorem ipc_stream_faithful_witness:
  "read_frames (decode_wire_frame_sync sample_from_slice) 3 (sample_cut, OtherIo) = ([Stdout [7, 8]], Some (Io OtherIo))"
proof -
  have "encode_all (encode_wire_frame sample_to_vec) sample_frames = Inr (sample_cut @ [0, 2, 1, 1])" by code_simp
  moreover have "\<forall>m b. sample_to_vec m = Inr b \<longrightarrow> sample_from_slice b = Inr m"
    by (auto simp: sample_to_vec_def sample_from_slice_def)
  moreover have "take (whole_frames (encode_wire_frame sample_to_vec) sample_frames (length sample_cut)) sample_frames
      = [Stdout [7, 8]]" by code_simp
  moreover have "Suc (length sample_frames) = 3" by code_simp
  ultimately show ?thesis
    using ipc_stream_faithful [of sample_to_vec sample_from_slice sample_frames sample_cut "[0, 2, 1, 1]" OtherIo]
    by (simp del: read_frames.simps)
qed

text \<open>
  C22: the output of a session. When the broker wrote the workload's output and then its exit status,
  and the connection ends after some of these bytes, the service has sent on exactly the output that
  arrived whole, in order, and reports the status only when everything arrived: a guest that dies
  mid-stream is an error, never an exit code.
\<close>

theorem server_stream_faithful:
  assumes "\<forall>m b. to_allocvec m = Inr b \<longrightarrow> from_bytes b = Inr m"
    and "encode_all (encode_session_frame to_allocvec) (outs @ [ExitStatus code]) = Inr (p @ q)"
    and "\<forall>f \<in> set outs. wire_of f \<noteq> (None :: 'm wire_frame option)" "length outs \<le> room"
  shows "\<exists>outcome sent. read_server_frames from_bytes room (p, UnexpectedEof) = (outcome, sent)
     \<and> sent = List.map_filter (wire_of :: _ \<Rightarrow> 'm wire_frame option)
         (take (whole_frames (encode_session_frame to_allocvec) outs (length p)) outs)
     \<and> session_exit_code outcome = (if q = [] then Inr code else Inl Ended_Early)"
proof -
  have codec: "to_allocvec m = Inr b \<Longrightarrow> from_bytes b = Inr m" for m b using assms(1) by blast
  show ?thesis using server_stream_cut [OF session_framing [of to_allocvec from_bytes, OF codec] assms(2-4)] by simp
qed

definition sample_allocvec :: "server_frame \<Rightarrow> unit + bytes" where
  "sample_allocvec f = (case f of StdoutBytes bs \<Rightarrow> Inr (0 # bs) | StderrBytes bs \<Rightarrow> Inr (1 # bs)
     | ExitStatus c \<Rightarrow> if c = 0 then Inr [2] else Inl ())"

definition sample_from_bytes :: "bytes \<Rightarrow> unit + server_frame" where
  "sample_from_bytes bs = (case bs of [] \<Rightarrow> Inl () | k # r \<Rightarrow>
     if k = 0 then Inr (StdoutBytes r) else if k = 1 then Inr (StderrBytes r) else Inr (ExitStatus 0))"

definition sample_outs :: "server_frame list" where
  "sample_outs = [StdoutBytes [65]]"

definition sample_output :: bytes where
  "sample_output = [0, 0, 0, 2, 0, 65, 0, 0, 0]"

theorem server_stream_faithful_witness:
  "(\<exists>outcome sent. read_server_frames sample_from_bytes 1 (sample_output @ [1, 2], UnexpectedEof) = (outcome, sent)
      \<and> sent = [Stdout [65] :: unit wire_frame] \<and> session_exit_code outcome = Inr 0)
   \<and> (\<exists>outcome sent. read_server_frames sample_from_bytes 1 (sample_output, UnexpectedEof) = (outcome, sent)
      \<and> sent = [Stdout [65] :: unit wire_frame] \<and> session_exit_code outcome = Inl Ended_Early)"
proof -
  have codec: "\<forall>m b. sample_allocvec m = Inr b \<longrightarrow> sample_from_bytes b = Inr m"
    by (auto simp: sample_allocvec_def sample_from_bytes_def split: server_frame.splits if_splits)
  have enc: "encode_all (encode_session_frame sample_allocvec) (sample_outs @ [ExitStatus 0])
      = Inr (sample_output @ [1, 2])" by code_simp
  have k: "List.map_filter wire_of (take (whole_frames (encode_session_frame sample_allocvec) sample_outs
        (length (sample_output @ [1, 2]))) sample_outs) = [Stdout [65] :: unit wire_frame]"
    "List.map_filter wire_of (take (whole_frames (encode_session_frame sample_allocvec) sample_outs
        (length sample_output)) sample_outs) = [Stdout [65] :: unit wire_frame]" by code_simp+
  have ok: "\<forall>f \<in> set sample_outs. wire_of f \<noteq> (None :: unit wire_frame option)" "length sample_outs \<le> 1" by code_simp+
  show ?thesis
    using server_stream_faithful [OF codec _ ok, of 0 "sample_output @ [1, 2]" "[]"]
      server_stream_faithful [OF codec _ ok, of 0 sample_output "[1, 2]"] enc
    unfolding k by simp
qed

text \<open>
  Captured output. Capturing a session keeps its standard output whole or fails once it exceeds the
  limit, and of its standard error always the last bytes up to the limit, however the streams interleave.
\<close>

theorem capture_exact:
  "capture_all fs (capture_new n) = (if length (concat (map out_bytes fs)) \<le> n
     then Inr \<lparr>cb_stdout = concat (map out_bytes fs),
       cb_stderr = last_bytes n (concat (map err_bytes fs)), cb_max_bytes = n\<rparr>
     else Inl (''capture output exceeded '' @ show_nat n @ '' bytes''))"
  using capture_all_from [of "[]" n fs "[]"] by (simp add: capture_new_def last_bytes_def)

end
