(* ===== verification/Text.thy ===== *)
theory Text
  imports Rust_Std
begin

text \<open>
  Characters of a \<open>str\<close>: the UTF-8 decoding behind \<open>str::chars\<close>, the Unicode classes
  \<open>char::is_whitespace\<close> and \<open>char::is_control\<close>, \<open>str::trim\<close>, \<open>str::lines\<close> and the character
  classes of \<open>u8\<close>. A byte that opens no character stands for itself; in a \<open>str\<close> there is none.
\<close>

section \<open>Decoding\<close>

definition continuation :: "nat \<Rightarrow> bool" where
  "continuation b \<longleftrightarrow> 128 \<le> b \<and> b < 192"

fun next_char :: "nat \<Rightarrow> nat list \<Rightarrow> nat \<times> nat list" where
  "next_char a (b # r) =
     (if 194 \<le> a \<and> a < 224 \<and> continuation b then ((a - 192) * 64 + (b - 128), r)
      else if 224 \<le> a \<and> a < 240 \<and> continuation b \<and> r \<noteq> [] \<and> continuation (hd r)
      then ((a - 224) * 4096 + (b - 128) * 64 + (hd r - 128), tl r)
      else if 240 \<le> a \<and> a < 245 \<and> continuation b \<and> 2 \<le> length r \<and> continuation (r ! 0) \<and> continuation (r ! 1)
      then ((a - 240) * 262144 + (b - 128) * 4096 + (r ! 0 - 128) * 64 + (r ! 1 - 128), drop 2 r)
      else (a, b # r))"
| "next_char a [] = (a, [])"

lemma next_char_rest: "length (snd (next_char a r)) \<le> length r"
  by (cases r) auto

function decode_utf8 :: "nat list \<Rightarrow> nat list" where
  "decode_utf8 [] = []"
| "decode_utf8 (a # r) = (case next_char a r of (c, rest) \<Rightarrow> c # decode_utf8 rest)"
  by pat_completeness auto

termination
proof (relation "measure length")
  fix a :: nat and r c rest
  assume "(c, rest) = next_char a r"
  then show "(rest, a # r) \<in> measure length"
    using next_char_rest [of a r] by (simp add: le_imp_less_Suc flip: \<open>(c, rest) = next_char a r\<close>)
qed simp

definition chars :: "string \<Rightarrow> nat list" where
  "chars s = decode_utf8 (byte_codes s)"

definition is_whitespace :: "nat \<Rightarrow> bool" where
  "is_whitespace c \<longleftrightarrow> 9 \<le> c \<and> c \<le> 13 \<or> c = 32 \<or> c = 133 \<or> c = 160 \<or> c = 5760
     \<or> 8192 \<le> c \<and> c \<le> 8202 \<or> c = 8232 \<or> c = 8233 \<or> c = 8239 \<or> c = 8287 \<or> c = 12288"

definition is_control :: "nat \<Rightarrow> bool" where
  "is_control c \<longleftrightarrow> c < 32 \<or> 127 \<le> c \<and> c < 160"

text \<open>An ASCII byte is never part of a longer character, so it is one of the characters.\<close>

lemma next_char_keeps:
  "x < 128 \<Longrightarrow> x \<in> set (a # r) \<Longrightarrow> x = fst (next_char a r) \<or> x \<in> set (snd (next_char a r))"
proof (cases r)
  case (Cons b r')
  assume "x < 128" "x \<in> set (a # r)"
  moreover have "set r' \<subseteq> insert (hd r') (set (tl r'))" by (cases r') auto
  moreover have "2 \<le> length r' \<Longrightarrow> set r' = {r' ! 0, r' ! 1} \<union> set (drop 2 r')"
    by (cases r'; cases "tl r'") auto
  ultimately show ?thesis by (auto simp: Cons continuation_def)
qed auto

lemma ascii_decoded: "x \<in> set bs \<Longrightarrow> x < 128 \<Longrightarrow> x \<in> set (decode_utf8 bs)"
proof (induction bs rule: decode_utf8.induct)
  case (2 a r)
  obtain c rest where n: "next_char a r = (c, rest)" by (cases "next_char a r")
  with 2 next_char_keeps [of x a r] show ?case by auto
qed simp

lemma ascii_char: "c \<in> set s \<Longrightarrow> (of_char c :: nat) < 128 \<Longrightarrow> of_char c \<in> set (chars s)"
  unfolding chars_def byte_codes_def by (rule ascii_decoded) auto

lemma decode_ascii: "list_all (\<lambda>b. b < 128) bs \<Longrightarrow> decode_utf8 bs = bs"
proof (induction bs rule: decode_utf8.induct)
  case (2 a r)
  then have "next_char a r = (a, r)" by (cases r) auto
  with 2 show ?case by simp
qed simp

text \<open>The characters as slices of the string, and \<open>str::trim\<close> over them.\<close>

function utf8_slices :: "string \<Rightarrow> string list" where
  "utf8_slices [] = []"
| "utf8_slices (c # s) =
     (let k = length s - length (snd (next_char (of_char c) (byte_codes s)))
      in (c # take k s) # utf8_slices (drop k s))"
  by pat_completeness auto

termination
  by (relation "measure length") auto

definition slice_is_whitespace :: "string \<Rightarrow> bool" where
  "slice_is_whitespace sl = list_all is_whitespace (chars sl)"

definition trim :: "string \<Rightarrow> string" where
  "trim s = concat (rev (dropWhile slice_is_whitespace (rev (dropWhile slice_is_whitespace (utf8_slices s)))))"

lemma concat_slices: "concat (utf8_slices s) = s"
  by (induction s rule: utf8_slices.induct) (simp_all add: Let_def)

lemma trim_infix: "\<exists>a b. s = a @ trim s @ b"
proof -
  let ?xs = "dropWhile slice_is_whitespace (utf8_slices s)"
  let ?ys = "rev (dropWhile slice_is_whitespace (rev ?xs))"
  have "utf8_slices s = takeWhile slice_is_whitespace (utf8_slices s) @ ?xs" by simp
  moreover have "?xs = ?ys @ rev (takeWhile slice_is_whitespace (rev ?xs))"
    by (metis rev_append rev_rev_ident takeWhile_dropWhile_id)
  ultimately have "concat (utf8_slices s) = concat (takeWhile slice_is_whitespace (utf8_slices s)) @ concat ?ys
      @ concat (rev (takeWhile slice_is_whitespace (rev ?xs)))"
    by (metis concat_append)
  then show ?thesis unfolding trim_def concat_slices by blast
qed

section \<open>Bytes\<close>

definition byte_is_whitespace :: "char \<Rightarrow> bool" where
  "byte_is_whitespace c \<longleftrightarrow> c \<in> set [CHR '' '', CHR 0x09, CHR 0x0A, CHR 0x0C, CHR 0x0D]"

definition is_ascii_hexdigit :: "char \<Rightarrow> bool" where
  "is_ascii_hexdigit c \<longleftrightarrow> is_ascii_digit c
     \<or> 65 \<le> (of_char c :: nat) \<and> (of_char c :: nat) \<le> 70 \<or> 97 \<le> (of_char c :: nat) \<and> (of_char c :: nat) \<le> 102"

lemma whitespace_byte_decodes: "byte_is_whitespace c \<Longrightarrow> (of_char c :: nat) < 128 \<and> is_whitespace (of_char c)"
  by (auto simp: byte_is_whitespace_def is_whitespace_def)

section \<open>Lines\<close>

text \<open>
  \<open>BufRead::lines\<close> and \<open>str::lines\<close>: what stands between newlines, without a last empty piece and
  without the one carriage return before a newline.
\<close>

definition strip_cr :: "string \<Rightarrow> string" where
  "strip_cr s = (case strip_suffix [CHR 0x0D] s of Some t \<Rightarrow> t | None \<Rightarrow> s)"

definition lines_of :: "string \<Rightarrow> string list" where
  "lines_of s =
     (let pieces = split_on CHR 0x0A s;
          ended = butlast pieces;
          rest = last pieces
      in map strip_cr ended @ (if rest = [] then [] else [rest]))"

lemma split_on_line: "c \<notin> set l \<Longrightarrow> split_on c (l @ c # s) = l # split_on c s"
  by (induction l) auto

lemma split_on_none: "c \<notin> set l \<Longrightarrow> split_on c l = [l]"
  by (induction l) auto

lemma lines_of_Nil [simp]: "lines_of [] = []"
  by (simp add: lines_of_def)

lemma lines_of_line:
  "CHR 0x0A \<notin> set l \<Longrightarrow> lines_of (l @ CHR 0x0A # s) = strip_cr l # lines_of s"
  using split_on_nonempty [of "CHR 0x0A" s] by (simp add: lines_of_def split_on_line Let_def)

lemma lines_of_written:
  "\<forall>l \<in> set ls. CHR 0x0A \<notin> set l \<Longrightarrow> lines_of (concat (map (\<lambda>l. l @ [CHR 0x0A]) ls)) = map strip_cr ls"
  by (induction ls) (simp_all add: lines_of_line)

end
