(* ===== verification/Workload_Env.thy ===== *)
theory Workload_Env
  imports Text
begin

text \<open>
  The environment of a workload, \<open>crates/lns-service/src/workload_env.rs\<close>: the image's variables, the
  user's, what granted connectors fill with a placeholder, the declared tools and what the supervisor
  needs, and the environment an exec session joins.
\<close>

section \<open>Connectors' variables\<close>

record filled =
  fl_connector :: string
  fl_placeholder :: string

record connector_env =
  ce_filled :: "(string \<times> filled) list"
  ce_granted_env :: "(string \<times> string) list"
  ce_left_unarmed :: "(string \<times> filled) list"

datatype env_source = Flag | Definition | Run | Image

text \<open>The declaration order of \<open>EnvSource\<close>, which its derived \<open>Ord\<close> follows.\<close>

fun source_rank :: "env_source \<Rightarrow> nat" where
  "source_rank Flag = 0"
| "source_rank Definition = 1"
| "source_rank Run = 2"
| "source_rank Image = 3"

record refused =
  rf_key :: string
  rf_source :: env_source
  rf_connector :: string

record workload_env =
  we_env :: "string list"
  we_refused :: "refused list"

definition IDENTITY_ENV_KEYS :: "string list" where
  "IDENTITY_ENV_KEYS = [''HOME'', ''USER'']"

definition is_internal :: "string \<Rightarrow> bool" where
  "is_internal key = starts_with ''LENS_SANDBOX_'' key"

definition claimable :: "string \<Rightarrow> bool" where
  "claimable key \<longleftrightarrow> \<not> is_internal key \<and> key \<noteq> ''PATH'' \<and> key \<notin> set IDENTITY_ENV_KEYS"

definition displaced_by :: "connector_env \<Rightarrow> string \<Rightarrow> string \<Rightarrow> string option" where
  "displaced_by connectors key val =
     (case map_of (ce_filled connectors) key of
        None \<Rightarrow> None
      | Some f \<Rightarrow> if claimable key \<and> fl_placeholder f \<noteq> val then Some (fl_connector f) else None)"

definition refusal_warning :: "refused \<Rightarrow> string" where
  "refusal_warning r =
     (let key = rf_key r; connector = rf_connector r;
          retract = ''`lns connector forget '' @ connector @ '' --run <run>`'';
          dash = map char_of [226, 128, 148 :: nat]
      in (case rf_source r of
            Flag \<Rightarrow> key @ '' holds '' @ connector @ CHR 0x27 # ''s placeholder for this run, not your value '' @ dash
                      @ '' run '' @ retract @ '', or drop the -e''
          | Definition \<Rightarrow> key @ '' holds '' @ connector @ CHR 0x27 # ''s placeholder for this run, not your value '' @ dash
                      @ '' run '' @ retract @ '', or drop '' @ key @ '' from spec.env''
          | Run \<Rightarrow> key @ '' holds '' @ connector @ CHR 0x27 # ''s placeholder for this run, not the value the run started with ''
                      @ dash @ '' run '' @ retract @ '' and start the run again''
          | Image \<Rightarrow> key @ '' holds '' @ connector @ CHR 0x27 # ''s placeholder for this run, not the image's value '' @ dash
                      @ '' run '' @ retract @ '' to use the image's value''))"

definition note_refusal :: "(string \<times> refused) list \<Rightarrow> refused \<Rightarrow> (string \<times> refused) list" where
  "note_refusal best r =
     (case map_of best (rf_key r) of
        Some held \<Rightarrow> if source_rank (rf_source held) \<le> source_rank (rf_source r) then best
                     else btree_insert (rf_key r) r best
      | None \<Rightarrow> btree_insert (rf_key r) r best)"

definition one_refusal_per_variable :: "refused list \<Rightarrow> refused list" where
  "one_refusal_per_variable refusals = map snd (foldl note_refusal [] refusals)"

definition REDACTED_ENV_VALUE :: string where
  "REDACTED_ENV_VALUE = ''<redacted>''"

definition injected_env :: "string list \<Rightarrow> (string \<times> string) list option" where
  "injected_env user_env =
     (let env = foldl (\<lambda>env kv. case split_once CHR ''='' kv of
                    None \<Rightarrow> env
                  | Some (k, _) \<Rightarrow> btree_insert k REDACTED_ENV_VALUE env) [] user_env
      in if env = [] then None else Some env)"

definition key_value :: "string \<Rightarrow> string \<times> string" where
  "key_value kv = (case split_once CHR ''='' kv of Some (k, v) \<Rightarrow> (k, v) | None \<Rightarrow> (kv, []))"

fun without_what_a_grant_fills ::
  "string list \<Rightarrow> connector_env \<Rightarrow> (string \<Rightarrow> env_source) \<Rightarrow> string list \<times> refused list" where
  "without_what_a_grant_fills [] connectors source_of = ([], [])"
| "without_what_a_grant_fills (kv # kvs) connectors source_of =
     (let (kept, refused) = without_what_a_grant_fills kvs connectors source_of;
          (key, val) = key_value kv
      in (case displaced_by connectors key val of
            None \<Rightarrow> (kv # kept, refused)
          | Some connector \<Rightarrow>
              (kept, \<lparr>rf_key = key, rf_source = source_of key, rf_connector = connector\<rparr> # refused)))"

definition sets_key :: "string \<Rightarrow> string \<Rightarrow> bool" where
  "sets_key key kv = (case split_once CHR ''='' kv of Some (k, _) \<Rightarrow> k = key | None \<Rightarrow> False)"

definition source_among :: "string list \<Rightarrow> string \<Rightarrow> env_source" where
  "source_among command_line key = (if list_ex (sets_key key) command_line then Flag else Definition)"

section \<open>Composition\<close>

fun upsert :: "(string \<times> string) list \<Rightarrow> string \<Rightarrow> string \<Rightarrow> (string \<times> string) list" where
  "upsert [] key val = [(key, val)]"
| "upsert ((k, v) # es) key val = (if k = key then (k, val) # es else (k, v) # upsert es key val)"

text \<open>The entries collected so far and the refusals, as one step over an entry of one source.\<close>

definition take_entry ::
  "connector_env \<Rightarrow> env_source \<Rightarrow> (string \<times> string) list \<times> refused list \<Rightarrow> string
     \<Rightarrow> (string \<times> string) list \<times> refused list" where
  "take_entry connectors source st kv =
     (case split_once CHR ''='' kv of
        None \<Rightarrow> st
      | Some (k, v) \<Rightarrow>
          if is_internal k then st
          else (case displaced_by connectors k v of
                  Some connector \<Rightarrow>
                    (fst st, snd st @ [\<lparr>rf_key = k, rf_source = source, rf_connector = connector\<rparr>])
                | None \<Rightarrow> (upsert (fst st) k v, snd st)))"

definition fill_entries :: "connector_env \<Rightarrow> (string \<times> string) list \<Rightarrow> (string \<times> string) list" where
  "fill_entries connectors entries =
     foldl (\<lambda>es (key, f). upsert es key (fl_placeholder f)) entries
       (filter (\<lambda>(k, _). claimable k) (ce_filled connectors))"

definition leave_unarmed :: "connector_env \<Rightarrow> (string \<times> string) list \<Rightarrow> (string \<times> string) list" where
  "leave_unarmed connectors entries =
     foldl (\<lambda>es (key, left). if list_ex (\<lambda>(k, _). k = key) es then es else es @ [(key, fl_placeholder left)]) entries
       (filter (\<lambda>(k, _). claimable k) (ce_left_unarmed connectors))"

definition compose_workload_env :: "string list option \<Rightarrow> string list \<Rightarrow> connector_env \<Rightarrow> workload_env" where
  "compose_workload_env image_env user_env connectors =
     (let st = (case image_env of
                  None \<Rightarrow> ([], [])
                | Some img \<Rightarrow> foldl (take_entry connectors Image) ([], []) img);
          (entries, refused) = foldl (take_entry connectors Flag) st user_env
      in \<lparr>we_env = map (\<lambda>(k, v). k @ ''='' @ v) (leave_unarmed connectors (fill_entries connectors entries)),
          we_refused = refused\<rparr>)"

section \<open>Tools and the path\<close>

definition GUEST_DEFAULT_PATH :: string where
  "GUEST_DEFAULT_PATH = ''/.lens/bin:/usr/local/sbin:/usr/local/bin:/usr/sbin:/usr/bin:/sbin:/bin''"

record tool_runtime =
  tr_bin_paths :: "string list"
  tr_env :: "(string \<times> string) list"

fun first_seen :: "string list \<Rightarrow> string list \<Rightarrow> string list" where
  "first_seen seen [] = []"
| "first_seen seen (x # xs) = (if x \<in> set seen then first_seen seen xs else x # first_seen (x # seen) xs)"

definition join_path :: "string list \<Rightarrow> string \<Rightarrow> string" where
  "join_path tool_bin_paths existing =
     join_with '':'' (first_seen [] (filter (\<lambda>segment. segment \<noteq> []) (tool_bin_paths @ split_on CHR '':'' existing)))"

fun find_map :: "('a \<Rightarrow> 'b option) \<Rightarrow> 'a list \<Rightarrow> 'b option" where
  "find_map f [] = None"
| "find_map f (x # xs) = (case f x of Some y \<Rightarrow> Some y | None \<Rightarrow> find_map f xs)"

text \<open>\<open>iter_mut().find(..)\<close> with the replacement or push behind it.\<close>

fun replace_or_push :: "('a \<Rightarrow> bool) \<Rightarrow> 'a \<Rightarrow> 'a list \<Rightarrow> 'a list" where
  "replace_or_push P y [] = [y]"
| "replace_or_push P y (x # xs) = (if P x then y # xs else x # replace_or_push P y xs)"

definition existing_path :: "string list \<Rightarrow> string" where
  "existing_path env =
     (case find_map (strip_prefix ''PATH='') env of
        Some path \<Rightarrow> if path \<noteq> [] then path else GUEST_DEFAULT_PATH
      | None \<Rightarrow> GUEST_DEFAULT_PATH)"

definition compose_guest_path :: "string list \<Rightarrow> string list \<Rightarrow> string list" where
  "compose_guest_path env tool_bin_paths =
     (let declared = find_map (strip_prefix ''PATH='') env
      in if tool_bin_paths = [] \<and> declared = None then env
         else
          (let val = ''PATH='' @ join_path tool_bin_paths (existing_path env)
           in replace_or_push (starts_with ''PATH='') val env))"

definition add_tool_var :: "string list \<Rightarrow> string \<times> string \<Rightarrow> string list" where
  "add_tool_var env nv =
     (if list_ex (sets_key (fst nv)) env then env else env @ [fst nv @ ''='' @ snd nv])"

definition compose_guest_tool_env :: "string list \<Rightarrow> tool_runtime \<Rightarrow> string list" where
  "compose_guest_tool_env env tools = foldl add_tool_var (compose_guest_path env (tr_bin_paths tools)) (tr_env tools)"

definition overwrite :: "string list \<Rightarrow> string \<Rightarrow> string \<Rightarrow> string list" where
  "overwrite env key val = replace_or_push (sets_key key) (key @ ''='' @ val) env"

section \<open>Sessions\<close>

definition SUPERVISOR_PTY_OPT_IN_TERM :: string where
  "SUPERVISOR_PTY_OPT_IN_TERM = ''xterm-256color''"

definition is_session_only :: "string \<Rightarrow> bool" where
  "is_session_only entry =
     (let (key, val) = key_value entry
      in if key = ''AGENT_COMMAND'' \<or> key = ''WORKSPACE_PATH'' then True
         else if key = ''TERM'' then val = SUPERVISOR_PTY_OPT_IN_TERM
         else starts_with ''LENS_SANDBOX_'' key)"

definition SYSTEM_CA_BUNDLE_PATH :: string where
  "SYSTEM_CA_BUNDLE_PATH = ''/etc/ssl/certs/ca-certificates.crt''"

definition GUEST_PROXY_URL :: string where
  "GUEST_PROXY_URL = ''http://127.0.0.1:3128''"

definition GUEST_NO_PROXY :: string where
  "GUEST_NO_PROXY = ''localhost,127.0.0.1,::1''"

definition ca_bundle_env :: "(string \<times> string) list" where
  "ca_bundle_env = map (\<lambda>k. (k, SYSTEM_CA_BUNDLE_PATH))
     [''SSL_CERT_FILE'', ''REQUESTS_CA_BUNDLE'', ''NODE_EXTRA_CA_CERTS'', ''CURL_CA_BUNDLE'', ''GIT_SSL_CAINFO'']"

definition proxy_env :: "(string \<times> string) list" where
  "proxy_env =
     map (\<lambda>k. (k, GUEST_PROXY_URL)) [''HTTPS_PROXY'', ''https_proxy'', ''HTTP_PROXY'', ''http_proxy'']
     @ map (\<lambda>k. (k, GUEST_NO_PROXY)) [''NO_PROXY'', ''no_proxy'']"

definition declared :: "string list \<Rightarrow> string \<Rightarrow> string option" where
  "declared user_env key = find_map (strip_prefix (key @ ''='')) (rev user_env)"

definition declared_identity_keys :: "string list \<Rightarrow> string list" where
  "declared_identity_keys user_env = filter (\<lambda>key. declared user_env key \<noteq> None) IDENTITY_ENV_KEYS"

definition keeps_identity :: "string \<Rightarrow> string list \<Rightarrow> bool" where
  "keeps_identity entry declared_keys =
     (let key = fst (key_value entry)
      in key \<notin> set IDENTITY_ENV_KEYS \<or> list_ex (\<lambda>d. d = key) declared_keys)"

text \<open>\<open>ExecEnvironment\<close> of \<open>run_registry.rs\<close>.\<close>

record exec_environment =
  xe_session_env :: "string list"
  xe_tools :: tool_runtime
  xe_workdir :: "string option"
  xe_declared_identity_keys :: "string list"

definition exec_session_env :: "exec_environment \<Rightarrow> string list \<Rightarrow> connector_env \<Rightarrow> workload_env" where
  "exec_session_env exec_environment exec_env connectors =
     (let joined = filter (\<lambda>entry. keeps_identity entry (xe_declared_identity_keys exec_environment))
            (filter (\<lambda>entry. \<not> is_session_only entry) (xe_session_env exec_environment));
          caller = filter (\<lambda>entry. \<not> is_session_only entry) exec_env;
          composed = compose_workload_env (Some joined) caller connectors;
          env = foldl (\<lambda>env (key, val). overwrite env key val) (we_env composed)
            (filter (\<lambda>(k, _). claimable k) (ce_granted_env connectors));
          refused = map (\<lambda>r. if rf_source r = Image then r\<lparr>rf_source := Run\<rparr> else r) (we_refused composed);
          env = compose_guest_tool_env env (xe_tools exec_environment);
          env = foldl (\<lambda>env (key, val). overwrite env key val) env (proxy_env @ ca_bundle_env)
      in \<lparr>we_env = env, we_refused = refused\<rparr>)"

definition supervisor_vars :: "string list \<Rightarrow> string \<Rightarrow> string option \<Rightarrow> string list" where
  "supervisor_vars user_env agent_command workdir =
     [''AGENT_COMMAND='' @ agent_command]
     @ (case workdir of Some w \<Rightarrow> [''WORKSPACE_PATH='' @ w] | None \<Rightarrow> [])
     @ [''TERM='' @ SUPERVISOR_PTY_OPT_IN_TERM]
     @ List.map_filter (\<lambda>key. map_option (\<lambda>val. ''LENS_SANDBOX_WORKLOAD_'' @ key @ ''='' @ val) (declared user_env key))
         [''HOME'', ''USER'']"

definition run_workload_env ::
  "string list option \<Rightarrow> string list \<Rightarrow> string option \<Rightarrow> string option \<Rightarrow> tool_runtime \<Rightarrow> connector_env \<Rightarrow> workload_env" where
  "run_workload_env image_env user_env agent_command workdir tools connectors =
     (let composed = compose_workload_env image_env user_env connectors;
          env = compose_guest_tool_env (we_env composed) tools
      in composed\<lparr>we_env := env @ (case agent_command of
           Some command \<Rightarrow> supervisor_vars user_env command workdir
         | None \<Rightarrow> [])\<rparr>)"

section \<open>Entries under a key\<close>

lemma upsert_get [simp]: "map_of (upsert es k v) k' = (if k' = k then Some v else map_of es k')"
  by (induction es k v rule: upsert.induct) auto

lemma upsert_keys: "fst ` set (upsert es k v) = insert k (fst ` set es)"
  by (induction es k v rule: upsert.induct) auto

lemma upsert_distinct: "distinct (map fst es) \<Longrightarrow> distinct (map fst (upsert es k v))"
proof (induction es k v rule: upsert.induct)
  case (2 k v es key val)
  then show ?case using upsert_keys [of es key val] by (auto simp: image_iff)
qed simp

definition keys_plain :: "(string \<times> 'a) list \<Rightarrow> bool" where
  "keys_plain es \<longleftrightarrow> (\<forall>k \<in> fst ` set es. CHR ''='' \<notin> set k)"

definition entries_ok :: "(string \<times> string) list \<Rightarrow> bool" where
  "entries_ok es \<longleftrightarrow> distinct (map fst es) \<and> keys_plain es \<and> (\<forall>k \<in> fst ` set es. \<not> is_internal k)"

lemma upsert_ok:
  "entries_ok es \<Longrightarrow> CHR ''='' \<notin> set k \<Longrightarrow> \<not> is_internal k \<Longrightarrow> entries_ok (upsert es k v)"
  by (auto simp: entries_ok_def keys_plain_def upsert_distinct upsert_keys)

lemma take_entry_ok: "entries_ok (fst st) \<Longrightarrow> entries_ok (fst (take_entry connectors src st kv))"
  by (auto simp: take_entry_def split_once_Some upsert_ok split: option.splits)

lemma take_entries_ok: "entries_ok (fst st) \<Longrightarrow> entries_ok (fst (foldl (take_entry connectors src) st kvs))"
  by (induction kvs arbitrary: st) (simp_all add: take_entry_ok)

lemma claimable_not_internal: "claimable k \<Longrightarrow> \<not> is_internal k"
  by (simp add: claimable_def)

definition connectors_plain :: "connector_env \<Rightarrow> bool" where
  "connectors_plain c \<longleftrightarrow> keys_plain (ce_filled c) \<and> keys_plain (ce_left_unarmed c) \<and> distinct (map fst (ce_filled c))"

lemma fill_fold:
  assumes "entries_ok es" "keys_plain fs" "distinct (map fst fs)" "\<forall>k \<in> fst ` set fs. claimable k"
  shows "entries_ok (foldl (\<lambda>es (key, f). upsert es key (fl_placeholder f)) es fs)
    \<and> map_of (foldl (\<lambda>es (key, f). upsert es key (fl_placeholder f)) es fs) key
        = (case map_of fs key of Some f \<Rightarrow> Some (fl_placeholder f) | None \<Rightarrow> map_of es key)"
  using assms
proof (induction fs arbitrary: es)
  case (Cons x fs)
  obtain k f where x: "x = (k, f)" by (cases x)
  have ok: "entries_ok (upsert es k (fl_placeholder f))"
    using Cons.prems by (intro upsert_ok) (auto simp: x keys_plain_def claimable_not_internal)
  have "map_of fs k = None" using Cons.prems(3) by (simp add: x map_of_eq_None_iff)
  with Cons.IH [OF ok] Cons.prems show ?case by (auto simp: x keys_plain_def split: option.splits)
qed simp

lemma map_of_filter_keys: "P k \<Longrightarrow> map_of (filter (\<lambda>(k, _). P k) m) k = map_of m k"
  by (induction m) auto

lemma fill_entries_ok:
  assumes "entries_ok es" "connectors_plain c"
  shows "entries_ok (fill_entries c es)"
    "claimable key \<Longrightarrow> map_of (ce_filled c) key = Some f \<Longrightarrow> map_of (fill_entries c es) key = Some (fl_placeholder f)"
proof -
  let ?fs = "filter (\<lambda>(k, _). claimable k) (ce_filled c)"
  have d: "distinct (map fst (filter P m))" if "distinct (map fst m)" for P and m :: "(string \<times> filled) list"
    using that by (induction m) auto
  have fs: "keys_plain ?fs" "distinct (map fst ?fs)" "\<forall>k \<in> fst ` set ?fs. claimable k"
    using assms(2) d by (auto simp: connectors_plain_def keys_plain_def)
  from fill_fold [OF assms(1) fs, of key] show "entries_ok (fill_entries c es)"
    "claimable key \<Longrightarrow> map_of (ce_filled c) key = Some f \<Longrightarrow> map_of (fill_entries c es) key = Some (fl_placeholder f)"
    by (simp_all add: fill_entries_def map_of_filter_keys)
qed

lemma unarmed_fold:
  assumes "entries_ok es" "keys_plain ls" "\<forall>k \<in> fst ` set ls. claimable k"
  shows "entries_ok (foldl (\<lambda>es (key, left). if list_ex (\<lambda>(k, _). k = key) es then es else es @ [(key, fl_placeholder left)]) es ls)
    \<and> (map_of es key \<noteq> None \<longrightarrow>
        map_of (foldl (\<lambda>es (key, left). if list_ex (\<lambda>(k, _). k = key) es then es else es @ [(key, fl_placeholder left)]) es ls) key
        = map_of es key)"
  using assms
proof (induction ls arbitrary: es)
  case (Cons x ls)
  obtain k l where x: "x = (k, l)" by (cases x)
  show ?case
  proof (cases "list_ex (\<lambda>(k', _). k' = k) es")
    case True
    with Cons show ?thesis by (simp add: x keys_plain_def)
  next
    case False
    then have n: "k \<notin> fst ` set es" by (force simp: list_ex_iff)
    then have "entries_ok (es @ [(k, fl_placeholder l)])"
      using Cons.prems by (auto simp: entries_ok_def keys_plain_def x claimable_not_internal)
    with Cons.IH [OF this] Cons.prems False n show ?thesis
      by (auto simp: x keys_plain_def map_add_def split: option.splits)
  qed
qed simp

lemma leave_unarmed_ok:
  assumes "entries_ok es" "connectors_plain c"
  shows "entries_ok (leave_unarmed c es)"
    "map_of es key \<noteq> None \<Longrightarrow> map_of (leave_unarmed c es) key = map_of es key"
proof -
  let ?ls = "filter (\<lambda>(k, _). claimable k) (ce_left_unarmed c)"
  have "keys_plain ?ls" "\<forall>k \<in> fst ` set ?ls. claimable k"
    using assms(2) by (auto simp: connectors_plain_def keys_plain_def)
  from unarmed_fold [OF assms(1) this, of key] show "entries_ok (leave_unarmed c es)"
    "map_of es key \<noteq> None \<Longrightarrow> map_of (leave_unarmed c es) key = map_of es key"
    by (simp_all add: leave_unarmed_def)
qed

definition composed_entries :: "string list option \<Rightarrow> string list \<Rightarrow> connector_env \<Rightarrow> (string \<times> string) list" where
  "composed_entries image_env user_env c =
     leave_unarmed c (fill_entries c (fst (foldl (take_entry c Flag)
       (case image_env of None \<Rightarrow> ([], []) | Some img \<Rightarrow> foldl (take_entry c Image) ([], []) img) user_env)))"

lemma compose_entries:
  "we_env (compose_workload_env image_env user_env c) = map (\<lambda>(k, v). k @ ''='' @ v) (composed_entries image_env user_env c)"
  by (simp add: compose_workload_env_def composed_entries_def Let_def split_beta)

lemma composed_ok:
  assumes "connectors_plain c"
  shows "entries_ok (composed_entries image_env user_env c)"
    "claimable key \<Longrightarrow> map_of (ce_filled c) key = Some f \<Longrightarrow>
       map_of (composed_entries image_env user_env c) key = Some (fl_placeholder f)"
proof -
  let ?es = "fst (foldl (take_entry c Flag)
       (case image_env of None \<Rightarrow> ([], []) | Some img \<Rightarrow> foldl (take_entry c Image) ([], []) img) user_env)"
  have nil: "entries_ok []" by (simp add: entries_ok_def keys_plain_def)
  have "entries_ok (fst (case image_env of None \<Rightarrow> ([], []) | Some img \<Rightarrow> foldl (take_entry c Image) ([], []) img))"
    using take_entries_ok [of "([], [])"] nil by (cases image_env) auto
  then have es: "entries_ok ?es" by (rule take_entries_ok)
  note f = fill_entries_ok [OF es assms]
  note l = leave_unarmed_ok [OF f(1) assms]
  show "entries_ok (composed_entries image_env user_env c)" using l(1) by (simp add: composed_entries_def)
  show "map_of (composed_entries image_env user_env c) key = Some (fl_placeholder f)"
    if "claimable key" "map_of (ce_filled c) key = Some f"
    using l(2) [of key] f(2) [OF that] by (simp add: composed_entries_def)
qed

lemma sets_key_text: "CHR ''='' \<notin> set k \<Longrightarrow> sets_key key (k @ CHR ''='' # v) \<longleftrightarrow> k = key"
proof -
  assume "CHR ''='' \<notin> set k"
  then have "split_once CHR ''='' (k @ CHR ''='' # v) = Some (k, v)" by (simp add: split_once_Some)
  then show ?thesis by (simp add: sets_key_def)
qed

lemma filter_key_entries:
  assumes "distinct (map fst es)" "keys_plain es"
  shows "filter (sets_key key) (map (\<lambda>(k, v). k @ CHR ''='' # v) es) =
    (case map_of es key of Some v \<Rightarrow> [key @ CHR ''='' # v] | None \<Rightarrow> [])"
  using assms
proof (induction es)
  case (Cons x es)
  obtain k v where x: "x = (k, v)" by (cases x)
  have "map_of es k = None" using Cons.prems(1) by (simp add: x map_of_eq_None_iff)
  moreover have "keys_plain es" "CHR ''='' \<notin> set k" using Cons.prems(2) by (auto simp: x keys_plain_def)
  ultimately show ?case using Cons by (auto simp: x sets_key_text)
qed simp

lemma filter_replace_or_push:
  "(\<And>x. P x \<Longrightarrow> \<not> Q x) \<Longrightarrow> \<not> Q y \<Longrightarrow> filter Q (replace_or_push P y xs) = filter Q xs"
  by (induction xs) auto

lemma path_not_key: "key \<noteq> ''PATH'' \<Longrightarrow> starts_with ''PATH='' kv \<Longrightarrow> \<not> sets_key key kv"
  using sets_key_text [of "''PATH''" key] by (auto simp: starts_with_iff)

lemma filter_guest_path:
  assumes "key \<noteq> ''PATH''"
  shows "filter (sets_key key) (compose_guest_path env paths) = filter (sets_key key) env"
proof -
  have n: "\<not> sets_key key (''PATH='' @ p)" for p using assms path_not_key by (simp add: starts_with_iff)
  have "filter (sets_key key) (replace_or_push (starts_with ''PATH='') (''PATH='' @ p) env) = filter (sets_key key) env" for p
  proof (rule filter_replace_or_push)
    show "\<not> sets_key key x" if "starts_with ''PATH='' x" for x by (rule path_not_key [OF assms that])
  qed (rule n)
  then show ?thesis unfolding compose_guest_path_def Let_def
    by (simp only: if_distrib [of "filter (sets_key key)"] if_cancel)
qed

lemma filter_tool_vars:
  assumes "filter (sets_key key) env \<noteq> []" "keys_plain vars"
  shows "filter (sets_key key) (foldl add_tool_var env vars) = filter (sets_key key) env"
  using assms
proof (induction vars arbitrary: env)
  case (Cons x vars)
  obtain n v where x: "x = (n, v)" by (cases x)
  have n: "CHR ''='' \<notin> set n" using Cons.prems(2) by (simp add: x keys_plain_def)
  have "filter (sets_key key) (add_tool_var env x) = filter (sets_key key) env"
  proof (cases "n = key")
    case True
    then have "list_ex (sets_key n) env" using Cons.prems(1) by (auto simp: list_ex_iff filter_empty_conv)
    then show ?thesis by (simp add: add_tool_var_def x)
  next
    case False
    then show ?thesis using sets_key_text [OF n, of key v] by (simp add: add_tool_var_def x)
  qed
  with Cons show ?case by (simp add: keys_plain_def)
qed simp

definition supervisor_keys :: "string list" where
  "supervisor_keys = [''AGENT_COMMAND'', ''WORKSPACE_PATH'', ''TERM'']"

lemma supervisor_vars_mem:
  assumes "kv \<in> set (supervisor_vars user_env command workdir)"
  shows "(\<exists>k \<in> set supervisor_keys. \<exists>v. kv = k @ CHR ''='' # v)
    \<or> (\<exists>key \<in> set IDENTITY_ENV_KEYS. \<exists>val. declared user_env key = Some val
          \<and> kv = ''LENS_SANDBOX_WORKLOAD_'' @ key @ ''='' @ val)"
proof -
  have id: "kv \<in> set (List.map_filter (\<lambda>key. map_option (\<lambda>val. ''LENS_SANDBOX_WORKLOAD_'' @ key @ ''='' @ val)
        (declared user_env key)) ks) \<Longrightarrow>
      \<exists>key \<in> set ks. \<exists>val. declared user_env key = Some val \<and> kv = ''LENS_SANDBOX_WORKLOAD_'' @ key @ ''='' @ val" for ks
    by (auto simp: List.map_filter_def) blast
  show ?thesis
    using assms id [of IDENTITY_ENV_KEYS] unfolding supervisor_vars_def supervisor_keys_def IDENTITY_ENV_KEYS_def set_append Un_iff
    by (elim disjE) (auto split: option.splits simp del: List.map_filter_def)
qed

lemma supervisor_vars_keys:
  assumes "kv \<in> set (supervisor_vars user_env command workdir)" "sets_key key kv"
  shows "key \<in> set supervisor_keys \<or> is_internal key"
proof -
  from supervisor_vars_mem [OF assms(1)]
  consider k v where "k \<in> set supervisor_keys" "kv = k @ CHR ''='' # v"
    | k v where "k \<in> set IDENTITY_ENV_KEYS" "kv = ''LENS_SANDBOX_WORKLOAD_'' @ k @ ''='' @ v" by blast
  then show ?thesis
  proof cases
    case (1 k v)
    then have "CHR ''='' \<notin> set k" by (auto simp: supervisor_keys_def)
    with 1 assms(2) show ?thesis by (simp add: sets_key_text)
  next
    case (2 k v)
    then have "CHR ''='' \<notin> set (''LENS_SANDBOX_WORKLOAD_'' @ k)" by (auto simp: IDENTITY_ENV_KEYS_def)
    from sets_key_text [OF this, of key v] 2 assms(2) have "key = ''LENS_SANDBOX_WORKLOAD_'' @ k" by simp
    then show ?thesis by (simp add: is_internal_def starts_with_def)
  qed
qed

lemma replace_or_push_mem: "x \<in> set (replace_or_push P y xs) \<Longrightarrow> x \<in> set xs \<or> x = y"
  by (induction xs) (auto split: if_splits)

lemma guest_path_cases:
  "compose_guest_path env paths = env \<or>
   compose_guest_path env paths = replace_or_push (starts_with ''PATH='') (''PATH='' @ join_path paths (existing_path env)) env"
  unfolding compose_guest_path_def Let_def by (rule if_split [THEN iffD2]) blast

lemma guest_path_mem:
  "kv \<in> set (compose_guest_path env paths) \<Longrightarrow> kv \<in> set env \<or> (\<exists>p. kv = ''PATH='' @ p)"
  using guest_path_cases [of env paths] replace_or_push_mem by metis

lemma tool_vars_mem:
  "kv \<in> set (foldl add_tool_var env vars) \<Longrightarrow> kv \<in> set env \<or> (\<exists>(n, v) \<in> set vars. kv = n @ ''='' @ v)"
proof (induction vars arbitrary: env)
  case (Cons x vars)
  from Cons.IH [of "add_tool_var env x"] Cons.prems show ?case
    by (cases x) (auto simp: add_tool_var_def split: if_splits)
qed simp

lemma key_value_text: "CHR ''='' \<notin> set k \<Longrightarrow> key_value (k @ CHR ''='' # v) = (k, v)"
proof -
  assume "CHR ''='' \<notin> set k"
  then have "split_once CHR ''='' (k @ CHR ''='' # v) = Some (k, v)" by (simp add: split_once_Some)
  then show ?thesis by (simp add: key_value_def)
qed

definition tools_plain :: "tool_runtime \<Rightarrow> bool" where
  "tools_plain tools \<longleftrightarrow> keys_plain (tr_env tools) \<and> (\<forall>k \<in> fst ` set (tr_env tools). \<not> is_internal k)"

lemma composed_not_internal:
  assumes "connectors_plain c" "tools_plain tools"
    and "kv \<in> set (compose_guest_tool_env (we_env (compose_workload_env image_env user_env c)) tools)"
  shows "\<not> is_internal (fst (key_value kv))"
proof -
  consider k v where "kv = k @ CHR ''='' # v" "(k, v) \<in> set (composed_entries image_env user_env c)"
    | p where "kv = ''PATH'' @ CHR ''='' # p"
    | n v where "kv = n @ CHR ''='' # v" "(n, v) \<in> set (tr_env tools)"
    using tool_vars_mem [OF assms(3) [unfolded compose_guest_tool_env_def]] 
      guest_path_mem [of kv "map (\<lambda>(k, v). k @ ''='' @ v) (composed_entries image_env user_env c)" "tr_bin_paths tools"]
    by (auto simp: compose_entries)
  then show ?thesis
  proof cases
    case (1 k v)
    with composed_ok(1) [OF assms(1), of image_env user_env] show ?thesis
      by (force simp: entries_ok_def keys_plain_def key_value_text)
  next
    case (2 p)
    with key_value_text [of "''PATH''" p] show ?thesis by (simp add: is_internal_def starts_with_def)
  next
    case (3 n v)
    with assms(2) show ?thesis by (force simp: tools_plain_def keys_plain_def key_value_text)
  qed
qed

section \<open>The path\<close>

lemma first_seen_props:
  "set (first_seen seen xs) = set xs - set seen" "distinct (first_seen seen xs)"
  by (induction seen xs rule: first_seen.induct) auto

lemma first_seen_empty: "first_seen [] xs = [] \<longleftrightarrow> xs = []"
  by (cases xs) auto

lemma split_join:
  "xs \<noteq> [] \<Longrightarrow> \<forall>x \<in> set xs. c \<notin> set x \<Longrightarrow> split_on c (join_with [c] xs) = xs"
proof (induction xs)
  case (Cons x xs)
  then show ?case by (cases xs) (simp_all add: split_on_none split_on_line)
qed simp

lemma split_on_free: "p \<in> set (split_on c s) \<Longrightarrow> c \<notin> set p"
  by (induction s arbitrary: p) (auto split: if_splits list.splits)

lemma find_map_replaced:
  "find_map (strip_prefix p) (replace_or_push (starts_with p) (p @ v) env) = Some v"
  by (induction env) (auto simp: strip_prefix_def starts_with_def)

lemma blank_path_survives: "compose_guest_path [''PATH=:''] [] = [''PATH='']"
  by code_simp

section \<open>Properties\<close>

text \<open>
  C12: a variable a grant fills holds that connector's placeholder and nothing else. Whatever the
  image, the command line and the tools set, the run's environment has exactly one entry for a
  variable a granted method claims, and it is the placeholder, so the value it stands for never
  enters the sandbox. The three variables the supervisor is addressed by are the exception.
\<close>

theorem filled_variable_is_placeholder:
  assumes "connectors_plain c" "tools_plain tools" "claimable key" "map_of (ce_filled c) key = Some f"
    and "key \<notin> set supervisor_keys"
  shows "filter (sets_key key) (we_env (run_workload_env image_env user_env command workdir tools c))
    = [key @ ''='' @ fl_placeholder f]"
proof -
  let ?es = "composed_entries image_env user_env c"
  have ok: "distinct (map fst ?es)" "keys_plain ?es" and m: "map_of ?es key = Some (fl_placeholder f)"
    using composed_ok [OF assms(1)] assms(3,4) by (auto simp: entries_ok_def)
  let ?env = "we_env (compose_workload_env image_env user_env c)"
  have 1: "filter (sets_key key) ?env = [key @ ''='' @ fl_placeholder f]"
    using filter_key_entries [OF ok, of key] m by (simp add: compose_entries)
  have "key \<noteq> ''PATH''" using assms(3) by (simp add: claimable_def)
  from trans [OF filter_guest_path [OF this] 1]
  have 2: "filter (sets_key key) (compose_guest_path ?env (tr_bin_paths tools)) = [key @ ''='' @ fl_placeholder f]" .
  then have 3: "filter (sets_key key) (compose_guest_tool_env ?env tools) = [key @ ''='' @ fl_placeholder f]"
    unfolding compose_guest_tool_env_def using assms(2) by (subst filter_tool_vars) (simp_all add: tools_plain_def)
  have "filter (sets_key key) (supervisor_vars user_env cmd workdir) = []" for cmd
    using supervisor_vars_keys [of _ user_env cmd workdir key] assms(3,5)
    by (auto simp: filter_empty_conv claimable_def)
  with 3 show ?thesis by (simp add: run_workload_env_def Let_def split: option.splits)
qed

definition sample_connectors :: connector_env where
  "sample_connectors = \<lparr>ce_filled = [(''API_TOKEN'', \<lparr>fl_connector = ''hub'', fl_placeholder = ''lns-p1''\<rparr>)],
     ce_granted_env = [], ce_left_unarmed = []\<rparr>"

definition sample_tools :: tool_runtime where
  "sample_tools = \<lparr>tr_bin_paths = [''/.lens/tools/node/bin''], tr_env = [(''API_TOKEN'', ''tool''), (''NODE_HOME'', ''/n'')]\<rparr>"

lemma filled_variable_is_placeholder_witness:
  "filter (sets_key ''API_TOKEN'') (we_env (run_workload_env (Some [''API_TOKEN=image'', ''PATH=/bin''])
      [''API_TOKEN=secret''] (Some ''sh'') None sample_tools sample_connectors)) = [''API_TOKEN=lns-p1'']"
proof -
  have "connectors_plain sample_connectors"
    by (simp add: connectors_plain_def keys_plain_def sample_connectors_def)
  moreover have "tools_plain sample_tools"
    by (simp add: tools_plain_def keys_plain_def sample_tools_def is_internal_def starts_with_def)
  moreover have "claimable ''API_TOKEN''" "''API_TOKEN'' \<notin> set supervisor_keys" by code_simp+
  moreover have "map_of (ce_filled sample_connectors) ''API_TOKEN'' = Some \<lparr>fl_connector = ''hub'', fl_placeholder = ''lns-p1''\<rparr>"
    by (simp add: sample_connectors_def)
  ultimately show ?thesis using filled_variable_is_placeholder by fastforce
qed

text \<open>
  C13: nothing but the service writes the supervisor's channel. An entry of the run's environment whose
  name has the supervisor's prefix is one of the two identity variables the service adds for a value
  the author declared, and there is none without a supervised command.
\<close>

theorem supervisor_channel_closed:
  assumes "connectors_plain c" "tools_plain tools"
    and "kv \<in> set (we_env (run_workload_env image_env user_env command workdir tools c))"
    and "is_internal (fst (key_value kv))"
  shows "command \<noteq> None \<and> (\<exists>key \<in> set IDENTITY_ENV_KEYS. \<exists>val. declared user_env key = Some val
     \<and> kv = ''LENS_SANDBOX_WORKLOAD_'' @ key @ ''='' @ val)"
proof -
  have "kv \<notin> set (compose_guest_tool_env (we_env (compose_workload_env image_env user_env c)) tools)"
    using composed_not_internal [OF assms(1,2)] assms(4) by blast
  then obtain cmd where cmd: "command = Some cmd" and kv: "kv \<in> set (supervisor_vars user_env cmd workdir)"
    using assms(3) by (auto simp: run_workload_env_def Let_def split: option.splits)
  have "\<not> is_internal (fst (key_value (k @ CHR ''='' # v)))" if "k \<in> set supervisor_keys" for k v
  proof -
    have "CHR ''='' \<notin> set k" "\<not> is_internal k" using that
      by (auto simp: supervisor_keys_def is_internal_def starts_with_def)
    then show ?thesis by (simp add: key_value_text)
  qed
  with supervisor_vars_mem [OF kv] assms(4) cmd show ?thesis by blast
qed

lemma supervisor_channel_closed_witness:
  "filter (\<lambda>kv. is_internal (fst (key_value kv))) (we_env (run_workload_env (Some [''LENS_SANDBOX_TOKEN=x''])
      [''LENS_SANDBOX_WS_URL=y'', ''HOME=/root''] (Some ''sh'') None sample_tools sample_connectors))
    = [''LENS_SANDBOX_WORKLOAD_HOME=/root'']
   \<and> declared [''LENS_SANDBOX_WS_URL=y'', ''HOME=/root''] ''HOME'' = Some ''/root''"
proof -
  let ?env = "we_env (run_workload_env (Some [''LENS_SANDBOX_TOKEN=x''])
      [''LENS_SANDBOX_WS_URL=y'', ''HOME=/root''] (Some ''sh'') None sample_tools sample_connectors)"
  have c: "connectors_plain sample_connectors"
    by (simp add: connectors_plain_def keys_plain_def sample_connectors_def)
  have t: "tools_plain sample_tools"
    by (simp add: tools_plain_def keys_plain_def sample_tools_def is_internal_def starts_with_def)
  have m: "''LENS_SANDBOX_WORKLOAD_HOME=/root'' \<in> set ?env" by code_simp
  have n: "is_internal (fst (key_value ''LENS_SANDBOX_WORKLOAD_HOME=/root''))" by code_simp
  have "declared [''LENS_SANDBOX_WS_URL=y'', ''HOME=/root''] ''HOME'' = Some ''/root''"
    using supervisor_channel_closed [OF c t m n] by (simp add: IDENTITY_ENV_KEYS_def)
  moreover have "filter (\<lambda>kv. is_internal (fst (key_value kv))) ?env = [''LENS_SANDBOX_WORKLOAD_HOME=/root'']" by code_simp
  ultimately show ?thesis by (rule conjI [rotated])
qed

text \<open>
  The guest's path. Where tools are declared or a path is set, and not every directory named is
  blank, the composed path is the declared tool directories followed by the existing ones, each once
  and in order, and no segment of it is empty, so nothing is looked up in the current directory.
\<close>

theorem guest_path_no_blank:
  assumes "\<forall>d \<in> set dirs. CHR '':'' \<notin> set d" "dirs \<noteq> [] \<or> find_map (strip_prefix ''PATH='') env \<noteq> None"
    and "list_ex (\<lambda>seg. seg \<noteq> []) (dirs @ split_on CHR '':'' (existing_path env))"
  shows "\<exists>path. find_map (strip_prefix ''PATH='') (compose_guest_path env dirs) = Some path
     \<and> split_on CHR '':'' path = first_seen [] (filter (\<lambda>seg. seg \<noteq> []) (dirs @ split_on CHR '':'' (existing_path env)))
     \<and> [] \<notin> set (split_on CHR '':'' path) \<and> distinct (split_on CHR '':'' path)"
proof -
  let ?segs = "filter (\<lambda>seg. seg \<noteq> []) (dirs @ split_on CHR '':'' (existing_path env))"
  let ?path = "join_path dirs (existing_path env)"
  have ne: "first_seen [] ?segs \<noteq> []"
    using assms(3) unfolding first_seen_empty by (auto simp: list_ex_iff filter_empty_conv)
  have "\<forall>x \<in> set (first_seen [] ?segs). CHR '':'' \<notin> set x"
    using assms(1) split_on_free by (auto simp: first_seen_props)
  from split_join [OF ne this] have s: "split_on CHR '':'' ?path = first_seen [] ?segs"
    by (simp add: join_path_def)
  have "compose_guest_path env dirs = replace_or_push (starts_with ''PATH='') (''PATH='' @ ?path) env"
    unfolding compose_guest_path_def Let_def using assms(2) by (simp only: if_not_P de_Morgan_conj not_not)
  then have "find_map (strip_prefix ''PATH='') (compose_guest_path env dirs) = Some ?path"
    by (simp only: find_map_replaced)
  with s show ?thesis by (simp add: first_seen_props)
qed

definition sample_dirs :: "string list" where
  "sample_dirs = [''/t/bin'', ''/bin'']"

definition sample_image_env :: "string list" where
  "sample_image_env = [''A=1'', ''PATH=/bin::/usr/bin'']"

lemma guest_path_no_blank_witness:
  "\<exists>path. find_map (strip_prefix ''PATH='') (compose_guest_path sample_image_env sample_dirs) = Some path
     \<and> split_on CHR '':'' path = [''/t/bin'', ''/bin'', ''/usr/bin'']"
proof -
  have a: "\<forall>d \<in> set sample_dirs. CHR '':'' \<notin> set d" by (simp add: sample_dirs_def)
  have b: "sample_dirs \<noteq> [] \<or> find_map (strip_prefix ''PATH='') sample_image_env \<noteq> None" by (simp add: sample_dirs_def)
  have c: "list_ex (\<lambda>seg. seg \<noteq> []) (sample_dirs @ split_on CHR '':'' (existing_path sample_image_env))" by code_simp
  have f: "first_seen [] (filter (\<lambda>seg. seg \<noteq> []) (sample_dirs @ split_on CHR '':'' (existing_path sample_image_env)))
      = [''/t/bin'', ''/bin'', ''/usr/bin'']" by code_simp
  from guest_path_no_blank [OF a b c] f show ?thesis by auto
qed

end
