(* ===== verification/Broker_Session.thy ===== *)
theory Broker_Session
  imports Frames Workload_Env
begin

text \<open>
  The guest's session broker: what an opened session becomes
  (\<open>crates/lns-session-broker/src/session.rs\<close>), the child that executes the workload and the loop that
  serves the host's frames (\<open>session/real.rs\<close>), and the exit status (\<open>exit.rs\<close>). The kernel is a
  parameter, a record of which calls succeed; the environment is the list of a process's variables, changed
  by \<open>unsetenv\<close> and \<open>putenv\<close> as musl has them. The threads that pump a child's output and the file
  descriptors they close are not modelled.
\<close>

section \<open>The specification of a workload\<close>

datatype cwd_choice = Declared string | Fallback string

record run_identity =
  ri_uid :: "32 word option"
  ri_gid :: "32 word option"
  ri_home :: "string option"
  ri_user :: "string option"

definition ROOT_UID :: "32 word" where
  "ROOT_UID = 0"

datatype confinement_kind = Inherit | CapsOnly | Setuid "32 word" "32 word"

definition confinement :: "bool \<Rightarrow> 32 word option \<Rightarrow> 32 word option \<Rightarrow> confinement_kind" where
  "confinement confine uid gid =
     (if \<not> confine then Inherit
      else (case (uid, gid) of
          (Some u, Some g) \<Rightarrow> if u \<noteq> ROOT_UID then Setuid u g else CapsOnly
        | _ \<Rightarrow> CapsOnly))"

definition BROKER_INTERNAL_VAR_PREFIX :: string where
  "BROKER_INTERNAL_VAR_PREFIX = ''LENS_SANDBOX_''"

definition keys_to_scrub :: "string list \<Rightarrow> confinement_kind \<Rightarrow> string list" where
  "keys_to_scrub inherited c = (if c = Inherit then [] else filter (starts_with BROKER_INTERNAL_VAR_PREFIX) inherited)"

record workload_spec =
  ws_argv :: "string list"
  ws_env :: "string list"
  ws_cwd :: "cwd_choice option"
  ws_hostname :: "string option"
  ws_confinement :: confinement_kind
  ws_scrub :: "string list"

definition declares :: "string list \<Rightarrow> string \<Rightarrow> bool" where
  "declares session_env key = list_ex (\<lambda>kv. case split_once CHR ''='' kv of Some (k, _) \<Rightarrow> k = key | None \<Rightarrow> False) session_env"

definition nonempty :: "string option \<Rightarrow> string option" where
  "nonempty s = (case s of Some t \<Rightarrow> if t = [] then None else Some t | None \<Rightarrow> None)"

definition identity_env :: "confinement_kind \<Rightarrow> string list \<Rightarrow> string option \<Rightarrow> string option \<Rightarrow> string list" where
  "identity_env c session_env home user =
     (if c = Inherit then []
      else (if declares session_env ''HOME'' then []
            else [''HOME='' @ (case nonempty home of Some h \<Rightarrow> h | None \<Rightarrow> ''/'')])
         @ (case nonempty user of
              Some u \<Rightarrow> if declares session_env ''USER'' then [] else [''USER='' @ u]
            | None \<Rightarrow> []))"

definition session_cwd :: "string option \<Rightarrow> confinement_kind \<Rightarrow> string option \<Rightarrow> cwd_choice option" where
  "session_cwd cwd c home = (case nonempty cwd of
     Some declared_dir \<Rightarrow> Some (Declared declared_dir)
   | None \<Rightarrow> if c = Inherit then None else map_option Fallback home)"

definition build_workload_spec ::
    "string list \<Rightarrow> string list \<Rightarrow> string option \<Rightarrow> string option \<Rightarrow> bool \<Rightarrow> run_identity \<Rightarrow> string list \<Rightarrow> workload_spec" where
  "build_workload_spec argv env cwd hostname confine identity inherited =
     (let c = confinement confine (ri_uid identity) (ri_gid identity);
          env = env @ identity_env c env (ri_home identity) (ri_user identity);
          effective_home = (case find_map (strip_prefix ''HOME='') env of
              Some h \<Rightarrow> if h \<noteq> [] \<and> h \<noteq> ''/'' then Some h else None
            | None \<Rightarrow> None)
      in \<lparr>ws_argv = argv, ws_env = env, ws_cwd = session_cwd cwd c effective_home, ws_hostname = hostname,
          ws_confinement = c, ws_scrub = keys_to_scrub inherited c\<rparr>)"

datatype session_error = Argv_Empty | Expected_OpenSession client_frame | PeerHangup

fun validate_open_session :: "client_frame \<Rightarrow> session_error + unit" where
  "validate_open_session (OpenSession s) = (if os_argv s = [] then Inl Argv_Empty else Inr ())"
| "validate_open_session other = Inl (Expected_OpenSession other)"

definition signal_target :: "int option \<Rightarrow> int \<Rightarrow> int \<Rightarrow> (int \<times> int) option" where
  "signal_target foreground_pgrp child_pid sig =
     (if sig \<le> 0 \<or> child_pid \<le> 0 then None
      else Some (- (case foreground_pgrp of Some pgrp \<Rightarrow> pgrp | None \<Rightarrow> child_pid), sig))"

text \<open>\<open>CString::new\<close> refuses a string with a NUL byte; the strings themselves are kept.\<close>

definition cstring :: "string \<Rightarrow> string option" where
  "cstring s = (if CHR 0x00 \<in> set s then None else Some s)"

definition validate_argv :: "string list \<Rightarrow> string list option" where
  "validate_argv argv =
     (let cargs = List.map_filter cstring argv in if length cargs = length argv then Some cargs else None)"

datatype exec_error = NotFound | Other_Exec

definition exec_failure_code :: "exec_error \<Rightarrow> bool \<Rightarrow> int" where
  "exec_failure_code kind command_found = (if kind = NotFound \<and> \<not> command_found then 127 else 126)"

text \<open>\<open>Path::join\<close> of a directory and a name without a separator.\<close>

definition join_name :: "string \<Rightarrow> string \<Rightarrow> string" where
  "join_name dir name = (if dir = [] \<or> last dir = CHR ''/'' then dir @ name else dir @ ''/'' @ name)"

definition command_is_present :: "string \<Rightarrow> string option \<Rightarrow> (string \<Rightarrow> bool) \<Rightarrow> bool" where
  "command_is_present command path exists_at =
     (if CHR ''/'' \<in> set command then exists_at command
      else (case path of
          Some entries \<Rightarrow> list_ex (\<lambda>dir. exists_at (join_name dir command)) (split_on CHR '':'' entries)
        | None \<Rightarrow> False))"

section \<open>The child\<close>

type_synonym process_env = "(string \<times> string) list"

definition unsetenv :: "string \<Rightarrow> process_env \<Rightarrow> process_env" where
  "unsetenv key env = (if key = [] \<or> CHR ''='' \<in> set key then env else filter (\<lambda>(k, _). k \<noteq> key) env)"

definition putenv :: "string \<Rightarrow> process_env \<Rightarrow> process_env" where
  "putenv kv env = (case split_once CHR ''='' kv of
     None \<Rightarrow> unsetenv kv env
   | Some (k, v) \<Rightarrow> if k = [] then env else filter (\<lambda>(k', _). k' \<noteq> k) env @ [(k, v)])"

text \<open>What the kernel answers the child.\<close>

record guest_os =
  enters_dir :: "string \<Rightarrow> bool"
  sets_hostname :: "string \<Rightarrow> bool"
  confines :: "confinement_kind \<Rightarrow> bool"
  execs :: "string list \<Rightarrow> exec_error option"
  exists_at :: "string \<Rightarrow> bool"

datatype child_end = Child_Exit int | Child_Exec "string list" process_env confinement_kind

definition enter_workdir :: "guest_os \<Rightarrow> cwd_choice option \<Rightarrow> int option" where
  "enter_workdir os cwd = (case cwd of
     Some (Declared dir) \<Rightarrow> if enters_dir os dir then None else Some 126
   | _ \<Rightarrow> None)"

definition set_guest_hostname :: "guest_os \<Rightarrow> string option \<Rightarrow> int option" where
  "set_guest_hostname os hostname = (case hostname of
     None \<Rightarrow> None
   | Some h \<Rightarrow> (case cstring h of None \<Rightarrow> Some 126 | Some c \<Rightarrow> if sets_hostname os c then None else Some 126))"

definition apply_child_env :: "workload_spec \<Rightarrow> process_env \<Rightarrow> process_env" where
  "apply_child_env spec env =
     foldl (\<lambda>env kv. case cstring kv of Some c \<Rightarrow> putenv c env | None \<Rightarrow> env)
       (foldl (\<lambda>env key. case cstring key of Some c \<Rightarrow> unsetenv c env | None \<Rightarrow> env) env (ws_scrub spec))
       (ws_env spec)"

definition exec_child :: "guest_os \<Rightarrow> workload_spec \<Rightarrow> process_env \<Rightarrow> child_end" where
  "exec_child os spec env = (case enter_workdir os (ws_cwd spec) of
     Some code \<Rightarrow> Child_Exit code
   | None \<Rightarrow> (case set_guest_hostname os (ws_hostname spec) of
       Some code \<Rightarrow> Child_Exit code
     | None \<Rightarrow>
         (let env = apply_child_env spec env
          in if \<not> confines os (ws_confinement spec) then Child_Exit 126
             else (case validate_argv (ws_argv spec) of
                 None \<Rightarrow> Child_Exit 127
               | Some cargs \<Rightarrow> (case execs os cargs of
                   None \<Rightarrow> Child_Exec cargs env (ws_confinement spec)
                 | Some failure \<Rightarrow> Child_Exit (exec_failure_code failure
                     (command_is_present (hd (ws_argv spec)) (map_of env ''PATH'') (exists_at os))))))))"

text \<open>
  \<open>handle_session\<close> up to the fork: the opening frame is read and validated, and the identity that the
  boot exported and the inherited variables make it the child's specification.
\<close>

definition parse_u32 :: "string \<Rightarrow> 32 word option" where
  "parse_u32 s = map_option of_nat (parse_uint (2 ^ 32 - 1) s)"

definition env_u32 :: "process_env \<Rightarrow> string \<Rightarrow> 32 word option" where
  "env_u32 env key = Option.bind (map_of env key) parse_u32"

definition opened_session :: "(bytes \<Rightarrow> 'c + client_frame) \<Rightarrow> process_env \<Rightarrow> reader \<Rightarrow> session_error + workload_spec \<times> reader" where
  "opened_session from_bytes env conn = (case read_client_frame from_bytes conn of
     None \<Rightarrow> Inl PeerHangup
   | Some (opening, conn) \<Rightarrow> and_then (validate_open_session opening) (\<lambda>_. case opening of
       OpenSession s \<Rightarrow> Inr (build_workload_spec (os_argv s) (os_env s) (os_cwd s) (os_hostname s) (os_confine s)
         \<lparr>ri_uid = env_u32 env ''LENS_RUN_UID'', ri_gid = env_u32 env ''LENS_RUN_GID'',
          ri_home = map_of env ''LENS_RUN_HOME'', ri_user = map_of env ''SANDBOX_USER''\<rparr> (map fst env), conn)
     | other \<Rightarrow> Inl (Expected_OpenSession other)))"

section \<open>The loop over the host's frames\<close>

datatype loop_action = WriteStdin bytes | CloseStdin | Resize_To winsize | Send_Signal int | Detach_Client | Stop

definition eof_action :: "bool \<Rightarrow> loop_action" where
  "eof_action dies_with_client = (if dies_with_client then Detach_Client else Stop)"

fun dispatch_frame :: "client_frame \<Rightarrow> loop_action" where
  "dispatch_frame (StdinBytes bs) = WriteStdin bs"
| "dispatch_frame StdinClose = CloseStdin"
| "dispatch_frame (Resize ws) = Resize_To ws"
| "dispatch_frame (Signal kind) = Send_Signal (as_libc kind)"
| "dispatch_frame Detach = Detach_Client"
| "dispatch_frame (OpenSession _) = Stop"

datatype child_effect = Wrote bytes | Closed_Stdin | Killed int int | Winsize_Set winsize

lemma read_client_frame_progress: "read_client_frame from_bytes r = Some (f, r') \<Longrightarrow> length (fst r') < length (fst r)"
  by (auto simp: read_client_frame_def dest!: read_exact_length split: sum.split_asm prod.split_asm)

text \<open>
  The loop of a session on pipes: \<open>room\<close> is how many more writes the child takes before its end of the
  pipe is gone, \<open>stdin\<close> whether the pipe is still open.
\<close>

function client_loop_pipes :: "(bytes \<Rightarrow> 'c + client_frame) \<Rightarrow> int \<Rightarrow> bool \<Rightarrow> nat \<Rightarrow> bool \<Rightarrow> reader \<Rightarrow> child_effect list" where
  "client_loop_pipes from_bytes child_pid dies room stdin conn =
     (let done = (if stdin then [Closed_Stdin] else [])
      in case read_client_frame from_bytes conn of
        None \<Rightarrow> (if eof_action dies = Detach_Client then [Killed child_pid 1] else []) @ done
      | Some (frame, conn') \<Rightarrow> (case dispatch_frame frame of
          WriteStdin bs \<Rightarrow> if stdin then if room = 0 then done
              else Wrote bs # client_loop_pipes from_bytes child_pid dies (room - 1) stdin conn'
            else client_loop_pipes from_bytes child_pid dies room stdin conn'
        | CloseStdin \<Rightarrow> done @ client_loop_pipes from_bytes child_pid dies room False conn'
        | Resize_To _ \<Rightarrow> client_loop_pipes from_bytes child_pid dies room stdin conn'
        | Send_Signal sig \<Rightarrow> Killed child_pid sig # client_loop_pipes from_bytes child_pid dies room stdin conn'
        | Detach_Client \<Rightarrow> Killed child_pid 1 # done
        | Stop \<Rightarrow> done))"
  by pat_completeness auto

termination
  by (relation "measure (\<lambda>(_, _, _, _, _, r). length (fst r))") (auto dest: read_client_frame_progress)

declare client_loop_pipes.simps [simp del]

definition deliver_signal :: "int option \<Rightarrow> int \<Rightarrow> int \<Rightarrow> child_effect list" where
  "deliver_signal foreground child_pid sig = (case signal_target foreground child_pid sig of
     Some (target, sig) \<Rightarrow> [Killed target sig]
   | None \<Rightarrow> [])"

text \<open>The loop of a session on a terminal; the foreground process group is what the terminal reports.\<close>

function client_loop_tty ::
    "(bytes \<Rightarrow> 'c + client_frame) \<Rightarrow> int option \<Rightarrow> int \<Rightarrow> bool \<Rightarrow> nat \<Rightarrow> reader \<Rightarrow> child_effect list" where
  "client_loop_tty from_bytes foreground child_pid dies room conn = (case read_client_frame from_bytes conn of
     None \<Rightarrow> if eof_action dies = Detach_Client then deliver_signal foreground child_pid 1 else []
   | Some (frame, conn') \<Rightarrow> (case dispatch_frame frame of
       WriteStdin bs \<Rightarrow> if room = 0 then []
         else Wrote bs # client_loop_tty from_bytes foreground child_pid dies (room - 1) conn'
     | CloseStdin \<Rightarrow> (if room = 0 then [] else [Wrote [4]])
         @ client_loop_tty from_bytes foreground child_pid dies (room - 1) conn'
     | Resize_To ws \<Rightarrow> Winsize_Set ws # client_loop_tty from_bytes foreground child_pid dies room conn'
     | Send_Signal sig \<Rightarrow> deliver_signal foreground child_pid sig
         @ client_loop_tty from_bytes foreground child_pid dies room conn'
     | Detach_Client \<Rightarrow> deliver_signal foreground child_pid 1
     | Stop \<Rightarrow> []))"
  by pat_completeness auto

termination
  by (relation "measure (\<lambda>(_, _, _, _, _, r). length (fst r))") (auto dest: read_client_frame_progress)

declare client_loop_tty.simps [simp del]

section \<open>Exit status\<close>

definition clamp_exit :: "int \<Rightarrow> int" where
  "clamp_exit code = (if \<not> (0 \<le> code \<and> code \<le> 255) then 255 else code)"

text \<open>\<open>WIFEXITED\<close> and its kin on the status word of \<open>waitpid\<close>.\<close>

definition translate_exit :: "32 word \<Rightarrow> int" where
  "translate_exit status =
     (if status AND 0x7F = 0 then uint (drop_bit 8 status AND 0xFF)
      else if 2 \<le> sint (ucast ((status AND 0x7F) + 1) :: 8 word) then 128 + uint (status AND 0x7F)
      else 255)"

section \<open>The environment of an executed command\<close>

text \<open>Every entry assigns, and no variable is assigned twice.\<close>

definition once :: "string list \<Rightarrow> bool" where
  "once env \<longleftrightarrow> (\<forall>kv \<in> set env. CHR ''='' \<in> set kv) \<and> (\<forall>key. length (filter (sets_key key) env) \<le> 1)"

definition internal_free :: "string list \<Rightarrow> bool" where
  "internal_free env \<longleftrightarrow> (\<forall>kv \<in> set env. \<not> is_internal (fst (key_value kv)))"

lemma sets_key_inj: "sets_key k kv \<Longrightarrow> sets_key k' kv \<Longrightarrow> k = k'"
  by (auto simp: sets_key_def split: option.splits)

lemma sets_path: "sets_key ''PATH'' kv \<longleftrightarrow> starts_with ''PATH='' kv"
proof
  assume "sets_key ''PATH'' kv"
  then show "starts_with ''PATH='' kv"
    by (auto simp: starts_with_iff sets_key_def split_once_Some split: option.splits)
next
  assume "starts_with ''PATH='' kv"
  with sets_key_text [of "''PATH''" "''PATH''"] show "sets_key ''PATH'' kv" by (auto simp: starts_with_iff)
qed

lemma filter_replaced: "P y \<Longrightarrow> filter P (replace_or_push P y xs) = y # tl (filter P xs)"
  by (induction xs) auto

lemma overwrite_filter:
  assumes "CHR ''='' \<notin> set k"
  shows "filter (sets_key key) (overwrite env k v) =
    (if key = k then (k @ ''='' @ v) # tl (filter (sets_key k) env) else filter (sets_key key) env)"
proof (cases "key = k")
  case True
  with sets_key_text [OF assms, of k v] show ?thesis by (simp add: overwrite_def filter_replaced)
next
  case False
  with sets_key_text [OF assms, of key v] show ?thesis
    by (auto simp: overwrite_def intro!: filter_replace_or_push dest: sets_key_inj)
qed

lemma overwrite_mem: "kv \<in> set (overwrite env k v) \<Longrightarrow> kv \<in> set env \<or> kv = k @ ''='' @ v"
  unfolding overwrite_def by (rule replace_or_push_mem)

lemma overwrite_once: "once env \<Longrightarrow> CHR ''='' \<notin> set k \<Longrightarrow> once (overwrite env k v)"
  by (auto simp: once_def overwrite_filter dest!: overwrite_mem)

lemma overwrite_internal_free:
  "internal_free env \<Longrightarrow> CHR ''='' \<notin> set k \<Longrightarrow> \<not> is_internal k \<Longrightarrow> internal_free (overwrite env k v)"
  by (auto simp: internal_free_def key_value_text dest!: overwrite_mem)

lemma overwrites_ok:
  assumes "once env" "internal_free env" "keys_plain kvs" "\<forall>k \<in> fst ` set kvs. \<not> is_internal k"
  shows "once (foldl (\<lambda>env (key, val). overwrite env key val) env kvs)"
    "internal_free (foldl (\<lambda>env (key, val). overwrite env key val) env kvs)"
  using assms by (induction kvs arbitrary: env)
    (auto simp: keys_plain_def overwrite_once overwrite_internal_free)

lemma overwrites_set:
  assumes "once env" "keys_plain kvs" "distinct (map fst kvs)" "(k, v) \<in> set kvs"
  shows "filter (sets_key k) (foldl (\<lambda>env (key, val). overwrite env key val) env kvs) = [k @ ''='' @ v]"
  using assms(2-4)
proof (induction kvs rule: rev_induct)
  case (snoc x kvs)
  let ?env = "foldl (\<lambda>env (key, val). overwrite env key val) env kvs"
  have plain: "keys_plain kvs" "CHR ''='' \<notin> set (fst x)" using snoc.prems(1) by (auto simp: keys_plain_def)
  have "once ?env" using assms(1) plain(1) by (induction kvs arbitrary: env) (auto simp: keys_plain_def overwrite_once)
  then have "tl (filter (sets_key k) ?env) = []"
    by (metis One_nat_def diff_is_0_eq length_0_conv length_tl once_def)
  moreover have "fst x \<noteq> k" if "(k, v) \<in> set kvs"
    using snoc.prems(2) imageI [OF that, of fst] by auto
  ultimately show ?case using snoc plain by (cases x) (auto simp: overwrite_filter)
qed simp

lemma guest_path_once: "once env \<Longrightarrow> once (compose_guest_path env paths)"
proof -
  assume env: "once env"
  have "once (replace_or_push (starts_with ''PATH='') (''PATH='' @ p) env)" for p
  proof -
    have "replace_or_push (starts_with ''PATH='') (''PATH='' @ p) env = overwrite env ''PATH'' p"
      by (simp add: overwrite_def sets_path [abs_def, symmetric] fun_eq_iff flip: sets_path)
    then show ?thesis using overwrite_once [OF env, of "''PATH''"] by simp
  qed
  with env guest_path_cases [of env paths] show ?thesis by metis
qed

lemma add_tool_var_once: "once env \<Longrightarrow> CHR ''='' \<notin> set n \<Longrightarrow> once (add_tool_var env (n, v))"
proof -
  assume env: "once env" and n: "CHR ''='' \<notin> set n"
  have "length (filter (sets_key key) (env @ [n @ CHR ''='' # v])) \<le> 1" if "\<not> list_ex (sets_key n) env" for key
  proof (cases "key = n")
    case True
    with that have "filter (sets_key key) env = []" by (auto simp: list_ex_iff filter_empty_conv)
    then show ?thesis by simp
  next
    case False
    with env show ?thesis by (simp add: sets_key_text [OF n] once_def)
  qed
  with env show ?thesis by (simp add: add_tool_var_def once_def)
qed

lemma guest_tool_env_ok:
  assumes "once env" "internal_free env" "tools_plain tools"
  shows "once (compose_guest_tool_env env tools)" "internal_free (compose_guest_tool_env env tools)"
proof -
  have "once (foldl add_tool_var es kvs)" if "once es" "keys_plain kvs" for es kvs
    using that by (induction kvs arbitrary: es) (auto simp: keys_plain_def add_tool_var_once)
  with assms guest_path_once show "once (compose_guest_tool_env env tools)"
    by (simp add: compose_guest_tool_env_def tools_plain_def)
  have "kv \<in> set env \<or> (\<exists>p. kv = ''PATH'' @ CHR ''='' # p) \<or> (\<exists>(n, v) \<in> set (tr_env tools). kv = n @ CHR ''='' # v)"
    if "kv \<in> set (compose_guest_tool_env env tools)" for kv
    using tool_vars_mem [OF that [unfolded compose_guest_tool_env_def]] guest_path_mem by fastforce
  moreover have "\<not> is_internal ''PATH''" by (simp add: is_internal_def starts_with_def)
  moreover have "\<not> is_internal (fst (key_value (n @ CHR ''='' # v)))" if "(n, v) \<in> set (tr_env tools)" for n v
    using assms(3) that by (auto simp: tools_plain_def keys_plain_def key_value_text dest!: bspec [of _ _ "(n, v)"])
  ultimately show "internal_free (compose_guest_tool_env env tools)"
    using assms(2) key_value_text [of "''PATH''"] unfolding internal_free_def by force
qed

lemma composed_once:
  assumes "connectors_plain c"
  shows "once (we_env (compose_workload_env image_env user_env c))"
    "internal_free (we_env (compose_workload_env image_env user_env c))"
proof -
  note ok = composed_ok(1) [OF assms, of image_env user_env, unfolded entries_ok_def]
  have "length (filter (sets_key key) (map (\<lambda>(k, v). k @ CHR ''='' # v) (composed_entries image_env user_env c))) \<le> 1" for key
    using ok by (simp add: filter_key_entries split: option.splits)
  then show "once (we_env (compose_workload_env image_env user_env c))"
    by (auto simp: once_def compose_entries)
  show "internal_free (we_env (compose_workload_env image_env user_env c))"
    using ok by (force simp: internal_free_def compose_entries keys_plain_def key_value_text)
qed

definition guest_vars :: "(string \<times> string) list" where
  "guest_vars = proxy_env @ ca_bundle_env"

lemma guest_vars_each:
  "list_all (\<lambda>(k, v). CHR ''='' \<notin> set k \<and> \<not> is_internal k \<and> k \<noteq> [] \<and> k \<noteq> ''HOME'' \<and> k \<noteq> ''USER''
     \<and> CHR 0x00 \<notin> set (k @ ''='' @ v)) guest_vars"
  "distinct (map fst guest_vars)"
  by code_simp+

lemma guest_vars_ok:
  "keys_plain guest_vars" "\<forall>k \<in> fst ` set guest_vars. \<not> is_internal k"
  using guest_vars_each(1) by (auto simp: list_all_iff keys_plain_def)

lemma exec_session_env_ok:
  assumes "connectors_plain c" "keys_plain (ce_granted_env c)" "tools_plain (xe_tools ee)"
  shows "once (we_env (exec_session_env ee user c))" "internal_free (we_env (exec_session_env ee user c))"
    "(k, v) \<in> set guest_vars \<Longrightarrow>
       filter (sets_key k) (we_env (exec_session_env ee user c)) = [k @ ''='' @ v]"
proof -
  let ?joined = "filter (\<lambda>entry. keeps_identity entry (xe_declared_identity_keys ee))
      (filter (\<lambda>entry. \<not> is_session_only entry) (xe_session_env ee))"
  let ?composed = "we_env (compose_workload_env (Some ?joined) (filter (\<lambda>entry. \<not> is_session_only entry) user) c)"
  let ?granted = "foldl (\<lambda>env (key, val). overwrite env key val) ?composed (filter (\<lambda>(k, _). claimable k) (ce_granted_env c))"
  let ?tools = "compose_guest_tool_env ?granted (xe_tools ee)"
  have claimed: "keys_plain (filter (\<lambda>(k, _). claimable k) (ce_granted_env c))"
    "\<forall>k \<in> fst ` set (filter (\<lambda>(k, _). claimable k) (ce_granted_env c)). \<not> is_internal k"
    using assms(2) by (auto simp: keys_plain_def dest: claimable_not_internal)
  note granted = overwrites_ok [OF composed_once [OF assms(1)] claimed]
  note tools = guest_tool_env_ok [OF granted assms(3)]
  have env: "we_env (exec_session_env ee user c)
      = foldl (\<lambda>env (key, val). overwrite env key val) ?tools guest_vars"
    unfolding exec_session_env_def Let_def guest_vars_def by (simp only: workload_env.select_convs)
  show "once (we_env (exec_session_env ee user c))" "internal_free (we_env (exec_session_env ee user c))"
    unfolding env by (rule overwrites_ok [OF tools guest_vars_ok])+
  show "filter (sets_key k) (we_env (exec_session_env ee user c)) = [k @ ''='' @ v]"
    if "(k, v) \<in> set guest_vars"
    unfolding env by (rule overwrites_set [OF tools(1) guest_vars_ok(1) guest_vars_each(2) that])
qed

section \<open>The variables of the child\<close>

definition env_keys_ok :: "process_env \<Rightarrow> bool" where
  "env_keys_ok env \<longleftrightarrow> (\<forall>k \<in> fst ` set env. k \<noteq> [] \<and> CHR ''='' \<notin> set k \<and> CHR 0x00 \<notin> set k)"

definition scrub_one :: "process_env \<Rightarrow> string \<Rightarrow> process_env" where
  "scrub_one env key = (case cstring key of Some c \<Rightarrow> unsetenv c env | None \<Rightarrow> env)"

definition put_one :: "process_env \<Rightarrow> string \<Rightarrow> process_env" where
  "put_one env kv = (case cstring kv of Some c \<Rightarrow> putenv c env | None \<Rightarrow> env)"

lemma apply_child_env_folds:
  "apply_child_env spec env = foldl put_one (foldl scrub_one env (ws_scrub spec)) (ws_env spec)"
  by (simp add: apply_child_env_def put_one_def [abs_def] scrub_one_def [abs_def])

lemma scrub_one_keys: "fst ` set (scrub_one env key) \<subseteq> fst ` set env"
  by (auto simp: scrub_one_def unsetenv_def cstring_def)

lemma scrubbed:
  "env_keys_ok env \<Longrightarrow> k \<in> fst ` set (foldl scrub_one env keys) \<Longrightarrow> k \<in> fst ` set env \<and> k \<notin> set keys"
proof (induction keys arbitrary: env)
  case (Cons key keys)
  have sub: "fst ` set (scrub_one env key) \<subseteq> fst ` set env" by (rule scrub_one_keys)
  with Cons.prems(1) have "env_keys_ok (scrub_one env key)" unfolding env_keys_ok_def by blast
  from Cons.IH [OF this] Cons.prems(2) have "k \<in> fst ` set (scrub_one env key)" "k \<notin> set keys" by simp_all
  moreover from this(1) sub Cons.prems(1) have "k \<noteq> key"
    by (auto simp: scrub_one_def unsetenv_def cstring_def env_keys_ok_def split: if_splits)
  ultimately show ?case using sub by auto
qed simp

lemma put_one_keys: "CHR ''='' \<in> set kv \<Longrightarrow> fst ` set (put_one env kv) \<subseteq> insert (fst (key_value kv)) (fst ` set env)"
  by (auto simp: put_one_def putenv_def cstring_def key_value_def split_once_None split: option.splits)

lemma puts_keys:
  "\<forall>kv \<in> set kvs. CHR ''='' \<in> set kv \<Longrightarrow> fst ` set (foldl put_one env kvs) \<subseteq> fst ` set env \<union> (fst \<circ> key_value) ` set kvs"
proof (induction kvs arbitrary: env)
  case (Cons kv kvs)
  from Cons have "fst ` set (foldl put_one env (kv # kvs)) \<subseteq> fst ` set (put_one env kv) \<union> (fst \<circ> key_value) ` set kvs" by simp
  moreover have "fst ` set (put_one env kv) \<subseteq> insert (fst (key_value kv)) (fst ` set env)"
    by (rule put_one_keys) (use Cons.prems in simp)
  ultimately show ?case unfolding list.set(2) image_insert o_def by blast
qed simp

lemma put_one_get:
  assumes "CHR ''='' \<in> set kv"
  shows "\<not> sets_key k kv \<Longrightarrow> map_of (put_one env kv) k = map_of env k"
    and "kv = k @ CHR ''='' # v \<Longrightarrow> CHR ''='' \<notin> set k \<Longrightarrow> k \<noteq> [] \<Longrightarrow> CHR 0x00 \<notin> set kv \<Longrightarrow>
      map_of (put_one env kv) k = Some v"
proof -
  obtain k' v' where kv: "split_once CHR ''='' kv = Some (k', v')"
    using assms split_once_None [of "CHR ''=''" kv] by (cases "split_once CHR ''='' kv") auto
  have gone: "map_of (filter (\<lambda>(k'', _). k'' \<noteq> k') env) k = (if k = k' then None else map_of env k)"
    by (induction env) auto
  from kv gone show "\<not> sets_key k kv \<Longrightarrow> map_of (put_one env kv) k = map_of env k"
    by (auto simp: put_one_def putenv_def cstring_def sets_key_def map_add_def split: option.splits)
  assume "kv = k @ CHR ''='' # v" "CHR ''='' \<notin> set k" "k \<noteq> []" "CHR 0x00 \<notin> set kv"
  moreover from this(1,2) have "split_once CHR ''='' kv = Some (k, v)" by (simp add: split_once_Some)
  with kv have "k' = k" "v' = v" by simp_all
  ultimately show "map_of (put_one env kv) k = Some v"
    using kv gone by (simp add: put_one_def putenv_def cstring_def map_add_def)
qed

lemma puts_get_other:
  "\<forall>kv \<in> set kvs. CHR ''='' \<in> set kv \<Longrightarrow> filter (sets_key k) kvs = [] \<Longrightarrow> map_of (foldl put_one env kvs) k = map_of env k"
  by (induction kvs arbitrary: env) (auto simp: put_one_get(1) split: if_splits)

lemma puts_get:
  assumes "\<forall>kv \<in> set kvs. CHR ''='' \<in> set kv" "filter (sets_key k) kvs = [k @ CHR ''='' # v]"
    and "CHR ''='' \<notin> set k" "k \<noteq> []" "CHR 0x00 \<notin> set (k @ CHR ''='' # v)"
  shows "map_of (foldl put_one env kvs) k = Some v"
proof -
  obtain a b where kvs: "kvs = a @ (k @ CHR ''='' # v) # b" and b: "filter (sets_key k) b = []"
    using assms(2) unfolding filter_eq_Cons_iff by metis
  have "map_of (put_one (foldl put_one env a) (k @ CHR ''='' # v)) k = Some v"
    by (rule put_one_get(2)) (use assms(3-5) in auto)
  moreover have "\<forall>kv \<in> set b. CHR ''='' \<in> set kv" using assms(1) kvs by simp
  ultimately show ?thesis using b by (simp add: kvs puts_get_other)
qed

lemma identity_env_mem:
  "kv \<in> set (identity_env c env home user) \<Longrightarrow> \<exists>v. kv = ''HOME'' @ CHR ''='' # v \<or> kv = ''USER'' @ CHR ''='' # v"
  by (auto simp: identity_env_def split: if_splits option.splits)

lemma identity_env_filter:
  assumes "k \<noteq> ''HOME''" "k \<noteq> ''USER''"
  shows "filter (sets_key k) (identity_env c env home user) = []"
proof -
  have "\<not> sets_key k (''HOME'' @ CHR ''='' # v)" "\<not> sets_key k (''USER'' @ CHR ''='' # v)" for v
    using assms sets_key_text [of "''HOME''" k v] sets_key_text [of "''USER''" k v] by simp_all
  then show ?thesis unfolding filter_empty_conv using identity_env_mem by metis
qed

section \<open>Reading the host's frames\<close>

lemma read_client_next: "read_client_frame from_bytes r = (case next_frame from_bytes r of Inl _ \<Rightarrow> None | Inr fr \<Rightarrow> Some fr)"
  by (auto simp: read_client_frame_def next_frame_def read_one_frame_def split: sum.splits io_kind.splits prod.splits)

text \<open>What the frames of a client do to a child on pipes that is still reading.\<close>

fun pipe_effects :: "int \<Rightarrow> bool \<Rightarrow> client_frame list \<Rightarrow> child_effect list \<times> bool" where
  "pipe_effects pid stdin [] = ([], stdin)"
| "pipe_effects pid stdin (f # fs) = (case f of
     StdinBytes bs \<Rightarrow> let (es, s) = pipe_effects pid stdin fs in ((if stdin then [Wrote bs] else []) @ es, s)
   | StdinClose \<Rightarrow> let (es, s) = pipe_effects pid False fs in ((if stdin then [Closed_Stdin] else []) @ es, s)
   | Resize _ \<Rightarrow> pipe_effects pid stdin fs
   | Signal kind \<Rightarrow> let (es, s) = pipe_effects pid stdin fs in (Killed pid (as_libc kind) # es, s)
   | _ \<Rightarrow> ([], stdin))"

definition goes_on :: "client_frame \<Rightarrow> bool" where
  "goes_on f = (case f of OpenSession _ \<Rightarrow> False | Detach \<Rightarrow> False | _ \<Rightarrow> True)"

definition hang_up :: "int \<Rightarrow> bool \<Rightarrow> bool \<Rightarrow> child_effect list" where
  "hang_up pid dies stdin = (if dies then [Killed pid 1] else []) @ (if stdin then [Closed_Stdin] else [])"

lemma client_loop_pipes_end:
  "next_frame from_bytes conn = Inl e \<Longrightarrow> client_loop_pipes from_bytes pid dies room stdin conn = hang_up pid dies stdin"
  by (subst client_loop_pipes.simps) (simp add: read_client_next Let_def eof_action_def hang_up_def)

lemma client_loop_pipes_next:
  assumes "next_frame from_bytes conn = Inr (f, conn')" "goes_on f" "0 < room"
  shows "\<exists>room' stdin'. room \<le> Suc room' \<and> (let (es, s) = pipe_effects pid stdin' fs
      in pipe_effects pid stdin (f # fs) = (fst (pipe_effects pid stdin [f]) @ es, s))
    \<and> client_loop_pipes from_bytes pid dies room stdin conn
      = fst (pipe_effects pid stdin [f]) @ client_loop_pipes from_bytes pid dies room' stdin' conn'"
proof -
  let ?stdin' = "stdin \<and> f \<noteq> StdinClose" and ?room' = "case f of StdinBytes _ \<Rightarrow> if stdin then room - 1 else room | _ \<Rightarrow> room"
  have "client_loop_pipes from_bytes pid dies room stdin conn
      = fst (pipe_effects pid stdin [f]) @ client_loop_pipes from_bytes pid dies ?room' ?stdin' conn'"
    using assms by (subst client_loop_pipes.simps) (cases f; simp add: read_client_next Let_def goes_on_def)
  moreover have "room \<le> Suc ?room'" using assms(3) by (cases f) auto
  moreover have "let (es, s) = pipe_effects pid ?stdin' fs
      in pipe_effects pid stdin (f # fs) = (fst (pipe_effects pid stdin [f]) @ es, s)"
    using assms(2) by (cases f; cases "pipe_effects pid ?stdin' fs") (simp_all add: goes_on_def)
  ultimately show ?thesis by blast
qed

lemma client_stream_cut:
  assumes fr: "framing enc (next_frame from_bytes) stream_end"
  shows "encode_all enc fs = Inr (p @ q) \<Longrightarrow> list_all goes_on fs \<Longrightarrow> length fs \<le> room \<Longrightarrow>
    client_loop_pipes from_bytes pid dies room stdin (p, e)
      = (let (es, s) = pipe_effects pid stdin (take (whole_frames enc fs (length p)) fs) in es @ hang_up pid dies s)"
proof (induction fs arbitrary: p room stdin)
  case Nil
  with framing.ended [OF fr] show ?case by (simp add: client_loop_pipes_end)
next
  case (Cons f fs)
  from Cons.prems(1) obtain b rest where b: "enc f = Inr b" and rest: "encode_all enc fs = Inr rest"
    and bs: "p @ q = b @ rest" by (auto simp: and_then_Inr)
  show ?case
  proof (cases "length b \<le> length p")
    case True
    with bs obtain p' where p: "p = b @ p'" and rest': "rest = p' @ q" by (auto simp: append_eq_append_conv2)
    let ?fs = "take (whole_frames enc fs (length p')) fs"
    have nf: "next_frame from_bytes (p, e) = Inr (f, p', e)" using framing.reads_back [OF fr b] by (simp add: p)
    have go: "goes_on f" "0 < room" using Cons.prems(2,3) by auto
    obtain room' stdin' where le: "room \<le> Suc room'"
      and eff: "let (es, s) = pipe_effects pid stdin' ?fs
        in pipe_effects pid stdin (f # ?fs) = (fst (pipe_effects pid stdin [f]) @ es, s)"
      and loop: "client_loop_pipes from_bytes pid dies room stdin (p, e)
        = fst (pipe_effects pid stdin [f]) @ client_loop_pipes from_bytes pid dies room' stdin' (p', e)"
      using client_loop_pipes_next [OF nf go, of pid ?fs stdin dies] by blast
    from Cons.IH [of p' room' stdin'] Cons.prems(2,3) le rest rest' loop eff show ?thesis
      by (simp add: b p Let_def split_beta del: pipe_effects.simps)
  next
    case False
    with bs obtain q' where "b = p @ q'" "q' \<noteq> []" by (auto simp: append_eq_append_conv2)
    with framing.truncated [OF fr b] have "next_frame from_bytes (p, e) = Inl (stream_end e)" by simp
    with False show ?thesis by (simp add: b client_loop_pipes_end)
  qed
qed

section \<open>Properties\<close>

lemma exec_child_env:
  "exec_child os spec env = Child_Exec cargs env' conf \<Longrightarrow> env' = apply_child_env spec env \<and> conf = ws_confinement spec"
  by (auto simp: exec_child_def Let_def split: option.splits if_splits)

lemma confined_spec:
  assumes "spec = build_workload_spec argv env cwd hostname True identity inherited"
  shows "ws_confinement spec \<noteq> Inherit" "ws_scrub spec = filter is_internal inherited"
    "ws_env spec = env @ identity_env (ws_confinement spec) env (ri_home identity) (ri_user identity)"
proof -
  have "confinement True uid gid \<noteq> Inherit" for uid gid
    by (simp add: confinement_def split: option.splits)
  then show "ws_confinement spec \<noteq> Inherit" "ws_scrub spec = filter is_internal inherited"
    "ws_env spec = env @ identity_env (ws_confinement spec) env (ri_home identity) (ri_user identity)"
    by (simp_all add: assms build_workload_spec_def Let_def keys_to_scrub_def is_internal_def [abs_def]
        BROKER_INTERNAL_VAR_PREFIX_def)
qed

text \<open>
  C14: a confined session. Whatever the run, the caller and the connectors contributed, a command executed
  in a running sandbox never keeps the broker's privileges, sees no variable of the supervisor (the
  relay's address and token among them, which the broker inherited from the boot), and is pointed at the
  run's proxy and trust store.
\<close>

theorem confined_session_sealed:
  assumes "connectors_plain c" "keys_plain (ce_granted_env c)" "tools_plain (xe_tools ee)" "env_keys_ok env"
    and "exec_child os (build_workload_spec argv (we_env (exec_session_env ee user c)) cwd hostname True identity (map fst env)) env
      = Child_Exec cargs env' conf"
  shows "conf \<noteq> Inherit \<and> (\<forall>k \<in> fst ` set env'. \<not> is_internal k)
    \<and> (\<forall>(k, v) \<in> set (proxy_env @ ca_bundle_env). map_of env' k = Some v)"
proof -
  let ?E = "we_env (exec_session_env ee user c)"
  let ?spec = "build_workload_spec argv ?E cwd hostname True identity (map fst env)"
  let ?scrubbed = "foldl scrub_one env (filter is_internal (map fst env))"
  let ?ids = "identity_env (ws_confinement ?spec) ?E (ri_home identity) (ri_user identity)"
  note E = exec_session_env_ok [where user = user, OF assms(1-3)]
  have env': "env' = foldl put_one ?scrubbed (?E @ ?ids)" and conf: "conf = ws_confinement ?spec"
    using exec_child_env [OF assms(5)] by (simp_all add: apply_child_env_folds confined_spec [OF refl])
  have eqs: "\<forall>kv \<in> set (?E @ ?ids). CHR ''='' \<in> set kv" using E(1) by (auto simp: once_def dest!: identity_env_mem)
  have "\<not> is_internal k" if "k \<in> fst ` set env'" for k
  proof -
    have "\<not> is_internal (fst (key_value kv))" if "kv \<in> set ?ids" for kv
      using identity_env_mem [OF that] key_value_text [of "''HOME''"] key_value_text [of "''USER''"]
      by (auto simp: is_internal_def starts_with_def)
    moreover have "\<not> is_internal k" if "k \<in> fst ` set ?scrubbed"
      using scrubbed [OF assms(4) that] by auto
    moreover have "k \<in> fst ` set ?scrubbed \<union> (fst \<circ> key_value) ` set (?E @ ?ids)"
      using puts_keys [OF eqs, of ?scrubbed] that unfolding env' by blast
    ultimately show ?thesis using E(2) unfolding internal_free_def set_append o_def by blast
  qed
  moreover have "map_of env' k = Some v" if kv: "(k, v) \<in> set guest_vars" for k v
  proof -
    have k: "CHR ''='' \<notin> set k" "k \<noteq> []" "k \<noteq> ''HOME''" "k \<noteq> ''USER''" "CHR 0x00 \<notin> set (k @ CHR ''='' # v)"
      using guest_vars_each(1) kv by (auto simp: list_all_iff)
    show ?thesis unfolding env'
      by (rule puts_get [OF eqs _ k(1,2,5)]) (use E(3) [OF kv] k(3,4) in \<open>simp add: identity_env_filter\<close>)
  qed
  ultimately show ?thesis using confined_spec(1) [OF refl] conf by (auto simp: guest_vars_def)
qed

definition sample_guest :: guest_os where
  "sample_guest = \<lparr>enters_dir = (\<lambda>_. True), sets_hostname = (\<lambda>_. True), confines = (\<lambda>_. True),
     execs = (\<lambda>_. None), exists_at = (\<lambda>_. True)\<rparr>"

definition sample_boot_env :: process_env where
  "sample_boot_env = [(''LENS_SANDBOX_TOKEN'', ''secret''), (''LENS_RUN_UID'', ''1000''), (''PATH'', ''/bin'')]"

definition sample_exec_environment :: exec_environment where
  "sample_exec_environment = \<lparr>xe_session_env = [''LENS_SANDBOX_WS_URL=ws://host'', ''A=1''], xe_tools = sample_tools,
     xe_workdir = None, xe_declared_identity_keys = []\<rparr>"

definition sample_child :: child_end where
  "sample_child = exec_child sample_guest (build_workload_spec [''sh'']
     (we_env (exec_session_env sample_exec_environment [''HTTPS_PROXY=evil''] sample_connectors)) None None True
     \<lparr>ri_uid = Some 1000, ri_gid = Some 1000, ri_home = None, ri_user = None\<rparr> (map fst sample_boot_env)) sample_boot_env"

theorem confined_session_sealed_witness:
  "\<exists>env'. sample_child = Child_Exec [''sh''] env' (Setuid 1000 1000) \<and> map_of sample_boot_env ''LENS_SANDBOX_TOKEN'' \<noteq> None
    \<and> map_of env' ''LENS_SANDBOX_TOKEN'' = None \<and> map_of env' ''HTTPS_PROXY'' = Some GUEST_PROXY_URL"
proof -
  have "case sample_child of Child_Exec cargs env' conf \<Rightarrow> cargs = [''sh''] \<and> conf = Setuid 1000 1000 | Child_Exit _ \<Rightarrow> False"
    by code_simp
  then obtain env' where child: "sample_child = Child_Exec [''sh''] env' (Setuid 1000 1000)"
    by (auto split: child_end.splits)
  have ok: "connectors_plain sample_connectors" "keys_plain (ce_granted_env sample_connectors)"
    "tools_plain (xe_tools sample_exec_environment)" "env_keys_ok sample_boot_env"
    by (simp_all add: connectors_plain_def keys_plain_def sample_connectors_def tools_plain_def sample_exec_environment_def
        sample_tools_def env_keys_ok_def sample_boot_env_def is_internal_def starts_with_def)
  have sealed: "\<forall>k \<in> fst ` set env'. \<not> is_internal k"
    "\<forall>(k, v) \<in> set (proxy_env @ ca_bundle_env). map_of env' k = Some v"
    using confined_session_sealed [OF ok child [unfolded sample_child_def]] by blast+
  have "is_internal ''LENS_SANDBOX_TOKEN''" by code_simp
  with sealed(1) have "map_of env' ''LENS_SANDBOX_TOKEN'' = None" by (auto simp: map_of_eq_None_iff)
  moreover have "(''HTTPS_PROXY'', GUEST_PROXY_URL) \<in> set (proxy_env @ ca_bundle_env)" by (simp add: proxy_env_def)
  with sealed(2) have "map_of env' ''HTTPS_PROXY'' = Some GUEST_PROXY_URL" by blast
  ultimately show ?thesis using child by (intro exI [of _ env']) (simp add: sample_boot_env_def)
qed

text \<open>
  The frames of a client. When a session on pipes is served a stream of input, resizes and signals cut
  anywhere, the child is given exactly what arrived whole, in order, and then the loop ends: with a hang-up
  to the child if the session dies with its client and without one otherwise, the child's input closed
  once. A frame cut short does nothing.
\<close>

theorem client_stream_faithful:
  assumes "\<forall>m b. to_allocvec m = Inr b \<longrightarrow> from_bytes b = Inr m"
    and "encode_all (encode_session_frame to_allocvec) fs = Inr (p @ q)" "list_all goes_on fs" "length fs \<le> room"
  shows "client_loop_pipes from_bytes pid dies room stdin (p, e)
     = (let (es, s) = pipe_effects pid stdin (take (whole_frames (encode_session_frame to_allocvec) fs (length p)) fs)
        in es @ hang_up pid dies s)"
proof -
  have codec: "to_allocvec m = Inr b \<Longrightarrow> from_bytes b = Inr m" for m b using assms(1) by blast
  show ?thesis by (rule client_stream_cut [OF session_framing [of to_allocvec from_bytes, OF codec] assms(2-4)])
qed

definition sample_pack :: "client_frame \<Rightarrow> unit + bytes" where
  "sample_pack f = (case f of StdinBytes bs \<Rightarrow> Inr (0 # bs) | StdinClose \<Rightarrow> Inr [1] | _ \<Rightarrow> Inl ())"

definition sample_unpack :: "bytes \<Rightarrow> unit + client_frame" where
  "sample_unpack bs = (case bs of [] \<Rightarrow> Inl () | k # r \<Rightarrow> if k = 0 then Inr (StdinBytes r) else Inr StdinClose)"

definition sample_input :: "client_frame list" where
  "sample_input = [StdinBytes [65], StdinClose]"

definition sample_sent :: bytes where
  "sample_sent = [0, 0, 0, 2, 0, 65, 0, 0, 0]"

theorem client_stream_faithful_witness:
  "client_loop_pipes sample_unpack 7 True 2 True (sample_sent, UnexpectedEof) = [Wrote [65], Killed 7 1, Closed_Stdin]"
proof -
  have codec: "\<forall>m b. sample_pack m = Inr b \<longrightarrow> sample_unpack b = Inr m"
    by (auto simp: sample_pack_def sample_unpack_def split: client_frame.splits)
  have "encode_all (encode_session_frame sample_pack) sample_input = Inr (sample_sent @ [1, 1])"
    "list_all goes_on sample_input" "length sample_input \<le> 2" by code_simp+
  from client_stream_faithful [OF codec this, of 7 True True UnexpectedEof]
  show ?thesis unfolding sample_input_def [symmetric] by (rule trans) code_simp
qed

end
