(* ===== verification/Mount_Spec.thy ===== *)
theory Mount_Spec
  imports Text
begin

text \<open>
  Names, mount targets and \<open>-v\<close> specifications of \<open>crates/lns-ipc/src/protocol.rs\<close>: what the service
  accepts before anything reaches a guest. Each refusal is a constructor of \<open>spec_error\<close>, with the
  text it quotes.
\<close>

datatype spec_error =
    Name_Empty
  | Name_Reserved string
  | Name_Hex string
  | Name_Char string nat
  | Not_A_Volume string
  | Not_A_Bind string
  | Target_Relative string
  | Target_Unsafe string
  | Target_Colon string
  | Target_Dots string
  | Target_Runtime string
  | Source_Relative string
  | Source_Unsafe string

record volume_mount =
  vm_name :: string
  vm_target :: string
  vm_read_only :: bool
  vm_size_bytes :: "nat option"

record bind_mount =
  bm_host_source :: string
  bm_target :: string
  bm_read_only :: bool
  bm_dropped_paths :: "string list"
  bm_kept_paths :: "string list"
  bm_excluded_paths :: "string list"

record bind_spec =
  bs_host_source :: string
  bs_target :: string
  bs_read_only :: bool
  bs_exclude :: "string list"
  bs_optional :: bool

datatype mount_spec = Named volume_mount | Bind bind_spec

section \<open>Names\<close>

definition name_char_allowed :: "nat \<Rightarrow> bool" where
  "name_char_allowed c \<longleftrightarrow> 48 \<le> c \<and> c \<le> 57 \<or> 65 \<le> c \<and> c \<le> 90 \<or> 97 \<le> c \<and> c \<le> 122 \<or> c = 95 \<or> c = 46 \<or> c = 45"

definition validate_volume_name :: "string \<Rightarrow> spec_error + unit" where
  "validate_volume_name n =
     (if n = [] then Inl Name_Empty
      else if n = ''.'' \<or> n = ''..'' then Inl (Name_Reserved n)
      else (case List.find (\<lambda>c. \<not> name_char_allowed c) (chars n) of
              Some bad \<Rightarrow> Inl (Name_Char n bad)
            | None \<Rightarrow> Inr ()))"

definition validate_run_name :: "string \<Rightarrow> spec_error + unit" where
  "validate_run_name n =
     (if n = [] then Inl Name_Empty
      else if list_all (\<lambda>b. is_ascii_hexdigit b \<and> \<not> is_ascii_uppercase b) n then Inl (Name_Hex n)
      else (case List.find (\<lambda>c. \<not> name_char_allowed c) (chars n) of
              Some bad \<Rightarrow> Inl (Name_Char n bad)
            | None \<Rightarrow> Inr ()))"

section \<open>Targets and sources\<close>

definition cmdline_unsafe_char :: "nat \<Rightarrow> bool" where
  "cmdline_unsafe_char c \<longleftrightarrow> is_whitespace c \<or> is_control c \<or> c = 34"

definition shadows_runtime_namespace :: "string \<Rightarrow> bool" where
  "shadows_runtime_namespace target =
     (case List.find (\<lambda>seg. seg \<noteq> [] \<and> seg \<noteq> ''.'') (split_on CHR ''/'' target) of
        None \<Rightarrow> True
      | Some first \<Rightarrow> first = ''.lens'')"

definition validate_volume_target :: "string \<Rightarrow> spec_error + unit" where
  "validate_volume_target target =
     (if \<not> starts_with ''/'' target then Inl (Target_Relative target)
      else if list_ex cmdline_unsafe_char (chars target) then Inl (Target_Unsafe target)
      else if contains_char CHR '':'' target then Inl (Target_Colon target)
      else if list_ex (\<lambda>seg. seg = ''.'' \<or> seg = ''..'') (split_on CHR ''/'' target) then Inl (Target_Dots target)
      else if shadows_runtime_namespace target then Inl (Target_Runtime target)
      else Inr ())"

definition validate_bind_source :: "string \<Rightarrow> spec_error + unit" where
  "validate_bind_source source =
     (if \<not> starts_with ''/'' source then Inl (Source_Relative source)
      else if list_ex cmdline_unsafe_char (chars source) then Inl (Source_Unsafe source)
      else Inr ())"

section \<open>Specifications\<close>

definition split_read_only :: "string \<Rightarrow> string \<times> bool" where
  "split_read_only spec =
     (let body = (case strip_suffix '':ro'' spec of
                    Some b \<Rightarrow> b
                  | None \<Rightarrow> (case strip_suffix '':rw'' spec of Some b \<Rightarrow> b | None \<Rightarrow> spec))
      in (body, ends_with '':ro'' spec))"

definition volume_parse :: "string \<Rightarrow> spec_error + volume_mount" where
  "volume_parse spec =
     (let (body, read_only) = split_read_only spec
      in (case split_once CHR '':'' body of
            None \<Rightarrow> Inl (Not_A_Volume spec)
          | Some (n, target) \<Rightarrow>
              and_then (validate_volume_name n) (\<lambda>_.
              and_then (validate_volume_target target) (\<lambda>_.
              Inr \<lparr>vm_name = n, vm_target = target, vm_read_only = read_only, vm_size_bytes = None\<rparr>))))"

definition bind_parse :: "string \<Rightarrow> spec_error + bind_spec" where
  "bind_parse spec =
     (let (body, read_only) = split_read_only spec
      in (case split_once CHR '':'' body of
            None \<Rightarrow> Inl (Not_A_Bind spec)
          | Some (source, target) \<Rightarrow>
              and_then (validate_volume_target target) (\<lambda>_.
              and_then (validate_bind_source source) (\<lambda>_.
              Inr \<lparr>bs_host_source = source, bs_target = target, bs_read_only = read_only,
                   bs_exclude = [], bs_optional = False\<rparr>))))"

definition source_is_path :: "string \<Rightarrow> bool" where
  "source_is_path spec =
     (let body = (case strip_suffix '':ro'' spec of
                    Some b \<Rightarrow> b
                  | None \<Rightarrow> (case strip_suffix '':rw'' spec of Some b \<Rightarrow> b | None \<Rightarrow> spec));
          source = (case split_once CHR '':'' body of Some (s, _) \<Rightarrow> s | None \<Rightarrow> body)
      in starts_with ''/'' source)"

definition mount_parse :: "string \<Rightarrow> spec_error + mount_spec" where
  "mount_parse spec =
     (if source_is_path spec then (case bind_parse spec of Inl e \<Rightarrow> Inl e | Inr b \<Rightarrow> Inr (Bind b))
      else (case volume_parse spec of Inl e \<Rightarrow> Inl e | Inr v \<Rightarrow> Inr (Named v)))"

fun mount_target :: "mount_spec \<Rightarrow> string" where
  "mount_target (Named v) = vm_target v"
| "mount_target (Bind b) = bs_target b"

section \<open>What validation gives\<close>

text \<open>Text that survives the kernel command line: no ASCII blank and no quote.\<close>

definition cmdline_word :: "string \<Rightarrow> bool" where
  "cmdline_word s \<longleftrightarrow> list_all (\<lambda>c. \<not> byte_is_whitespace c \<and> c \<noteq> CHR 0x22) s"

lemma safe_chars_word: "\<not> list_ex cmdline_unsafe_char (chars s) \<Longrightarrow> cmdline_word s"
proof -
  assume safe: "\<not> list_ex cmdline_unsafe_char (chars s)"
  have "\<not> byte_is_whitespace c \<and> c \<noteq> CHR 0x22" if c: "c \<in> set s" for c
  proof (rule conjI)
    show "\<not> byte_is_whitespace c"
      using safe ascii_char [OF c] whitespace_byte_decodes [of c]
      by (auto simp: list_ex_iff cmdline_unsafe_char_def)
    show "c \<noteq> CHR 0x22"
      using safe ascii_char [OF c] by (auto simp: list_ex_iff cmdline_unsafe_char_def)
  qed
  then show ?thesis by (simp add: cmdline_word_def list_all_iff)
qed

lemma validate_volume_target_ok:
  assumes "validate_volume_target target = Inr ()"
  shows "starts_with ''/'' target" "cmdline_word target" "CHR '':'' \<notin> set target"
    "\<not> list_ex (\<lambda>seg. seg = ''.'' \<or> seg = ''..'') (split_on CHR ''/'' target)"
    "\<not> shadows_runtime_namespace target"
  using assms safe_chars_word [of target]
  by (simp_all add: validate_volume_target_def contains_char_def split: if_splits)

lemma mount_parse_target_ok:
  "mount_parse spec = Inr m \<Longrightarrow> validate_volume_target (mount_target m) = Inr ()"
  by (auto simp: mount_parse_def bind_parse_def volume_parse_def and_then_Inr Let_def
      split: if_splits sum.splits option.splits prod.splits)

end
