(* ===== verification/Kernel_Cmdline.thy ===== *)
theory Kernel_Cmdline
  imports Mount_Spec
begin

text \<open>
  The kernel command line, the one channel from the service to a booting guest: the line
  \<open>build_kernel_cmdline\<close> of \<open>crates/lns-service/src/vm/mod.rs\<close> writes and the reading
  \<open>crates/lns-init/src/cmdline.rs\<close> makes of it. A panic of the builder is \<open>None\<close>.
\<close>

section \<open>The service writes\<close>

record volume_attachment =
  va_host_image :: string
  va_target :: string
  va_read_only :: bool

record bind_attachment =
  ba_host_source :: string
  ba_target :: string
  ba_read_only :: bool
  ba_dropped_paths :: "string list"
  ba_excluded_paths :: "string list"
  ba_seeded_paths :: "string list"

definition bind_share_tag :: "nat \<Rightarrow> string" where
  "bind_share_tag index = ''lns-bind-'' @ show_nat index"

text \<open>The loop of \<open>guest_block_dev\<close>, which pushes letters until \<open>n < 26\<close>.\<close>

fun block_letters :: "nat \<Rightarrow> string \<Rightarrow> string" where
  "block_letters n suffix =
     (let suffix = suffix @ [char_of (97 + n mod 26)]
      in if n < 26 then suffix else block_letters (n div 26 - 1) suffix)"

declare block_letters.simps [simp del]

definition guest_block_dev :: "nat \<Rightarrow> string" where
  "guest_block_dev index = ''/dev/vd'' @ rev (block_letters index [])"

definition volume_disks :: "volume_attachment list \<Rightarrow> string list" where
  "volume_disks volumes =
     foldl (\<lambda>disks v. if list_ex (\<lambda>d. path_eq d (va_host_image v)) disks then disks
                      else disks @ [va_host_image v]) [] volumes"

fun position :: "('a \<Rightarrow> bool) \<Rightarrow> 'a list \<Rightarrow> nat option" where
  "position P [] = None"
| "position P (x # xs) = (if P x then Some 0 else map_option Suc (position P xs))"

definition volume_disk_index :: "string list \<Rightarrow> string \<Rightarrow> nat option" where
  "volume_disk_index disks host_image = position (\<lambda>d. path_eq d host_image) disks"

definition flag_digit :: "bool \<Rightarrow> string" where
  "flag_digit b = (if b then ''1'' else ''0'')"

definition volume_parts :: "string list \<Rightarrow> nat \<times> volume_attachment \<Rightarrow> string list option" where
  "volume_parts disks iv =
     (let (i, v) = iv; pre = ''volume.'' @ show_nat i
      in map_option (\<lambda>ix.
           [pre @ ''.dev='' @ guest_block_dev (2 + ix),
            pre @ ''.target='' @ va_target v,
            pre @ ''.ro='' @ flag_digit (va_read_only v)]) (volume_disk_index disks (va_host_image v)))"

definition bind_parts :: "nat \<times> bind_attachment \<Rightarrow> string list" where
  "bind_parts ib =
     (let (i, b) = ib; pre = ''bind.'' @ show_nat i
      in [pre @ ''.tag='' @ bind_share_tag i,
          pre @ ''.target='' @ ba_target b,
          pre @ ''.ro='' @ flag_digit (ba_read_only b)]
         @ [pre @ ''.drops='' @ show_nat (length (ba_dropped_paths b))]
         @ map (\<lambda>(j, p). pre @ ''.drop.'' @ show_nat j @ ''='' @ p) (List.enumerate 0 (ba_dropped_paths b))
         @ [pre @ ''.seeds='' @ show_nat (length (ba_seeded_paths b))]
         @ map (\<lambda>(j, p). pre @ ''.seed.'' @ show_nat j @ ''='' @ p) (List.enumerate 0 (ba_seeded_paths b))
         @ [pre @ ''.excludes='' @ show_nat (length (ba_excluded_paths b))]
         @ map (\<lambda>(j, p). pre @ ''.exclude.'' @ show_nat j @ ''='' @ p) (List.enumerate 0 (ba_excluded_paths b)))"

fun collect :: "'a option list \<Rightarrow> 'a list option" where
  "collect [] = Some []"
| "collect (x # xs) = (case x of None \<Rightarrow> None | Some y \<Rightarrow> map_option ((#) y) (collect xs))"

definition head_parts :: "string \<Rightarrow> bool \<Rightarrow> string \<Rightarrow> string option \<Rightarrow> bool \<Rightarrow> string list" where
  "head_parts console pci content_tag descriptor_sha256 debug =
     [''console='' @ console, ''rw''] @ (if debug then [] else [''quiet'', ''loglevel=3''])
     @ (if pci then [] else [''pci=off''])
     @ [''upper.dev=/dev/vda'', ''composefs.descriptor.dev=/dev/vdb'', ''content.tag='' @ content_tag]
     @ (case descriptor_sha256 of
          None \<Rightarrow> []
        | Some hex \<Rightarrow>
            [''composefs.descriptor.sha256=''
               @ (case strip_prefix ''sha256:'' hex of Some bare \<Rightarrow> bare | None \<Rightarrow> hex)])"

text \<open>
  The builder as a release has it: its assertion that no value holds a blank is a \<open>debug_assert\<close>.
\<close>

definition build_kernel_cmdline ::
  "(string \<times> string) list \<Rightarrow> string \<Rightarrow> bool \<Rightarrow> string \<Rightarrow> string option \<Rightarrow> bool
     \<Rightarrow> volume_attachment list \<Rightarrow> bind_attachment list \<Rightarrow> string option" where
  "build_kernel_cmdline kernel_env console pci content_tag descriptor_sha256 debug volumes binds =
     map_option (\<lambda>vparts. join_with '' ''
       (head_parts console pci content_tag descriptor_sha256 debug
        @ concat vparts
        @ concat (map bind_parts (List.enumerate 0 binds))
        @ map (\<lambda>(k, v). k @ ''='' @ v) kernel_env))
     (collect (map (volume_parts (volume_disks volumes)) (List.enumerate 0 volumes)))"

section \<open>The guest reads\<close>

record volume_param =
  vp_dev :: string
  vp_target :: string
  vp_read_only :: bool

record bind_param =
  bp_tag :: string
  bp_target :: string
  bp_read_only :: bool
  bp_dropped_paths :: "string list"
  bp_seeded_paths :: "string list"
  bp_excluded_paths :: "string list"

record cmdline_params =
  cp_upper_dev :: "string option"
  cp_composefs_descriptor_dev :: "string option"
  cp_content_tag :: "string option"
  cp_composefs_descriptor_sha256 :: "string option"
  cp_volumes :: "volume_param list"
  cp_incomplete_volumes :: "nat list"
  cp_binds :: "bind_param list"
  cp_incomplete_binds :: "nat list"

definition default_params :: cmdline_params where
  "default_params = \<lparr>cp_upper_dev = None, cp_composefs_descriptor_dev = None, cp_content_tag = None,
     cp_composefs_descriptor_sha256 = None, cp_volumes = [], cp_incomplete_volumes = [],
     cp_binds = [], cp_incomplete_binds = []\<rparr>"

record partial_bind =
  pb_tag :: "string option"
  pb_target :: "string option"
  pb_read_only :: bool
  pb_drops_count :: "nat option"
  pb_drops :: "(nat \<times> string) list"
  pb_seeds_count :: "nat option"
  pb_seeds :: "(nat \<times> string) list"
  pb_excludes_count :: "nat option"
  pb_excludes :: "(nat \<times> string) list"

definition default_bind :: partial_bind where
  "default_bind = \<lparr>pb_tag = None, pb_target = None, pb_read_only = False, pb_drops_count = None,
     pb_drops = [], pb_seeds_count = None, pb_seeds = [], pb_excludes_count = None, pb_excludes = []\<rparr>"

datatype 'a outcome = Ready 'a | Incomplete | Skip

definition target_within_root :: "string \<Rightarrow> bool" where
  "target_within_root target \<longleftrightarrow> starts_with ''/'' target
     \<and> \<not> list_ex (\<lambda>seg. seg = ''.'' \<or> seg = ''..'') (split_on CHR ''/'' target)"

definition or_zero :: "nat option \<Rightarrow> nat" where
  "or_zero x = (case x of Some n \<Rightarrow> n | None \<Rightarrow> 0)"

definition resolve_bind :: "partial_bind \<Rightarrow> bind_param outcome" where
  "resolve_bind b =
     (case (pb_tag b, pb_target b) of
        (None, None) \<Rightarrow> Skip
      | (Some _, None) \<Rightarrow> Incomplete
      | (None, Some _) \<Rightarrow> Incomplete
      | (Some tag, Some target) \<Rightarrow>
          if length (pb_drops b) \<noteq> or_zero (pb_drops_count b) \<or> length (pb_seeds b) \<noteq> or_zero (pb_seeds_count b)
             \<or> length (pb_excludes b) \<noteq> or_zero (pb_excludes_count b)
             \<or> list_ex (\<lambda>(_, seed). list_all (\<lambda>seg. seg = []) (split_on CHR ''/'' seed)) (pb_seeds b)
          then Incomplete
          else if target_within_root target
          then Ready \<lparr>bp_tag = tag, bp_target = target, bp_read_only = pb_read_only b,
                 bp_dropped_paths = map snd (pb_drops b), bp_seeded_paths = map snd (pb_seeds b),
                 bp_excluded_paths = map snd (pb_excludes b)\<rparr>
          else Skip)"

record partial_volume =
  pv_dev :: "string option"
  pv_target :: "string option"
  pv_read_only :: bool

definition default_volume :: partial_volume where
  "default_volume = \<lparr>pv_dev = None, pv_target = None, pv_read_only = False\<rparr>"

definition resolve_volume :: "partial_volume \<Rightarrow> volume_param outcome" where
  "resolve_volume v =
     (case (pv_dev v, pv_target v) of
        (None, None) \<Rightarrow> Skip
      | (Some _, None) \<Rightarrow> Incomplete
      | (None, Some _) \<Rightarrow> Incomplete
      | (Some dev, Some target) \<Rightarrow>
          if target_within_root target
          then Ready \<lparr>vp_dev = dev, vp_target = target, vp_read_only = pv_read_only v\<rparr>
          else Skip)"

abbreviation parse_usize :: "string \<Rightarrow> nat option" where
  "parse_usize \<equiv> parse_uint (2 ^ 64 - 1)"

text \<open>\<open>entry(idx).or_default()\<close>, updated in place.\<close>

definition with_entry :: "'v \<Rightarrow> nat \<Rightarrow> ('v \<Rightarrow> 'v) \<Rightarrow> (nat \<times> 'v) list \<Rightarrow> (nat \<times> 'v) list" where
  "with_entry dflt idx f m =
     btree_insert idx (f (case map_of m idx of Some e \<Rightarrow> e | None \<Rightarrow> dflt)) m"

definition indexed_key :: "string \<Rightarrow> string \<Rightarrow> (nat \<times> string) option" where
  "indexed_key prefix key =
     Option.bind (Option.bind (strip_prefix prefix key) (split_once CHR ''.''))
       (\<lambda>(idx, field). map_option (\<lambda>i. (i, field)) (parse_usize idx))"

definition parse_volume_key ::
  "string \<Rightarrow> string \<Rightarrow> (nat \<times> partial_volume) list \<Rightarrow> (nat \<times> partial_volume) list" where
  "parse_volume_key key val vols =
     (case indexed_key ''volume.'' key of
        None \<Rightarrow> vols
      | Some (idx, field) \<Rightarrow>
          with_entry default_volume idx (\<lambda>e.
            if field = ''dev'' then e\<lparr>pv_dev := Some val\<rparr>
            else if field = ''target'' then e\<lparr>pv_target := Some val\<rparr>
            else if field = ''ro'' then e\<lparr>pv_read_only := (val = ''1'')\<rparr>
            else e) vols)"

definition list_index :: "string \<Rightarrow> string \<Rightarrow> nat option" where
  "list_index prefix field = Option.bind (strip_prefix prefix field) parse_usize"

definition indexed_bind_path :: "partial_bind \<Rightarrow> string \<Rightarrow> string \<Rightarrow> partial_bind" where
  "indexed_bind_path e field val =
     (case list_index ''drop.'' field of
        Some j \<Rightarrow> e\<lparr>pb_drops := btree_insert j val (pb_drops e)\<rparr>
      | None \<Rightarrow>
          (case list_index ''seed.'' field of
             Some j \<Rightarrow> e\<lparr>pb_seeds := btree_insert j val (pb_seeds e)\<rparr>
           | None \<Rightarrow>
               (case list_index ''exclude.'' field of
                  Some j \<Rightarrow> e\<lparr>pb_excludes := btree_insert j val (pb_excludes e)\<rparr>
                | None \<Rightarrow> e)))"

definition bind_field :: "string \<Rightarrow> string \<Rightarrow> partial_bind \<Rightarrow> partial_bind" where
  "bind_field field val e =
     (if field = ''tag'' then e\<lparr>pb_tag := Some val\<rparr>
      else if field = ''target'' then e\<lparr>pb_target := Some val\<rparr>
      else if field = ''ro'' then e\<lparr>pb_read_only := (val = ''1'')\<rparr>
      else if field = ''drops'' then e\<lparr>pb_drops_count := parse_usize val\<rparr>
      else if field = ''seeds'' then e\<lparr>pb_seeds_count := parse_usize val\<rparr>
      else if field = ''excludes'' then e\<lparr>pb_excludes_count := parse_usize val\<rparr>
      else indexed_bind_path e field val)"

definition parse_bind_key ::
  "string \<Rightarrow> string \<Rightarrow> (nat \<times> partial_bind) list \<Rightarrow> (nat \<times> partial_bind) list" where
  "parse_bind_key key val binds =
     (case indexed_key ''bind.'' key of
        None \<Rightarrow> binds
      | Some (idx, field) \<Rightarrow> with_entry default_bind idx (bind_field field val) binds)"

subsection \<open>Tokens\<close>

text \<open>The inner loop of \<open>tokenize\<close>: up to the next blank outside quotes.\<close>

fun scan_token :: "bool \<Rightarrow> string \<Rightarrow> string \<times> string" where
  "scan_token in_quotes [] = ([], [])"
| "scan_token in_quotes (b # s) =
     (if b = CHR 0x22 then (let (t, r) = scan_token (\<not> in_quotes) s in (b # t, r))
      else if \<not> in_quotes \<and> byte_is_whitespace b then ([], b # s)
      else (let (t, r) = scan_token in_quotes s in (b # t, r)))"

lemma scan_token_splits: "scan_token q s = (t, r) \<Longrightarrow> s = t @ r"
  by (induction q s arbitrary: t rule: scan_token.induct) (auto split: if_splits prod.splits)

lemma scan_token_progress: "s \<noteq> [] \<Longrightarrow> \<not> byte_is_whitespace (hd s) \<Longrightarrow> fst (scan_token q s) \<noteq> []"
  by (cases s) (auto split: prod.splits)

function tokenize :: "string \<Rightarrow> string list" where
  "tokenize s =
     (let s' = dropWhile byte_is_whitespace s
      in if s' = [] then []
         else (let (t, r) = scan_token False s' in (if t = [] then tokenize r else t # tokenize r)))"
  by pat_completeness auto

termination
proof (relation "measure length")
  have "length r < length s" if e: "dropWhile byte_is_whitespace s \<noteq> []"
      and p: "(t, r) = scan_token False (dropWhile byte_is_whitespace s)" for s t r
  proof -
    have "t \<noteq> []"
      using scan_token_progress [OF e, of False] hd_dropWhile [OF e] p by (metis fst_conv)
    moreover have "dropWhile byte_is_whitespace s = t @ r" using scan_token_splits p by metis
    ultimately have "length r < length (dropWhile byte_is_whitespace s)" by simp
    also have "\<dots> \<le> length s" by (rule length_dropWhile_le)
    finally show ?thesis .
  qed
  then show "\<And>s x xa t r. \<lbrakk>x = dropWhile byte_is_whitespace s; x \<noteq> []; xa = scan_token False x; (t, r) = xa; t = []\<rbrakk>
      \<Longrightarrow> (r, s) \<in> measure length"
    and "\<And>s x xa t r. \<lbrakk>x = dropWhile byte_is_whitespace s; x \<noteq> []; xa = scan_token False x; (t, r) = xa; t \<noteq> []\<rbrakk>
      \<Longrightarrow> (r, s) \<in> measure length"
    by auto
qed simp

declare tokenize.simps [simp del]

definition strip_quotes :: "string \<Rightarrow> string" where
  "strip_quotes s =
     (if 2 \<le> length s \<and> starts_with [CHR 0x22] s \<and> ends_with [CHR 0x22] s
      then butlast (tl s) else s)"

subsection \<open>The whole line\<close>

type_synonym cmdline_state =
  "cmdline_params \<times> (nat \<times> partial_volume) list \<times> (nat \<times> partial_bind) list"

definition apply_token :: "cmdline_state \<Rightarrow> string \<Rightarrow> cmdline_state" where
  "apply_token st tok =
     (case st of (out, vols, binds) \<Rightarrow>
        (case split_once CHR ''='' tok of
           None \<Rightarrow> st
         | Some (key, raw) \<Rightarrow>
             (let val = strip_quotes raw
              in if key = ''upper.dev'' then (out\<lparr>cp_upper_dev := Some val\<rparr>, vols, binds)
                 else if key = ''composefs.descriptor.dev''
                 then (out\<lparr>cp_composefs_descriptor_dev := Some val\<rparr>, vols, binds)
                 else if key = ''content.tag'' then (out\<lparr>cp_content_tag := Some val\<rparr>, vols, binds)
                 else if key = ''composefs.descriptor.sha256''
                 then (out\<lparr>cp_composefs_descriptor_sha256 := Some val\<rparr>, vols, binds)
                 else if starts_with ''bind.'' key then (out, vols, parse_bind_key key val binds)
                 else (out, parse_volume_key key val vols, binds))))"

definition settle_volume :: "cmdline_params \<Rightarrow> nat \<times> partial_volume \<Rightarrow> cmdline_params" where
  "settle_volume out iv =
     (case resolve_volume (snd iv) of
        Ready v \<Rightarrow> out\<lparr>cp_volumes := cp_volumes out @ [v]\<rparr>
      | Incomplete \<Rightarrow> out\<lparr>cp_incomplete_volumes := cp_incomplete_volumes out @ [fst iv]\<rparr>
      | Skip \<Rightarrow> out)"

definition settle_bind :: "cmdline_params \<Rightarrow> nat \<times> partial_bind \<Rightarrow> cmdline_params" where
  "settle_bind out ib =
     (case resolve_bind (snd ib) of
        Ready b \<Rightarrow> out\<lparr>cp_binds := cp_binds out @ [b]\<rparr>
      | Incomplete \<Rightarrow> out\<lparr>cp_incomplete_binds := cp_incomplete_binds out @ [fst ib]\<rparr>
      | Skip \<Rightarrow> out)"

definition cmdline_parse :: "string \<Rightarrow> cmdline_params" where
  "cmdline_parse cmdline =
     (let (out, vols, binds) = foldl apply_token (default_params, [], []) (tokenize cmdline)
      in foldl settle_bind (foldl settle_volume out vols) binds)"

definition INTERNAL_VAR_PREFIX :: string where
  "INTERNAL_VAR_PREFIX = ''LENS_SANDBOX_''"

definition is_internal_var_token :: "string \<Rightarrow> bool" where
  "is_internal_var_token tok =
     starts_with INTERNAL_VAR_PREFIX (case split_once CHR ''='' tok of Some (k, _) \<Rightarrow> k | None \<Rightarrow> tok)"

definition sanitize_cmdline :: "string \<Rightarrow> string" where
  "sanitize_cmdline cmdline =
     join_with '' '' (filter (\<lambda>tok. \<not> is_internal_var_token tok) (tokenize cmdline))"

section \<open>Reading back the tokens\<close>

lemma scan_word:
  "cmdline_word t \<Longrightarrow> r = [] \<or> byte_is_whitespace (hd r) \<Longrightarrow> scan_token False (t @ r) = (t, r)"
proof (induction t)
  case Nil
  then show ?case by (cases r) (auto simp: byte_is_whitespace_def)
qed (auto simp: cmdline_word_def)

lemma blank_is_whitespace [simp]: "byte_is_whitespace CHR '' ''"
  by (simp add: byte_is_whitespace_def)

lemma tokenize_word:
  assumes "cmdline_word t" "t \<noteq> []" "r = [] \<or> byte_is_whitespace (hd r)"
  shows "tokenize (t @ r) = t # tokenize r"
proof -
  have "dropWhile byte_is_whitespace (t @ r) = t @ r"
    using assms by (cases t) (auto simp: cmdline_word_def)
  then show ?thesis using assms(2) scan_word [OF assms(1,3)]
    by (subst tokenize.simps) (simp add: Let_def)
qed

lemma tokenize_blank: "tokenize (CHR '' '' # s) = tokenize s"
  by (subst (1 2) tokenize.simps) simp

lemma tokenize_join:
  assumes "\<forall>p \<in> set parts. p \<noteq> [] \<and> cmdline_word p"
  shows "tokenize (join_with '' '' parts) = parts"
  using assms
proof (induction parts)
  case Nil
  show ?case by (subst tokenize.simps) simp
next
  case (Cons x xs)
  then show ?case
    using tokenize_word [of x "[]"] tokenize_word [of x "CHR '' '' # join_with '' '' xs"]
    by (cases xs) (simp_all add: tokenize.simps [of "[]"] tokenize_blank)
qed

lemma strip_quotes_word: "cmdline_word v \<Longrightarrow> strip_quotes v = v"
  by (cases v) (auto simp: strip_quotes_def starts_with_def cmdline_word_def)

lemma not_in_show_nat: "\<not> is_ascii_digit c \<Longrightarrow> c \<notin> set (show_nat n)"
  using show_nat_set by blast

lemma separators_not_digits [simp]:
  "CHR ''.'' \<notin> set (show_nat n)" "CHR ''='' \<notin> set (show_nat n)"
  by (rule not_in_show_nat; simp add: is_ascii_digit_def)+

lemma word_append [simp]: "cmdline_word (a @ b) \<longleftrightarrow> cmdline_word a \<and> cmdline_word b"
  by (simp add: cmdline_word_def)

lemma word_Cons [simp]:
  "cmdline_word (c # s) \<longleftrightarrow> \<not> byte_is_whitespace c \<and> c \<noteq> CHR 0x22 \<and> cmdline_word s" "cmdline_word []"
  by (simp_all add: cmdline_word_def)

lemma word_show_nat [simp]: "cmdline_word (show_nat n)"
  using not_in_show_nat [of _ n]
  by (auto simp: cmdline_word_def list_all_iff byte_is_whitespace_def is_ascii_digit_def)

lemma strip_prefix_text [simp]: "strip_prefix p (p @ r) = Some r"
  by (simp add: strip_prefix_Some)

lemma indexed_key_text:
  "i < 2 ^ 64 \<Longrightarrow> indexed_key pre (pre @ show_nat i @ CHR ''.'' # field) = Some (i, field)"
proof -
  assume "i < 2 ^ 64"
  then have "parse_usize (show_nat i) = Some i" by (intro parse_uint_show_nat) simp
  moreover have "split_once CHR ''.'' (show_nat i @ CHR ''.'' # field) = Some (show_nat i, field)"
    by (simp add: split_once_Some)
  ultimately show ?thesis by (simp add: indexed_key_def)
qed

lemma apply_keyed:
  assumes "CHR ''='' \<notin> set key" "cmdline_word v"
  shows "apply_token (out, vols, binds) (key @ CHR ''='' # v) =
     (if key = ''upper.dev'' then (out\<lparr>cp_upper_dev := Some v\<rparr>, vols, binds)
      else if key = ''composefs.descriptor.dev'' then (out\<lparr>cp_composefs_descriptor_dev := Some v\<rparr>, vols, binds)
      else if key = ''content.tag'' then (out\<lparr>cp_content_tag := Some v\<rparr>, vols, binds)
      else if key = ''composefs.descriptor.sha256''
      then (out\<lparr>cp_composefs_descriptor_sha256 := Some v\<rparr>, vols, binds)
      else if starts_with ''bind.'' key then (out, vols, parse_bind_key key v binds)
      else (out, parse_volume_key key v vols, binds))"
proof -
  have "split_once CHR ''='' (key @ CHR ''='' # v) = Some (key, v)" using assms(1) by (simp add: split_once_Some)
  then show ?thesis using strip_quotes_word [OF assms(2)] by (simp add: apply_token_def Let_def)
qed

section \<open>Entries in order\<close>

definition keys_below :: "(nat \<times> 'v) list \<Rightarrow> nat \<Rightarrow> bool" where
  "keys_below m k \<longleftrightarrow> (\<forall>x \<in> fst ` set m. x < k)"

lemma keys_below_Nil [simp]: "keys_below [] k"
  by (simp add: keys_below_def)

lemma keys_below_snoc [simp]: "keys_below m k \<Longrightarrow> keys_below (m @ [(k, v)]) (Suc k)"
  by (auto simp: keys_below_def less_Suc_eq)

lemma btree_insert_end: "keys_below m k \<Longrightarrow> btree_insert k v m = m @ [(k, v)]"
  by (induction m) (auto simp: keys_below_def)

lemma btree_insert_last: "keys_below m k \<Longrightarrow> btree_insert k v (m @ [(k, u)]) = m @ [(k, v)]"
  by (induction m) (auto simp: keys_below_def)

lemma keys_below_absent: "keys_below m k \<Longrightarrow> map_of m k = None"
  by (auto simp: keys_below_def map_of_eq_None_iff)

lemma with_entry_new: "keys_below m k \<Longrightarrow> with_entry d k f m = m @ [(k, f d)]"
  by (simp add: with_entry_def keys_below_absent btree_insert_end)

lemma with_entry_last: "keys_below m k \<Longrightarrow> with_entry d k f (m @ [(k, e)]) = m @ [(k, f e)]"
  by (simp add: with_entry_def keys_below_absent btree_insert_last map_add_def)

section \<open>Volumes\<close>

definition volume_key_value :: "nat \<Rightarrow> string \<times> string \<Rightarrow> string" where
  "volume_key_value i fv = ''volume.'' @ show_nat i @ ''.'' @ fst fv @ ''='' @ snd fv"

lemma volume_token:
  assumes "i < 2 ^ 64" "CHR ''='' \<notin> set field" "cmdline_word v"
  shows "apply_token (out, vols, binds) (volume_key_value i (field, v)) =
     (out, with_entry default_volume i (\<lambda>e.
            if field = ''dev'' then e\<lparr>pv_dev := Some v\<rparr>
            else if field = ''target'' then e\<lparr>pv_target := Some v\<rparr>
            else if field = ''ro'' then e\<lparr>pv_read_only := (v = ''1'')\<rparr>
            else e) vols, binds)"
proof -
  let ?key = "''volume.'' @ show_nat i @ CHR ''.'' # field"
  have "apply_token (out, vols, binds) (?key @ CHR ''='' # v) = (out, parse_volume_key ?key v vols, binds)"
    using assms(2,3) by (subst apply_keyed) (simp_all add: starts_with_def)
  moreover have "indexed_key ''volume.'' ?key = Some (i, field)" by (rule indexed_key_text [OF assms(1)])
  ultimately show ?thesis by (simp add: volume_key_value_def parse_volume_key_def)
qed

definition filled_volume :: "string \<Rightarrow> volume_attachment \<Rightarrow> partial_volume" where
  "filled_volume dev v = \<lparr>pv_dev = Some dev, pv_target = Some (va_target v), pv_read_only = va_read_only v\<rparr>"

lemma volume_tokens:
  assumes "i < 2 ^ 64" "keys_below m i" "cmdline_word dev" "cmdline_word (va_target v)"
  shows "foldl apply_token (out, m, binds)
      (map (volume_key_value i) [(''dev'', dev), (''target'', va_target v), (''ro'', flag_digit (va_read_only v))])
    = (out, m @ [(i, filled_volume dev v)], binds)"
proof -
  have b: "cmdline_word (flag_digit x)" for x by (simp add: flag_digit_def byte_is_whitespace_def)
  show ?thesis using assms b [of "va_read_only v"]
    by (simp add: volume_token with_entry_new with_entry_last default_volume_def filled_volume_def flag_digit_def)
qed

definition volume_dev :: "string list \<Rightarrow> volume_attachment \<Rightarrow> string" where
  "volume_dev disks v = guest_block_dev (2 + the (volume_disk_index disks (va_host_image v)))"

definition volume_fields :: "string list \<Rightarrow> volume_attachment \<Rightarrow> (string \<times> string) list" where
  "volume_fields disks v = [(''dev'', volume_dev disks v), (''target'', va_target v), (''ro'', flag_digit (va_read_only v))]"

lemma position_SomeI: "list_ex P xs \<Longrightarrow> \<exists>i. position P xs = Some i"
  by (induction xs) auto

lemma position_SomeD: "position P xs = Some i \<Longrightarrow> i < length xs \<and> P (xs ! i)"
  by (induction xs arbitrary: i) (auto split: if_splits)

lemma volume_disks_cover:
  "v \<in> set volumes \<Longrightarrow> list_ex (\<lambda>d. path_eq d (va_host_image v)) (volume_disks volumes)"
proof -
  let ?f = "\<lambda>disks v. if list_ex (\<lambda>d. path_eq d (va_host_image v)) disks then disks else disks @ [va_host_image v]"
  have grow: "list_ex P ds \<Longrightarrow> list_ex P (foldl ?f ds vs)" for P ds vs
    by (induction vs arbitrary: ds) auto
  have "v \<in> set vs \<Longrightarrow> list_ex (\<lambda>d. path_eq d (va_host_image v)) (foldl ?f ds vs)" for ds vs
  proof (induction vs arbitrary: ds)
    case (Cons w vs)
    show ?case
    proof (cases "v = w")
      case True
      have "list_ex (\<lambda>d. path_eq d (va_host_image v)) (?f ds w)" using True by simp
      from grow [OF this, of vs] show ?thesis unfolding foldl_Cons .
    qed (use Cons in auto)
  qed simp
  then show "v \<in> set volumes \<Longrightarrow> ?thesis" by (simp add: volume_disks_def)
qed

lemma volume_disk_index_found:
  "v \<in> set volumes \<Longrightarrow> \<exists>ix. volume_disk_index (volume_disks volumes) (va_host_image v) = Some ix"
  unfolding volume_disk_index_def by (rule position_SomeI) (rule volume_disks_cover)

lemma volume_parts_ok:
  "v \<in> set volumes \<Longrightarrow> volume_parts (volume_disks volumes) (i, v)
     = Some (map (volume_key_value i) (volume_fields (volume_disks volumes) v))"
  using volume_disk_index_found [of v volumes]
  by (auto simp: volume_parts_def volume_fields_def volume_key_value_def volume_dev_def)

lemma collect_all: "\<forall>x \<in> set xs. f x = Some (g x) \<Longrightarrow> collect (map f xs) = Some (map g xs)"
  by (induction xs) auto

lemma all_volume_parts:
  "collect (map (volume_parts (volume_disks volumes)) (List.enumerate 0 volumes))
     = Some (map (\<lambda>(i, v). map (volume_key_value i) (volume_fields (volume_disks volumes) v)) (List.enumerate 0 volumes))"
proof (rule collect_all, rule ballI)
  fix x assume "x \<in> set (List.enumerate 0 volumes)"
  moreover obtain i v where x: "x = (i, v)" by (cases x)
  ultimately have "v \<in> set volumes" by (auto simp: in_set_enumerate_eq)
  then show "volume_parts (volume_disks volumes) x
      = Some ((\<lambda>(i, v). map (volume_key_value i) (volume_fields (volume_disks volumes) v)) x)"
    by (simp add: x volume_parts_ok)
qed

lemma above_quote: "34 < (of_char c :: nat) \<Longrightarrow> \<not> byte_is_whitespace c \<and> c \<noteq> CHR 0x22"
  by (auto simp: byte_is_whitespace_def)

lemma block_letters_word: "cmdline_word acc \<Longrightarrow> cmdline_word (block_letters n acc)"
proof (induction n acc rule: block_letters.induct)
  case (1 n acc)
  let ?c = "char_of (97 + n mod 26) :: char"
  have "(of_char ?c :: nat) = 97 + n mod 26" by (simp add: of_char_char_of_small)
  then have "\<not> byte_is_whitespace ?c \<and> ?c \<noteq> CHR 0x22" by (intro above_quote) simp
  then have "cmdline_word (acc @ [?c])" using 1(2) by simp
  with 1(1) show ?case by (subst block_letters.simps) (auto simp: Let_def simp del: word_append mod_less)
qed

lemma volume_dev_word [simp]: "cmdline_word (volume_dev disks v)"
proof -
  have "cmdline_word (rev s) = cmdline_word s" for s by (simp add: cmdline_word_def)
  then show ?thesis
    using block_letters_word [of "[]"] by (simp add: volume_dev_def guest_block_dev_def byte_is_whitespace_def)
qed

lemma all_volume_tokens:
  assumes "k + length vs \<le> 2 ^ 64" "keys_below m k" "\<forall>v \<in> set vs. cmdline_word (va_target v)"
  shows "foldl apply_token (out, m, binds)
      (concat (map (\<lambda>(i, v). map (volume_key_value i) (volume_fields disks v)) (List.enumerate k vs)))
    = (out, m @ map (\<lambda>(i, v). (i, filled_volume (volume_dev disks v) v)) (List.enumerate k vs), binds)"
  using assms
proof (induction vs arbitrary: k m)
  case (Cons v vs)
  have "foldl apply_token (out, m, binds) (map (volume_key_value k) (volume_fields disks v))
      = (out, m @ [(k, filled_volume (volume_dev disks v) v)], binds)"
    unfolding volume_fields_def using Cons.prems by (intro volume_tokens) auto
  with Cons.IH [of "Suc k" "m @ [(k, filled_volume (volume_dev disks v) v)]"] Cons.prems
  show ?case by simp
qed simp

section \<open>Binds\<close>

definition bind_key_value :: "nat \<Rightarrow> string \<times> string \<Rightarrow> string" where
  "bind_key_value i fv = ''bind.'' @ show_nat i @ ''.'' @ fst fv @ ''='' @ snd fv"

definition path_fields :: "string \<Rightarrow> nat \<Rightarrow> string list \<Rightarrow> (string \<times> string) list" where
  "path_fields pre k ps = map (\<lambda>(j, p). (pre @ show_nat j, p)) (List.enumerate k ps)"

definition bind_fields :: "nat \<times> bind_attachment \<Rightarrow> (string \<times> string) list" where
  "bind_fields ib =
     [(''tag'', bind_share_tag (fst ib)), (''target'', ba_target (snd ib)), (''ro'', flag_digit (ba_read_only (snd ib)))]
     @ (''drops'', show_nat (length (ba_dropped_paths (snd ib)))) # path_fields ''drop.'' 0 (ba_dropped_paths (snd ib))
     @ (''seeds'', show_nat (length (ba_seeded_paths (snd ib)))) # path_fields ''seed.'' 0 (ba_seeded_paths (snd ib))
     @ (''excludes'', show_nat (length (ba_excluded_paths (snd ib)))) # path_fields ''exclude.'' 0 (ba_excluded_paths (snd ib))"

lemma bind_parts_fields: "bind_parts (i, b) = map (bind_key_value i) (bind_fields (i, b))"
  by (simp add: bind_parts_def bind_fields_def bind_key_value_def path_fields_def comp_def split_beta)

lemma bind_token:
  assumes "i < 2 ^ 64" "CHR ''='' \<notin> set field" "cmdline_word v"
  shows "apply_token (out, vols, binds) (bind_key_value i (field, v)) =
     (out, vols, with_entry default_bind i (bind_field field v) binds)"
proof -
  let ?key = "''bind.'' @ show_nat i @ CHR ''.'' # field"
  have "apply_token (out, vols, binds) (?key @ CHR ''='' # v) = (out, vols, parse_bind_key ?key v binds)"
    using assms(2,3) by (subst apply_keyed) (simp_all add: starts_with_def)
  moreover have "indexed_key ''bind.'' ?key = Some (i, field)" by (rule indexed_key_text [OF assms(1)])
  ultimately show ?thesis by (simp add: bind_key_value_def parse_bind_key_def)
qed

definition field_ok :: "string \<times> string \<Rightarrow> bool" where
  "field_ok fv \<longleftrightarrow> CHR ''='' \<notin> set (fst fv) \<and> cmdline_word (snd fv)"

lemma bind_tokens:
  assumes "i < 2 ^ 64" "keys_below m i" "list_all field_ok fvs"
  shows "foldl apply_token (out, vols, m @ [(i, e)]) (map (bind_key_value i) fvs)
     = (out, vols, m @ [(i, foldl (\<lambda>e fv. bind_field (fst fv) (snd fv) e) e fvs)])"
  using assms(3)
proof (induction fvs arbitrary: e)
  case (Cons fv fvs)
  obtain f v where fv: "fv = (f, v)" by (cases fv)
  have "apply_token (out, vols, m @ [(i, e)]) (bind_key_value i (f, v)) = (out, vols, m @ [(i, bind_field f v e)])"
    using bind_token [of i f v out vols "m @ [(i, e)]"] assms(1,2) Cons.prems
    by (simp add: fv field_ok_def with_entry_last)
  with Cons.IH [of "bind_field f v e"] Cons.prems show ?case by (simp add: fv)
qed simp

lemma list_index_text: "j < 2 ^ 64 \<Longrightarrow> list_index pre (pre @ show_nat j) = Some j"
  by (simp add: list_index_def)

lemma list_index_other:
  "list_index ''drop.'' (''seed.'' @ r) = None" "list_index ''drop.'' (''exclude.'' @ r) = None"
  "list_index ''seed.'' (''exclude.'' @ r) = None"
  by (simp_all add: list_index_def strip_prefix_def starts_with_def)

lemma indexed_fields:
  assumes "j < 2 ^ 64"
  shows "bind_field (''drop.'' @ show_nat j) v e = pb_drops_update (btree_insert j v) e"
    "bind_field (''seed.'' @ show_nat j) v e = pb_seeds_update (btree_insert j v) e"
    "bind_field (''exclude.'' @ show_nat j) v e = pb_excludes_update (btree_insert j v) e"
  using list_index_text [OF assms, of "''drop.''"] list_index_text [OF assms, of "''seed.''"]
    list_index_text [OF assms, of "''exclude.''"] list_index_other [of "show_nat j"]
  by (cases e; simp add: bind_field_def indexed_bind_path_def)+

lemma indexed_paths:
  assumes "\<And>j v e. j < 2 ^ 64 \<Longrightarrow> bind_field (pre @ show_nat j) v e = upd (btree_insert j v) e"
    and "\<And>f g e. upd f (upd g e) = upd (\<lambda>x. f (g x)) e"
    and "\<And>f g e. f (sel e) = g (sel e) \<Longrightarrow> upd f e = upd g e" "\<And>f e. sel (upd f e) = f (sel e)"
    and "k + length ps \<le> 2 ^ 64" "keys_below (sel e) k"
  shows "foldl (\<lambda>e fv. bind_field (fst fv) (snd fv) e) (upd (\<lambda>x. x) e) (path_fields pre k ps)
     = upd (\<lambda>m. m @ List.enumerate k ps) e"
  using assms(5,6)
proof (induction ps arbitrary: k e)
  case Nil
  show ?case by (simp add: path_fields_def)
next
  case (Cons p ps)
  let ?e = "upd (\<lambda>m. m @ [(k, p)]) e"
  have 1: "bind_field (pre @ show_nat k) p (upd (\<lambda>x. x) e) = upd (\<lambda>x. x) ?e"
  proof -
    have "bind_field (pre @ show_nat k) p (upd (\<lambda>x. x) e) = upd (btree_insert k p) (upd (\<lambda>x. x) e)"
      using Cons.prems by (intro assms(1)) simp
    also have "\<dots> = upd (\<lambda>x. x) ?e" unfolding assms(2)
      by (rule assms(3)) (simp add: btree_insert_end [OF Cons.prems(2)])
    finally show "bind_field (pre @ show_nat k) p (upd (\<lambda>x. x) e) = upd (\<lambda>x. x) ?e" .
  qed
  have "foldl (\<lambda>e fv. bind_field (fst fv) (snd fv) e) (upd (\<lambda>x. x) ?e) (path_fields pre (Suc k) ps)
      = upd (\<lambda>m. m @ List.enumerate (Suc k) ps) ?e"
    using Cons.prems by (intro Cons.IH) (simp_all add: assms(4))
  also have "\<dots> = upd (\<lambda>m. m @ List.enumerate k (p # ps)) e" by (simp add: assms(2))
  finally show ?case using 1 by (simp add: path_fields_def)
qed

lemma update_cong:
  "f (pb_drops e) = g (pb_drops e) \<Longrightarrow> pb_drops_update f e = pb_drops_update g e"
  "f (pb_seeds e) = g (pb_seeds e) \<Longrightarrow> pb_seeds_update f e = pb_seeds_update g e"
  "f (pb_excludes e) = g (pb_excludes e) \<Longrightarrow> pb_excludes_update f e = pb_excludes_update g e"
  by (cases e; simp)+

lemma drop_fold:
  assumes "length ps < 2 ^ 64" "pb_drops e = []"
  shows "foldl (\<lambda>e fv. bind_field (fst fv) (snd fv) e) e (path_fields ''drop.'' 0 ps) = e\<lparr>pb_drops := List.enumerate 0 ps\<rparr>"
proof -
  have "foldl (\<lambda>e fv. bind_field (fst fv) (snd fv) e) (pb_drops_update (\<lambda>x. x) e) (path_fields ''drop.'' 0 ps)
      = pb_drops_update (\<lambda>m. m @ List.enumerate 0 ps) e"
  proof (rule indexed_paths [where sel = pb_drops])
    show "f (pb_drops e) = g (pb_drops e) \<Longrightarrow> pb_drops_update f e = pb_drops_update g e" for f g e
      by (rule update_cong(1))
    show "j < 2 ^ 64 \<Longrightarrow> bind_field (''drop.'' @ show_nat j) v e = pb_drops_update (btree_insert j v) e" for j v e
      by (rule indexed_fields(1))
  qed (use assms in \<open>simp_all add: comp_def\<close>)
  then show ?thesis using assms(2) by (cases e) simp
qed

lemma seed_fold:
  assumes "length ps < 2 ^ 64" "pb_seeds e = []"
  shows "foldl (\<lambda>e fv. bind_field (fst fv) (snd fv) e) e (path_fields ''seed.'' 0 ps) = e\<lparr>pb_seeds := List.enumerate 0 ps\<rparr>"
proof -
  have "foldl (\<lambda>e fv. bind_field (fst fv) (snd fv) e) (pb_seeds_update (\<lambda>x. x) e) (path_fields ''seed.'' 0 ps)
      = pb_seeds_update (\<lambda>m. m @ List.enumerate 0 ps) e"
  proof (rule indexed_paths [where sel = pb_seeds])
    show "f (pb_seeds e) = g (pb_seeds e) \<Longrightarrow> pb_seeds_update f e = pb_seeds_update g e" for f g e
      by (rule update_cong(2))
    show "j < 2 ^ 64 \<Longrightarrow> bind_field (''seed.'' @ show_nat j) v e = pb_seeds_update (btree_insert j v) e" for j v e
      by (rule indexed_fields(2))
  qed (use assms in \<open>simp_all add: comp_def\<close>)
  then show ?thesis using assms(2) by (cases e) simp
qed

lemma exclude_fold:
  assumes "length ps < 2 ^ 64" "pb_excludes e = []"
  shows "foldl (\<lambda>e fv. bind_field (fst fv) (snd fv) e) e (path_fields ''exclude.'' 0 ps) = e\<lparr>pb_excludes := List.enumerate 0 ps\<rparr>"
proof -
  have "foldl (\<lambda>e fv. bind_field (fst fv) (snd fv) e) (pb_excludes_update (\<lambda>x. x) e) (path_fields ''exclude.'' 0 ps)
      = pb_excludes_update (\<lambda>m. m @ List.enumerate 0 ps) e"
  proof (rule indexed_paths [where sel = pb_excludes])
    show "f (pb_excludes e) = g (pb_excludes e) \<Longrightarrow> pb_excludes_update f e = pb_excludes_update g e" for f g e
      by (rule update_cong(3))
    show "j < 2 ^ 64 \<Longrightarrow> bind_field (''exclude.'' @ show_nat j) v e = pb_excludes_update (btree_insert j v) e" for j v e
      by (rule indexed_fields(3))
  qed (use assms in \<open>simp_all add: comp_def\<close>)
  then show ?thesis using assms(2) by (cases e) simp
qed

text \<open>What the guest must be able to read back: paths and targets that are words of the line.\<close>

definition volume_ok :: "volume_attachment \<Rightarrow> bool" where
  "volume_ok v \<longleftrightarrow> cmdline_word (va_target v) \<and> target_within_root (va_target v)"

definition names_something :: "string \<Rightarrow> bool" where
  "names_something p \<longleftrightarrow> list_ex (\<lambda>seg. seg \<noteq> []) (split_on CHR ''/'' p)"

definition bind_ok :: "bind_attachment \<Rightarrow> bool" where
  "bind_ok b \<longleftrightarrow> cmdline_word (ba_target b) \<and> target_within_root (ba_target b)
     \<and> list_all cmdline_word (ba_dropped_paths b @ ba_seeded_paths b @ ba_excluded_paths b)
     \<and> list_all names_something (ba_seeded_paths b)
     \<and> length (ba_dropped_paths b) < 2 ^ 64 \<and> length (ba_seeded_paths b) < 2 ^ 64 \<and> length (ba_excluded_paths b) < 2 ^ 64"

definition filled_bind :: "nat \<Rightarrow> bind_attachment \<Rightarrow> partial_bind" where
  "filled_bind i b = \<lparr>pb_tag = Some (bind_share_tag i), pb_target = Some (ba_target b), pb_read_only = ba_read_only b,
     pb_drops_count = Some (length (ba_dropped_paths b)), pb_drops = List.enumerate 0 (ba_dropped_paths b),
     pb_seeds_count = Some (length (ba_seeded_paths b)), pb_seeds = List.enumerate 0 (ba_seeded_paths b),
     pb_excludes_count = Some (length (ba_excluded_paths b)), pb_excludes = List.enumerate 0 (ba_excluded_paths b)\<rparr>"

lemma count_fields:
  "n < 2 ^ 64 \<Longrightarrow> bind_field ''drops'' (show_nat n) e = e\<lparr>pb_drops_count := Some n\<rparr>"
  "n < 2 ^ 64 \<Longrightarrow> bind_field ''seeds'' (show_nat n) e = e\<lparr>pb_seeds_count := Some n\<rparr>"
  "n < 2 ^ 64 \<Longrightarrow> bind_field ''excludes'' (show_nat n) e = e\<lparr>pb_excludes_count := Some n\<rparr>"
  by (simp_all add: bind_field_def)

lemma plain_fields:
  "bind_field ''tag'' v e = e\<lparr>pb_tag := Some v\<rparr>" "bind_field ''target'' v e = e\<lparr>pb_target := Some v\<rparr>"
  "bind_field ''ro'' (flag_digit x) e = e\<lparr>pb_read_only := x\<rparr>"
  by (simp_all add: bind_field_def flag_digit_def)

lemma bind_fields_filled:
  assumes "bind_ok b"
  shows "foldl (\<lambda>e fv. bind_field (fst fv) (snd fv) e) default_bind (bind_fields (i, b)) = filled_bind i b"
  using assms
  by (simp add: bind_fields_def bind_ok_def default_bind_def filled_bind_def plain_fields count_fields
      drop_fold seed_fold exclude_fold)

lemma path_fields_ok:
  assumes "list_all cmdline_word ps" "CHR ''='' \<notin> set pre"
  shows "list_all field_ok (path_fields pre k ps)"
  using assms by (auto simp: path_fields_def field_ok_def list_all_iff in_set_enumerate_eq)

lemma bind_fields_ok: "bind_ok b \<Longrightarrow> list_all field_ok (bind_fields (i, b))"
  by (auto simp: bind_fields_def bind_ok_def field_ok_def bind_share_tag_def flag_digit_def byte_is_whitespace_def
      path_fields_ok)

lemma all_bind_tokens:
  assumes "k + length bs \<le> 2 ^ 64" "keys_below m k" "list_all bind_ok bs"
  shows "foldl apply_token (out, vols, m) (concat (map bind_parts (List.enumerate k bs)))
    = (out, vols, m @ map (\<lambda>(i, b). (i, filled_bind i b)) (List.enumerate k bs))"
  using assms
proof (induction bs arbitrary: k m)
  case (Cons b bs)
  obtain f v rest where f: "bind_fields (k, b) = (f, v) # rest" by (simp add: bind_fields_def)
  have ok: "list_all field_ok ((f, v) # rest)" using bind_fields_ok [of b k] Cons.prems(3) f by simp
  have "apply_token (out, vols, m) (bind_key_value k (f, v)) = (out, vols, m @ [(k, bind_field f v default_bind)])"
    using bind_token [of k f v out vols m] ok Cons.prems(1,2) by (simp add: field_ok_def with_entry_new)
  moreover have "foldl apply_token (out, vols, m @ [(k, bind_field f v default_bind)]) (map (bind_key_value k) rest)
      = (out, vols, m @ [(k, foldl (\<lambda>e fv. bind_field (fst fv) (snd fv) e) (bind_field f v default_bind) rest)])"
    using ok Cons.prems(1,2) by (intro bind_tokens) auto
  moreover have "foldl (\<lambda>e fv. bind_field (fst fv) (snd fv) e) (bind_field f v default_bind) rest = filled_bind k b"
    using bind_fields_filled [of b k] Cons.prems(3) f by simp
  ultimately have "foldl apply_token (out, vols, m) (bind_parts (k, b)) = (out, vols, m @ [(k, filled_bind k b)])"
    by (simp add: bind_parts_fields f)
  with Cons.IH [of "Suc k" "m @ [(k, filled_bind k b)]"] Cons.prems show ?case by simp
qed simp

section \<open>The environment of the line\<close>

definition reserved_key :: "string \<Rightarrow> bool" where
  "reserved_key k \<longleftrightarrow> k \<in> {''upper.dev'', ''composefs.descriptor.dev'', ''content.tag'', ''composefs.descriptor.sha256''}
     \<or> starts_with ''bind.'' k \<or> starts_with ''volume.'' k"

definition env_ok :: "(string \<times> string) list \<Rightarrow> bool" where
  "env_ok env \<longleftrightarrow> list_all (\<lambda>(k, v). CHR ''='' \<notin> set k \<and> \<not> reserved_key k \<and> cmdline_word k \<and> cmdline_word v) env"

lemma free_key:
  assumes "CHR ''='' \<notin> set k" "\<not> reserved_key k" "cmdline_word v"
  shows "apply_token (out, vols, binds) (k @ CHR ''='' # v) = (out, vols, binds)"
proof -
  have "parse_volume_key k v vols = vols"
    using assms(2) by (simp add: parse_volume_key_def indexed_key_def strip_prefix_def reserved_key_def)
  with assms show ?thesis by (simp add: apply_keyed reserved_key_def)
qed

lemma env_tokens:
  "env_ok env \<Longrightarrow> foldl apply_token (out, vols, binds) (map (\<lambda>(k, v). k @ CHR ''='' # v) env) = (out, vols, binds)"
  by (induction env) (auto simp: env_ok_def free_key)

definition bare_sha256 :: "string \<Rightarrow> string" where
  "bare_sha256 hex = (case strip_prefix ''sha256:'' hex of Some bare \<Rightarrow> bare | None \<Rightarrow> hex)"

definition head_ok :: "string \<Rightarrow> string \<Rightarrow> string option \<Rightarrow> bool" where
  "head_ok console content_tag descriptor_sha256 \<longleftrightarrow> cmdline_word console \<and> cmdline_word content_tag
     \<and> (case descriptor_sha256 of Some hex \<Rightarrow> cmdline_word (bare_sha256 hex) | None \<Rightarrow> True)"

definition head_params :: "string \<Rightarrow> string option \<Rightarrow> cmdline_params" where
  "head_params content_tag descriptor_sha256 = default_params\<lparr>cp_upper_dev := Some ''/dev/vda'',
     cp_composefs_descriptor_dev := Some ''/dev/vdb'', cp_content_tag := Some content_tag,
     cp_composefs_descriptor_sha256 := map_option bare_sha256 descriptor_sha256\<rparr>"

lemma flag_tokens:
  "apply_token st ''rw'' = st" "apply_token st ''quiet'' = st"
  by (cases st; simp add: apply_token_def)+

lemma boot_tokens:
  "cmdline_word console \<Longrightarrow> apply_token (out, v, b) (''console='' @ console) = (out, v, b)"
  "apply_token (out, v, b) ''loglevel=3'' = (out, v, b)" "apply_token (out, v, b) ''pci=off'' = (out, v, b)"
  using free_key [of "''console''" console out v b] free_key [of "''loglevel''" "''3''" out v b]
    free_key [of "''pci''" "''off''" out v b]
  by (simp_all add: reserved_key_def starts_with_def byte_is_whitespace_def)

lemma device_tokens:
  "apply_token (out, v, b) ''upper.dev=/dev/vda'' = (out\<lparr>cp_upper_dev := Some ''/dev/vda''\<rparr>, v, b)"
  "apply_token (out, v, b) ''composefs.descriptor.dev=/dev/vdb''
     = (out\<lparr>cp_composefs_descriptor_dev := Some ''/dev/vdb''\<rparr>, v, b)"
  "cmdline_word tag \<Longrightarrow> apply_token (out, v, b) (''content.tag='' @ tag) = (out\<lparr>cp_content_tag := Some tag\<rparr>, v, b)"
  "cmdline_word sha \<Longrightarrow> apply_token (out, v, b) (''composefs.descriptor.sha256='' @ sha)
     = (out\<lparr>cp_composefs_descriptor_sha256 := Some sha\<rparr>, v, b)"
  using apply_keyed [of "''upper.dev''" "''/dev/vda''" out v b]
    apply_keyed [of "''composefs.descriptor.dev''" "''/dev/vdb''" out v b]
    apply_keyed [of "''content.tag''" tag out v b] apply_keyed [of "''composefs.descriptor.sha256''" sha out v b]
  by (simp_all add: byte_is_whitespace_def)

lemma head_tokens:
  assumes "head_ok console content_tag sha"
  shows "foldl apply_token (default_params, [], []) (head_parts console pci content_tag sha debug)
    = (head_params content_tag sha, [], [])"
  using assms
  by (cases sha)
    (simp_all add: head_parts_def head_ok_def head_params_def bare_sha256_def [symmetric] flag_tokens boot_tokens
      device_tokens default_params_def del: append.simps)

lemma enumerate_mem: "(i, x) \<in> set (List.enumerate k xs) \<Longrightarrow> x \<in> set xs"
  by (auto simp: in_set_enumerate_eq)

lemma all_parts_words:
  assumes "head_ok console content_tag sha" "list_all volume_ok volumes" "list_all bind_ok binds" "env_ok env"
    and p: "p \<in> set (head_parts console pci content_tag sha debug
        @ concat (map (\<lambda>(i, v). map (volume_key_value i) (volume_fields disks v)) (List.enumerate 0 volumes))
        @ concat (map bind_parts (List.enumerate 0 binds))
        @ map (\<lambda>(k, v). k @ ''='' @ v) env)"
  shows "p \<noteq> [] \<and> cmdline_word p"
proof -
  have vs: "\<exists>i v. v \<in> set volumes \<and> p \<in> set (map (volume_key_value i) (volume_fields disks v))"
    if "p \<in> set (concat (map (\<lambda>(i, v). map (volume_key_value i) (volume_fields disks v)) (List.enumerate 0 volumes)))"
    using that by (force dest: enumerate_mem)
  have bs: "\<exists>i b. b \<in> set binds \<and> p \<in> set (bind_parts (i, b))"
    if "p \<in> set (concat (map bind_parts (List.enumerate 0 binds)))"
    using that by (force dest: enumerate_mem)
  consider "p \<in> set (head_parts console pci content_tag sha debug)"
    | i v where "v \<in> set volumes" "p \<in> set (map (volume_key_value i) (volume_fields disks v))"
    | i b where "b \<in> set binds" "p \<in> set (bind_parts (i, b))"
    | k v where "(k, v) \<in> set env" "p = k @ ''='' @ v"
    using p vs bs unfolding set_append Un_iff by (elim disjE exE conjE) (blast, blast, blast, force)
  then show ?thesis
  proof cases
    case 1
    then show ?thesis using assms(1)
      by (auto simp: head_parts_def head_ok_def bare_sha256_def byte_is_whitespace_def split: if_splits option.splits)
  next
    case (2 i v)
    then show ?thesis using assms(2)
      by (auto simp: volume_fields_def volume_key_value_def volume_ok_def list_all_iff flag_digit_def byte_is_whitespace_def)
  next
    case (3 i b)
    then have ok: "bind_ok b" using assms(3) by (simp add: list_all_iff)
    from 3 obtain fv where fv: "p = bind_key_value i fv" "fv \<in> set (bind_fields (i, b))"
      by (auto simp: bind_parts_fields)
    then have "cmdline_word (snd fv)" using bind_fields_ok [OF ok, of i] by (simp add: list_all_iff field_ok_def)
    moreover have "cmdline_word (fst fv)" using fv(2)
      by (auto simp: bind_fields_def path_fields_def byte_is_whitespace_def)
    ultimately show ?thesis using fv(1) by (simp add: bind_key_value_def byte_is_whitespace_def)
  next
    case (4 k v)
    then show ?thesis using assms(4) by (auto simp: env_ok_def list_all_iff byte_is_whitespace_def)
  qed
qed

lemma settle_volumes:
  "list_all volume_ok (map snd ivs) \<Longrightarrow>
     foldl settle_volume out (map (\<lambda>(i, v). (i, filled_volume (dev v) v)) ivs)
     = out\<lparr>cp_volumes := cp_volumes out @ map (\<lambda>(i, v).
         \<lparr>vp_dev = dev v, vp_target = va_target v, vp_read_only = va_read_only v\<rparr>) ivs\<rparr>"
  by (induction ivs arbitrary: out)
    (auto simp: settle_volume_def resolve_volume_def filled_volume_def volume_ok_def)

definition bind_read :: "nat \<times> bind_attachment \<Rightarrow> bind_param" where
  "bind_read ib = \<lparr>bp_tag = bind_share_tag (fst ib), bp_target = ba_target (snd ib), bp_read_only = ba_read_only (snd ib),
     bp_dropped_paths = ba_dropped_paths (snd ib), bp_seeded_paths = ba_seeded_paths (snd ib),
     bp_excluded_paths = ba_excluded_paths (snd ib)\<rparr>"

lemma resolve_filled_bind: "bind_ok b \<Longrightarrow> resolve_bind (filled_bind i b) = Ready (bind_read (i, b))"
proof -
  assume ok: "bind_ok b"
  have "\<not> list_all (\<lambda>seg. seg = []) (split_on CHR ''/'' seed)" if "(j, seed) \<in> set (List.enumerate 0 (ba_seeded_paths b))"
    for j seed
  proof -
    have "seed \<in> set (ba_seeded_paths b)" using that by (auto simp: in_set_enumerate_eq)
    then show ?thesis using ok by (auto simp: bind_ok_def names_something_def list_all_iff list_ex_iff)
  qed
  then have "\<not> list_ex (\<lambda>(_, seed). list_all (\<lambda>seg. seg = []) (split_on CHR ''/'' seed)) (List.enumerate 0 (ba_seeded_paths b))"
    by (auto simp: list_ex_iff)
  with ok show ?thesis
    by (simp add: resolve_bind_def filled_bind_def bind_read_def bind_ok_def or_zero_def)
qed

lemma settle_binds:
  "list_all bind_ok (map snd ibs) \<Longrightarrow>
     foldl settle_bind out (map (\<lambda>(i, b). (i, filled_bind i b)) ibs)
     = out\<lparr>cp_binds := cp_binds out @ map bind_read ibs\<rparr>"
  by (induction ibs arbitrary: out) (auto simp: settle_bind_def resolve_filled_bind)

lemma map_enumerate: "map (\<lambda>(i, x). f x) (List.enumerate k xs) = map f xs"
  by (induction xs arbitrary: k) auto

section \<open>Device names\<close>

fun letters :: "nat \<Rightarrow> nat list" where
  "letters n = n mod 26 # (if n < 26 then [] else letters (n div 26 - 1))"

declare letters.simps [simp del]

lemma block_letters_eq: "block_letters n acc = acc @ map (\<lambda>d. char_of (97 + d)) (letters n)"
proof (induction n acc rule: block_letters.induct)
  case (1 n acc)
  show ?case
  proof (cases "n < 26")
    case True
    then show ?thesis by (simp add: block_letters.simps [of n] letters.simps [of n])
  next
    case False
    then show ?thesis using 1 [OF refl False] by (simp add: block_letters.simps [of n] letters.simps [of n] Let_def)
  qed
qed

lemma letters_inj: "letters n = letters m \<Longrightarrow> n = m"
proof (induction n arbitrary: m rule: letters.induct)
  case (1 n)
  have "n mod 26 = m mod 26" using 1(2) by (simp add: letters.simps [of n] letters.simps [of m])
  have ne: "letters k \<noteq> []" "[] \<noteq> letters k" for k by (simp_all add: letters.simps [of k])
  show ?case
  proof (cases "n < 26")
    case True
    then have "m < 26" using 1(2) ne by (auto simp: letters.simps [of n] letters.simps [of m] split: if_splits)
    with True \<open>n mod 26 = m mod 26\<close> show ?thesis by simp
  next
    case False
    then have m: "\<not> m < 26" using 1(2) ne
      by (auto simp: letters.simps [of n] letters.simps [of m] split: if_splits)
    with False 1(2) have "letters (n div 26 - 1) = letters (m div 26 - 1)"
      by (simp add: letters.simps [of n] letters.simps [of m])
    from 1(1) [OF False this] have "n div 26 = m div 26" using False m
      by (metis One_nat_def Suc_pred div_greater_zero_iff not_less zero_less_numeral)
    with \<open>n mod 26 = m mod 26\<close> show ?thesis by (metis div_mult_mod_eq)
  qed
qed

lemma letters_bound: "d \<in> set (letters n) \<Longrightarrow> d < 26"
proof (induction n rule: letters.induct)
  case (1 n)
  then show ?case by (auto simp: letters.simps [of n] split: if_splits)
qed

lemma guest_block_dev_inj: "guest_block_dev i = guest_block_dev j \<Longrightarrow> i = j"
proof -
  assume "guest_block_dev i = guest_block_dev j"
  then have "map (\<lambda>d. char_of (97 + d) :: char) (letters i) = map (\<lambda>d. char_of (97 + d)) (letters j)"
    by (simp add: guest_block_dev_def block_letters_eq)
  moreover have "inj_on (\<lambda>d. char_of (97 + d) :: char) (set (letters i) \<union> set (letters j))"
  proof (rule inj_onI)
    fix x y assume b: "x \<in> set (letters i) \<union> set (letters j)" "y \<in> set (letters i) \<union> set (letters j)"
      and e: "(char_of (97 + x) :: char) = char_of (97 + y)"
    then have "x < 26" "y < 26" using letters_bound by auto
    with arg_cong [OF e, of "of_char :: char \<Rightarrow> nat"] show "x = y" by (simp add: of_char_char_of_small)
  qed
  ultimately have "letters i = letters j" by (metis map_inj_on)
  then show "i = j" by (rule letters_inj)
qed

lemma validated_target_ok:
  "validate_volume_target target = Inr () \<Longrightarrow> cmdline_word target \<and> target_within_root target"
  using validate_volume_target_ok [of target] by (simp add: target_within_root_def)

lemma disk_index_same:
  assumes "volume_disk_index disks a = Some i" "volume_disk_index disks b = Some i"
  shows "path_eq a b"
  using position_SomeD [OF assms(1) [unfolded volume_disk_index_def]]
    position_SomeD [OF assms(2) [unfolded volume_disk_index_def]]
  by (auto simp: path_eq_def)

lemma disk_index_cong: "path_eq a b \<Longrightarrow> volume_disk_index disks a = volume_disk_index disks b"
  by (simp add: volume_disk_index_def path_eq_def)

lemma built_line:
  assumes "head_ok console content_tag sha" "list_all volume_ok volumes" "list_all bind_ok binds" "env_ok env"
  shows "\<exists>line. build_kernel_cmdline env console pci content_tag sha debug volumes binds = Some line
    \<and> tokenize line = head_parts console pci content_tag sha debug
        @ concat (map (\<lambda>(i, v). map (volume_key_value i) (volume_fields (volume_disks volumes) v)) (List.enumerate 0 volumes))
        @ concat (map bind_parts (List.enumerate 0 binds)) @ map (\<lambda>(k, v). k @ ''='' @ v) env"
proof (intro exI conjI)
  let ?parts = "head_parts console pci content_tag sha debug
        @ concat (map (\<lambda>(i, v). map (volume_key_value i) (volume_fields (volume_disks volumes) v)) (List.enumerate 0 volumes))
        @ concat (map bind_parts (List.enumerate 0 binds)) @ map (\<lambda>(k, v). k @ ''='' @ v) env"
  show "build_kernel_cmdline env console pci content_tag sha debug volumes binds = Some (join_with '' '' ?parts)"
    by (simp add: build_kernel_cmdline_def all_volume_parts)
  show "tokenize (join_with '' '' ?parts) = ?parts"
    by (rule tokenize_join) (use all_parts_words [OF assms] in blast)
qed

section \<open>Properties\<close>

text \<open>
  C11: the guest reads what the service wrote. The builder never panics, and for words of the line the
  parser of \<open>lns-init\<close> gives back every device, volume and bind in order, with its target, access,
  dropped, seeded and excluded paths, and nothing incomplete; the rest of the line changes nothing.
\<close>

theorem cmdline_roundtrip:
  assumes "head_ok console content_tag sha" "list_all volume_ok volumes" "list_all bind_ok binds" "env_ok env"
    and "length volumes < 2 ^ 64" "length binds < 2 ^ 64"
  shows "\<exists>line. build_kernel_cmdline env console pci content_tag sha debug volumes binds = Some line
     \<and> cmdline_parse line = \<lparr>cp_upper_dev = Some ''/dev/vda'', cp_composefs_descriptor_dev = Some ''/dev/vdb'',
         cp_content_tag = Some content_tag, cp_composefs_descriptor_sha256 = map_option bare_sha256 sha,
         cp_volumes = map (\<lambda>v. \<lparr>vp_dev = volume_dev (volume_disks volumes) v, vp_target = va_target v,
           vp_read_only = va_read_only v\<rparr>) volumes,
         cp_incomplete_volumes = [], cp_binds = map bind_read (List.enumerate 0 binds), cp_incomplete_binds = []\<rparr>"
proof -
  from built_line [OF assms(1-4), of pci debug] obtain line where
    build: "build_kernel_cmdline env console pci content_tag sha debug volumes binds = Some line"
    and "tokenize line = head_parts console pci content_tag sha debug
        @ concat (map (\<lambda>(i, v). map (volume_key_value i) (volume_fields (volume_disks volumes) v)) (List.enumerate 0 volumes))
        @ concat (map bind_parts (List.enumerate 0 binds)) @ map (\<lambda>(k, v). k @ ''='' @ v) env" by blast
  moreover have "\<forall>v \<in> set volumes. cmdline_word (va_target v)" using assms(2) by (simp add: list_all_iff volume_ok_def)
  ultimately have "foldl apply_token (default_params, [], []) (tokenize line)
      = (head_params content_tag sha,
         map (\<lambda>(i, v). (i, filled_volume (volume_dev (volume_disks volumes) v) v)) (List.enumerate 0 volumes),
         map (\<lambda>(i, b). (i, filled_bind i b)) (List.enumerate 0 binds))"
    using assms by (simp add: head_tokens all_volume_tokens all_bind_tokens env_tokens)
  moreover have "list_all volume_ok (map snd (List.enumerate 0 volumes))" "list_all bind_ok (map snd (List.enumerate 0 binds))"
    using assms by simp_all
  moreover have "map (\<lambda>(i, v). f v) (List.enumerate 0 volumes) = map f volumes" for f :: "volume_attachment \<Rightarrow> volume_param"
    by (rule map_enumerate)
  ultimately have "cmdline_parse line = (head_params content_tag sha)\<lparr>
      cp_volumes := map (\<lambda>v. \<lparr>vp_dev = volume_dev (volume_disks volumes) v, vp_target = va_target v,
           vp_read_only = va_read_only v\<rparr>) volumes, cp_binds := map bind_read (List.enumerate 0 binds)\<rparr>"
    by (simp add: cmdline_parse_def settle_volumes settle_binds head_params_def default_params_def)
  with build show ?thesis by (simp add: head_params_def default_params_def)
qed

definition sample_volumes :: "volume_attachment list" where
  "sample_volumes =
     [\<lparr>va_host_image = ''/v/a.img'', va_target = ''/data'', va_read_only = False\<rparr>,
      \<lparr>va_host_image = ''/v/b.img'', va_target = ''/cache'', va_read_only = True\<rparr>,
      \<lparr>va_host_image = ''/v//a.img'', va_target = ''/copy'', va_read_only = True\<rparr>]"

definition sample_binds :: "bind_attachment list" where
  "sample_binds =
     [\<lparr>ba_host_source = ''/home/me/app'', ba_target = ''/app'', ba_read_only = False,
       ba_dropped_paths = [''.env'', ''.npmrc''], ba_excluded_paths = [''build''], ba_seeded_paths = [''build'']\<rparr>]"

lemma cmdline_roundtrip_witness:
  "\<exists>line. build_kernel_cmdline [(''PATH'', ''/bin'')] ''hvc0'' False ''content'' (Some ''sha256:ab'') False
       sample_volumes sample_binds = Some line
     \<and> map vp_dev (cp_volumes (cmdline_parse line)) = [''/dev/vdc'', ''/dev/vdd'', ''/dev/vdc'']
     \<and> map bp_dropped_paths (cp_binds (cmdline_parse line)) = [[''.env'', ''.npmrc'']]"
proof -
  have "head_ok ''hvc0'' ''content'' (Some ''sha256:ab'')" "list_all volume_ok sample_volumes"
    "list_all bind_ok sample_binds" "env_ok [(''PATH'', ''/bin'')]"
    "length sample_volumes < 2 ^ 64" "length sample_binds < 2 ^ 64" by code_simp+
  note r = cmdline_roundtrip [OF this, of False False]
  have d: "map (volume_dev (volume_disks sample_volumes)) sample_volumes = [''/dev/vdc'', ''/dev/vdd'', ''/dev/vdc'']"
    by code_simp
  have b: "map bp_dropped_paths (map bind_read (List.enumerate 0 sample_binds)) = [[''.env'', ''.npmrc'']]" by code_simp
  from r obtain line where l: "build_kernel_cmdline [(''PATH'', ''/bin'')] ''hvc0'' False ''content'' (Some ''sha256:ab'') False
       sample_volumes sample_binds = Some line"
    "cp_volumes (cmdline_parse line) = map (\<lambda>v. \<lparr>vp_dev = volume_dev (volume_disks sample_volumes) v, vp_target = va_target v,
           vp_read_only = va_read_only v\<rparr>) sample_volumes"
    "cp_binds (cmdline_parse line) = map bind_read (List.enumerate 0 sample_binds)"
    by (elim exE conjE) simp
  have "map vp_dev (cp_volumes (cmdline_parse line)) = map (volume_dev (volume_disks sample_volumes)) sample_volumes"
    by (simp add: l(2) comp_def)
  with d b l(1,3) show ?thesis by metis
qed

text \<open>
  A volume is mounted from its own disk: two attachments name the same guest device exactly when
  they share a host image, however its path is spelled, and no volume is given the device of the
  writable layer or of the image descriptor.
\<close>

theorem volume_devices_faithful:
  assumes "v \<in> set volumes" "w \<in> set volumes"
  shows "(volume_dev (volume_disks volumes) v = volume_dev (volume_disks volumes) w
        \<longleftrightarrow> path_eq (va_host_image v) (va_host_image w))
     \<and> volume_dev (volume_disks volumes) v \<notin> {''/dev/vda'', ''/dev/vdb''}"
proof -
  obtain i j where i: "volume_disk_index (volume_disks volumes) (va_host_image v) = Some i"
    and j: "volume_disk_index (volume_disks volumes) (va_host_image w) = Some j"
    using volume_disk_index_found assms by blast
  have "volume_dev (volume_disks volumes) v = volume_dev (volume_disks volumes) w \<longleftrightarrow> i = j"
    using guest_block_dev_inj [of "2 + i" "2 + j"] by (auto simp: volume_dev_def i j)
  moreover have "i = j \<longleftrightarrow> path_eq (va_host_image v) (va_host_image w)"
    using disk_index_same [OF i] disk_index_cong [of "va_host_image v" "va_host_image w" "volume_disks volumes"] i j by auto
  moreover have "guest_block_dev 0 = ''/dev/vda''" "guest_block_dev 1 = ''/dev/vdb''" by code_simp+
  ultimately show ?thesis
    using guest_block_dev_inj [of "2 + i" 0] guest_block_dev_inj [of "2 + i" 1] by (auto simp: volume_dev_def i)
qed

lemma volume_devices_faithful_witness:
  "volume_dev (volume_disks sample_volumes) (sample_volumes ! 0) = volume_dev (volume_disks sample_volumes) (sample_volumes ! 2)
   \<and> volume_dev (volume_disks sample_volumes) (sample_volumes ! 0) \<noteq> volume_dev (volume_disks sample_volumes) (sample_volumes ! 1)"
proof -
  have m: "sample_volumes ! 0 \<in> set sample_volumes" "sample_volumes ! 1 \<in> set sample_volumes"
    "sample_volumes ! 2 \<in> set sample_volumes" by (simp_all add: sample_volumes_def)
  have "path_eq (va_host_image (sample_volumes ! 0)) (va_host_image (sample_volumes ! 2))"
    "\<not> path_eq (va_host_image (sample_volumes ! 0)) (va_host_image (sample_volumes ! 1))" by code_simp+
  with volume_devices_faithful [OF m(1,3)] volume_devices_faithful [OF m(1,2)] show ?thesis by blast
qed

end
