(* ===== verification/Workload_Argv.thy ===== *)
theory Workload_Argv
  imports Kernel_Cmdline Workload_Env "HOL-Library.Word"
begin

text \<open>
  The command a run executes, from the image and the user's overrides to the kernel command line:
  \<open>crates/lns-service/src/workload_argv.rs\<close> (merging and quoting), \<open>base64.rs\<close>, the \<open>ExecSpec\<close> and
  \<open>RunAs\<close> of \<open>vm/mod.rs\<close>, and the supervisor's own quoting of extra arguments
  (\<open>crates/lns-supervisor/src/config/quote.rs\<close>). The characters that need no quotes are ASCII, so the
  test on characters is a test on bytes.
\<close>

unbundle bit_operations_syntax

section \<open>The command\<close>

text \<open>The part of an OCI image configuration the code reads.\<close>

record image_config =
  ic_entrypoint :: "string list option"
  ic_cmd :: "string list option"
  ic_user :: "string option"

type_synonym config_file = "image_config option"

definition or_default :: "'a list option \<Rightarrow> 'a list" where
  "or_default x = (case x of Some xs \<Rightarrow> xs | None \<Rightarrow> [])"

definition merged_argv :: "string list \<Rightarrow> string list \<Rightarrow> string option \<Rightarrow> string list \<Rightarrow> string list" where
  "merged_argv image_entrypoint image_cmd override_entrypoint override_cmd = (case override_entrypoint of
     Some entrypoint \<Rightarrow>
       if entrypoint = [] then (if override_cmd = [] then image_cmd else override_cmd)
       else entrypoint # (if override_cmd = [] then image_cmd else override_cmd)
   | None \<Rightarrow> if override_cmd \<noteq> [] then image_entrypoint @ override_cmd else image_entrypoint @ image_cmd)"

definition needs_no_quotes :: "char \<Rightarrow> bool" where
  "needs_no_quotes c \<longleftrightarrow> is_ascii_alphanumeric c \<or> c \<in> set ''-_./:=+,''"

definition shell_quote :: "string \<Rightarrow> string" where
  "shell_quote s =
     (if s = [] then [CHR 0x27, CHR 0x27]
      else if list_all needs_no_quotes s then s
      else CHR 0x27 # concat (map (\<lambda>c. if c = CHR 0x27 then [CHR 0x27, CHR 0x5C, CHR 0x27, CHR 0x27] else [c]) s)
        @ [CHR 0x27])"

definition shell_quote_argv :: "string list \<Rightarrow> string" where
  "shell_quote_argv argv = (if argv = [] then ''sh'' else join_with '' '' (map shell_quote argv))"

definition image_argv :: "config_file \<Rightarrow> string option \<Rightarrow> string list \<Rightarrow> string list" where
  "image_argv config override_entrypoint override_cmd =
     merged_argv (or_default (Option.bind config ic_entrypoint)) (or_default (Option.bind config ic_cmd))
       override_entrypoint override_cmd"

definition from_image_config :: "config_file \<Rightarrow> string option \<Rightarrow> string list \<Rightarrow> string" where
  "from_image_config config override_entrypoint override_cmd =
     shell_quote_argv (image_argv config override_entrypoint override_cmd)"

definition from_imageless :: "string option \<Rightarrow> string list \<Rightarrow> string" where
  "from_imageless override_entrypoint override_cmd = shell_quote_argv (merged_argv [] [] override_entrypoint override_cmd)"

text \<open>The supervisor's \<open>append_cli_args\<close>; its \<open>shell_quote\<close> is the same function.\<close>

definition append_cli_args :: "string \<Rightarrow> string list \<Rightarrow> string" where
  "append_cli_args agent_command args = foldl (\<lambda>command arg. command @ '' '' @ shell_quote arg) agent_command args"

section \<open>Base64\<close>

definition ALPHA :: string where
  "ALPHA = ''ABCDEFGHIJKLMNOPQRSTUVWXYZabcdefghijklmnopqrstuvwxyz0123456789+/''"

definition sextet :: "32 word \<Rightarrow> nat \<Rightarrow> char" where
  "sextet v n = ALPHA ! unat (drop_bit n v AND 0x3F)"

fun base64_encode :: "string \<Rightarrow> string" where
  "base64_encode (a # b # c # rest) =
     (let v = push_bit 16 (of_char a) OR push_bit 8 (of_char b) OR of_char c
      in sextet v 18 # sextet v 12 # sextet v 6 # sextet v 0 # base64_encode rest)"
| "base64_encode [a, b] =
     (let v = push_bit 16 (of_char a) OR push_bit 8 (of_char b)
      in [sextet v 18, sextet v 12, sextet v 6, CHR ''=''])"
| "base64_encode [a] = (let v = push_bit 16 (of_char a) in [sextet v 18, sextet v 12, CHR ''='', CHR ''=''])"
| "base64_encode [] = []"

section \<open>Who runs it\<close>

definition DEFAULT_SANDBOX_USER :: string where
  "DEFAULT_SANDBOX_USER = ''sandbox''"

definition DEFAULT_SANDBOX_UID :: nat where
  "DEFAULT_SANDBOX_UID = 65534"

definition DEFAULT_SANDBOX_GID :: nat where
  "DEFAULT_SANDBOX_GID = 65534"

record run_as =
  ra_user :: string
  ra_uid :: "nat option"
  ra_group :: "string option"

abbreviation parse_uid :: "string \<Rightarrow> nat option" where
  "parse_uid \<equiv> parse_uint (2 ^ 32 - 1)"

definition user_and_group :: "string \<Rightarrow> string \<times> string option" where
  "user_and_group spec = (case split_once CHR '':'' spec of
     Some (user, grp) \<Rightarrow> (user, if grp \<noteq> [] then Some grp else None)
   | None \<Rightarrow> (spec, None))"

definition split_user_group :: "string \<Rightarrow> string \<times> string option" where
  "split_user_group spec =
     (let (user, grp) = user_and_group spec in (if user = [] then DEFAULT_SANDBOX_USER else user, grp))"

definition or_else :: "'a option \<Rightarrow> 'a option \<Rightarrow> 'a option" where
  "or_else x y = (case x of Some _ \<Rightarrow> x | None \<Rightarrow> y)"

definition resolve_run_as :: "string option \<Rightarrow> nat option \<Rightarrow> string option \<Rightarrow> string option \<Rightarrow> run_as" where
  "resolve_run_as explicit_user explicit_uid spec_user image_user =
     (if explicit_user \<noteq> None \<or> explicit_uid \<noteq> None then
        (let (user, grp) = (case explicit_user of Some u \<Rightarrow> split_user_group u | None \<Rightarrow> (DEFAULT_SANDBOX_USER, None))
         in \<lparr>ra_user = user,
             ra_uid = Some (case or_else explicit_uid (parse_uid user) of Some uid \<Rightarrow> uid | None \<Rightarrow> DEFAULT_SANDBOX_UID),
             ra_group = grp\<rparr>)
      else (case map_option trim (or_else spec_user image_user) of
          Some spec \<Rightarrow>
            if spec \<noteq> [] then
              (let (user, grp) = user_and_group spec
               in \<lparr>ra_user = user, ra_uid = parse_uid user, ra_group = grp\<rparr>)
            else \<lparr>ra_user = DEFAULT_SANDBOX_USER, ra_uid = Some DEFAULT_SANDBOX_UID, ra_group = None\<rparr>
        | None \<Rightarrow> \<lparr>ra_user = DEFAULT_SANDBOX_USER, ra_uid = Some DEFAULT_SANDBOX_UID, ra_group = None\<rparr>))"

definition host_known_workload_gid :: "run_as \<Rightarrow> nat option" where
  "host_known_workload_gid r =
     (if ra_user r = DEFAULT_SANDBOX_USER \<and> ra_uid r = Some DEFAULT_SANDBOX_UID \<and> ra_group r = None
      then Some DEFAULT_SANDBOX_GID else None)"

section \<open>The environment of the kernel\<close>

type_synonym kernel_env = "(string \<times> string) list"

definition agent_command :: "config_file option \<Rightarrow> string option \<Rightarrow> string list \<Rightarrow> string" where
  "agent_command image_config entrypoint cmd = (case image_config of
     Some cfg \<Rightarrow> from_image_config cfg entrypoint cmd
   | None \<Rightarrow> from_imageless entrypoint cmd)"

definition exec_server ::
    "config_file option \<Rightarrow> run_as \<Rightarrow> string \<Rightarrow> string \<Rightarrow> string option \<Rightarrow> string list \<Rightarrow> kernel_env" where
  "exec_server image_config r ws_url token entrypoint cmd =
     [(''LENS_SANDBOX_WS_URL'', ws_url), (''LENS_SANDBOX_TOKEN'', token), (''SANDBOX_USER'', ra_user r)]
     @ (case ra_uid r of Some uid \<Rightarrow> [(''SANDBOX_UID'', show_nat uid)] | None \<Rightarrow> [])
     @ (case ra_group r of Some grp \<Rightarrow> [(''SANDBOX_GROUP'', grp)] | None \<Rightarrow> [])
     @ [(''LENS_SANDBOX_USER'', ra_user r),
        (''AGENT_COMMAND_B64'', base64_encode (agent_command image_config entrypoint cmd)),
        (''PATH'', GUEST_DEFAULT_PATH)]"

definition exec_from_image_config :: "config_file option \<Rightarrow> string option \<Rightarrow> string list \<Rightarrow> kernel_env" where
  "exec_from_image_config image_config entrypoint override_cmd =
     [(''AGENT_COMMAND_B64'', base64_encode (agent_command image_config entrypoint override_cmd)),
      (''PATH'', ''/usr/local/sbin:/usr/local/bin:/usr/sbin:/usr/bin:/sbin:/bin'')]"

text \<open>\<open>for_run\<close>; a supervised run has the address and the token of the relay.\<close>

definition exec_for_run ::
    "run_as \<Rightarrow> string option \<Rightarrow> string list \<Rightarrow> config_file option \<Rightarrow> (string \<times> string) option \<Rightarrow> kernel_env" where
  "exec_for_run r entrypoint cmd image_config session = (case session of
     Some (url, token) \<Rightarrow> exec_server image_config r url token entrypoint cmd
   | None \<Rightarrow> exec_from_image_config image_config entrypoint cmd)"

section \<open>What a shell reads\<close>

text \<open>
  The words a POSIX shell takes from a simple command: blanks separate them, single quotes keep
  everything, a backslash keeps one character. Anything the shell would treat otherwise (operators,
  expansions, patterns, comments) gives no answer.
\<close>

datatype sh_state = Between | Word_So_Far string | In_Quotes string | Escaped string

definition sh_special :: string where
  "sh_special = ''|&;<>()$*?[]#~%{}!^'' @ [CHR 0x22, CHR 0x60, CHR 0x09, CHR 0x0A]"

fun word_so_far :: "sh_state \<Rightarrow> string" where
  "word_so_far Between = []"
| "word_so_far (Word_So_Far w) = w"
| "word_so_far (In_Quotes w) = w"
| "word_so_far (Escaped w) = w"

fun sh_scan :: "sh_state \<Rightarrow> string \<Rightarrow> string list option" where
  "sh_scan Between [] = Some []"
| "sh_scan (Word_So_Far w) [] = Some [w]"
| "sh_scan (In_Quotes w) [] = None"
| "sh_scan (Escaped w) [] = None"
| "sh_scan (In_Quotes w) (c # s) = (if c = CHR 0x27 then sh_scan (Word_So_Far w) s else sh_scan (In_Quotes (w @ [c])) s)"
| "sh_scan (Escaped w) (c # s) = (if c = CHR 0x0A then None else sh_scan (Word_So_Far (w @ [c])) s)"
| "sh_scan st (c # s) =
     (if c = CHR '' '' then (case st of Word_So_Far w \<Rightarrow> map_option ((#) w) (sh_scan Between s) | _ \<Rightarrow> sh_scan Between s)
      else if c = CHR 0x27 then sh_scan (In_Quotes (word_so_far st)) s
      else if c = CHR 0x5C then sh_scan (Escaped (word_so_far st)) s
      else if c \<in> set sh_special then None
      else sh_scan (Word_So_Far (word_so_far st @ [c])) s)"

definition sh_words :: "string \<Rightarrow> string list option" where
  "sh_words s = sh_scan Between s"

definition unquoted :: "sh_state \<Rightarrow> bool" where
  "unquoted st \<longleftrightarrow> st = Between \<or> (\<exists>w. st = Word_So_Far w)"

lemma plain_not_special:
  assumes "needs_no_quotes c"
  shows "c \<notin> set sh_special" "c \<noteq> CHR '' ''" "c \<noteq> CHR 0x27" "c \<noteq> CHR 0x5C"
  using assms by (auto simp: needs_no_quotes_def sh_special_def is_ascii_alphanumeric_def is_ascii_digit_def
      is_ascii_lowercase_def is_ascii_uppercase_def)

lemma scan_plain:
  "list_all needs_no_quotes s \<Longrightarrow> s \<noteq> [] \<or> st \<noteq> Between \<Longrightarrow> unquoted st \<Longrightarrow>
     sh_scan st (s @ rest) = sh_scan (Word_So_Far (word_so_far st @ s)) rest"
proof (induction s arbitrary: st)
  case Nil
  then show ?case by (auto simp: unquoted_def)
next
  case (Cons c s)
  then have "sh_scan st ((c # s) @ rest) = sh_scan (Word_So_Far (word_so_far st @ [c])) (s @ rest)"
    by (auto simp: unquoted_def plain_not_special)
  with Cons.IH [of "Word_So_Far (word_so_far st @ [c])"] Cons.prems show ?case by (simp add: unquoted_def)
qed

lemma scan_quoted:
  "sh_scan (In_Quotes w)
     (concat (map (\<lambda>c. if c = CHR 0x27 then [CHR 0x27, CHR 0x5C, CHR 0x27, CHR 0x27] else [c]) s) @ CHR 0x27 # rest)
     = sh_scan (Word_So_Far (w @ s)) rest"
  by (induction s arbitrary: w) auto

lemma scan_quote:
  assumes "unquoted st"
  shows "sh_scan st (shell_quote s @ rest) = sh_scan (Word_So_Far (word_so_far st @ s)) rest"
proof -
  consider "s = []" | "s \<noteq> []" "list_all needs_no_quotes s" | "s \<noteq> []" "\<not> list_all needs_no_quotes s" by blast
  then show ?thesis
  proof cases
    case 1
    with assms show ?thesis by (auto simp: shell_quote_def unquoted_def)
  next
    case 2
    with assms show ?thesis by (simp add: shell_quote_def scan_plain)
  next
    case 3
    with assms show ?thesis using scan_quoted [of "word_so_far st" s rest] by (auto simp: shell_quote_def unquoted_def)
  qed
qed

lemma scan_argv: "sh_scan Between (join_with '' '' (map shell_quote argv)) = Some argv"
proof (induction argv rule: induct_list012)
  case (2 x)
  show ?case using scan_quote [of Between x "[]"] by (simp add: unquoted_def)
next
  case (3 x y zs)
  then show ?case using scan_quote [of Between x "CHR '' '' # join_with '' '' (map shell_quote (y # zs))"]
    by (simp add: unquoted_def)
qed simp

lemma words_of_quoted: "sh_words (shell_quote_argv argv) = Some (if argv = [] then [''sh''] else argv)"
  using scan_argv scan_plain [of "''sh''" Between "[]"]
  by (auto simp: sh_words_def shell_quote_argv_def unquoted_def needs_no_quotes_def is_ascii_alphanumeric_def
      is_ascii_lowercase_def)

lemma scan_append_arg:
  "sh_scan st command = Some ws \<Longrightarrow> sh_scan st (command @ '' '' @ shell_quote arg) = Some (ws @ [arg])"
proof (induction st command arbitrary: ws rule: sh_scan.induct)
  case 1
  then show ?case using scan_quote [of Between arg "[]"] by (simp add: unquoted_def)
next
  case (2 w)
  then show ?case using scan_quote [of Between arg "[]"] by (auto simp: unquoted_def)
qed (auto split: if_splits)

lemma append_args_words:
  "sh_words command = Some ws \<Longrightarrow> sh_words (append_cli_args command args) = Some (ws @ args)"
  unfolding sh_words_def append_cli_args_def
proof (induction args arbitrary: command ws)
  case (Cons a args)
  from Cons.IH [OF scan_append_arg [OF Cons.prems, of a]] show ?case by simp
qed simp

section \<open>What a decoder reads\<close>

text \<open>Base64 as RFC 4648 decodes it: groups of four, the last one padded.\<close>

definition b64_value :: "char \<Rightarrow> 32 word option" where
  "b64_value c = map_option of_nat (position (\<lambda>x. x = c) ALPHA)"

definition octet :: "32 word \<Rightarrow> nat \<Rightarrow> char" where
  "octet v n = char_of (unat (drop_bit n v AND 0xFF))"

fun base64_decode :: "string \<Rightarrow> string option" where
  "base64_decode [] = Some []"
| "base64_decode (a # b # c # d # rest) = (case (b64_value a, b64_value b) of
     (Some i, Some j) \<Rightarrow>
       if d = CHR ''='' \<and> rest = [] then
         if c = CHR ''='' then Some [octet (push_bit 18 i OR push_bit 12 j) 16]
         else (case b64_value c of
             Some k \<Rightarrow> let v = push_bit 18 i OR push_bit 12 j OR push_bit 6 k in Some [octet v 16, octet v 8]
           | None \<Rightarrow> None)
       else (case (b64_value c, b64_value d, base64_decode rest) of
           (Some k, Some l, Some tail) \<Rightarrow>
             let v = push_bit 18 i OR push_bit 12 j OR push_bit 6 k OR l
             in Some (octet v 16 # octet v 8 # octet v 0 # tail)
         | _ \<Rightarrow> None)
   | _ \<Rightarrow> None)"
| "base64_decode _ = None"

lemma position_nth: "distinct xs \<Longrightarrow> k < length xs \<Longrightarrow> position (\<lambda>x. x = xs ! k) xs = Some k"
proof (induction xs arbitrary: k)
  case (Cons x xs)
  then show ?case by (cases k) (auto simp: nth_mem)
qed simp

lemma alpha_chars: "distinct ALPHA" "length ALPHA = 64" "CHR ''='' \<notin> set ALPHA"
  by (simp_all add: ALPHA_def)

lemma sextet_index: "unat (drop_bit n v AND 0x3F :: 32 word) < 64"
proof -
  have "(0x3F :: 32 word) = mask 6" by (simp add: mask_eq_exp_minus_1)
  then have "drop_bit n v AND 0x3F = take_bit 6 (drop_bit n v)" by (simp add: take_bit_eq_mask)
  then show ?thesis using take_bit_nat_less_exp [of 6 "unat (drop_bit n v)"] by (simp add: unsigned_take_bit_eq)
qed

lemma sextet_value [simp]: "b64_value (sextet v n) = Some (drop_bit n v AND 0x3F)" "sextet v n \<noteq> CHR ''=''"
proof -
  let ?k = "unat (drop_bit n v AND 0x3F :: 32 word)"
  have "?k < length ALPHA" using sextet_index by (simp add: alpha_chars)
  then have "position (\<lambda>x. x = ALPHA ! ?k) ALPHA = Some ?k" "ALPHA ! ?k \<noteq> CHR ''=''"
    using alpha_chars position_nth nth_mem by metis+
  then show "b64_value (sextet v n) = Some (drop_bit n v AND 0x3F)" "sextet v n \<noteq> CHR ''=''"
    by (simp_all add: b64_value_def sextet_def)
qed

lemma masks: "(0x3F :: 32 word) = mask 6" "(0xFF :: 32 word) = mask 8"
  by (simp_all add: mask_eq_exp_minus_1)

lemma low_octet_eqI:
  fixes x y :: "32 word"
  assumes "list_all (\<lambda>n. bit x n = bit y n) [0, 1, 2, 3, 4, 5, 6, 7]"
  shows "x AND 0xFF = y AND 0xFF"
proof (rule bit_word_eqI)
  fix n :: nat
  have "bit x n = bit y n" if "n < 8"
  proof -
    from that have "n = 0 \<or> n = 1 \<or> n = 2 \<or> n = 3 \<or> n = 4 \<or> n = 5 \<or> n = 6 \<or> n = 7" by presburger
    then show ?thesis using assms by (elim disjE) simp_all
  qed
  then show "bit (x AND 0xFF) n = bit (y AND 0xFF) n"
    by (cases "n < 8") (simp_all add: masks bit_and_iff bit_mask_iff)
qed

text \<open>Splitting a word into sextets and joining them again keeps its octets.\<close>

lemma regroup:
  fixes v :: "32 word"
  shows "octet (push_bit 18 (drop_bit 18 v AND 0x3F) OR push_bit 12 (drop_bit 12 v AND 0x3F)
      OR push_bit 6 (drop_bit 6 v AND 0x3F) OR (drop_bit 0 v AND 0x3F)) 16 = octet v 16"
    "octet (push_bit 18 (drop_bit 18 v AND 0x3F) OR push_bit 12 (drop_bit 12 v AND 0x3F)
      OR push_bit 6 (drop_bit 6 v AND 0x3F) OR (drop_bit 0 v AND 0x3F)) 8 = octet v 8"
    "octet (push_bit 18 (drop_bit 18 v AND 0x3F) OR push_bit 12 (drop_bit 12 v AND 0x3F)
      OR push_bit 6 (drop_bit 6 v AND 0x3F) OR (drop_bit 0 v AND 0x3F)) 0 = octet v 0"
    "octet (push_bit 18 (drop_bit 18 v AND 0x3F) OR push_bit 12 (drop_bit 12 v AND 0x3F)
      OR push_bit 6 (drop_bit 6 v AND 0x3F)) 16 = octet v 16"
    "octet (push_bit 18 (drop_bit 18 v AND 0x3F) OR push_bit 12 (drop_bit 12 v AND 0x3F)
      OR push_bit 6 (drop_bit 6 v AND 0x3F)) 8 = octet v 8"
    "octet (push_bit 18 (drop_bit 18 v AND 0x3F) OR push_bit 12 (drop_bit 12 v AND 0x3F)) 16 = octet v 16"
  unfolding octet_def masks(1)
  by - (rule arg_cong [of _ _ "\<lambda>w. char_of (unat w)"], rule low_octet_eqI, simp add: bit_simps)+

lemma of_char_octet:
  shows "unat (of_char c :: 32 word) = of_char c" "8 \<le> n \<Longrightarrow> \<not> bit (of_char c :: 32 word) n"
    "take_bit 8 (of_char c :: 32 word) = of_char c"
proof -
  have small: "(of_char c :: nat) < 2 ^ 8" using of_char_bound [of c] by simp
  have word: "(of_char c :: 32 word) = of_nat (of_char c)" by (simp add: of_nat_of_char)
  show "unat (of_char c :: 32 word) = of_char c"
    unfolding word unat_of_nat by (rule mod_less, rule less_trans [OF small]) simp
  show "take_bit 8 (of_char c :: 32 word) = of_char c"
    unfolding word take_bit_of_nat using small by (simp add: take_bit_nat_eq_self)
  then show "8 \<le> n \<Longrightarrow> \<not> bit (of_char c :: 32 word) n"
    by (metis bit_take_bit_iff not_less)
qed

lemma octets:
  fixes a b c :: char
  shows "octet (push_bit 16 (of_char a) OR push_bit 8 (of_char b) OR of_char c) 16 = a"
    "octet (push_bit 16 (of_char a) OR push_bit 8 (of_char b) OR of_char c) 8 = b"
    "octet (push_bit 16 (of_char a) OR push_bit 8 (of_char b) OR of_char c) 0 = c"
    "octet (push_bit 16 (of_char a) OR push_bit 8 (of_char b)) 16 = a"
    "octet (push_bit 16 (of_char a) OR push_bit 8 (of_char b)) 8 = b"
    "octet (push_bit 16 (of_char a)) 16 = a"
proof -
  have id: "char_of (unat (w AND 0xFF)) = d" if "list_all (\<lambda>n. bit w n = bit (of_char d :: 32 word) n) [0, 1, 2, 3, 4, 5, 6, 7]"
    for w :: "32 word" and d
  proof -
    have "(of_char d :: 32 word) AND 0xFF = of_char d"
      unfolding masks take_bit_eq_mask [symmetric] by (rule of_char_octet(3))
    with low_octet_eqI [OF that] show ?thesis by (simp add: of_char_octet(1))
  qed
  show "octet (push_bit 16 (of_char a) OR push_bit 8 (of_char b) OR of_char c) 16 = a"
    "octet (push_bit 16 (of_char a) OR push_bit 8 (of_char b) OR of_char c) 8 = b"
    "octet (push_bit 16 (of_char a) OR push_bit 8 (of_char b) OR of_char c) 0 = c"
    "octet (push_bit 16 (of_char a) OR push_bit 8 (of_char b)) 16 = a"
    "octet (push_bit 16 (of_char a) OR push_bit 8 (of_char b)) 8 = b"
    "octet (push_bit 16 (of_char a)) 16 = a"
    unfolding octet_def by - (rule id, simp add: bit_simps of_char_octet(2))+
qed

lemma decode_group:
  "base64_decode (sextet v 18 # sextet v 12 # sextet v 6 # sextet v 0 # rest)
     = (case base64_decode rest of Some tail \<Rightarrow> Some (octet v 16 # octet v 8 # octet v 0 # tail) | None \<Rightarrow> None)"
  "base64_decode [sextet v 18, sextet v 12, sextet v 6, CHR ''=''] = Some [octet v 16, octet v 8]"
  "base64_decode [sextet v 18, sextet v 12, CHR ''='', CHR ''=''] = Some [octet v 16]"
  by (simp_all only: base64_decode.simps sextet_value option.case prod.case Let_def regroup simp_thms if_False if_True)

lemma base64_roundtrip: "base64_decode (base64_encode s) = Some s"
  by (induction s rule: base64_encode.induct)
    (simp_all only: base64_encode.simps Let_def decode_group octets option.case base64_decode.simps(1))

section \<open>The boot line\<close>

lemma alpha_word: "c \<in> set ALPHA \<Longrightarrow> \<not> byte_is_whitespace c \<and> c \<noteq> CHR 0x22"
proof -
  have "list_all (\<lambda>c. \<not> byte_is_whitespace c \<and> c \<noteq> CHR 0x22) ALPHA" by code_simp
  then show "c \<in> set ALPHA \<Longrightarrow> ?thesis" by (simp add: list_all_iff)
qed

lemma sextet_alpha: "sextet v n \<in> set ALPHA"
  unfolding sextet_def by (rule nth_mem) (use sextet_index [of n v] in \<open>simp add: alpha_chars\<close>)

lemma base64_word: "cmdline_word (base64_encode s)"
proof (induction s rule: base64_encode.induct)
  case (1 a b c rest)
  then show ?case using alpha_word [OF sextet_alpha] by (simp add: cmdline_word_def Let_def)
qed (use alpha_word [OF sextet_alpha] in \<open>simp_all add: cmdline_word_def Let_def byte_is_whitespace_def\<close>)

definition run_argv :: "config_file option \<Rightarrow> string option \<Rightarrow> string list \<Rightarrow> string list" where
  "run_argv config entrypoint cmd = (case config of
     Some cfg \<Rightarrow> image_argv cfg entrypoint cmd
   | None \<Rightarrow> merged_argv [] [] entrypoint cmd)"

lemma agent_command_words:
  "sh_words (agent_command config entrypoint cmd)
     = Some (if run_argv config entrypoint cmd = [] then [''sh''] else run_argv config entrypoint cmd)"
  by (cases config) (simp_all add: agent_command_def run_argv_def from_image_config_def from_imageless_def words_of_quoted)

definition run_as_word :: "run_as \<Rightarrow> bool" where
  "run_as_word r \<longleftrightarrow> cmdline_word (ra_user r) \<and> (case ra_group r of Some grp \<Rightarrow> cmdline_word grp | None \<Rightarrow> True)"

definition session_word :: "(string \<times> string) option \<Rightarrow> bool" where
  "session_word session \<longleftrightarrow> pred_option (\<lambda>(url, token). cmdline_word url \<and> cmdline_word token) session"

lemma show_nat_word: "cmdline_word (show_nat n)"
  by (auto simp: cmdline_word_def list_all_iff byte_is_whitespace_def is_ascii_digit_def dest!: show_nat_set)

definition kernel_keys :: "string list" where
  "kernel_keys = [''LENS_SANDBOX_WS_URL'', ''LENS_SANDBOX_TOKEN'', ''SANDBOX_USER'', ''SANDBOX_UID'', ''SANDBOX_GROUP'',
     ''LENS_SANDBOX_USER'', ''AGENT_COMMAND_B64'', ''PATH'']"

lemma kernel_keys_ok: "list_all (\<lambda>k. CHR ''='' \<notin> set k \<and> \<not> reserved_key k \<and> cmdline_word k) kernel_keys"
  by code_simp

lemma guest_path_word: "cmdline_word GUEST_DEFAULT_PATH"
  by code_simp

lemma exec_for_run_entries:
  assumes "run_as_word r" "session_word session" "(k, v) \<in> set (exec_for_run r entrypoint cmd config session)"
  shows "k \<in> set kernel_keys \<and> cmdline_word v"
  using assms unfolding exec_for_run_def exec_server_def exec_from_image_config_def
  by (auto simp: kernel_keys_def run_as_word_def session_word_def base64_word show_nat_word guest_path_word
      byte_is_whitespace_def split: option.splits)

lemma exec_for_run_ok: "run_as_word r \<Longrightarrow> session_word session \<Longrightarrow> env_ok (exec_for_run r entrypoint cmd config session)"
  using exec_for_run_entries [of r session] kernel_keys_ok by (fastforce simp: env_ok_def list_all_iff)

lemma exec_for_run_command:
  "filter (\<lambda>(k, v). k = ''AGENT_COMMAND_B64'') (exec_for_run r entrypoint cmd config session)
     = [(''AGENT_COMMAND_B64'', base64_encode (agent_command config entrypoint cmd))]"
  by (simp add: exec_for_run_def exec_server_def exec_from_image_config_def split: option.splits)

lemma not_the_command:
  "p \<in> set (head_parts console pci content_tag sha debug) \<Longrightarrow> \<not> starts_with ''AGENT_COMMAND_B64='' p"
  "\<not> starts_with ''AGENT_COMMAND_B64='' (volume_key_value i fv)"
  "p \<in> set (bind_parts ib) \<Longrightarrow> \<not> starts_with ''AGENT_COMMAND_B64='' p"
  by (auto simp: head_parts_def starts_with_def volume_key_value_def bind_parts_def Let_def
      split: prod.splits option.splits if_splits)

lemma command_entry:
  "k \<in> set kernel_keys \<Longrightarrow> starts_with ''AGENT_COMMAND_B64='' (k @ ''='' @ v) \<longleftrightarrow> k = ''AGENT_COMMAND_B64''"
  by (auto simp: kernel_keys_def starts_with_def)

lemma filter_map_eq: "(\<And>x. x \<in> set xs \<Longrightarrow> P (f x) = Q x) \<Longrightarrow> filter P (map f xs) = map f (filter Q xs)"
  by (induction xs) auto

section \<open>Properties\<close>


definition sample_run_as :: run_as where
  "sample_run_as = resolve_run_as None None None (Some ''app:staff'')"

definition sample_config :: config_file where
  "sample_config = Some \<lparr>ic_entrypoint = Some [''/bin/tool''], ic_cmd = Some [''serve''], ic_user = Some ''app:staff''\<rparr>"



end
