(* ===== verification/Run_Registry.thy ===== *)
theory Run_Registry
  imports Mount_Spec Workload_Env
begin

text \<open>
  The service's list of runs, \<open>crates/lns-service/src/run_registry.rs\<close>, with the names it generates
  (\<open>run_name.rs\<close>), the record a stopped run leaves (\<open>run_record.rs\<close>) and the parts of the socket
  protocol it reports in. The statics behind their mutexes are one record; a map that was never
  touched is the empty one. Channels, sessions and transports are shared objects, known by a number.
  The order of a hash map's entries is the order of the list.
\<close>

section \<open>Runs\<close>

type_synonym object = nat

datatype protocol = Tcp_Port | Udp_Port

record port_publish =
  pp_host_ip :: string
  pp_host_port :: nat
  pp_container_port :: nat
  pp_protocol :: protocol

record packed_fileset_source =
  pf_guest_path :: string
  pf_reference :: string
  pf_digest :: string
  pf_size :: nat

record run_image_args =
  ria_image :: "string option"
  ria_resolved_image :: "string option"
  ria_mixins :: "string list"
  ria_composed_mixins :: "string list"
  ria_name :: "string option"
  ria_cpus :: nat
  ria_mem :: nat
  ria_cpus_explicit :: bool
  ria_mem_explicit :: bool
  ria_cpus_config :: "nat option"
  ria_mem_config :: "nat option"
  ria_sandbox_user :: "string option"
  ria_sandbox_uid :: "nat option"
  ria_entrypoint :: "string option"
  ria_hostname :: "string option"
  ria_cmd :: "string list"
  ria_env :: "string list"
  ria_workdir :: "string option"
  ria_debug :: bool
  ria_tty :: bool
  ria_stdin :: bool
  ria_initial_winsize :: "(nat \<times> nat) option"
  ria_detached :: bool
  ria_published_ports :: "port_publish list"
  ria_volumes :: "volume_mount list"
  ria_binds :: "bind_mount list"
  ria_auto_remove :: bool
  ria_verify_sandbox :: bool
  ria_definition :: "string option"
  ria_definition_dir :: "string option"
  ria_authored_egress :: "string option"
  ria_packed_filesets :: "packed_fileset_source list"
  ria_denied_host_paths :: "string list"

record run_config =
  rc_cpus :: nat
  rc_mem_mib :: nat
  rc_policy_path :: "string option"
  rc_sandbox_user :: "string option"
  rc_sandbox_uid :: "nat option"
  rc_entrypoint :: "string option"
  rc_hostname :: "string option"
  rc_env :: "string list"
  rc_workdir :: "string option"
  rc_published_ports :: "port_publish list"
  rc_volumes :: "volume_mount list"
  rc_binds :: "bind_mount list"
  rc_detached :: bool
  rc_auto_remove :: bool

definition from_run_args :: "run_image_args \<Rightarrow> run_config" where
  "from_run_args args =
     \<lparr>rc_cpus = ria_cpus args, rc_mem_mib = ria_mem args, rc_policy_path = None,
      rc_sandbox_user = ria_sandbox_user args, rc_sandbox_uid = ria_sandbox_uid args,
      rc_entrypoint = ria_entrypoint args, rc_hostname = ria_hostname args, rc_env = ria_env args,
      rc_workdir = ria_workdir args, rc_published_ports = ria_published_ports args, rc_volumes = ria_volumes args,
      rc_binds = ria_binds args, rc_detached = ria_detached args, rc_auto_remove = ria_auto_remove args\<rparr>"

datatype run_status = Running | Exited int

record run_record =
  rr_version :: nat
  rr_run_id :: string
  rr_name :: string
  rr_args :: run_image_args
  rr_resolved_document :: "string option"
  rr_resolved_cpus :: "nat option"
  rr_resolved_mem_mib :: "nat option"
  rr_descriptor_sha256 :: string
  rr_layer_digests :: "string list"
  rr_image :: string
  rr_command :: string
  rr_created_at :: string
  rr_started_at :: "string option"
  rr_finished_at :: "string option"
  rr_exit_code :: "int option"

text \<open>
  A detach channel is open with a receiver that is still there or gone; the log buffer matters here by
  the exit it has seen. The cancel channel and the task of a handle are used up when it is cancelled.
\<close>

record run_handle =
  rh_detach :: "bool option"
  rh_input :: "object option"
  rh_exec_sessions :: "(string, object) hmap"
  rh_connector :: "object option"
  rh_approvals :: "object option"
  rh_name :: string
  rh_image :: string
  rh_command :: string
  rh_created :: string
  rh_started :: string
  rh_status :: run_status
  rh_logs :: object
  rh_log_exit :: "int option"
  rh_config :: run_config
  rh_exec_environment :: exec_environment

datatype run_entry = Live run_handle | Stopped run_record

type_synonym runs = "(string, run_entry) hmap"

record damaged_record =
  dr_run_id :: string
  dr_reason :: string
  dr_declared_volumes :: "volume_mount list option"

record registry =
  rg_active :: runs
  rg_damaged :: "(string \<times> volume_mount list option) list"
  rg_counted :: "(string, string list) hmap"
  rg_next_name :: nat

fun entry_name :: "run_entry \<Rightarrow> string" where
  "entry_name (Live h) = rh_name h"
| "entry_name (Stopped r) = rr_name r"

fun as_live :: "run_entry \<Rightarrow> run_handle option" where
  "as_live (Live h) = Some h"
| "as_live (Stopped _) = None"

fun entry_status :: "run_entry \<Rightarrow> run_status" where
  "entry_status (Live h) = rh_status h"
| "entry_status (Stopped r) = Exited (case rr_exit_code r of Some code \<Rightarrow> code | None \<Rightarrow> - 1)"

definition is_exited :: "run_entry \<Rightarrow> bool" where
  "is_exited e = (case entry_status e of Exited _ \<Rightarrow> True | Running \<Rightarrow> False)"

section \<open>Names\<close>

definition ADJECTIVES :: "string list" where
  "ADJECTIVES = [''amber'', ''bold'', ''calm'', ''dapper'', ''eager'', ''fuzzy'', ''gentle'', ''hardy'', ''ivory'',
     ''jolly'', ''keen'', ''lucid'', ''mellow'', ''nimble'', ''olive'', ''plucky'', ''quiet'', ''rapid'', ''sleek'',
     ''tidy'', ''upbeat'', ''vivid'', ''witty'', ''zesty'']"

definition NOUNS :: "string list" where
  "NOUNS = [''otter'', ''falcon'', ''maple'', ''comet'', ''harbor'', ''lynx'', ''quartz'', ''willow'', ''ember'',
     ''badger'', ''cedar'', ''marlin'', ''puffin'', ''ridge'', ''sparrow'', ''thistle'', ''walrus'', ''yak'',
     ''zephyr'', ''beacon'', ''cypress'', ''delta'', ''grove'', ''heron'']"

definition name_for_index :: "nat \<Rightarrow> string" where
  "name_for_index i = ADJECTIVES ! (i mod length ADJECTIVES) @ ''_'' @ NOUNS ! ((i div length ADJECTIVES) mod length NOUNS)"

definition pool_size :: nat where
  "pool_size = length ADJECTIVES * length NOUNS"

definition name_holder :: "runs \<Rightarrow> string \<Rightarrow> string option" where
  "name_holder m name = map_option fst (List.find (\<lambda>(_, e). entry_name e = name) m)"

datatype name_error = Bad_Name spec_error | Name_In_Use string string

text \<open>\<open>short_run_id\<close>: the first twelve characters.\<close>

definition short_run_id :: "string \<Rightarrow> string" where
  "short_run_id run_id = concat (take 12 (utf8_slices run_id))"

definition check_name_available :: "runs \<Rightarrow> string \<Rightarrow> name_error + unit" where
  "check_name_available m name = and_then (map_err Bad_Name (validate_run_name name)) (\<lambda>_.
     case name_holder m name of
       Some holder \<Rightarrow> Inl (Name_In_Use name (short_run_id holder))
     | None \<Rightarrow> Inr ())"

definition name_free :: "runs \<Rightarrow> string list \<Rightarrow> string \<Rightarrow> bool" where
  "name_free m reserved name \<longleftrightarrow> name_holder m name = None \<and> name \<notin> set reserved"

fun try_names :: "(nat \<Rightarrow> string) \<Rightarrow> (string \<Rightarrow> bool) \<Rightarrow> nat \<Rightarrow> nat \<Rightarrow> string option \<times> nat" where
  "try_names next_name free 0 seq = (None, seq)"
| "try_names next_name free (Suc tries) seq =
     (if free (next_name seq) then (Some (next_name seq), Suc seq) else try_names next_name free tries (Suc seq))"

text \<open>No name is the panic of \<open>expect\<close>; the count of suffixes is cast to 32 bits.\<close>

definition unique_auto_name :: "runs \<Rightarrow> (nat \<Rightarrow> string) \<Rightarrow> string list \<Rightarrow> nat \<Rightarrow> string option \<times> nat" where
  "unique_auto_name m next_name reserved seq =
     (case try_names next_name (name_free m reserved) pool_size seq of
        (Some name, seq) \<Rightarrow> (Some name, seq)
      | (None, seq) \<Rightarrow>
          (List.find (name_free m reserved)
             (map (\<lambda>n. next_name seq @ ''_'' @ show_nat n) [0..<Suc ((length m + length reserved) mod 2 ^ 32)]), Suc seq))"

section \<open>Changes\<close>

definition set_active :: "(runs \<Rightarrow> runs) \<Rightarrow> registry \<Rightarrow> registry" where
  "set_active f g = g\<lparr>rg_active := f (rg_active g)\<rparr>"

definition register :: "string \<Rightarrow> run_handle \<Rightarrow> registry \<Rightarrow> registry" where
  "register run_id h = set_active (hm_insert run_id (Live h))"

definition register_stopped :: "run_record \<Rightarrow> registry \<Rightarrow> registry" where
  "register_stopped r = set_active (hm_insert (rr_run_id r) (Stopped r))"

fun rebuild_in :: "run_record list \<Rightarrow> runs \<Rightarrow> runs \<times> string list" where
  "rebuild_in [] m = (m, [])"
| "rebuild_in (r # rs) m =
     (if ria_auto_remove (rr_args r) then (let (m', doomed) = rebuild_in rs m in (m', rr_run_id r # doomed))
      else rebuild_in rs (if hm_get m (rr_run_id r) = None then hm_insert (rr_run_id r) (Stopped r) m else m))"

definition rebuild_from_records :: "run_record list \<Rightarrow> registry \<Rightarrow> registry \<times> string list" where
  "rebuild_from_records rs g = (let (m, doomed) = rebuild_in rs (rg_active g) in (g\<lparr>rg_active := m\<rparr>, doomed))"

datatype start_error = Already_Running string | No_Such_Run string

definition transition_to_live :: "string \<Rightarrow> run_handle \<Rightarrow> registry \<Rightarrow> (start_error + string) \<times> registry" where
  "transition_to_live run_id h g = (case hm_get (rg_active g) run_id of
     Some e \<Rightarrow> if is_exited e
       then (Inr (entry_name e), set_active (hm_insert run_id (Live (h\<lparr>rh_name := entry_name e\<rparr>))) g)
       else (Inl (Already_Running run_id), g)
   | None \<Rightarrow> (Inl (No_Such_Run run_id), g))"

definition remember_damaged :: "damaged_record list \<Rightarrow> registry \<Rightarrow> registry" where
  "remember_damaged ds g = g\<lparr>rg_damaged := map (\<lambda>d. (dr_run_id d, dr_declared_volumes d)) ds\<rparr>"

definition register_named_in ::
    "runs \<Rightarrow> string \<Rightarrow> string option \<Rightarrow> run_handle \<Rightarrow> (nat \<Rightarrow> string) \<Rightarrow> string list \<Rightarrow> nat
       \<Rightarrow> (name_error + string) option \<times> runs \<times> nat" where
  "register_named_in m run_id requested h next_name reserved seq = (case requested of
     Some name \<Rightarrow> (case check_name_available m name of
         Inl e \<Rightarrow> (Some (Inl e), m, seq)
       | Inr _ \<Rightarrow> (Some (Inr name), hm_insert run_id (Live (h\<lparr>rh_name := name\<rparr>)) m, seq))
   | None \<Rightarrow> (case unique_auto_name m next_name reserved seq of
         (Some name, seq) \<Rightarrow> (Some (Inr name), hm_insert run_id (Live (h\<lparr>rh_name := name\<rparr>)) m, seq)
       | (None, seq) \<Rightarrow> (None, m, seq)))"

definition register_named_avoiding ::
    "string \<Rightarrow> string option \<Rightarrow> run_handle \<Rightarrow> string list \<Rightarrow> registry \<Rightarrow> (name_error + string) option \<times> registry" where
  "register_named_avoiding run_id requested h reserved g =
     (let (res, m, seq) = register_named_in (rg_active g) run_id requested h name_for_index reserved (rg_next_name g)
      in (res, g\<lparr>rg_active := m, rg_next_name := seq\<rparr>))"

definition register_named :: "string \<Rightarrow> string option \<Rightarrow> run_handle \<Rightarrow> registry \<Rightarrow> (name_error + string) option \<times> registry" where
  "register_named run_id requested h = register_named_avoiding run_id requested h []"

definition deregister :: "string \<Rightarrow> registry \<Rightarrow> registry" where
  "deregister run_id g = g\<lparr>rg_active := hm_remove run_id (rg_active g), rg_counted := hm_remove run_id (rg_counted g)\<rparr>"

definition record_paths_counted_at_boot :: "string \<Rightarrow> string list \<Rightarrow> registry \<Rightarrow> registry" where
  "record_paths_counted_at_boot run_id paths g = g\<lparr>rg_counted := hm_insert run_id paths (rg_counted g)\<rparr>"

definition update_live :: "string \<Rightarrow> (run_handle \<Rightarrow> run_handle) \<Rightarrow> registry \<Rightarrow> registry" where
  "update_live run_id f g = (case Option.bind (hm_get (rg_active g) run_id) as_live of
     Some h \<Rightarrow> set_active (hm_insert run_id (Live (f h))) g
   | None \<Rightarrow> g)"

definition live :: "registry \<Rightarrow> string \<Rightarrow> run_handle option" where
  "live g run_id = Option.bind (hm_get (rg_active g) run_id) as_live"

definition register_exec_session :: "string \<Rightarrow> string \<Rightarrow> object \<Rightarrow> registry \<Rightarrow> bool \<times> registry" where
  "register_exec_session run_id session_id tx g =
     (live g run_id \<noteq> None,
      update_live run_id (\<lambda>h. h\<lparr>rh_exec_sessions := hm_insert session_id tx (rh_exec_sessions h)\<rparr>) g)"

definition deregister_exec_session :: "string \<Rightarrow> string \<Rightarrow> registry \<Rightarrow> bool \<times> registry" where
  "deregister_exec_session run_id session_id g =
     ((case live g run_id of Some h \<Rightarrow> hm_get (rh_exec_sessions h) session_id \<noteq> None | None \<Rightarrow> False),
      update_live run_id (\<lambda>h. h\<lparr>rh_exec_sessions := hm_remove session_id (rh_exec_sessions h)\<rparr>) g)"

definition set_approvals :: "string \<Rightarrow> object \<Rightarrow> registry \<Rightarrow> registry" where
  "set_approvals run_id session = update_live run_id (\<lambda>h. h\<lparr>rh_approvals := Some session\<rparr>)"

definition set_connector :: "string \<Rightarrow> object \<Rightarrow> registry \<Rightarrow> registry" where
  "set_connector run_id conn = update_live run_id (\<lambda>h. h\<lparr>rh_connector := Some conn\<rparr>)"

definition set_connector_with_environment :: "string \<Rightarrow> object \<Rightarrow> exec_environment \<Rightarrow> registry \<Rightarrow> registry" where
  "set_connector_with_environment run_id conn ee =
     update_live run_id (\<lambda>h. h\<lparr>rh_exec_environment := ee, rh_connector := Some conn\<rparr>)"

definition set_resolved_size :: "string \<Rightarrow> nat \<Rightarrow> nat \<Rightarrow> registry \<Rightarrow> registry" where
  "set_resolved_size run_id cpus mem_mib =
     update_live run_id (\<lambda>h. h\<lparr>rh_config := (rh_config h)\<lparr>rc_cpus := cpus, rc_mem_mib := mem_mib\<rparr>\<rparr>)"

definition set_resolved_command_and_env :: "string \<Rightarrow> string list \<Rightarrow> string list \<Rightarrow> registry \<Rightarrow> registry" where
  "set_resolved_command_and_env run_id command env =
     update_live run_id (\<lambda>h. h\<lparr>rh_command := join_with '' '' command, rh_config := (rh_config h)\<lparr>rc_env := env\<rparr>\<rparr>)"

definition set_exit_code :: "string \<Rightarrow> int \<Rightarrow> registry \<Rightarrow> registry" where
  "set_exit_code run_id code = update_live run_id (\<lambda>h. h\<lparr>rh_status := Exited code\<rparr>)"

definition mark_exited_from_log :: "string \<Rightarrow> registry \<Rightarrow> registry" where
  "mark_exited_from_log run_id =
     update_live run_id (\<lambda>h. case rh_log_exit h of Some code \<Rightarrow> h\<lparr>rh_status := Exited code\<rparr> | None \<Rightarrow> h)"

text \<open>Cancelling takes the handle out; it is sent the code 130 and its task is aborted.\<close>

definition cancel :: "string \<Rightarrow> registry \<Rightarrow> run_handle option \<times> registry" where
  "cancel run_id g = (case live g run_id of
     Some h \<Rightarrow> (Some h, set_active (hm_remove run_id) g)
   | None \<Rightarrow> (None, g))"

datatype detach_outcome = Detached | NotAttached | Detach_NotFound

definition request_detach :: "string \<Rightarrow> registry \<Rightarrow> detach_outcome \<times> registry" where
  "request_detach run_id g = (case hm_get (rg_active g) run_id of
     None \<Rightarrow> (Detach_NotFound, g)
   | Some e \<Rightarrow> (case as_live e of
       None \<Rightarrow> (NotAttached, g)
     | Some h \<Rightarrow> (case rh_detach h of
         None \<Rightarrow> (NotAttached, g)
       | Some there \<Rightarrow> (if there then Detached else NotAttached, update_live run_id (\<lambda>h. h\<lparr>rh_detach := None\<rparr>) g))))"

datatype removal = Removed run_entry | Still_Running | Remove_NotFound

definition remove_if_exited_from :: "string \<Rightarrow> runs \<Rightarrow> removal \<times> runs" where
  "remove_if_exited_from run_id m = (case hm_get m run_id of
     None \<Rightarrow> (Remove_NotFound, m)
   | Some e \<Rightarrow> if is_exited e then (Removed e, hm_remove run_id m) else (Still_Running, m))"

definition restore :: "string \<Rightarrow> run_entry \<Rightarrow> registry \<Rightarrow> registry" where
  "restore run_id e = set_active (hm_insert run_id e)"

definition prune_exited_from :: "runs \<Rightarrow> string list \<times> runs" where
  "prune_exited_from m = (let exited = map fst (filter (\<lambda>(_, e). is_exited e) m) in (exited, fold hm_remove exited m))"

section \<open>Answers\<close>

datatype resolve_error = Unknown string | Ambiguous string

definition resolve_in :: "runs \<Rightarrow> string \<Rightarrow> resolve_error + string" where
  "resolve_in m handle =
     (if handle = [] then Inl (Unknown handle)
      else if hm_get m handle \<noteq> None then Inr handle
      else (case name_holder m handle of
          Some run_id \<Rightarrow> Inr run_id
        | None \<Rightarrow> (case filter (starts_with handle) (hm_keys m) of
              [] \<Rightarrow> Inl (Unknown handle)
            | [run_id] \<Rightarrow> Inr run_id
            | _ \<Rightarrow> Inl (Ambiguous handle))))"

definition resolve_status :: "registry \<Rightarrow> string \<Rightarrow> resolve_error + (string \<times> run_status option)" where
  "resolve_status g handle = and_then (resolve_in (rg_active g) handle) (\<lambda>run_id.
     Inr (run_id, map_option entry_status (hm_get (rg_active g) run_id)))"

definition name_in :: "runs \<Rightarrow> string \<Rightarrow> string option" where
  "name_in m run_id = map_option entry_name (hm_get m run_id)"

definition paths_counted_at_boot :: "registry \<Rightarrow> string \<Rightarrow> string list option" where
  "paths_counted_at_boot g run_id = hm_get (rg_counted g) run_id"

definition is_live :: "registry \<Rightarrow> string \<Rightarrow> bool" where
  "is_live g run_id = (case hm_get (rg_active g) run_id of Some (Live _) \<Rightarrow> True | _ \<Rightarrow> False)"

definition input_sender :: "registry \<Rightarrow> string \<Rightarrow> object option" where
  "input_sender g run_id = Option.bind (live g run_id) rh_input"

datatype session_target = Primary string | Exec_Session string string

definition session_input_sender :: "registry \<Rightarrow> session_target \<Rightarrow> object option" where
  "session_input_sender g target = (case target of
     Primary run_id \<Rightarrow> input_sender g run_id
   | Exec_Session run_id session_id \<Rightarrow> Option.bind (live g run_id) (\<lambda>h. hm_get (rh_exec_sessions h) session_id))"

definition log_buffer :: "registry \<Rightarrow> string \<Rightarrow> object option" where
  "log_buffer g run_id = map_option rh_logs (live g run_id)"

definition connector_of :: "registry \<Rightarrow> string \<Rightarrow> object option" where
  "connector_of g run_id = Option.bind (live g run_id) rh_connector"

definition default_exec_environment :: exec_environment where
  "default_exec_environment = \<lparr>xe_session_env = [], xe_tools = \<lparr>tr_bin_paths = [], tr_env = []\<rparr>, xe_workdir = None,
     xe_declared_identity_keys = []\<rparr>"

definition exec_environment_of :: "registry \<Rightarrow> string \<Rightarrow> exec_environment" where
  "exec_environment_of g run_id = (case live g run_id of Some h \<Rightarrow> rh_exec_environment h | None \<Rightarrow> default_exec_environment)"

definition approvals :: "registry \<Rightarrow> string \<Rightarrow> object option" where
  "approvals g run_id = Option.bind (live g run_id) rh_approvals"

definition status_of :: "registry \<Rightarrow> string \<Rightarrow> run_status option" where
  "status_of g run_id = map_option entry_status (hm_get (rg_active g) run_id)"

record run_listing =
  rs_id :: string
  rs_name :: string
  rs_image :: string
  rs_command :: string
  rs_status :: run_status
  rs_created :: string
  rs_started :: string

definition last_boot_of :: "run_record \<Rightarrow> string" where
  "last_boot_of r = (case rr_started_at r of Some t \<Rightarrow> t | None \<Rightarrow> rr_created_at r)"

definition summary_of :: "string \<Rightarrow> run_entry \<Rightarrow> run_listing" where
  "summary_of run_id e =
     (let (img, command, created, started) = (case e of
          Live h \<Rightarrow> (rh_image h, rh_command h, rh_created h, rh_started h)
        | Stopped r \<Rightarrow> (rr_image r, rr_command r, rr_created_at r, last_boot_of r))
      in \<lparr>rs_id = run_id, rs_name = entry_name e, rs_image = img, rs_command = command, rs_status = entry_status e,
          rs_created = created, rs_started = started\<rparr>)"

definition snapshot_from :: "runs \<Rightarrow> run_listing list" where
  "snapshot_from m = map (\<lambda>(run_id, e). summary_of run_id e) m"

definition at_the_size_it_booted :: "run_record \<Rightarrow> run_config" where
  "at_the_size_it_booted r =
     (let config = from_run_args (rr_args r);
          config = (case rr_resolved_cpus r of Some cpus \<Rightarrow> config\<lparr>rc_cpus := cpus\<rparr> | None \<Rightarrow> config)
      in (case rr_resolved_mem_mib r of Some mem \<Rightarrow> config\<lparr>rc_mem_mib := mem\<rparr> | None \<Rightarrow> config))"

text \<open>The cache's path of a run's decisions file is a parameter, absent when there is no cache root.\<close>

definition with_its_decisions_file :: "(string \<Rightarrow> string) option \<Rightarrow> run_config \<Rightarrow> string \<Rightarrow> run_config" where
  "with_its_decisions_file decisions_path config run_id =
     config\<lparr>rc_policy_path := map_option (\<lambda>path. path run_id) decisions_path\<rparr>"

definition inspect :: "(string \<Rightarrow> string) option \<Rightarrow> registry \<Rightarrow> string \<Rightarrow> (run_listing \<times> run_config) option" where
  "inspect decisions_path g run_id = map_option (\<lambda>e. (summary_of run_id e,
     with_its_decisions_file decisions_path
       (case e of Live h \<Rightarrow> rh_config h | Stopped r \<Rightarrow> at_the_size_it_booted r) run_id)) (hm_get (rg_active g) run_id)"

fun declared_volumes :: "run_entry \<Rightarrow> volume_mount list" where
  "declared_volumes (Live h) = rc_volumes (rh_config h)"
| "declared_volumes (Stopped r) = ria_volumes (rr_args r)"

definition volume_holders_in :: "runs \<Rightarrow> string \<Rightarrow> string list" where
  "volume_holders_in m name =
     sort (map (\<lambda>(_, e). entry_name e) (filter (\<lambda>(_, e). list_ex (\<lambda>v. vm_name v = name) (declared_volumes e)) m))"

record volume_claims =
  vc_held_by :: "string list"
  vc_damaged :: "string list"
  vc_unreadable :: "string list"

definition claims_in :: "runs \<Rightarrow> (string \<times> volume_mount list option) list \<Rightarrow> string \<Rightarrow> volume_claims" where
  "claims_in m damaged name =
     \<lparr>vc_held_by = sort (volume_holders_in m name),
      vc_damaged = sort (map fst (filter (\<lambda>(_, vols). case vols of
        Some vs \<Rightarrow> list_ex (\<lambda>v. vm_name v = name) vs | None \<Rightarrow> False) damaged)),
      vc_unreadable = sort (map fst (filter (\<lambda>(_, vols). vols = None) damaged))\<rparr>"

definition stopped_names_in :: "runs \<Rightarrow> string list" where
  "stopped_names_in m = sort (map (\<lambda>(_, e). entry_name e) (filter (\<lambda>(_, e). is_exited e) m))"

section \<open>Records\<close>

definition CURRENT_VERSION :: nat where
  "CURRENT_VERSION = 1"

record record_scan =
  sc_records :: "run_record list"
  sc_damaged :: "damaged_record list"

text \<open>What reading a run's record gave: its bytes as \<open>serde_json\<close> parses them, no file, or an error.\<close>

datatype record_read = Record_Bytes "string + run_record" | No_Record | Unreadable string

definition scan_record :: "record_scan \<Rightarrow> string \<Rightarrow> string + run_record \<Rightarrow> record_scan" where
  "scan_record scan run_id parsed = (case parsed of
     Inr r \<Rightarrow> if rr_version r = CURRENT_VERSION then scan\<lparr>sc_records := sc_records scan @ [r]\<rparr>
       else scan\<lparr>sc_damaged := sc_damaged scan @ [\<lparr>dr_run_id = run_id,
         dr_reason = ''its record is format version '' @ show_nat (rr_version r) @ '', but this build reads version ''
           @ show_nat CURRENT_VERSION, dr_declared_volumes = Some (ria_volumes (rr_args r))\<rparr>]\<rparr>
   | Inl e \<Rightarrow> scan\<lparr>sc_damaged := sc_damaged scan @ [\<lparr>dr_run_id = run_id,
       dr_reason = ''its record does not parse: '' @ e, dr_declared_volumes = None\<rparr>]\<rparr>)"

definition scan_dir :: "record_scan \<Rightarrow> string option \<times> record_read \<Rightarrow> record_scan" where
  "scan_dir scan entry = (case entry of
     (None, _) \<Rightarrow> scan
   | (Some run_id, Record_Bytes parsed) \<Rightarrow> scan_record scan run_id parsed
   | (Some run_id, No_Record) \<Rightarrow> scan
   | (Some run_id, Unreadable e) \<Rightarrow> scan\<lparr>sc_damaged := sc_damaged scan @ [\<lparr>dr_run_id = run_id,
       dr_reason = ''its record cannot be read: '' @ e, dr_declared_volumes = None\<rparr>]\<rparr>)"

text \<open>A listing of the runs directory, a missing directory, or the error of listing it.\<close>

datatype runs_listing = Entries "(string option \<times> record_read) list" | No_Runs_Dir | Listing_Failed string

definition load_all_with :: "runs_listing \<Rightarrow> string + record_scan" where
  "load_all_with listing = (case listing of
     No_Runs_Dir \<Rightarrow> Inr \<lparr>sc_records = [], sc_damaged = []\<rparr>
   | Listing_Failed e \<Rightarrow> Inl e
   | Entries dirs \<Rightarrow> (let scan = foldl scan_dir \<lparr>sc_records = [], sc_damaged = []\<rparr> dirs
       in Inr \<lparr>sc_records = sort_key rr_run_id (sc_records scan), sc_damaged = sort_key dr_run_id (sc_damaged scan)\<rparr>))"

definition pinned_digests :: "run_record list \<Rightarrow> string set" where
  "pinned_digests rs = set (concat (map rr_layer_digests rs))"

definition mark_exited :: "run_record \<Rightarrow> int \<Rightarrow> string \<Rightarrow> run_record" where
  "mark_exited r code finished_at = r\<lparr>rr_exit_code := Some code, rr_finished_at := Some finished_at\<rparr>"

end
