(* ===== verification/Registry_Names.thy ===== *)
theory Registry_Names
  imports Run_Registry
begin

text \<open>
  What the registry keeps: identifiers and names are unique and told apart, so that every listed run is
  reached by both, through any sequence of the operations the service performs; a generated name always
  exists.
\<close>

section \<open>The invariant\<close>

definition hex_id :: "string \<Rightarrow> bool" where
  "hex_id s \<longleftrightarrow> s \<noteq> [] \<and> list_all (\<lambda>b. is_ascii_hexdigit b \<and> \<not> is_ascii_uppercase b) s"

abbreviation run_names :: "runs \<Rightarrow> string list" where
  "run_names m \<equiv> map (\<lambda>(_, e). entry_name e) m"

definition entry_ok :: "string \<times> run_entry \<Rightarrow> bool" where
  "entry_ok ie \<longleftrightarrow> hex_id (fst ie) \<and> validate_run_name (entry_name (snd ie)) = Inr ()"

definition runs_ok :: "runs \<Rightarrow> bool" where
  "runs_ok m \<longleftrightarrow> hm_wf m \<and> distinct (run_names m) \<and> list_all entry_ok m"

lemma name_holder_None: "name_holder m n = None \<longleftrightarrow> n \<notin> set (run_names m)"
  by (auto simp: name_holder_def find_None_iff)

lemma name_holder_entry:
  "distinct (run_names m) \<Longrightarrow> (run_id, e) \<in> set m \<Longrightarrow> name_holder m (entry_name e) = Some run_id"
  by (induction m) (force simp: name_holder_def split: if_splits)+

lemma valid_name_not_hex: "validate_run_name n = Inr () \<Longrightarrow> n \<noteq> [] \<and> \<not> hex_id n"
  by (auto simp: validate_run_name_def hex_id_def split: if_splits)

lemma runs_ok_nil: "runs_ok []"
  by (simp add: runs_ok_def)

lemma delete_subset: "set (hm_remove k m) \<subseteq> set m"
  by (auto simp: AList.delete_eq)

lemma names_delete: "distinct (run_names m) \<Longrightarrow> distinct (run_names (hm_remove k m))"
  by (simp add: AList.delete_eq distinct_map_filter)

lemma runs_ok_remove: "runs_ok m \<Longrightarrow> runs_ok (hm_remove k m)"
  using delete_subset [of k m] by (auto simp: runs_ok_def names_delete list_all_iff)

lemma runs_ok_new:
  assumes "runs_ok m" "hm_get m run_id = None" "entry_name e \<notin> set (run_names m)" "entry_ok (run_id, e)"
  shows "runs_ok (hm_insert run_id e m)"
proof -
  have "hm_insert run_id e m = m @ [(run_id, e)]"
    using assms(2) by (induction m) (auto split: if_splits)
  moreover have "run_id \<notin> set (hm_keys m)" using assms(2) by (simp add: map_of_eq_None_iff)
  ultimately show ?thesis using assms by (auto simp: runs_ok_def)
qed

lemma names_replace:
  "hm_get m run_id = Some e \<Longrightarrow> entry_name e' = entry_name e \<Longrightarrow> hm_wf m \<Longrightarrow> run_names (hm_insert run_id e' m) = run_names m"
  by (induction m) (auto split: if_splits)

lemma runs_ok_replace:
  assumes "runs_ok m" "hm_get m run_id = Some e" "entry_name e' = entry_name e"
  shows "runs_ok (hm_insert run_id e' m)"
proof -
  have ok: "entry_ok (run_id, e)" using assms map_of_SomeD [OF assms(2)] by (auto simp: runs_ok_def list_all_iff)
  have "set (hm_insert run_id e' m) \<subseteq> insert (run_id, e') (set m)"
    by (induction m) (auto split: if_splits)
  moreover have "entry_ok (run_id, e')" using ok assms(3) by (simp add: entry_ok_def)
  ultimately have "list_all entry_ok (hm_insert run_id e' m)"
    using assms(1) by (auto simp: runs_ok_def list_all_iff)
  then show ?thesis using assms names_replace [OF assms(2,3)] by (simp add: runs_ok_def)
qed

section \<open>Generated names\<close>

definition name_text :: "string \<Rightarrow> bool" where
  "name_text s \<longleftrightarrow> list_all (\<lambda>c. is_ascii_lowercase c \<or> is_ascii_digit c \<or> c = CHR ''_'') s"

lemma chars_plain: "name_text s \<Longrightarrow> chars s = map of_char s"
proof -
  assume "name_text s"
  then have "list_all (\<lambda>b. b < 128) (byte_codes s)"
    by (auto simp: name_text_def list_all_iff is_ascii_lowercase_def is_ascii_digit_def byte_codes_def)
  then show ?thesis by (simp add: chars_def decode_ascii) (simp add: byte_codes_def)
qed

lemma name_text_char:
  "is_ascii_lowercase c \<or> is_ascii_digit c \<or> c = CHR ''_'' \<Longrightarrow> name_char_allowed (of_char c)"
  by (elim disjE) (simp_all add: name_char_allowed_def is_ascii_lowercase_def is_ascii_digit_def)

lemma name_text_valid:
  assumes "name_text s" "CHR ''_'' \<in> set s"
  shows "validate_run_name s = Inr ()"
proof -
  have "\<not> list_all (\<lambda>b. is_ascii_hexdigit b \<and> \<not> is_ascii_uppercase b) s"
    using assms(2) by (auto simp: list_all_iff is_ascii_hexdigit_def is_ascii_digit_def intro!: bexI [of _ "CHR ''_''"])
  moreover have "List.find (\<lambda>c. \<not> name_char_allowed c) (chars s) = None"
    using assms(1) name_text_char by (auto simp: chars_plain find_None_iff name_text_def list_all_iff)
  ultimately show ?thesis using assms(2) by (auto simp: validate_run_name_def)
qed

lemma pool_text: "list_all name_text ADJECTIVES" "list_all name_text NOUNS"
  by code_simp+

lemma name_for_index_text: "name_text (name_for_index i)" "CHR ''_'' \<in> set (name_for_index i)"
proof -
  have "name_text (ADJECTIVES ! (i mod length ADJECTIVES))" "name_text (NOUNS ! ((i div length ADJECTIVES) mod length NOUNS))"
    using pool_text by (simp_all add: list_all_length ADJECTIVES_def NOUNS_def)
  then show "name_text (name_for_index i)" by (simp add: name_for_index_def name_text_def)
  show "CHR ''_'' \<in> set (name_for_index i)" by (simp add: name_for_index_def)
qed

lemma suffixed_text: "name_text (name_for_index i @ ''_'' @ show_nat n)"
  using name_for_index_text(1) [of i] show_nat_digits [of n] by (auto simp: name_text_def list_all_iff)

lemma try_names_free: "try_names next_name free tries seq = (Some n, seq') \<Longrightarrow> free n \<and> (\<exists>i. n = next_name i)"
  by (induction tries arbitrary: seq) (auto split: if_splits)

lemma show_nat_inj: "show_nat m = show_nat n \<Longrightarrow> m = n"
  by (metis dec_val_show_nat)

text \<open>Among one more candidates than there are names to avoid, one is free.\<close>

lemma some_suffix_free:
  assumes "length avoid \<le> k"
  shows "\<exists>n \<in> set [0..<Suc k]. base @ ''_'' @ show_nat n \<notin> set avoid"
proof (rule ccontr)
  let ?f = "\<lambda>n. base @ ''_'' @ show_nat n"
  assume "\<not> ?thesis"
  then have "?f ` set [0..<Suc k] \<subseteq> set avoid" by auto
  then have "card (?f ` set [0..<Suc k]) \<le> card (set avoid)" by (intro card_mono) auto
  moreover have "inj_on ?f (set [0..<Suc k])" by (rule inj_onI) (auto dest: show_nat_inj)
  then have "card (?f ` set [0..<Suc k]) = Suc k" by (simp add: card_image del: upt_Suc)
  ultimately show False using card_length [of avoid] assms by linarith
qed

lemma unique_auto_name_found:
  assumes "length m + length reserved < 2 ^ 32"
  shows "\<exists>n seq'. unique_auto_name m next_name reserved seq = (Some n, seq') \<and> name_free m reserved n
    \<and> (\<exists>i. n = next_name i \<or> (\<exists>k. n = next_name i @ ''_'' @ show_nat k))"
proof (cases "try_names next_name (name_free m reserved) pool_size seq")
  case (Pair found seq')
  show ?thesis
  proof (cases found)
    case (Some n)
    with Pair show ?thesis by (auto simp: unique_auto_name_def dest: try_names_free)
  next
    case None
    let ?candidates = "map (\<lambda>n. next_name seq' @ ''_'' @ show_nat n) [0..<Suc (length m + length reserved)]"
    from some_suffix_free [of "run_names m @ reserved" "length m + length reserved" "next_name seq'"]
    have "\<exists>n \<in> set ?candidates. name_free m reserved n"
      unfolding set_map by (auto simp: name_free_def name_holder_None simp del: upt_Suc)
    then obtain n where n: "List.find (name_free m reserved) ?candidates = Some n"
      by (metis find_None_iff not_None_eq)
    moreover have "name_free m reserved n" "n \<in> set ?candidates" using find_SomeD [OF n] by simp_all
    ultimately show ?thesis using None Pair assms
      by (auto simp: unique_auto_name_def simp del: upt_Suc)
  qed
qed

section \<open>The operations keep the invariant\<close>

lemma registered_ok:
  assumes "runs_ok m" "hm_get m run_id = None" "hex_id run_id"
    and reg: "register_named_in m run_id requested h name_for_index reserved seq = (res, m', seq')"
  shows "runs_ok m'"
proof -
  have new: "runs_ok (hm_insert run_id (Live (h\<lparr>rh_name := n\<rparr>)) m)"
    if "validate_run_name n = Inr ()" "name_holder m n = None" for n
    using that assms(1-3) by (intro runs_ok_new) (auto simp: name_holder_None entry_ok_def)
  have auto_valid: "validate_run_name n = Inr () \<and> name_holder m n = None"
    if u: "unique_auto_name m name_for_index reserved seq = (Some n, s)" for n s
  proof -
    have "name_free m reserved n \<and> (\<exists>i. n = name_for_index i \<or> (\<exists>k. n = name_for_index i @ ''_'' @ show_nat k))"
      using u by (auto simp: unique_auto_name_def dest!: try_names_free find_SomeD split: prod.splits option.splits) blast+
    then show ?thesis
      using name_for_index_text suffixed_text by (auto simp: name_free_def intro!: name_text_valid)
  qed
  show ?thesis
  proof (cases requested)
    case None
    then show ?thesis using reg assms(1) new auto_valid
      by (auto simp: register_named_in_def split: prod.splits option.splits)
  next
    case (Some n)
    then show ?thesis using reg assms(1) new
      by (auto simp: register_named_in_def check_name_available_def and_then_def map_err_def split: sum.splits option.splits)
  qed
qed

definition records_ok :: "run_record list \<Rightarrow> bool" where
  "records_ok rs \<longleftrightarrow> distinct (map rr_run_id rs) \<and> distinct (map rr_name rs)
     \<and> list_all (\<lambda>r. hex_id (rr_run_id r) \<and> validate_run_name (rr_name r) = Inr ()) rs"

lemma rebuilt_ok:
  assumes "runs_ok m" "records_ok rs" "set (map rr_name rs) \<inter> set (run_names m) = {}"
  shows "runs_ok (fst (rebuild_in rs m))"
  using assms
proof (induction rs m rule: rebuild_in.induct)
  case (2 r rs m)
  let ?m = "if hm_get m (rr_run_id r) = None then hm_insert (rr_run_id r) (Stopped r) m else m"
  have ok: "runs_ok ?m"
    using 2(3-5) runs_ok_new [of m "rr_run_id r" "Stopped r"] by (auto simp: records_ok_def entry_ok_def)
  have names: "set (run_names ?m) \<subseteq> insert (rr_name r) (set (run_names m))"
    by (induction m) (auto split: if_splits)
  have rs: "records_ok rs" "set (map rr_name rs) \<inter> set (run_names m) = {}" "rr_name r \<notin> set (map rr_name rs)"
    using 2(4,5) by (auto simp: records_ok_def)
  show ?case
  proof (cases "ria_auto_remove (rr_args r)")
    case True
    then show ?thesis using 2(1) [OF True 2(3) rs(1,2)] by (simp add: case_prod_unfold Let_def)
  next
    case False
    have "set (map rr_name rs) \<inter> set (run_names ?m) = {}" using rs(2,3) names by blast
    from 2(2) [OF False ok rs(1) this] False show ?thesis by simp
  qed
qed simp

lemma fold_remove_ok: "runs_ok m \<Longrightarrow> runs_ok (fold hm_remove ids m)"
  by (induction ids arbitrary: m) (auto intro: runs_ok_remove)

lemma updated_ok:
  assumes "runs_ok (rg_active g)" "\<And>h. rh_name (f h) = rh_name h"
  shows "runs_ok (rg_active (update_live run_id f g))"
proof (cases "Option.bind (hm_get (rg_active g) run_id) as_live")
  case (Some h)
  then have "hm_get (rg_active g) run_id = Some (Live h)"
    by (auto simp: Option.bind_eq_Some_conv elim: as_live.elims)
  then show ?thesis using Some assms by (auto simp: update_live_def set_active_def intro: runs_ok_replace)
qed (use assms in \<open>simp add: update_live_def\<close>)

section \<open>What the service does to the registry\<close>

text \<open>
  One step per call the service makes. A new run is registered under a fresh identifier; an entry is put
  back (\<open>restore\<close>) when nobody took its identifier or its name meanwhile.
\<close>

inductive registry_step :: "registry \<Rightarrow> registry \<Rightarrow> bool" where
  named: "hex_id run_id \<Longrightarrow> hm_get (rg_active g) run_id = None
    \<Longrightarrow> registry_step g (snd (register_named_avoiding run_id requested h reserved g))"
| started: "registry_step g (snd (transition_to_live run_id h g))"
| deregistered: "registry_step g (deregister run_id g)"
| damaged: "registry_step g (remember_damaged ds g)"
| counted: "registry_step g (record_paths_counted_at_boot run_id paths g)"
| session_opened: "registry_step g (snd (register_exec_session run_id session_id tx g))"
| session_closed: "registry_step g (snd (deregister_exec_session run_id session_id g))"
| approvals_set: "registry_step g (set_approvals run_id session g)"
| connector_set: "registry_step g (set_connector run_id conn g)"
| environment_set: "registry_step g (set_connector_with_environment run_id conn ee g)"
| sized: "registry_step g (set_resolved_size run_id cpus mem_mib g)"
| resolved: "registry_step g (set_resolved_command_and_env run_id command env g)"
| exited: "registry_step g (set_exit_code run_id code g)"
| exited_from_log: "registry_step g (mark_exited_from_log run_id g)"
| cancelled: "registry_step g (snd (cancel run_id g))"
| detached: "registry_step g (snd (request_detach run_id g))"
| removed: "registry_step g (set_active (\<lambda>m. snd (remove_if_exited_from run_id m)) g)"
| restored: "hm_get (rg_active g) run_id = None \<Longrightarrow> entry_ok (run_id, e)
    \<Longrightarrow> name_holder (rg_active g) (entry_name e) = None \<Longrightarrow> registry_step g (restore run_id e g)"
| pruned: "registry_step g (set_active (\<lambda>m. snd (prune_exited_from m)) g)"

definition empty_registry :: registry where
  "empty_registry = \<lparr>rg_active = [], rg_damaged = [], rg_counted = [], rg_next_name = 0\<rparr>"

inductive reachable_registry :: "registry \<Rightarrow> bool" where
  boot: "records_ok rs \<Longrightarrow> reachable_registry (fst (rebuild_from_records rs empty_registry))"
| step: "reachable_registry g \<Longrightarrow> registry_step g g' \<Longrightarrow> reachable_registry g'"

lemma transition_ok: "runs_ok (rg_active g) \<Longrightarrow> runs_ok (rg_active (snd (transition_to_live run_id h g)))"
  by (auto simp: transition_to_live_def set_active_def intro: runs_ok_replace split: option.splits)

lemma detach_ok: "runs_ok (rg_active g) \<Longrightarrow> runs_ok (rg_active (snd (request_detach run_id g)))"
  by (auto simp: request_detach_def intro!: updated_ok split: option.splits)

lemma remove_ok: "runs_ok m \<Longrightarrow> runs_ok (snd (remove_if_exited_from run_id m))"
  by (auto simp: remove_if_exited_from_def runs_ok_remove split: option.splits)

lemma cancel_ok: "runs_ok (rg_active g) \<Longrightarrow> runs_ok (rg_active (snd (cancel run_id g)))"
  by (auto simp: cancel_def set_active_def runs_ok_remove split: option.splits)

lemma registry_step_ok: "registry_step g g' \<Longrightarrow> runs_ok (rg_active g) \<Longrightarrow> runs_ok (rg_active g')"
proof (induction rule: registry_step.induct)
  case (named run_id g requested h reserved)
  then show ?case
    by (auto simp: register_named_avoiding_def split: prod.splits intro: registered_ok)
next
  case (restored g run_id e)
  then show ?case by (auto simp: restore_def set_active_def name_holder_None intro: runs_ok_new)
qed (auto simp: deregister_def remember_damaged_def record_paths_counted_at_boot_def register_exec_session_def
  deregister_exec_session_def set_approvals_def set_connector_def set_connector_with_environment_def
  set_resolved_size_def set_resolved_command_and_env_def set_exit_code_def mark_exited_from_log_def
  set_active_def prune_exited_from_def Let_def fold_remove_ok runs_ok_remove transition_ok detach_ok remove_ok cancel_ok
  intro!: updated_ok split: option.splits)

lemma reachable_registry_ok: "reachable_registry g \<Longrightarrow> runs_ok (rg_active g)"
proof (induction rule: reachable_registry.induct)
  case (boot rs)
  then show ?case using rebuilt_ok [of "[]" rs]
    by (simp add: rebuild_from_records_def empty_registry_def runs_ok_nil case_prod_unfold Let_def)
qed (auto intro: registry_step_ok)

section \<open>Every run is reached\<close>

lemma resolve_listed: "hex_id run_id \<Longrightarrow> hm_get m run_id = Some e \<Longrightarrow> resolve_in m run_id = Inr run_id"
  by (simp add: resolve_in_def hex_id_def)

lemma resolve_named:
  assumes "runs_ok m" "hm_get m run_id = Some e"
  shows "resolve_in m (entry_name e) = Inr run_id"
proof -
  have e: "(run_id, e) \<in> set m" "distinct (run_names m)" using assms by (auto simp: runs_ok_def dest: map_of_SomeD)
  then have "validate_run_name (entry_name e) = Inr ()" using assms by (force simp: runs_ok_def list_all_iff entry_ok_def)
  from valid_name_not_hex [OF this] have "entry_name e \<noteq> []" "hm_get m (entry_name e) = None"
    using assms(1) by (force simp: runs_ok_def list_all_iff entry_ok_def dest: map_of_SomeD intro: option.exhaust)+
  then show ?thesis using name_holder_entry [OF e(2,1)] by (simp add: resolve_in_def)
qed

lemma member_of_short: "x \<in> set xs \<Longrightarrow> xs \<noteq> [] \<and> (\<forall>y. xs = [y] \<longrightarrow> y = x)"
  by auto

lemma resolve_abbreviated:
  assumes "runs_ok m" "hm_get m run_id = Some e" "p \<noteq> []" "starts_with p run_id"
  shows "resolve_in m p = (if hm_get m p \<noteq> None then Inr p
    else if filter (starts_with p) (hm_keys m) = [run_id] then Inr run_id else Inl (Ambiguous p))"
proof -
  have e: "(run_id, e) \<in> set m" using assms(2) by (rule map_of_SomeD)
  then have "hex_id run_id" using assms(1) by (auto simp: runs_ok_def list_all_iff entry_ok_def)
  then have "hex_id p" using assms(3,4) set_take_subset [of "length p" run_id]
    by (auto simp: hex_id_def list_all_iff starts_with_def)
  then have "p \<notin> set (run_names m)"
    using assms(1) valid_name_not_hex by (force simp: runs_ok_def list_all_iff entry_ok_def)
  then have none: "name_holder m p = None" by (simp add: name_holder_None)
  have "run_id \<in> set (filter (starts_with p) (hm_keys m))" 
    using assms(4) imageI [OF e, of fst] by simp
  note member_of_short [OF this]
  then show ?thesis using none assms(3)
    by (cases "hm_get m p"; cases "filter (starts_with p) (hm_keys m)" rule: remdups_adj.cases)
       (simp_all add: resolve_in_def)
qed


text \<open>
  A new run always gets a name. Without a request it is a fresh one of the generator, neither held
  nor reserved, however many runs there are below the 32-bit count (so the generator's \<open>expect\<close> never
  panics); a requested one is given when it is well formed and free, and refused, with the registry as it
  was, otherwise. The other runs keep their entries.
\<close>

theorem new_run_is_named:
  assumes "reachable_registry g" "hex_id run_id" "hm_get (rg_active g) run_id = None"
    and "length (rg_active g) + length reserved < 2 ^ 32"
    and "register_named_avoiding run_id requested h reserved g = (res, g')"
  shows "(case requested of
      None \<Rightarrow> \<exists>n. res = Some (Inr n) \<and> n \<notin> set reserved \<and> n \<notin> set (run_names (rg_active g))
        \<and> hm_get (rg_active g') run_id = Some (Live (h\<lparr>rh_name := n\<rparr>))
    | Some n \<Rightarrow> if validate_run_name n = Inr () \<and> n \<notin> set (run_names (rg_active g))
        then res = Some (Inr n) \<and> hm_get (rg_active g') run_id = Some (Live (h\<lparr>rh_name := n\<rparr>))
        else (\<exists>e. res = Some (Inl e)) \<and> rg_active g' = rg_active g)
    \<and> (\<forall>i. i \<noteq> run_id \<longrightarrow> hm_get (rg_active g') i = hm_get (rg_active g) i)"
proof (cases requested)
  case None
  obtain n s where n: "unique_auto_name (rg_active g) name_for_index reserved (rg_next_name g) = (Some n, s)"
    "name_free (rg_active g) reserved n"
    using unique_auto_name_found [OF assms(4), of name_for_index "rg_next_name g"] by blast
  then show ?thesis using assms(5) None
    by (auto simp: register_named_avoiding_def register_named_in_def name_free_def name_holder_None hm_simps)
next
  case (Some n)
  then show ?thesis using assms(5) name_holder_None [of "rg_active g" n]
    by (cases "name_holder (rg_active g) n"; cases "validate_run_name n")
       (auto simp: register_named_avoiding_def register_named_in_def check_name_available_def and_then_def map_err_def
         hm_simps)
qed

text \<open>
  An entry put back after another run took its name leaves two runs with one name, which is why
  \<open>restored\<close> asks for the name to be free: \<open>remove_resolved_run_with\<close> gives the name up before it deletes the
  files and does not ask.
\<close>

lemma restore_after_takeover:
  assumes "remove_if_exited_from old m = (Removed e, m')" "other \<noteq> old"
    and "register_named_in m' other (Some (entry_name e)) h next_name reserved seq = (Some (Inr n), m'', seq')"
  shows "hm_get (hm_insert old e m'') old = Some e
    \<and> (\<exists>e'. hm_get (hm_insert old e m'') other = Some e' \<and> entry_name e' = entry_name e)"
  using assms by (auto simp: register_named_in_def hm_simps split: sum.splits)

section \<open>Instances\<close>

definition sample_handle :: "string \<Rightarrow> run_handle" where
  "sample_handle img = \<lparr>rh_detach = None, rh_input = None, rh_exec_sessions = [], rh_connector = None, rh_approvals = None,
     rh_name = [], rh_image = img, rh_command = ''sh'', rh_created = ''t0'', rh_started = ''t0'', rh_status = Running,
     rh_logs = 0, rh_log_exit = None,
     rh_config = \<lparr>rc_cpus = 2, rc_mem_mib = 512, rc_policy_path = None, rc_sandbox_user = None, rc_sandbox_uid = None,
       rc_entrypoint = None, rc_hostname = None, rc_env = [], rc_workdir = None, rc_published_ports = [], rc_volumes = [],
       rc_binds = [], rc_detached = False, rc_auto_remove = False\<rparr>,
     rh_exec_environment = default_exec_environment\<rparr>"

definition sample_registry :: registry where
  "sample_registry = snd (register_named_avoiding ''0a1b'' (Some ''web'') (sample_handle ''alpine'') []
     (snd (register_named_avoiding ''0a2c'' None (sample_handle ''alpine'') [] empty_registry)))"

lemma sample_registry_eq:
  "rg_active sample_registry = [(''0a2c'', Live (sample_handle ''alpine''\<lparr>rh_name := ''amber_otter''\<rparr>)),
     (''0a1b'', Live (sample_handle ''alpine''\<lparr>rh_name := ''web''\<rparr>))]"
  by code_simp

lemma sample_ids: "hex_id ''0a1b''" "hex_id ''0a2c''" "hex_id ''7f''"
  by code_simp+

lemma empty_reachable: "reachable_registry empty_registry"
  using reachable_registry.boot [of "[]"] by (simp add: records_ok_def rebuild_from_records_def empty_registry_def)

lemma sample_registry_reachable: "reachable_registry sample_registry"
proof -
  let ?g = "snd (register_named_avoiding ''0a2c'' None (sample_handle ''alpine'') [] empty_registry)"
  have "reachable_registry ?g"
    by (rule reachable_registry.step [OF empty_reachable registry_step.named])
       (simp_all add: sample_ids empty_registry_def)
  moreover have "hm_get (rg_active ?g) ''0a1b'' = None" by code_simp
  ultimately show ?thesis unfolding sample_registry_def
    by (rule reachable_registry.step [OF _ registry_step.named [OF sample_ids(1)]])
qed


theorem new_run_is_named_witness:
  "\<exists>n. fst (register_named_avoiding ''7f'' None (sample_handle ''alpine'') [''bold_otter''] sample_registry) = Some (Inr n)
     \<and> n \<notin> {''bold_otter'', ''amber_otter'', ''web''}"
proof -
  have "hm_get (rg_active sample_registry) ''7f'' = None" "length (rg_active sample_registry) + length [''bold_otter''] < 2 ^ 32"
    by (simp_all add: sample_registry_eq)
  from new_run_is_named [OF sample_registry_reachable sample_ids(3) this prod.collapse [symmetric], of None "sample_handle ''alpine''"]
  show ?thesis by (auto simp: sample_registry_eq)
qed

end
