(* ===== verification/Run_Control.thy ===== *)
theory Run_Control
  imports Registry_Names Frames
begin

text \<open>
  The requests that act on a listed run: killing, stopping, detaching, removing and pruning, as the
  service's request handler performs them on the registry and on the run directories. Time is in
  milliseconds; the registry a request finds at a moment, the outcome of a send on a channel and of a
  directory removal are arguments.
\<close>

section \<open>Input to a session\<close>

datatype ipc_signal = Ipc_Int | Ipc_Term | Ipc_Quit | Ipc_Hup | Ipc_Winch | Ipc_Kill

fun map_signal :: "ipc_signal \<Rightarrow> signal_kind" where
  "map_signal Ipc_Int = Sig_Int"
| "map_signal Ipc_Term = Sig_Term"
| "map_signal Ipc_Quit = Sig_Quit"
| "map_signal Ipc_Hup = Sig_Hup"
| "map_signal Ipc_Winch = Sig_Winch"
| "map_signal Ipc_Kill = Sig_Kill"

datatype control_error =
    Resolve_Failed resolve_error
  | No_Active_Run string
  | No_Session session_target
  | Forward_Failed string string string
  | Detach_Failed string string string
  | Not_Attached string
  | Did_Not_Exit string nat
  | Files_Left string
  | Is_Running string
  | No_Run string

datatype response =
    Acknowledged
  | CancelAccepted
  | DetachAccepted
  | RunStopped bool
  | RunInspect "run_listing \<times> run_config"
  | RunUnknown string
  | RunsPruned "string list"
  | Error control_error

text \<open>A send gives the error of a closed channel, or nothing.\<close>

type_synonym deliver = "object \<Rightarrow> session_input \<Rightarrow> string option"

fun target_run_id :: "session_target \<Rightarrow> string" where
  "target_run_id (Primary run_id) = run_id"
| "target_run_id (Exec_Session run_id _) = run_id"

definition forward_target_input :: "deliver \<Rightarrow> registry \<Rightarrow> session_target \<Rightarrow> session_input \<Rightarrow> string \<Rightarrow> response" where
  "forward_target_input deliver g target inp kind = (case session_input_sender g target of
     None \<Rightarrow> Error (No_Session target)
   | Some tx \<Rightarrow> (case deliver tx inp of
       None \<Rightarrow> Acknowledged
     | Some e \<Rightarrow> Error (Forward_Failed kind (target_run_id target) e)))"

definition forward_session_input :: "deliver \<Rightarrow> registry \<Rightarrow> string \<Rightarrow> session_input \<Rightarrow> string \<Rightarrow> response" where
  "forward_session_input deliver g run_id inp kind = forward_target_input deliver g (Primary run_id) inp kind"

definition session_input_from_stdin :: "bytes \<Rightarrow> session_input" where
  "session_input_from_stdin bs = In_StdinBytes bs"

definition session_input_from_resize :: "16 word \<Rightarrow> 16 word \<Rightarrow> session_input" where
  "session_input_from_resize r c = In_Resize r c"

definition session_input_from_signal :: "ipc_signal \<Rightarrow> session_input" where
  "session_input_from_signal sig = In_Signal (map_signal sig)"

definition handle_session_detach :: "deliver \<Rightarrow> session_target \<Rightarrow> registry \<Rightarrow> response \<times> registry" where
  "handle_session_detach deliver target g = (case target of
     Primary run_id \<Rightarrow> (case request_detach run_id g of
         (Detached, g') \<Rightarrow> (DetachAccepted, g')
       | (NotAttached, g') \<Rightarrow> (Error (Not_Attached run_id), g')
       | (Detach_NotFound, g') \<Rightarrow> (Error (No_Active_Run run_id), g'))
   | Exec_Session run_id session_id \<Rightarrow> (case session_input_sender g target of
         None \<Rightarrow> (Error (No_Session target), g)
       | Some tx \<Rightarrow>
           ((case deliver tx In_Detach of
               None \<Rightarrow> DetachAccepted
             | Some e \<Rightarrow> Error (Detach_Failed session_id run_id e)),
            snd (deregister_exec_session run_id session_id g))))"

definition register_exec_input :: "string \<Rightarrow> string \<Rightarrow> object \<Rightarrow> registry \<Rightarrow> (control_error + string) \<times> registry" where
  "register_exec_input allocated run_id tx g = (case register_exec_session run_id allocated tx g of
     (True, g') \<Rightarrow> (Inr allocated, g')
   | (False, g') \<Rightarrow> (Inl (No_Active_Run run_id), g'))"

definition cancel_request :: "string \<Rightarrow> registry \<Rightarrow> response \<times> registry" where
  "cancel_request run_id g = (case cancel run_id g of
     (Some _, g') \<Rightarrow> (CancelAccepted, g')
   | (None, g') \<Rightarrow> (Error (No_Active_Run run_id), g'))"

definition kill_resolved :: "deliver \<Rightarrow> registry \<Rightarrow> string \<Rightarrow> ipc_signal \<Rightarrow> response" where
  "kill_resolved deliver g run_id sig = (case status_of g run_id of
     None \<Rightarrow> Error (No_Active_Run run_id)
   | Some (Exited _) \<Rightarrow> Acknowledged
   | Some Running \<Rightarrow> forward_session_input deliver g run_id (session_input_from_signal sig) ''Kill'')"

definition kill_request :: "deliver \<Rightarrow> registry \<Rightarrow> string \<Rightarrow> ipc_signal \<Rightarrow> response" where
  "kill_request deliver g run sig = (case resolve_in (rg_active g) run of
     Inl e \<Rightarrow> Error (Resolve_Failed e)
   | Inr run_id \<Rightarrow> kill_resolved deliver g run_id sig)"

definition inspect_resolved :: "(string \<Rightarrow> string) option \<Rightarrow> registry \<Rightarrow> string \<Rightarrow> response" where
  "inspect_resolved decisions_path g run_id = (case inspect decisions_path g run_id of
     Some details \<Rightarrow> RunInspect details
   | None \<Rightarrow> RunUnknown run_id)"

definition inspect_run_request :: "(string \<Rightarrow> string) option \<Rightarrow> registry \<Rightarrow> string \<Rightarrow> response" where
  "inspect_run_request decisions_path g run = (case resolve_in (rg_active g) run of
     Inr run_id \<Rightarrow> inspect_resolved decisions_path g run_id
   | Inl (Unknown handle) \<Rightarrow> RunUnknown handle
   | Inl ambiguous \<Rightarrow> Error (Resolve_Failed ambiguous))"

section \<open>Stopping\<close>

definition KILL_GRACE :: nat where
  "KILL_GRACE = 5 * 1000"

definition EXIT_POLL_INTERVAL :: nat where
  "EXIT_POLL_INTERVAL = 50"

fun has_exited :: "run_status option \<Rightarrow> bool" where
  "has_exited None = True"
| "has_exited (Some (Exited _)) = True"
| "has_exited (Some Running) = False"

text \<open>
  The loop of \<open>wait_for_exit\<close>: \<open>status_at\<close> is what the registry answers at a moment and \<open>wake\<close> when a sleep
  that starts then is over, at least the interval later. The moment of the last look is part of the answer.
\<close>

function poll_exit :: "(nat \<Rightarrow> run_status option) \<Rightarrow> (nat \<Rightarrow> nat) \<Rightarrow> nat \<Rightarrow> nat \<Rightarrow> bool \<times> nat" where
  "poll_exit status_at wake deadline t =
     (if has_exited (status_at t) then (True, t)
      else if deadline \<le> t then (False, t)
      else poll_exit status_at wake deadline (max (wake t) (t + EXIT_POLL_INTERVAL)))"
  by pat_completeness auto
termination
  by (relation "measure (\<lambda>(_, _, deadline, t). deadline - t)") (auto simp: EXIT_POLL_INTERVAL_def)

definition wait_for_exit :: "(nat \<Rightarrow> run_status option) \<Rightarrow> (nat \<Rightarrow> nat) \<Rightarrow> nat \<Rightarrow> nat \<Rightarrow> bool \<times> nat" where
  "wait_for_exit status_at wake timeout t = poll_exit status_at wake (t + timeout) t"

text \<open>
  The answer, the signals sent with the moment of each, and the moment of the answer. A send gives its
  response and the moment it is done.
\<close>

type_synonym signaller = "nat \<Rightarrow> ipc_signal \<Rightarrow> response \<times> nat"

fun error_of :: "response \<Rightarrow> control_error option" where
  "error_of (Error e) = Some e"
| "error_of _ = None"

definition stop_run_with ::
    "(nat \<Rightarrow> run_status option) \<Rightarrow> (nat \<Rightarrow> nat) \<Rightarrow> signaller \<Rightarrow> string \<Rightarrow> nat \<Rightarrow> nat \<Rightarrow> nat
       \<Rightarrow> response \<times> (nat \<times> ipc_signal) list \<times> nat" where
  "stop_run_with status_at wake send_signal run_id timeout kill_grace t = (case status_at t of
     None \<Rightarrow> (Error (No_Active_Run run_id), [], t)
   | Some (Exited _) \<Rightarrow> (RunStopped False, [], t)
   | Some Running \<Rightarrow> (case send_signal t Ipc_Term of (told, t1) \<Rightarrow> (case error_of told of
       Some e \<Rightarrow> (Error e, [(t, Ipc_Term)], t1)
     | None \<Rightarrow> (case wait_for_exit status_at wake timeout t1 of (exited, t2) \<Rightarrow>
         if exited then (RunStopped False, [(t, Ipc_Term)], t2)
         else (case send_signal t2 Ipc_Kill of (told, t3) \<Rightarrow> (case error_of told of
           Some e \<Rightarrow> (Error e, [(t, Ipc_Term), (t2, Ipc_Kill)], t3)
         | None \<Rightarrow> (case wait_for_exit status_at wake kill_grace t3 of (exited, t4) \<Rightarrow>
             if exited then (RunStopped True, [(t, Ipc_Term), (t2, Ipc_Kill)], t4)
             else (Error (Did_Not_Exit run_id kill_grace), [(t, Ipc_Term), (t2, Ipc_Kill)], t4))))))))"

definition stop_run_request ::
    "deliver \<Rightarrow> (nat \<Rightarrow> registry) \<Rightarrow> (nat \<Rightarrow> nat) \<Rightarrow> string \<Rightarrow> nat \<Rightarrow> nat
       \<Rightarrow> response \<times> (nat \<times> ipc_signal) list \<times> nat" where
  "stop_run_request deliver registry_at wake run timeout_secs t = (case resolve_in (rg_active (registry_at t)) run of
     Inl e \<Rightarrow> (Error (Resolve_Failed e), [], t)
   | Inr run_id \<Rightarrow> stop_run_with (\<lambda>t. status_of (registry_at t) run_id) wake
       (\<lambda>t sig. (forward_session_input deliver (registry_at t) run_id (session_input_from_signal sig) ''StopRun'', t))
       run_id (timeout_secs * 1000) KILL_GRACE t)"

section \<open>Removing\<close>

text \<open>The run directories by run, each with what reading its record gives.\<close>

type_synonym run_dirs = "(string, record_read) hmap"

datatype remove_result = Dir_Removed | Dir_NotFound | Not_A_Directory | Remove_Failed

type_synonym remover = "string \<Rightarrow> run_dirs \<Rightarrow> remove_result \<times> run_dirs"

definition reclaim_run_dir :: "remover \<Rightarrow> string \<Rightarrow> run_dirs \<Rightarrow> bool \<times> run_dirs" where
  "reclaim_run_dir remover run_id d = (case remover run_id d of (r, d') \<Rightarrow> (r \<noteq> Remove_Failed, d'))"

text \<open>
  \<open>stopped\<close> is the answer of the stop that a forced removal starts with, and \<open>meanwhile\<close> what other requests
  do to the registry while the files are deleted. The last part of the result is what \<open>note_removed\<close> is told.
\<close>

definition remove_resolved_run_with ::
    "remover \<Rightarrow> response \<Rightarrow> (runs \<Rightarrow> runs) \<Rightarrow> string \<Rightarrow> string \<Rightarrow> bool \<Rightarrow> runs \<Rightarrow> run_dirs
       \<Rightarrow> response \<times> runs \<times> run_dirs \<times> (string \<times> bool) list" where
  "remove_resolved_run_with remover stopped meanwhile run_id run force m d =
     (case if force then error_of stopped else None of
        Some e \<Rightarrow> (Error e, m, d, [])
      | None \<Rightarrow> (case remove_if_exited_from run_id m of
          (Removed e, m') \<Rightarrow> (case reclaim_run_dir remover run_id d of
              (True, d') \<Rightarrow> (Acknowledged, meanwhile m', d', [(run_id, force)])
            | (False, d') \<Rightarrow> (Error (Files_Left run_id), hm_insert run_id e (meanwhile m'), d', []))
        | (Still_Running, m') \<Rightarrow> (Error (Is_Running run), m', d, [])
        | (Remove_NotFound, m') \<Rightarrow> (Error (No_Run run_id), m', d, [])))"

definition remove_run_with ::
    "remover \<Rightarrow> (string \<Rightarrow> response) \<Rightarrow> (runs \<Rightarrow> runs) \<Rightarrow> string \<Rightarrow> bool \<Rightarrow> runs \<Rightarrow> run_dirs
       \<Rightarrow> response \<times> runs \<times> run_dirs \<times> (string \<times> bool) list" where
  "remove_run_with remover stop meanwhile run force m d = (case resolve_in m run of
     Inl e \<Rightarrow> (Error (Resolve_Failed e), m, d, [])
   | Inr run_id \<Rightarrow> remove_resolved_run_with remover (stop run_id) meanwhile run_id run force m d)"

section \<open>Pruning\<close>

definition reclaim_all :: "remover \<Rightarrow> string list \<Rightarrow> run_dirs \<Rightarrow> run_dirs" where
  "reclaim_all remover ids d = fold (\<lambda>run_id d. snd (reclaim_run_dir remover run_id d)) ids d"

text \<open>
  The sweep over the listed directories. \<open>known\<close> are the runs of the snapshot and \<open>later\<close> is what the
  registry answers for a run when the sweep reaches it.
\<close>

fun sweep_orphans ::
    "remover \<Rightarrow> string list \<Rightarrow> (string \<Rightarrow> run_status option) \<Rightarrow> (string option \<times> record_read) list
       \<Rightarrow> string list \<Rightarrow> run_dirs \<Rightarrow> string list \<times> run_dirs" where
  "sweep_orphans remover known later [] removed d = (removed, d)"
| "sweep_orphans remover known later ((None, _) # dirs) removed d = sweep_orphans remover known later dirs removed d"
| "sweep_orphans remover known later ((Some run_id, r) # dirs) removed d =
     (if run_id \<in> set known \<or> run_id \<in> set removed then sweep_orphans remover known later dirs removed d
      else if r = No_Record \<and> later run_id = None
        then sweep_orphans remover known later dirs (removed @ [run_id]) (snd (reclaim_run_dir remover run_id d))
      else sweep_orphans remover known later dirs removed d)"

text \<open>\<open>meanwhile\<close> is what other requests do to the registry between the pruning and the snapshot.\<close>

definition prune_runs_with ::
    "remover \<Rightarrow> (runs \<Rightarrow> runs) \<Rightarrow> (string \<Rightarrow> run_status option) \<Rightarrow> runs_listing \<Rightarrow> runs \<Rightarrow> run_dirs
       \<Rightarrow> response \<times> runs \<times> run_dirs \<times> string list option" where
  "prune_runs_with remover meanwhile later listing m d =
     (let (removed, m) = prune_exited_from m;
          d = reclaim_all remover removed d;
          m = meanwhile m;
          known = map rs_id (snapshot_from m);
          (removed, d) = (case listing of
             Entries dirs \<Rightarrow> sweep_orphans remover known later dirs removed d
           | _ \<Rightarrow> (removed, d))
      in (RunsPruned removed, m, d, if removed \<noteq> [] then Some removed else None))"

definition ids_a_boot_keeps :: "run_listing list \<Rightarrow> damaged_record list \<Rightarrow> string set" where
  "ids_a_boot_keeps rebuilt damaged = set (map rs_id rebuilt @ map dr_run_id damaged)"

section \<open>A stop\<close>

declare poll_exit.simps [simp del]

lemma poll_exit_result:
  "poll_exit status_at wake deadline t = (b, t') \<Longrightarrow> t \<le> t' \<and> (b \<longleftrightarrow> has_exited (status_at t')) \<and> (\<not> b \<longrightarrow> deadline \<le> t')"
proof (induction status_at wake deadline t rule: poll_exit.induct)
  case (1 status_at wake deadline t)
  show ?case
  proof (cases "has_exited (status_at t) \<or> deadline \<le> t")
    case True
    then show ?thesis using 1(2) by (subst (asm) poll_exit.simps) (auto split: if_splits)
  next
    case False
    then have "poll_exit status_at wake deadline (max (wake t) (t + EXIT_POLL_INTERVAL)) = (b, t')"
      using 1(2) by (subst (asm) poll_exit.simps) simp
    then show ?thesis using 1(1) False by auto
  qed
qed

lemma poll_exit_bound:
  assumes "\<And>t. wake t \<le> t + EXIT_POLL_INTERVAL + lag"
  shows "snd (poll_exit status_at wake deadline t) \<le> max t (deadline + EXIT_POLL_INTERVAL + lag)"
  using assms
proof (induction status_at wake deadline t rule: poll_exit.induct)
  case (1 status_at wake deadline t)
  show ?case
  proof (cases "has_exited (status_at t) \<or> deadline \<le> t")
    case True
    then show ?thesis by (subst poll_exit.simps) auto
  next
    case False
    then have "snd (poll_exit status_at wake deadline (max (wake t) (t + EXIT_POLL_INTERVAL)))
        \<le> max (max (wake t) (t + EXIT_POLL_INTERVAL)) (deadline + EXIT_POLL_INTERVAL + lag)"
      using 1 by blast
    also have "\<dots> \<le> deadline + EXIT_POLL_INTERVAL + lag" using False 1(2) [of t] by auto
    finally show ?thesis using False by (subst poll_exit.simps) simp
  qed
qed

text \<open>The ways a stop can end.\<close>

lemma stop_cases:
  assumes "stop_run_with status_at wake send_signal run_id timeout kill_grace t = (r, sent, t')"
  obtains (unlisted) "status_at t = None" "r = Error (No_Active_Run run_id)" "sent = []" "t' = t"
  | (exited) code where "status_at t = Some (Exited code)" "r = RunStopped False" "sent = []" "t' = t"
  | (untold) told e where "send_signal t Ipc_Term = (told, t')" "error_of told = Some e" "r = Error e" "sent = [(t, Ipc_Term)]"
  | (told) told t1 where "send_signal t Ipc_Term = (told, t1)" "error_of told = None"
      "poll_exit status_at wake (t1 + timeout) t1 = (True, t')" "r = RunStopped False" "sent = [(t, Ipc_Term)]"
  | (unkilled) told t1 t2 told' e where "send_signal t Ipc_Term = (told, t1)" "error_of told = None"
      "poll_exit status_at wake (t1 + timeout) t1 = (False, t2)" "send_signal t2 Ipc_Kill = (told', t')"
      "error_of told' = Some e" "r = Error e" "sent = [(t, Ipc_Term), (t2, Ipc_Kill)]"
  | (killed) told t1 t2 told' t3 b where "send_signal t Ipc_Term = (told, t1)" "error_of told = None"
      "poll_exit status_at wake (t1 + timeout) t1 = (False, t2)" "send_signal t2 Ipc_Kill = (told', t3)"
      "poll_exit status_at wake (t3 + kill_grace) t3 = (b, t')" "sent = [(t, Ipc_Term), (t2, Ipc_Kill)]"
      "r = (if b then RunStopped True else Error (Did_Not_Exit run_id kill_grace))"
  using assms unfolding stop_run_with_def wait_for_exit_def
  by (auto split: option.splits run_status.splits prod.splits if_splits)

lemma not_exited: "\<not> has_exited x \<Longrightarrow> x = Some Running"
  by (cases x rule: has_exited.cases) simp_all

text \<open>
  C29: \<open>stop_run_with\<close> says a run stopped only when the registry shows it exited or gone at that moment, and
  says it was forced exactly when a kill was sent. It sends at most a termination and then a kill, and
  kills only a run that is still running once the whole timeout has passed.
\<close>

theorem stop_escalates_at_the_deadline:
  assumes "\<And>t sig. t \<le> snd (send_signal t sig)"
    and "stop_run_with status_at wake send_signal run_id timeout kill_grace t = (r, sent, t')"
  shows "(\<forall>forced. r = RunStopped forced \<longrightarrow> has_exited (status_at t') \<and> (forced \<longleftrightarrow> Ipc_Kill \<in> snd ` set sent))
    \<and> map snd sent \<in> {[], [Ipc_Term], [Ipc_Term, Ipc_Kill]}
    \<and> (\<forall>k. (k, Ipc_Kill) \<in> set sent \<longrightarrow> t + timeout \<le> k \<and> status_at k = Some Running)"
  using assms(2)
proof (cases rule: stop_cases)
  case (told x t1)
  from poll_exit_result [OF told(3)] told show ?thesis by simp
next
  case (unkilled x t1 t2 x' e)
  from poll_exit_result [OF unkilled(3)] assms(1) [of t Ipc_Term] unkilled show ?thesis
    by (auto intro: not_exited)
next
  case (killed x t1 t2 x' t3 b)
  from poll_exit_result [OF killed(3)] poll_exit_result [OF killed(5)] assms(1) [of t Ipc_Term] killed show ?thesis
    by (auto intro: not_exited split: if_splits)
qed simp_all

text \<open>
  A stop answers in bounded time, when the channel takes a signal within \<open>d\<close> and sleeps end within \<open>lag\<close>
  of the poll interval; and a run that exits for good before the timeout is reported stopped without
  being killed.
\<close>

theorem stop_answers:
  assumes "\<And>t. wake t \<le> t + EXIT_POLL_INTERVAL + lag" "\<And>t sig. t \<le> snd (send_signal t sig) \<and> snd (send_signal t sig) \<le> t + d"
    and "stop_run_with status_at wake send_signal run_id timeout kill_grace t = (r, sent, t')"
  shows "t' \<le> t + timeout + kill_grace + 2 * (EXIT_POLL_INTERVAL + lag + d)
    \<and> (status_at t \<noteq> None \<and> (\<forall>i sig e. fst (send_signal i sig) \<noteq> Error e) \<and> (\<forall>i \<ge> t + timeout. has_exited (status_at i))
        \<longrightarrow> r = RunStopped False \<and> Ipc_Kill \<notin> snd ` set sent)"
proof -
  have send: "t1 \<le> t + d \<and> t \<le> t1" if "send_signal t sig = (x, t1)" for t t1 sig x
    using assms(2) [of t sig] that by simp
  have wait: "t2 \<le> t1 + for_long + EXIT_POLL_INTERVAL + lag" if "poll_exit status_at wake (t1 + for_long) t1 = (b, t2)"
    for t1 t2 for_long b
    using poll_exit_bound [OF assms(1), of status_at "t1 + for_long" t1] that by simp
  have late: "\<not> has_exited (status_at t2) \<and> t + timeout \<le> t2"
    if "poll_exit status_at wake (t1 + timeout) t1 = (False, t2)" "t \<le> t1" for t1 t2
    using poll_exit_result [OF that(1)] that(2) by auto
  have failing: "\<exists>e. told = Error e" if "error_of told = Some e" for told e
    using that by (cases told) simp_all
  from assms(3) show ?thesis
  proof (cases rule: stop_cases)
    case (untold x e)
    from send [OF untold(1)] failing [OF untold(2)] untold(1) untold show ?thesis
      by (auto intro!: exI [of _ t] exI [of _ Ipc_Term])
  next
    case (told x t1)
    from send [OF told(1)] wait [OF told(3)] told show ?thesis by auto
  next
    case (unkilled x t1 t2 x' e)
    from send [OF unkilled(1)] wait [OF unkilled(3)] send [OF unkilled(4)] late [OF unkilled(3)] show ?thesis by auto
  next
    case (killed x t1 t2 x' t3 b)
    from send [OF killed(1)] wait [OF killed(3)] send [OF killed(4)] wait [OF killed(5)] late [OF killed(3)]
    show ?thesis by auto
  qed simp_all
qed

section \<open>A removal\<close>

lemma put_back:
  assumes "runs_ok m" "hm_get m run_id = Some e"
  shows "runs_ok (hm_insert run_id e (hm_remove run_id m)) \<and> (\<forall>i. hm_get (hm_insert run_id e (hm_remove run_id m)) i = hm_get m i)"
proof
  have e: "(run_id, e) \<in> set m" "hm_wf m" "distinct (run_names m)" "entry_ok (run_id, e)"
    using assms by (auto simp: runs_ok_def list_all_iff dest: map_of_SomeD)
  have "entry_name e \<notin> set (run_names (hm_remove run_id m))"
  proof
    assume "entry_name e \<in> set (run_names (hm_remove run_id m))"
    then obtain j e' where j: "(j, e') \<in> set m" "j \<noteq> run_id" "entry_name e' = entry_name e"
      by (auto simp: AList.delete_eq)
    from name_holder_entry [OF e(3) j(1)] name_holder_entry [OF e(3,1)] j show False by simp
  qed
  then show "runs_ok (hm_insert run_id e (hm_remove run_id m))"
    using assms e(4) by (intro runs_ok_new) (simp_all add: runs_ok_remove hm_simps)
qed (use assms in \<open>simp add: hm_simps\<close>)

text \<open>
  A removal takes both or neither. Acknowledged, it was an exited run whose entry is gone and whose
  directory was handed to the deletion with success; refused, every run keeps its entry (also the run
  whose files could not be deleted) and nothing is recorded as removed.
\<close>

theorem remove_all_or_nothing:
  assumes "runs_ok m" "remove_run_with remover stop (\<lambda>m. m) run force m d = (r, m', d', noted)"
  shows "r = Acknowledged \<and> (\<exists>run_id e. resolve_in m run = Inr run_id \<and> hm_get m run_id = Some e \<and> is_exited e
        \<and> m' = hm_remove run_id m \<and> fst (remover run_id d) \<noteq> Remove_Failed \<and> d' = snd (remover run_id d) \<and> noted = [(run_id, force)])
    \<or> (\<exists>e. r = Error e) \<and> runs_ok m' \<and> (\<forall>i. hm_get m' i = hm_get m i) \<and> noted = []"
  using assms put_back [OF assms(1)]
  by (auto simp: remove_run_with_def remove_resolved_run_with_def remove_if_exited_from_def reclaim_run_dir_def
      split: sum.splits option.splits if_splits prod.splits bool.splits)

section \<open>A sweep\<close>

lemma fold_remove_eq: "hm_get (fold hm_remove ids m) i = (if i \<in> set ids then None else hm_get m i)"
  by (induction ids arbitrary: m) (auto simp: hm_simps)

lemma pruned_entries:
  assumes "hm_wf m" "prune_exited_from m = (removed, m')"
  shows "i \<in> set removed \<longleftrightarrow> (\<exists>e. hm_get m i = Some e \<and> is_exited e)"
    and "hm_get m' i = (case hm_get m i of Some e \<Rightarrow> if is_exited e then None else Some e | None \<Rightarrow> None)"
proof -
  have r: "removed = map fst (filter (\<lambda>(_, e). is_exited e) m)" "m' = fold hm_remove removed m"
    using assms(2) by (auto simp: prune_exited_from_def Let_def)
  show *: "i \<in> set removed \<longleftrightarrow> (\<exists>e. hm_get m i = Some e \<and> is_exited e)"
    using assms(1) unfolding r(1) by (force simp: map_of_eq_Some_iff)
  show "hm_get m' i = (case hm_get m i of Some e \<Rightarrow> if is_exited e then None else Some e | None \<Rightarrow> None)"
    unfolding r(2) fold_remove_eq * by (auto split: option.splits)
qed

lemma swept_set:
  "set (fst (sweep_orphans remover known later dirs removed d)) =
     set removed \<union> {i. (Some i, No_Record) \<in> set dirs \<and> i \<notin> set known \<and> later i = None}"
  by (induction remover known later dirs removed d rule: sweep_orphans.induct) auto

lemma reclaim_other:
  assumes "\<And>i j d. i \<noteq> j \<Longrightarrow> hm_get (snd (remover i d)) j = hm_get d j" "i \<noteq> j"
  shows "hm_get (snd (reclaim_run_dir remover i d)) j = hm_get d j"
  using assms by (simp add: reclaim_run_dir_def split: prod.splits) (metis snd_conv)

lemma reclaim_all_other:
  assumes "\<And>i j d. i \<noteq> j \<Longrightarrow> hm_get (snd (remover i d)) j = hm_get d j" "j \<notin> set ids"
  shows "hm_get (reclaim_all remover ids d) j = hm_get d j"
  using assms(2) unfolding reclaim_all_def
  by (induction ids arbitrary: d) (auto simp: reclaim_other [of remover, OF assms(1)])

lemma swept_other:
  assumes "\<And>i j d. i \<noteq> j \<Longrightarrow> hm_get (snd (remover i d)) j = hm_get d j"
  shows "j \<notin> set (fst (sweep_orphans remover known later dirs removed d)) \<Longrightarrow>
    hm_get (snd (sweep_orphans remover known later dirs removed d)) j = hm_get d j"
  using assms
proof (induction remover known later dirs removed d rule: sweep_orphans.induct)
  case (3 remover known later run_id r dirs removed d)
  show ?case
  proof (cases "run_id \<notin> set known \<and> run_id \<notin> set removed \<and> r = No_Record \<and> later run_id = None")
    case True
    then have "j \<noteq> run_id" using 3(4) by (auto simp: swept_set)
    then show ?thesis using True 3 reclaim_other [of remover run_id j d, OF 3(5)] by auto
  qed (use 3 in auto)
qed auto


text \<open>
  A prune does not look at the outcome of a deletion: a run whose directory stays is reported as removed
  and is listed again after the next start, when its record is read.
\<close>

lemma unreclaimed_run_comes_back:
  assumes "rr_version r = CURRENT_VERSION" "\<not> ria_auto_remove (rr_args r)" "rr_run_id r = i"
  shows "prune_runs_with (\<lambda>_ d. (Remove_Failed, d)) (\<lambda>m. m) (\<lambda>_. None) (Entries [(Some i, Record_Bytes (Inr r))])
      [(i, Stopped r)] [(i, Record_Bytes (Inr r))] = (RunsPruned [i], [], [(i, Record_Bytes (Inr r))], Some [i])
    \<and> (\<exists>scan. load_all_with (Entries [(Some i, Record_Bytes (Inr r))]) = Inr scan
         \<and> fst (rebuild_in (sc_records scan) []) = [(i, Stopped r)])"
  using assms
  by (simp add: prune_runs_with_def prune_exited_from_def is_exited_def reclaim_all_def reclaim_run_dir_def snapshot_from_def
      Let_def load_all_with_def scan_dir_def scan_record_def)

section \<open>Instances of the run requests\<close>

definition sample_status :: "nat \<Rightarrow> run_status option" where
  "sample_status t = (if t < 120 then Some Running else Some (Exited 0))"

lemma sample_stop:
  "stop_run_with sample_status (\<lambda>t. t + 50) (\<lambda>t _. (Acknowledged, t)) ''0a'' 100 5000 0 =
     (RunStopped True, [(0, Ipc_Term), (100, Ipc_Kill)], 150)"
  "stop_run_with sample_status (\<lambda>t. t + 50) (\<lambda>t _. (Acknowledged, t)) ''0a'' 200 5000 0 =
     (RunStopped False, [(0, Ipc_Term)], 150)"
  by (simp_all add: stop_run_with_def wait_for_exit_def sample_status_def poll_exit.simps EXIT_POLL_INTERVAL_def)

theorem stop_escalates_at_the_deadline_witness:
  "has_exited (sample_status 150) \<and> 100 \<le> (100 :: nat) \<and> sample_status 100 = Some Running"
  using stop_escalates_at_the_deadline [OF _ sample_stop(1)] by auto

theorem stop_answers_witness:
  "150 \<le> (0 :: nat) + 200 + 5000 + 2 * (EXIT_POLL_INTERVAL + 0 + 0) \<and> Ipc_Kill \<notin> snd ` set [(0 :: nat, Ipc_Term)]"
  using stop_answers [OF _ _ sample_stop(2), of 0 0] by (simp add: EXIT_POLL_INTERVAL_def sample_status_def)

definition sample_exited :: runs where
  "sample_exited = [(''0a1b'', Live (sample_handle ''alpine''\<lparr>rh_name := ''web'', rh_status := Exited 0\<rparr>)),
     (''0a2c'', Live (sample_handle ''alpine''\<lparr>rh_name := ''zz''\<rparr>))]"

definition sample_run_dirs :: run_dirs where
  "sample_run_dirs = [(''0a1b'', Unreadable ''e''), (''0a2c'', No_Record), (''ff'', No_Record), (''ee'', Unreadable ''e'')]"

definition sample_remover :: remover where
  "sample_remover i d = (Dir_Removed, hm_remove i d)"

lemma sample_exited_ok: "runs_ok sample_exited"
proof -
  have "hex_id ''0a1b''" "hex_id ''0a2c''" by (rule sample_ids)+
  moreover have "validate_run_name ''web'' = Inr ()" by code_simp
  moreover have "validate_run_name ''zz'' = Inr ()" by code_simp
  ultimately show ?thesis by (simp add: runs_ok_def sample_exited_def entry_ok_def)
qed

theorem remove_all_or_nothing_witness:
  "\<exists>noted. remove_run_with sample_remover (\<lambda>_. Acknowledged) (\<lambda>m. m) ''web'' False sample_exited sample_run_dirs
     = (Acknowledged, hm_remove ''0a1b'' sample_exited, hm_remove ''0a1b'' sample_run_dirs, noted)"
proof -
  let ?r = "remove_run_with sample_remover (\<lambda>_. Acknowledged) (\<lambda>m. m) ''web'' False sample_exited sample_run_dirs"
  obtain r m' d' noted where eq: "?r = (r, m', d', noted)" by (cases ?r)
  have r: "resolve_in sample_exited ''web'' = Inr ''0a1b''" by code_simp
  have "fst ?r = Acknowledged" by code_simp
  with remove_all_or_nothing [OF sample_exited_ok eq] eq r show ?thesis by (auto simp: sample_remover_def)
qed


end
