(* ===== verification/Audit_Chain.thy ===== *)
theory Audit_Chain
  imports Text "HOL-Library.Product_Lexorder"
begin

text \<open>
  The audit logs: events chained by the hash of the line before, an anchor with the head and the number of
  lines, the writers of both files with the places where a write can fail, and the reader that compares a
  log with its anchor and collects the timeline. The JSON library and the hash are arguments.
\<close>

section \<open>Values\<close>

datatype json = JNull | JBool bool | JNum string | JStr string | JArr "json list" | JObj "(string \<times> json) list"

type_synonym json_map = "(string \<times> json) list"

fun as_str :: "json \<Rightarrow> string option" where
  "as_str (JStr s) = Some s"
| "as_str _ = None"

fun as_object :: "json \<Rightarrow> json_map option" where
  "as_object (JObj m) = Some m"
| "as_object _ = None"

definition get_str :: "json_map \<Rightarrow> string \<Rightarrow> string option" where
  "get_str m key = Option.bind (map_of m key) as_str"

record serde =
  sj_to_vec :: "json \<Rightarrow> string"
  sj_from_str :: "string \<Rightarrow> string + json"

record anchor =
  an_head_hash :: string
  an_line_count :: nat

record anchor_codec =
  ac_to_vec :: "anchor \<Rightarrow> string"
  ac_from_str :: "string \<Rightarrow> string + anchor"

definition newline :: char where
  "newline = CHR 0x0A"

text \<open>Whether bytes are the UTF-8 encoding of a \<open>str\<close>.\<close>

fun utf8_valid :: "nat list \<Rightarrow> bool" where
  "utf8_valid [] = True"
| "utf8_valid (a # r) =
     (if a < 128 then utf8_valid r
      else if 194 \<le> a \<and> a < 224 then (case r of b # r' \<Rightarrow> continuation b \<and> utf8_valid r' | [] \<Rightarrow> False)
      else if 224 \<le> a \<and> a < 240 then (case r of
          b # c # r' \<Rightarrow> continuation b \<and> continuation c \<and> (a = 224 \<longrightarrow> 160 \<le> b) \<and> (a = 237 \<longrightarrow> b < 160) \<and> utf8_valid r'
        | _ \<Rightarrow> False)
      else if 240 \<le> a \<and> a < 245 then (case r of
          b # c # d # r' \<Rightarrow> continuation b \<and> continuation c \<and> continuation d \<and> (a = 240 \<longrightarrow> 144 \<le> b) \<and> (a = 244 \<longrightarrow> b < 144)
            \<and> utf8_valid r'
        | _ \<Rightarrow> False)
      else False)"

abbreviation is_text :: "string \<Rightarrow> bool" where
  "is_text s \<equiv> utf8_valid (byte_codes s)"

section \<open>The chain\<close>

definition GENESIS_PREV_HASH :: string where
  "GENESIS_PREV_HASH = replicate 64 CHR ''0''"

definition hex_encode :: "string \<Rightarrow> string" where
  "hex_encode bs = concat (map byte_hex bs)"

definition line_hash :: "(string \<Rightarrow> string) \<Rightarrow> string \<Rightarrow> string" where
  "line_hash sha256 line = hex_encode (sha256 line)"

record audit_chain =
  ch_prev_hash :: "string option"
  ch_line_count :: nat

definition chain_new :: audit_chain where
  "chain_new = \<lparr>ch_prev_hash = None, ch_line_count = 0\<rparr>"

definition resuming_from :: "string option \<Rightarrow> audit_chain" where
  "resuming_from prev = \<lparr>ch_prev_hash = prev, ch_line_count = 0\<rparr>"

definition resuming_from_anchor :: "anchor option \<Rightarrow> audit_chain" where
  "resuming_from_anchor anc = (case anc of
     Some a \<Rightarrow> \<lparr>ch_prev_hash = Some (an_head_hash a), ch_line_count = an_line_count a\<rparr>
   | None \<Rightarrow> chain_new)"

definition augment_obj :: "serde \<Rightarrow> (string \<Rightarrow> string) \<Rightarrow> json_map \<Rightarrow> audit_chain \<Rightarrow> string \<times> audit_chain" where
  "augment_obj J sha256 obj c =
     (let prev = (case ch_prev_hash c of Some h \<Rightarrow> h | None \<Rightarrow> GENESIS_PREV_HASH);
          bytes = sj_to_vec J (JObj (btree_insert ''prev_hash'' (JStr prev) obj))
      in (bytes, \<lparr>ch_prev_hash = Some (hex_encode (sha256 bytes)), ch_line_count = ch_line_count c + 1\<rparr>))"

datatype audit_chain_error = Parse string | NotAnObject

definition augment ::
    "serde \<Rightarrow> (string \<Rightarrow> string) \<Rightarrow> string \<Rightarrow> audit_chain \<Rightarrow> (audit_chain_error + string) \<times> audit_chain" where
  "augment J sha256 raw_json c = (case sj_from_str J raw_json of
     Inl e \<Rightarrow> (Inl (Parse e), c)
   | Inr (JObj obj) \<Rightarrow> (let (bytes, c) = augment_obj J sha256 obj c in (Inr bytes, c))
   | Inr _ \<Rightarrow> (Inl NotAnObject, c))"

definition chain_anchor :: "audit_chain \<Rightarrow> anchor option" where
  "chain_anchor c = map_option (\<lambda>h. \<lparr>an_head_hash = h, an_line_count = ch_line_count c\<rparr>) (ch_prev_hash c)"

definition anchor_to_line :: "anchor_codec \<Rightarrow> anchor \<Rightarrow> string" where
  "anchor_to_line A a = ac_to_vec A a @ [newline]"

definition anchor_parse :: "anchor_codec \<Rightarrow> string \<Rightarrow> audit_chain_error + anchor" where
  "anchor_parse A txt = map_err Parse (ac_from_str A (trim txt))"

section \<open>The writers\<close>

text \<open>
  What is on disk of a chain, and where a write fails: before the log is open, with a part of the line
  written, with the line written and not synced; and for the anchor before it is renamed into place or
  after, when the directory cannot be synced.
\<close>

record audit_files =
  af_log :: "string option"
  af_anchor :: "string option"

datatype log_fault = Log_Ok | Log_Unopened | Log_Short nat | Log_Unsynced

datatype anchor_fault = Anchor_Ok | Anchor_Unwritten | Anchor_Dir_Unsynced

definition append_log :: "log_fault \<Rightarrow> string \<Rightarrow> string option \<Rightarrow> bool \<times> string option" where
  "append_log fault line log =
     (let before = (case log of Some s \<Rightarrow> s | None \<Rightarrow> [])
      in (case fault of
            Log_Ok \<Rightarrow> (True, Some (before @ line))
          | Log_Unopened \<Rightarrow> (False, log)
          | Log_Short n \<Rightarrow> (False, Some (before @ take n line))
          | Log_Unsynced \<Rightarrow> (False, Some (before @ line))))"

definition write_anchor_file :: "anchor_fault \<Rightarrow> string \<Rightarrow> string option \<Rightarrow> bool \<times> string option" where
  "write_anchor_file fault bytes old = (case fault of
     Anchor_Ok \<Rightarrow> (True, Some bytes)
   | Anchor_Unwritten \<Rightarrow> (False, old)
   | Anchor_Dir_Unsynced \<Rightarrow> (False, Some bytes))"

definition read_anchor :: "anchor_codec \<Rightarrow> string option \<Rightarrow> anchor option" where
  "read_anchor A contents = (case contents of
     None \<Rightarrow> None
   | Some txt \<Rightarrow> if is_text txt then (case anchor_parse A txt of Inr a \<Rightarrow> Some a | Inl _ \<Rightarrow> None) else None)"

text \<open>The lines of a live connection are written with the chain it holds in memory.\<close>

definition write_chain_line ::
    "anchor_codec \<Rightarrow> log_fault \<times> anchor_fault \<Rightarrow> string \<Rightarrow> audit_chain \<Rightarrow> audit_files \<Rightarrow> bool \<times> audit_files" where
  "write_chain_line A faults bytes c files =
     (case append_log (fst faults) (bytes @ [newline]) (af_log files) of
        (False, log) \<Rightarrow> (False, files\<lparr>af_log := log\<rparr>)
      | (True, log) \<Rightarrow> (case chain_anchor c of
            None \<Rightarrow> (True, files\<lparr>af_log := log\<rparr>)
          | Some a \<Rightarrow> (case write_anchor_file (snd faults) (anchor_to_line A a) (af_anchor files) of
                (ok, anc) \<Rightarrow> (ok, \<lparr>af_log = log, af_anchor = anc\<rparr>))))"

definition append_event_with_sink ::
    "serde \<Rightarrow> anchor_codec \<Rightarrow> (string \<Rightarrow> string) \<Rightarrow> log_fault \<times> anchor_fault \<Rightarrow> anchor option \<Rightarrow> json_map
       \<Rightarrow> audit_files \<Rightarrow> bool \<times> audit_files" where
  "append_event_with_sink J A sha256 faults anc obj files =
     (case augment_obj J sha256 obj (resuming_from_anchor anc) of
        (line, c) \<Rightarrow> write_chain_line A faults line c files)"

definition append_ocsf_at ::
    "serde \<Rightarrow> anchor_codec \<Rightarrow> (string \<Rightarrow> string) \<Rightarrow> log_fault \<times> anchor_fault \<Rightarrow> json_map \<Rightarrow> audit_files \<Rightarrow> bool \<times> audit_files" where
  "append_ocsf_at J A sha256 faults obj files =
     append_event_with_sink J A sha256 faults (read_anchor A (af_anchor files)) obj files"

section \<open>The reader\<close>

datatype log_read = Contents string | Missing | Unread string

datatype broken_reason = Invalid_Json string | Not_Object | No_Prev_Hash | Prev_Mismatch string string

datatype truncated_reason = Fewer_Events nat nat | Other_Head string nat string nat

datatype verify_outcome =
    Verified nat
  | NoAnchor nat
  | AnchorUnreadable nat string
  | Broken nat broken_reason
  | Truncated truncated_reason

datatype anchor_state = Present anchor | Absent | Unreadable_Anchor string

definition read_anchor_state :: "anchor_codec \<Rightarrow> log_read \<Rightarrow> anchor_state" where
  "read_anchor_state A f = (case f of
     Contents txt \<Rightarrow> if is_text txt then (case ac_from_str A (trim txt) of
         Inr a \<Rightarrow> Present a
       | Inl e \<Rightarrow> Unreadable_Anchor (''corrupt anchor: parsing audit-event JSON: '' @ e))
       else Unreadable_Anchor ''stream did not contain valid UTF-8''
   | Missing \<Rightarrow> Absent
   | Unread e \<Rightarrow> Unreadable_Anchor e)"

record chain_walk =
  cw_head :: string
  cw_line_count :: nat

definition check_line :: "serde \<Rightarrow> string \<Rightarrow> nat \<Rightarrow> string \<Rightarrow> verify_outcome option" where
  "check_line J line idx expected_prev = (case sj_from_str J line of
     Inl e \<Rightarrow> Some (Broken idx (Invalid_Json e))
   | Inr v \<Rightarrow> (case as_object v of
       None \<Rightarrow> Some (Broken idx Not_Object)
     | Some obj \<Rightarrow> (case get_str obj ''prev_hash'' of
         None \<Rightarrow> Some (Broken idx No_Prev_Hash)
       | Some prev_hash \<Rightarrow>
           if prev_hash \<noteq> expected_prev then Some (Broken idx (Prev_Mismatch prev_hash expected_prev)) else None)))"

text \<open>Reading a line that is not text is an error of the whole walk.\<close>

datatype verify_error = Opening string | Reading nat

fun walk_lines ::
    "serde \<Rightarrow> (string \<Rightarrow> string) \<Rightarrow> nat \<Rightarrow> chain_walk \<Rightarrow> string list \<Rightarrow> verify_error + (verify_outcome + chain_walk)" where
  "walk_lines J sha256 idx w [] = Inr (Inr w)"
| "walk_lines J sha256 idx w (line # lines) =
     (if \<not> is_text line then Inl (Reading (idx + 1))
      else if trim line = [] then walk_lines J sha256 (idx + 1) w lines
      else (case check_line J line (idx + 1) (cw_head w) of
          Some broken \<Rightarrow> Inr (Inl broken)
        | None \<Rightarrow> walk_lines J sha256 (idx + 1)
            \<lparr>cw_head = hex_encode (sha256 line), cw_line_count = cw_line_count w + 1\<rparr> lines))"

definition walk_chain :: "serde \<Rightarrow> (string \<Rightarrow> string) \<Rightarrow> log_read \<Rightarrow> verify_error + (verify_outcome + chain_walk)" where
  "walk_chain J sha256 log = (case log of
     Contents txt \<Rightarrow> walk_lines J sha256 0 \<lparr>cw_head = GENESIS_PREV_HASH, cw_line_count = 0\<rparr> (lines_of txt)
   | Missing \<Rightarrow> Inl (Opening ''No such file or directory (os error 2)'')
   | Unread e \<Rightarrow> Inl (Opening e))"

definition check_anchor :: "chain_walk \<Rightarrow> anchor \<Rightarrow> verify_outcome option" where
  "check_anchor w a =
     (if cw_line_count w < an_line_count a then Some (Truncated (Fewer_Events (cw_line_count w) (an_line_count a)))
      else if cw_line_count w \<noteq> an_line_count a \<or> cw_head w \<noteq> an_head_hash a
        then Some (Truncated (Other_Head (cw_head w) (cw_line_count w) (an_head_hash a) (an_line_count a)))
      else None)"

definition verify_chain_against_anchor ::
    "serde \<Rightarrow> (string \<Rightarrow> string) \<Rightarrow> log_read \<Rightarrow> anchor_state \<Rightarrow> verify_error + verify_outcome" where
  "verify_chain_against_anchor J sha256 log anc = (case walk_chain J sha256 log of
     Inl e \<Rightarrow> Inl e
   | Inr (Inl broken) \<Rightarrow> Inr broken
   | Inr (Inr w) \<Rightarrow> Inr (case anc of
       Present a \<Rightarrow> (case check_anchor w a of Some o' \<Rightarrow> o' | None \<Rightarrow> Verified (cw_line_count w))
     | Absent \<Rightarrow> NoAnchor (cw_line_count w)
     | Unreadable_Anchor why \<Rightarrow> AnchorUnreadable (cw_line_count w) why))"

definition verify_chain_with_anchor ::
    "serde \<Rightarrow> anchor_codec \<Rightarrow> (string \<Rightarrow> string) \<Rightarrow> log_read \<Rightarrow> log_read \<Rightarrow> verify_error + verify_outcome" where
  "verify_chain_with_anchor J A sha256 log anc = verify_chain_against_anchor J sha256 log (read_anchor_state A anc)"

datatype warning =
    Chain_Broken nat broken_reason
  | Log_Truncated truncated_reason
  | Anchor_Not_Readable string
  | No_Anchor_Beside
  | Unreadable_Ledger string
  | Unreadable_Line nat string

definition integrity_advisory :: "verify_outcome \<Rightarrow> warning option" where
  "integrity_advisory o' = (case o' of
     Verified _ \<Rightarrow> None
   | Broken at_line reason \<Rightarrow> Some (Chain_Broken at_line reason)
   | Truncated reason \<Rightarrow> Some (Log_Truncated reason)
   | AnchorUnreadable _ reason \<Rightarrow> Some (Anchor_Not_Readable reason)
   | NoAnchor line_count \<Rightarrow> if line_count = 0 then None else Some No_Anchor_Beside)"

definition integrity_warning :: "serde \<Rightarrow> anchor_codec \<Rightarrow> (string \<Rightarrow> string) \<Rightarrow> log_read \<Rightarrow> log_read \<Rightarrow> warning option" where
  "integrity_warning J A sha256 log anc = (case verify_chain_with_anchor J A sha256 log anc of
     Inr outcome \<Rightarrow> integrity_advisory outcome
   | Inl _ \<Rightarrow> None)"

section \<open>The timeline\<close>

datatype event_error = No_Unmapped | Missing_Unmapped string

record row =
  rw_kind :: string
  rw_detail :: string
  rw_connector :: "string option"
  rw_run :: string
  rw_ts :: string

definition unmapped :: "json_map \<Rightarrow> event_error + json_map" where
  "unmapped event = (case Option.bind (map_of event ''unmapped'') as_object of
     Some um \<Rightarrow> Inr um
   | None \<Rightarrow> Inl No_Unmapped)"

definition unmapped_text :: "json_map \<Rightarrow> string \<Rightarrow> string" where
  "unmapped_text um key = (case get_str um key of Some s \<Rightarrow> s | None \<Rightarrow> [])"

definition ocsf_read :: "json_map \<Rightarrow> event_error + row" where
  "ocsf_read event = and_then (unmapped event) (\<lambda>um.
     case get_str um ''lns_kind'' of
       None \<Rightarrow> Inl (Missing_Unmapped ''lns_kind'')
     | Some kind \<Rightarrow> Inr \<lparr>rw_kind = kind, rw_detail = (case get_str event ''message'' of Some s \<Rightarrow> s | None \<Rightarrow> []),
         rw_connector = get_str um ''lns_connector'', rw_run = unmapped_text um ''lns_run'', rw_ts = unmapped_text um ''lns_ts''\<rparr>)"

definition ocsf_microvm :: "json_map \<Rightarrow> string" where
  "ocsf_microvm event = (case unmapped event of Inr um \<Rightarrow> unmapped_text um ''lns_microvm'' | Inl _ \<Rightarrow> [])"

text \<open>\<open>replacen('T', " ", 1)\<close> after \<open>trim_end_matches('Z')\<close>.\<close>

fun replace_first :: "char \<Rightarrow> char \<Rightarrow> string \<Rightarrow> string" where
  "replace_first a b [] = []"
| "replace_first a b (c # cs) = (if c = a then b # cs else c # replace_first a b cs)"

definition friendly_when :: "string \<Rightarrow> string" where
  "friendly_when ts = replace_first CHR ''T'' CHR '' '' (rev (dropWhile (\<lambda>c. c = CHR ''Z'') (rev ts)))"

record timeline_row =
  tr_ts :: string
  tr_when :: string
  tr_run :: string
  tr_kind :: string
  tr_detail :: string
  tr_connector :: "string option"
  tr_raw :: json_map

record timeline =
  tl_rows :: "timeline_row list"
  tl_warnings :: "warning list"

datatype ledger_item = Ledger_Event json_map | Ledger_Parse_Error nat string | Ledger_Not_Object nat | Ledger_Read_Error

definition parse_ledger_line :: "serde \<Rightarrow> nat \<Rightarrow> string \<Rightarrow> ledger_item" where
  "parse_ledger_line J line_no line = (case sj_from_str J line of
     Inl e \<Rightarrow> Ledger_Parse_Error line_no e
   | Inr (JObj obj) \<Rightarrow> Ledger_Event (hm_remove ''prev_hash'' obj)
   | Inr _ \<Rightarrow> Ledger_Not_Object line_no)"

fun stream_lines :: "serde \<Rightarrow> nat \<Rightarrow> string list \<Rightarrow> ledger_item list" where
  "stream_lines J n [] = []"
| "stream_lines J n (line # lines) =
     (if \<not> is_text line then Ledger_Read_Error # stream_lines J n lines
      else if trim line = [] then stream_lines J (n + 1) lines
      else parse_ledger_line J (n + 1) line # stream_lines J (n + 1) lines)"

definition stream_ledger :: "serde \<Rightarrow> log_read \<Rightarrow> string + ledger_item list" where
  "stream_ledger J ledger = (case ledger of
     Contents txt \<Rightarrow> Inr (stream_lines J 0 (lines_of txt))
   | Missing \<Rightarrow> Inr []
   | Unread e \<Rightarrow> Inl e)"

definition timeline_row_of :: "row \<Rightarrow> json_map \<Rightarrow> timeline_row" where
  "timeline_row_of r event = \<lparr>tr_ts = rw_ts r, tr_when = friendly_when (rw_ts r), tr_run = rw_run r, tr_kind = rw_kind r,
     tr_detail = rw_detail r, tr_connector = rw_connector r, tr_raw = event\<rparr>"

definition event_error_text :: "event_error \<Rightarrow> string" where
  "event_error_text e = (case e of
     No_Unmapped \<Rightarrow> ''OCSF audit event has no unmapped object''
   | Missing_Unmapped key \<Rightarrow> ''OCSF audit event missing string unmapped.'' @ key)"

definition read_ledger_row :: "ledger_item \<Rightarrow> string + timeline_row" where
  "read_ledger_row item = (case item of
     Ledger_Event event \<Rightarrow> (case ocsf_read event of
         Inr r \<Rightarrow> Inr (timeline_row_of r event)
       | Inl e \<Rightarrow> Inl (event_error_text e))
   | Ledger_Parse_Error n e \<Rightarrow> Inl (''parsing ledger line '' @ show_nat n @ '': '' @ e)
   | Ledger_Not_Object n \<Rightarrow> Inl (''parsing ledger line '' @ show_nat n @ '': ledger line is not a JSON object'')
   | Ledger_Read_Error \<Rightarrow> Inl ''reading ledger'')"

definition add_ledger_row :: "string option \<Rightarrow> timeline \<Rightarrow> ledger_item \<Rightarrow> timeline" where
  "add_ledger_row scope tl' item = (case read_ledger_row item of
     Inr r \<Rightarrow> if (case scope of Some run_id \<Rightarrow> tr_run r \<noteq> run_id | None \<Rightarrow> False) then tl'
       else tl'\<lparr>tl_rows := tl_rows tl' @ [r]\<rparr>
   | Inl reason \<Rightarrow> tl'\<lparr>tl_warnings := tl_warnings tl' @ [Unreadable_Ledger reason]\<rparr>)"

definition warn_of :: "warning option \<Rightarrow> timeline \<Rightarrow> timeline" where
  "warn_of w tl' = (case w of Some x \<Rightarrow> tl'\<lparr>tl_warnings := tl_warnings tl' @ [x]\<rparr> | None \<Rightarrow> tl')"

definition collect_ledger_rows ::
    "serde \<Rightarrow> anchor_codec \<Rightarrow> (string \<Rightarrow> string) \<Rightarrow> log_read \<Rightarrow> log_read \<Rightarrow> string option \<Rightarrow> timeline \<Rightarrow> string + timeline" where
  "collect_ledger_rows J A sha256 ledger anc scope tl' =
     (let tl' = warn_of (integrity_warning J A sha256 ledger anc) tl'
      in map_sum id (foldl (add_ledger_row scope) tl') (stream_ledger J ledger))"

definition read_run_row :: "serde \<Rightarrow> string \<Rightarrow> string \<Rightarrow> string + timeline_row" where
  "read_run_row J line run_id = (case sj_from_str J line of
     Inl e \<Rightarrow> Inl e
   | Inr (JObj obj) \<Rightarrow> (let obj = btree_insert ''run'' (JStr run_id) obj in
       (case ocsf_read obj of
          Inr r \<Rightarrow> Inr (timeline_row_of r obj\<lparr>tr_run := run_id\<rparr>)
        | Inl e \<Rightarrow> Inl (event_error_text e)))
   | Inr _ \<Rightarrow> Inl ''line is not a JSON object'')"

fun add_run_lines :: "serde \<Rightarrow> string \<Rightarrow> nat \<Rightarrow> string list \<Rightarrow> timeline \<Rightarrow> timeline" where
  "add_run_lines J run_id n [] tl' = tl'"
| "add_run_lines J run_id n (line # lines) tl' = add_run_lines J run_id (n + 1) lines
     (if trim line = [] then tl'
      else (case read_run_row J line run_id of
          Inr r \<Rightarrow> tl'\<lparr>tl_rows := tl_rows tl' @ [r]\<rparr>
        | Inl reason \<Rightarrow> tl'\<lparr>tl_warnings := tl_warnings tl' @ [Unreadable_Line (n + 1) reason]\<rparr>))"

definition collect_one_run ::
    "serde \<Rightarrow> anchor_codec \<Rightarrow> (string \<Rightarrow> string) \<Rightarrow> log_read \<Rightarrow> log_read \<Rightarrow> string \<Rightarrow> timeline \<Rightarrow> string + timeline" where
  "collect_one_run J A sha256 log anc run_id tl' = (case log of
     Missing \<Rightarrow> Inr tl'
   | Unread e \<Rightarrow> Inl e
   | Contents txt \<Rightarrow> if is_text txt
       then Inr (add_run_lines J run_id 0 (lines_of txt) (warn_of (integrity_warning J A sha256 log anc) tl'))
       else Inl ''stream did not contain valid UTF-8'')"

fun collect_run_rows ::
    "serde \<Rightarrow> anchor_codec \<Rightarrow> (string \<Rightarrow> string) \<Rightarrow> (string \<times> log_read \<times> log_read) list \<Rightarrow> string option
       \<Rightarrow> timeline \<Rightarrow> string + timeline" where
  "collect_run_rows J A sha256 [] scope tl' = Inr tl'"
| "collect_run_rows J A sha256 ((run_id, log, anc) # dirs) scope tl' =
     (if (case scope of Some wanted \<Rightarrow> run_id \<noteq> wanted | None \<Rightarrow> False) then collect_run_rows J A sha256 dirs scope tl'
      else and_then (collect_one_run J A sha256 log anc run_id tl') (collect_run_rows J A sha256 dirs scope))"

text \<open>Newest first, then by run and kind; the sort is stable.\<close>

definition sort_newest_first :: "timeline_row list \<Rightarrow> timeline_row list" where
  "sort_newest_first rows = rev (sort_key tr_ts (rev (sort_key (\<lambda>r. (tr_run r, tr_kind r)) rows)))"

definition collect_timeline ::
    "serde \<Rightarrow> anchor_codec \<Rightarrow> (string \<Rightarrow> string) \<Rightarrow> log_read \<times> log_read \<Rightarrow> (string \<times> log_read \<times> log_read) list
       \<Rightarrow> string option \<Rightarrow> string + timeline" where
  "collect_timeline J A sha256 ledger runs scope =
     and_then (collect_ledger_rows J A sha256 (fst ledger) (snd ledger) scope \<lparr>tl_rows = [], tl_warnings = []\<rparr>) (\<lambda>tl'.
     and_then (collect_run_rows J A sha256 runs scope tl') (\<lambda>tl'.
     Inr (tl'\<lparr>tl_rows := sort_newest_first (tl_rows tl')\<rparr>)))"

end
