(* ===== verification/Time_Format.thy ===== *)
theory Time_Format
  imports Rust_Std
begin

text \<open>
  Timestamps of the audit events: seconds since the epoch to a UTC date and time in the form of RFC 3339,
  and back. Reading gives back what was written, up to the year 9999.
\<close>

section \<open>Dates\<close>

definition as_i32 :: "int \<Rightarrow> int" where
  "as_i32 x = (x + 2 ^ 31) mod 2 ^ 32 - 2 ^ 31"

definition as_u8 :: "nat \<Rightarrow> nat" where
  "as_u8 x = x mod 256"

text \<open>The day of an era of 400 years, to its year, month and day.\<close>

definition year_of_era :: "nat \<Rightarrow> nat" where
  "year_of_era doe = (doe - doe div 1460 + doe div 36524 - doe div 146096) div 365"

definition unix_to_ymdhms :: "nat \<Rightarrow> int \<times> nat \<times> nat \<times> nat \<times> nat \<times> nat" where
  "unix_to_ymdhms secs =
     (let days = secs div 86400;
          day_of_year_secs = secs mod 86400;
          hour = as_u8 (day_of_year_secs div 3600);
          minute = as_u8 ((day_of_year_secs mod 3600) div 60);
          second = as_u8 (day_of_year_secs mod 60);
          z = days + 719468;
          era = z div 146097;
          doe = z - era * 146097;
          yoe = year_of_era doe;
          y = yoe + era * 400;
          doy = doe - (365 * yoe + yoe div 4 - yoe div 100);
          mp = (5 * doy + 2) div 153;
          d = as_u8 (doy - (153 * mp + 2) div 5 + 1);
          m = as_u8 (if mp < 10 then mp + 3 else mp - 9);
          year = as_i32 (int y + (if m \<le> 2 then 1 else 0))
      in (year, m, d, hour, minute, second))"

definition ymdhms_to_unix :: "nat \<Rightarrow> nat \<Rightarrow> nat \<Rightarrow> nat" where
  "ymdhms_to_unix year month day =
     (let y = (if month \<le> 2 then year - 1 else year);
          era = y div 400;
          yoe = y - era * 400;
          mp = (if month > 2 then month - 3 else month + 9);
          doy = (153 * mp + 2) div 5 + (day - 1);
          doe = yoe * 365 + yoe div 4 - yoe div 100 + doy
      in (era * 146097 + doe) - 719468)"

section \<open>Text\<close>

definition pad :: "nat \<Rightarrow> string \<Rightarrow> string" where
  "pad w s = replicate (w - length s) CHR ''0'' @ s"

definition pad_int :: "nat \<Rightarrow> int \<Rightarrow> string" where
  "pad_int w i = (if i < 0 then CHR ''-'' # pad (w - 1) (show_nat (nat (- i))) else pad w (show_nat (nat i)))"

definition rfc3339_from_unix :: "nat \<Rightarrow> string" where
  "rfc3339_from_unix secs = (case unix_to_ymdhms secs of (year, month, day, hour, minute, second) \<Rightarrow>
     pad_int 4 year @ ''-'' @ pad 2 (show_nat month) @ ''-'' @ pad 2 (show_nat day) @ ''T''
     @ pad 2 (show_nat hour) @ '':'' @ pad 2 (show_nat minute) @ '':'' @ pad 2 (show_nat second) @ ''Z'')"

definition slice :: "nat \<Rightarrow> nat \<Rightarrow> string \<Rightarrow> string" where
  "slice a b s = drop a (take b s)"

definition unix_from_rfc3339_opt :: "string \<Rightarrow> nat option" where
  "unix_from_rfc3339_opt ts =
     (if length ts \<noteq> 20 \<or> ts ! 4 \<noteq> CHR ''-'' \<or> ts ! 7 \<noteq> CHR ''-'' \<or> ts ! 10 \<noteq> CHR ''T'' \<or> ts ! 19 \<noteq> CHR ''Z'' then None
      else (let field = (\<lambda>a b. parse_uint (2 ^ 64 - 1) (slice a b ts)) in
        (case (field 0 4, field 5 7, field 8 10, field 11 13, field 14 16, field 17 19) of
           (Some year, Some month, Some day, Some hour, Some minute, Some second) \<Rightarrow>
             if year = 0 \<or> \<not> (1 \<le> month \<and> month \<le> 12) \<or> \<not> (1 \<le> day \<and> day \<le> 31) \<or> hour > 23 \<or> minute > 59 \<or> second > 59
             then None
             else Some (ymdhms_to_unix year month day * 86400 + hour * 3600 + minute * 60 + second)
         | _ \<Rightarrow> None)))"

definition unix_from_rfc3339 :: "string \<Rightarrow> nat" where
  "unix_from_rfc3339 ts = (case unix_from_rfc3339_opt ts of Some t \<Rightarrow> t | None \<Rightarrow> 0)"

section \<open>Years of an era\<close>

lemma year_of_cycle:
  fixes x :: nat
  assumes "x \<le> 1460"
  shows "\<exists>e k. x = 365 * e + k \<and> e \<le> 3 \<and> k \<le> 365 \<and> (k = 365 \<longrightarrow> e = 3)"
proof (cases "x = 1460")
  case True
  then show ?thesis by (intro exI [of _ 3] exI [of _ 365]) simp
next
  case False
  then have "x div 365 \<le> 3" using assms div_le_mono [of x 1459 365] by simp
  moreover have "x mod 365 < 365" by simp
  ultimately show ?thesis by (intro exI [of _ "x div 365"] exI [of _ "x mod 365"]) auto
qed

text \<open>A day of the era is a century, a leap cycle of it, a year of that and a day of the year.\<close>

lemma day_of_era:
  fixes doe :: nat
  assumes "doe < 146097"
  obtains q p e k where "doe = 36524 * q + 1461 * p + 365 * e + k" "q \<le> 3" "p \<le> 24" "e \<le> 3" "k \<le> 365"
    "k = 365 \<longrightarrow> e = 3" "p = 24 \<and> k = 365 \<longrightarrow> q = 3"
proof (cases "doe = 146096")
  case True
  then show ?thesis by (intro that [of 3 24 3 365]) simp_all
next
  case False
  let ?r = "doe mod 36524"
  obtain e k where x: "?r mod 1461 = 365 * e + k" "e \<le> 3" "k \<le> 365" "k = 365 \<longrightarrow> e = 3"
    using year_of_cycle [of "?r mod 1461"] by (auto simp: less_Suc_eq_le [symmetric])
  have r: "?r = 1461 * (?r div 1461) + 365 * e + k" using x(1) by (metis add.assoc mult_div_mod_eq)
  have "?r < 36524" by simp
  then have p: "?r div 1461 \<le> 24" by (simp add: div_le_mono [of _ 36523 1461, simplified])
  have "doe = 36524 * (doe div 36524) + ?r" by simp
  then have "doe = 36524 * (doe div 36524) + 1461 * (?r div 1461) + 365 * e + k" using r by linarith
  moreover have "doe div 36524 \<le> 3" using assms False div_le_mono [of doe 146095 36524] by simp
  moreover have "?r div 1461 = 24 \<and> k = 365 \<longrightarrow> doe div 36524 = 3" using r x(4) \<open>?r < 36524\<close> by auto
  ultimately show ?thesis using x p by (intro that) auto
qed

lemma year_of_era_correct:
  assumes "doe < 146097"
  shows "\<exists>k \<le> 365. year_of_era doe < 400 \<and>
    doe = 365 * year_of_era doe + year_of_era doe div 4 - year_of_era doe div 100 + k"
proof -
  obtain q p e k where d: "doe = 36524 * q + 1461 * p + 365 * e + k" "q \<le> 3" "p \<le> 24" "e \<le> 3" "k \<le> 365"
    "k = 365 \<longrightarrow> e = 3" "p = 24 \<and> k = 365 \<longrightarrow> q = 3" using day_of_era [OF assms] by blast
  let ?y = "100 * q + 4 * p + e" let ?over = "1460 \<le> 24 * q + p + 365 * e + k" let ?last = "p = 24 \<and> k = 365"
  have "doe div 1460 = 25 * q + p + of_bool ?over" using d by (intro div_nat_eqI) auto
  moreover have "doe div 36524 = q + of_bool ?last" using d by (intro div_nat_eqI) auto
  moreover have "doe div 146096 = of_bool ?last" using d by (intro div_nat_eqI) auto
  ultimately have "doe - doe div 1460 + doe div 36524 - doe div 146096 = 365 * ?y + k - of_bool ?over"
    using d(1) by auto
  moreover have "(365 * ?y + k - of_bool ?over) div 365 = ?y" using d by (intro div_nat_eqI) auto
  ultimately have y: "year_of_era doe = ?y" by (simp add: year_of_era_def)
  moreover have "?y div 4 = 25 * q + p" "?y div 100 = q" using d by (intro div_nat_eqI; auto)+
  ultimately show ?thesis using d by (intro exI [of _ k]) auto
qed

lemma div_bounds:
  fixes n :: nat
  assumes "0 < c"
  shows "c * (n div c) \<le> n" "n < c * (n div c) + c"
  using mod_less_divisor [OF assms, of n] mult_div_mod_eq [of c n] by linarith+

lemma day_of_year:
  fixes k :: nat
  assumes "k \<le> 365"
  defines "mp \<equiv> (5 * k + 2) div 153"
  shows "mp \<le> 11" "(153 * mp + 2) div 5 \<le> k" "k - (153 * mp + 2) div 5 \<le> 30" "10 \<le> mp \<Longrightarrow> 306 \<le> k"
proof -
  have b: "153 * mp \<le> 5 * k + 2" "5 * k + 2 < 153 * mp + 153" unfolding mp_def using div_bounds [of 153 "5 * k + 2"] by simp_all
  then show "mp \<le> 11" using assms(1) by linarith
  have c: "5 * ((153 * mp + 2) div 5) \<le> 153 * mp + 2" "153 * mp + 2 < 5 * ((153 * mp + 2) div 5) + 5"
    using div_bounds [of 5 "153 * mp + 2"] by simp_all
  show "(153 * mp + 2) div 5 \<le> k" "k - (153 * mp + 2) div 5 \<le> 30" using b c by linarith+
  show "10 \<le> mp \<Longrightarrow> 306 \<le> k" using b by linarith
qed

lemma era_year: "(yoe :: nat) < 400 \<Longrightarrow> (yoe + era * 400) div 400 = era" "yoe < 400 \<Longrightarrow> (yoe + era * 400) mod 400 = yoe"
  by simp_all

text \<open>The date of a day up to the end of the year 9999, and that it is the date of that day.\<close>

lemma date_of_day:
  assumes "secs < 253402300800"
  obtains year m d where "unix_to_ymdhms secs = (int year, m, d, secs mod 86400 div 3600, secs mod 86400 mod 3600 div 60, secs mod 86400 mod 60)"
    "1 \<le> year" "year \<le> 9999" "1 \<le> m" "m \<le> 12" "1 \<le> d" "d \<le> 31" "ymdhms_to_unix year m d = secs div 86400"
proof -
  define z where "z = secs div 86400 + 719468"
  define era where "era = z div 146097"
  define doe where "doe = z - era * 146097"
  define yoe where "yoe = year_of_era doe"
  have z: "z \<le> 3652364" "719468 \<le> z" using assms div_le_mono [of secs 253402300799 86400] by (simp_all add: z_def)
  have split: "z = era * 146097 + doe" "doe < 146097"
    using div_bounds [of 146097 z] by (auto simp: era_def doe_def mult.commute)
  then have era: "era \<le> 24" "4 \<le> era" using z by linarith+
  obtain k where k: "k \<le> 365" "yoe < 400" "doe = 365 * yoe + yoe div 4 - yoe div 100 + k"
    using year_of_era_correct [OF split(2)] unfolding yoe_def by blast
  define mp where "mp = (5 * k + 2) div 153"
  note mp = day_of_year [OF k(1), folded mp_def]
  define m where "m = (if mp < 10 then mp + 3 else mp - 9)"
  define d where "d = k - (153 * mp + 2) div 5 + 1"
  define year where "year = yoe + era * 400 + (if m \<le> 2 then 1 else 0)"
  have m: "1 \<le> m" "m \<le> 12" "m \<le> 2 \<longleftrightarrow> 10 \<le> mp" using mp(1) by (auto simp: m_def)
  have d: "1 \<le> d" "d \<le> 31" using mp(3) by (simp_all add: d_def)
  have top: "year \<le> 9999"
  proof (rule ccontr)
    assume "\<not> year \<le> 9999"
    then have "yoe = 399" "era = 24" "10 \<le> mp" using k(2) era(1) m(3) by (auto simp: year_def split: if_splits)
    with k(3) split(1) mp(4) z(1) show False by simp
  qed
  have small: "as_u8 x = x" if "x < 256" for x using that by (simp add: as_u8_def)
  have hour: "secs mod 86400 div 3600 \<le> 23" using div_le_mono [of "secs mod 86400" 86399 3600] by simp
  have minute: "secs mod 86400 mod 3600 div 60 \<le> 59" using div_le_mono [of "secs mod 86400 mod 3600" 3599 60] by simp
  have second: "secs mod 86400 mod 60 \<le> 59" by simp
  have u8: "as_u8 m = m" "as_u8 d = d" "as_u8 (secs mod 86400 div 3600) = secs mod 86400 div 3600"
    "as_u8 (secs mod 86400 mod 3600 div 60) = secs mod 86400 mod 3600 div 60" "as_u8 (secs mod 86400 mod 60) = secs mod 86400 mod 60"
    using m(2) d(2) hour minute second by (intro small; linarith)+
  have year: "as_i32 (int (yoe + era * 400) + (if m \<le> 2 then 1 else 0)) = int year"
    using top by (simp add: as_i32_def year_def)
  have doy: "doe - (365 * yoe + yoe div 4 - yoe div 100) = k" using k(3) by simp
  have "unix_to_ymdhms secs =
      (int year, m, d, secs mod 86400 div 3600, secs mod 86400 mod 3600 div 60, secs mod 86400 mod 60)"
    unfolding unix_to_ymdhms_def Let_def z_def [symmetric] era_def [symmetric] doe_def [symmetric] yoe_def [symmetric] doy
      mp_def [symmetric] m_def [symmetric] d_def [symmetric] u8 year by (rule refl)
  moreover have "ymdhms_to_unix year m d = secs div 86400"
  proof -
    have y: "(if m \<le> 2 then year - 1 else year) = yoe + era * 400" by (simp add: year_def)
    have mp': "(if 2 < m then m - 3 else m + 9) = mp" using mp(1) by (auto simp: m_def)
    have doy: "(153 * mp + 2) div 5 + (d - 1) = k" using mp(2) by (simp add: d_def)
    have "ymdhms_to_unix year m d = era * 146097 + (yoe * 365 + yoe div 4 - yoe div 100 + k) - 719468"
      unfolding ymdhms_to_unix_def Let_def y mp' doy using k(2) by simp
    also have "yoe * 365 + yoe div 4 - yoe div 100 + k = doe" using k(3) by (simp add: mult.commute)
    finally show ?thesis using split(1) by (simp add: z_def)
  qed
  moreover have "1 \<le> year" using era(2) by (simp add: year_def)
  ultimately show ?thesis using top m d by (intro that)
qed

section \<open>Reading back\<close>

lemma show_nat_length: "n < 10 ^ Suc w \<Longrightarrow> length (show_nat n) \<le> Suc w"
proof (induction w arbitrary: n)
  case 0
  then show ?case by (simp add: show_nat.simps)
next
  case (Suc w)
  show ?case
  proof (cases "n < 10")
    case False
    have "n div 10 < 10 ^ Suc w" using Suc(2) by (simp add: less_mult_imp_div_less)
    then show ?thesis using Suc(1) [of "n div 10"] False by (simp add: show_nat.simps [of n])
  qed (simp add: show_nat.simps)
qed

lemma padded:
  assumes "n < 10 ^ Suc w"
  shows "length (pad (Suc w) (show_nat n)) = Suc w" "parse_uint (2 ^ 64 - 1) (pad (Suc w) (show_nat n)) = (if n \<le> 2 ^ 64 - 1 then Some n else None)"
proof -
  let ?p = "pad (Suc w) (show_nat n)"
  show "length ?p = Suc w" using show_nat_length [OF assms] by (simp add: pad_def)
  have digits: "list_all is_ascii_digit ?p"
    using show_nat_digits [of n] by (auto simp: pad_def list_all_iff is_ascii_digit_def)
  have "?p \<noteq> []" using show_nat_nonempty [of n] by (simp add: pad_def)
  then obtain c r where p: "?p = c # r" by (cases ?p) auto
  have "dec_val (replicate j CHR ''0'' @ s) = dec_val s" for j s
    by (induction j) (simp_all add: dec_val_def digit_val_def)
  then have "dec_val ?p = n" by (simp add: pad_def)
  moreover have "c \<noteq> CHR ''+''" using digits p by (intro digit_not_plus) simp
  ultimately show "parse_uint (2 ^ 64 - 1) ?p = (if n \<le> 2 ^ 64 - 1 then Some n else None)"
    using digits unfolding p by (simp add: parse_uint_def)
qed

lemma fields_of:
  fixes y :: string
  assumes "length y = 4" "length m = 2" "length d = 2" "length h = 2" "length i = 2" "length s = 2"
  defines "ts \<equiv> y @ ''-'' @ m @ ''-'' @ d @ ''T'' @ h @ '':'' @ i @ '':'' @ s @ ''Z''"
  shows "length ts = 20" "ts ! 4 = CHR ''-''" "ts ! 7 = CHR ''-''" "ts ! 10 = CHR ''T''" "ts ! 19 = CHR ''Z''"
    and "slice 0 4 ts = y" "slice 5 7 ts = m" "slice 8 10 ts = d" "slice 11 13 ts = h" "slice 14 16 ts = i" "slice 17 19 ts = s"
proof -
  have two: "\<exists>a b. xs = [a, b]" if "length xs = 2" for xs :: string
    using that by (cases xs; cases "tl xs") auto
  obtain y1 y2 where "take 2 y = [y1, y2]" using two [of "take 2 y"] assms(1) by auto
  moreover obtain y3 y4 where "drop 2 y = [y3, y4]" using two [of "drop 2 y"] assms(1) by auto
  ultimately have y: "y = [y1, y2, y3, y4]" by (metis append_Cons append_Nil append_take_drop_id)
  obtain m1 m2 d1 d2 h1 h2 i1 i2 s1 s2 where
    x: "m = [m1, m2]" "d = [d1, d2]" "h = [h1, h2]" "i = [i1, i2]" "s = [s1, s2]" using two assms(2-6) by metis
  show "length ts = 20" "ts ! 4 = CHR ''-''" "ts ! 7 = CHR ''-''" "ts ! 10 = CHR ''T''" "ts ! 19 = CHR ''Z''"
    "slice 0 4 ts = y" "slice 5 7 ts = m" "slice 8 10 ts = d" "slice 11 13 ts = h" "slice 14 16 ts = i" "slice 17 19 ts = s"
    unfolding ts_def y x by (simp_all add: slice_def)
qed

text \<open>
  C26: a timestamp reads back as the moment it was written for, from the epoch to the end of the year 9999,
  and is a date and time of twenty characters.
\<close>

theorem rfc3339_roundtrip:
  assumes "secs < 253402300800"
  shows "length (rfc3339_from_unix secs) = 20 \<and> unix_from_rfc3339_opt (rfc3339_from_unix secs) = Some secs"
proof -
  obtain year m d where date: "unix_to_ymdhms secs = (int year, m, d, secs mod 86400 div 3600, secs mod 86400 mod 3600 div 60, secs mod 86400 mod 60)"
    "1 \<le> year" "year \<le> 9999" "1 \<le> m" "m \<le> 12" "1 \<le> d" "d \<le> 31" "ymdhms_to_unix year m d = secs div 86400"
    using date_of_day [OF assms] .
  let ?h = "secs mod 86400 div 3600" and ?mi = "secs mod 86400 mod 3600 div 60" and ?s = "secs mod 86400 mod 60"
  have time: "?h \<le> 23" "?mi \<le> 59" "?s \<le> 59"
    using div_le_mono [of "secs mod 86400" 86399 3600] div_le_mono [of "secs mod 86400 mod 3600" 3599 60] by simp_all
  have "secs mod 86400 mod 3600 mod 60 = ?s" by (simp add: mod_mod_cancel)
  then have sum: "secs div 86400 * 86400 + ?h * 3600 + ?mi * 60 + ?s = secs"
    using mult_div_mod_eq [of 3600 "secs mod 86400"] mult_div_mod_eq [of 60 "secs mod 86400 mod 3600"]
      mult_div_mod_eq [of 86400 secs] by linarith
  let ?Y = "pad 4 (show_nat year)" and ?f = "\<lambda>n. pad 2 (show_nat n)"
  have field: "length (?f n) = 2 \<and> parse_uint (2 ^ 64 - 1) (?f n) = Some n" if "n < 100" for n
    using padded [of n 1] that by (simp del: One_nat_def)
  have Y: "length ?Y = 4" "parse_uint (2 ^ 64 - 1) ?Y = Some year"
    using padded [of year 3] date(3) by simp_all
  have ts: "rfc3339_from_unix secs = ?Y @ ''-'' @ ?f m @ ''-'' @ ?f d @ ''T'' @ ?f ?h @ '':'' @ ?f ?mi @ '':'' @ ?f ?s @ ''Z''"
    by (simp add: rfc3339_from_unix_def date(1) pad_int_def)
  have lens: "length (?f m) = 2" "length (?f d) = 2" "length (?f ?h) = 2" "length (?f ?mi) = 2" "length (?f ?s) = 2"
    using field date time by simp_all
  note cut = fields_of [OF Y(1) lens, folded ts]
  show ?thesis unfolding unix_from_rfc3339_opt_def Let_def cut
    using field date time Y sum by (simp add: cut)
qed

theorem rfc3339_roundtrip_witness: "unix_from_rfc3339_opt (rfc3339_from_unix 1780000000) = Some 1780000000"
  using rfc3339_roundtrip [of 1780000000] by simp

end
