(* ===== verification/Ocsf.thy ===== *)
theory Ocsf
  imports Audit_Chain Time_Format Approval_Session
begin

text \<open>
  The audit events: the common part of an event, one builder per kind of event, and the events the service
  makes of a ledger record. Every builder is read back by the timeline with its kind, run, time and message.
\<close>

section \<open>Values of an event\<close>

definition jnum :: "nat \<Rightarrow> json" where
  "jnum n = JNum (show_nat n)"

definition json_object :: "(string \<times> json) list \<Rightarrow> json_map" where
  "json_object kvs = foldl (\<lambda>m (k, v). btree_insert k v m) [] kvs"

definition ascii_upper :: "char \<Rightarrow> char" where
  "ascii_upper c = (if is_ascii_lowercase c then char_of (of_char c - 32 :: nat) else c)"

definition arrow :: string where
  "arrow = [CHR 0xE2, CHR 0x86, CHR 0x92]"

function trim_start_str :: "string \<Rightarrow> string \<Rightarrow> string" where
  "trim_start_str p s = (if p \<noteq> [] \<and> starts_with p s \<and> s \<noteq> [] then trim_start_str p (drop (length p) s) else s)"
  by pat_completeness auto

termination
  by (relation "measure (\<lambda>(_, s). length s)") auto

section \<open>The common part\<close>

definition http_method_activity :: "string \<Rightarrow> nat" where
  "http_method_activity meth =
     (let m = map ascii_upper meth
      in if m = ''CONNECT'' then 1 else if m = ''DELETE'' then 2 else if m = ''GET'' then 3 else if m = ''HEAD'' then 4
         else if m = ''OPTIONS'' then 5 else if m = ''POST'' then 6 else if m = ''PUT'' then 7 else if m = ''TRACE'' then 8
         else if m = ''PATCH'' then 9 else 99)"

definition class_name :: "nat \<Rightarrow> string" where
  "class_name c = (if c = 1001 then ''File System Activity'' else if c = 1007 then ''Process Activity''
     else if c = 2004 then ''Detection Finding'' else if c = 3002 then ''Authentication''
     else if c = 4002 then ''HTTP Activity'' else ''Unknown'')"

definition category_name :: "nat \<Rightarrow> string" where
  "category_name c = (if c = 1 then ''System Activity'' else if c = 2 then ''Findings''
     else if c = 3 then ''Identity & Access Management'' else if c = 4 then ''Network Activity'' else ''Unknown'')"

definition http_activity_name :: "nat \<Rightarrow> string" where
  "http_activity_name a = (if 1 \<le> a \<and> a \<le> 9 then
     [''Connect'', ''Delete'', ''Get'', ''Head'', ''Options'', ''Post'', ''Put'', ''Trace'', ''Patch''] ! (a - 1) else ''Other'')"

definition activity_name :: "nat \<Rightarrow> nat \<Rightarrow> string" where
  "activity_name c a =
     (if c = 3002 \<and> a = 1 then ''Logon'' else if c = 2004 \<and> a = 1 then ''Create'' else if c = 1007 \<and> a = 1 then ''Launch''
      else if c = 1001 \<and> a = 1 then ''Create'' else if c = 1001 \<and> a = 12 then ''Mount''
      else if c = 4002 then http_activity_name a else ''Unknown'')"

definition severity_name :: "nat \<Rightarrow> string" where
  "severity_name s = (if s = 1 then ''Informational'' else if s = 3 then ''Medium'' else ''Unknown'')"

definition status_name :: "nat \<Rightarrow> string" where
  "status_name s = (if s = 1 then ''Success'' else if s = 2 then ''Failure'' else ''Unknown'')"

definition disposition_name :: "nat \<Rightarrow> string" where
  "disposition_name d = (if d = 1 then ''Allowed'' else if d = 2 then ''Blocked'' else ''Unknown'')"

record ocsf_context =
  cx_unix_secs :: nat
  cx_ts :: string
  cx_run :: string
  cx_microvm :: string

record ocsf_event =
  ev_top :: json_map
  ev_unmapped :: json_map

definition event_new :: "string \<Rightarrow> nat \<Rightarrow> nat \<Rightarrow> nat \<Rightarrow> nat \<Rightarrow> ocsf_context \<Rightarrow> ocsf_event" where
  "event_new kind class_uid category_uid activity_id severity_id ctx =
     \<lparr>ev_top = json_object
        [(''class_uid'', jnum class_uid),
         (''class_name'', JStr (class_name class_uid)),
         (''category_uid'', jnum category_uid),
         (''category_name'', JStr (category_name category_uid)),
         (''type_uid'', jnum (class_uid * 100 + activity_id)),
         (''type_name'', JStr (class_name class_uid @ '': '' @ activity_name class_uid activity_id)),
         (''activity_id'', jnum activity_id),
         (''activity_name'', JStr (activity_name class_uid activity_id)),
         (''severity_id'', jnum severity_id),
         (''severity'', JStr (severity_name severity_id)),
         (''time'', jnum (min (min (cx_unix_secs ctx) (2 ^ 63 - 1) * 1000) (2 ^ 63 - 1))),
         (''metadata'', JObj (json_object [(''version'', JStr ''1.7.0''),
            (''product'', JObj (json_object [(''name'', JStr ''lns''), (''vendor_name'', JStr ''Mirantis'')]))])),
         (''cloud'', JObj [(''provider'', JStr ''lns'')]),
         (''osint'', JArr [])],
      ev_unmapped = json_object
        [(''lns_kind'', JStr kind),
         (''lns_run'', JStr (cx_run ctx)),
         (''lns_microvm'', JStr (cx_microvm ctx)),
         (''lns_ts'', JStr (cx_ts ctx))]\<rparr>"

definition event_set :: "string \<Rightarrow> json \<Rightarrow> ocsf_event \<Rightarrow> ocsf_event" where
  "event_set key v e = e\<lparr>ev_top := btree_insert key v (ev_top e)\<rparr>"

definition set_status :: "nat \<Rightarrow> ocsf_event \<Rightarrow> ocsf_event" where
  "set_status s e = event_set ''status'' (JStr (status_name s)) (event_set ''status_id'' (jnum s) e)"

definition set_disposition :: "nat \<Rightarrow> ocsf_event \<Rightarrow> ocsf_event" where
  "set_disposition d e = event_set ''disposition'' (JStr (disposition_name d)) (event_set ''disposition_id'' (jnum d) e)"

definition event_note :: "string \<Rightarrow> json \<Rightarrow> ocsf_event \<Rightarrow> ocsf_event" where
  "event_note key v e = e\<lparr>ev_unmapped := btree_insert key v (ev_unmapped e)\<rparr>"

definition event_build :: "ocsf_event \<Rightarrow> json_map" where
  "event_build e = btree_insert ''unmapped'' (JObj (ev_unmapped e)) (ev_top e)"

text \<open>The calls of a builder in the order they are chained, and the ones made only when a value is there.\<close>

definition event_with :: "(ocsf_event \<Rightarrow> ocsf_event) list \<Rightarrow> ocsf_event \<Rightarrow> ocsf_event" where
  "event_with calls e = foldl (\<lambda>e f. f e) e calls"

definition note_opt :: "string \<Rightarrow> string option \<Rightarrow> (ocsf_event \<Rightarrow> ocsf_event) list" where
  "note_opt key v = (case v of Some s \<Rightarrow> [event_note key (JStr s)] | None \<Rightarrow> [])"

section \<open>One builder per kind of event\<close>

definition microvm_device :: "ocsf_context \<Rightarrow> json" where
  "microvm_device ctx = JObj (json_object [(''type_id'', jnum 6), (''name'', JStr (cx_microvm ctx))])"

definition lns_actor :: json where
  "lns_actor = JObj [(''app_name'', JStr ''lns'')]"

definition decision_dashes :: "string \<Rightarrow> string" where
  "decision_dashes d = map (\<lambda>c. if c = CHR ''_'' then CHR ''-'' else c) d"

definition url_host :: "string \<Rightarrow> string" where
  "url_host url = hd (split_on CHR ''/'' (trim_start_str ''http://'' (trim_start_str ''https://'' url)))"

definition request_summary :: "string \<Rightarrow> string \<Rightarrow> string" where
  "request_summary meth url = (if meth = [] then url_host url else meth @ '' '' @ url_host url)"

definition reason_phrase :: "string \<Rightarrow> string" where
  "reason_phrase r =
     (if r = ''user-allowed-once'' then ''allowed once'' else if r = ''user-allowed-persisted'' then ''allowed always''
      else if r = ''user-denied-once'' then ''denied once'' else if r = ''user-denied-persisted'' then ''denied always''
      else if r = ''policy-ambiguous'' then ''needs your decision'' else if r = ''policy-deny'' then ''blocked by policy'' else r)"

definition egress_outcome :: "nat option \<Rightarrow> string option \<Rightarrow> string option" where
  "egress_outcome status_code result = (case (status_code, result) of
     (Some code, Some r) \<Rightarrow> Some (arrow @ '' '' @ show_nat code @ '' '' @ r)
   | (Some code, None) \<Rightarrow> Some (arrow @ '' '' @ show_nat code)
   | (None, Some r) \<Rightarrow> Some (arrow @ '' '' @ r)
   | (None, None) \<Rightarrow> None)"

definition dst_endpoint :: "string \<Rightarrow> json" where
  "dst_endpoint url = (case rsplit_once CHR '':'' (url_host url) of
     Some (domain, port) \<Rightarrow> (case parse_uint (2 ^ 64 - 1) port of
         Some p \<Rightarrow> JObj (json_object [(''domain'', JStr domain), (''port'', jnum p)])
       | None \<Rightarrow> JObj [(''domain'', JStr (url_host url))])
   | None \<Rightarrow> JObj [(''domain'', JStr (url_host url))])"

definition approval_event :: "ocsf_context \<Rightarrow> string \<Rightarrow> string \<Rightarrow> string \<Rightarrow> string option \<Rightarrow> json_map" where
  "approval_event ctx kind target d reason =
     (let allowed = starts_with ''allow'' d;
          base = kind @ '' '' @ decision_dashes d @ '' '' @ target;
          message = (case reason of Some r \<Rightarrow> base @ ''  ['' @ reason_phrase r @ '']'' | None \<Rightarrow> base)
      in event_build (event_with
           ([event_set ''message'' (JStr message),
             event_set ''finding_info'' (JObj (json_object [(''uid'', JStr target),
               (''title'', JStr (case reason of Some r \<Rightarrow> reason_phrase r | None \<Rightarrow> kind))])),
             set_disposition (if allowed then 1 else 2),
             event_note ''lns_approval_kind'' (JStr kind),
             event_note ''lns_decision'' (JStr d),
             event_note ''lns_target'' (JStr target)] @ note_opt ''lns_reason'' reason)
           (event_new ''approval'' 2004 2 1 (if allowed then 1 else 3) ctx)))"

definition connector_message :: "string \<Rightarrow> string \<Rightarrow> string option \<Rightarrow> string option \<Rightarrow> string" where
  "connector_message c verb meth connection = (case (meth, connection) of
     (Some m, Some n) \<Rightarrow> verb @ '' '' @ c @ '' '' @ m @ '' as '' @ n
   | (Some m, None) \<Rightarrow> verb @ '' '' @ c @ '' '' @ m
   | _ \<Rightarrow> verb @ '' '' @ c)"

definition connector_event ::
    "ocsf_context \<Rightarrow> string \<Rightarrow> string \<Rightarrow> string option \<Rightarrow> string option \<Rightarrow> string option \<Rightarrow> string option \<Rightarrow> json_map" where
  "connector_event ctx c verb meth connection digest answered_by =
     event_build (event_with
       ([event_set ''message'' (JStr (connector_message c verb meth connection)),
         event_set ''service'' (JObj [(''name'', JStr c)]),
         event_set ''actor'' lns_actor,
         event_note ''lns_connector'' (JStr c),
         event_note ''lns_verb'' (JStr verb)]
        @ note_opt ''lns_method'' meth @ note_opt ''lns_connection'' connection @ note_opt ''lns_connector_digest'' digest
        @ note_opt ''lns_answer_source'' answered_by)
       (event_new ''connector'' 3002 3 1 1 ctx))"

definition egress_event ::
    "ocsf_context \<Rightarrow> string \<Rightarrow> string \<Rightarrow> nat option \<Rightarrow> string option \<Rightarrow> string option \<Rightarrow> bool \<Rightarrow> json_map" where
  "egress_event ctx meth url status_code result reason guest_proxied =
     (let message = request_summary meth url
            @ (case reason of Some r \<Rightarrow> '' '' @ em_dash @ '' '' @ reason_phrase r | None \<Rightarrow> [])
            @ (case egress_outcome status_code result of Some o' \<Rightarrow> '' '' @ o' | None \<Rightarrow> [])
      in event_build (event_with
           ([event_set ''message'' (JStr message),
             event_set ''http_request'' (JObj (json_object [(''http_method'', JStr meth), (''url'', JObj [(''text'', JStr url)])])),
             event_set ''dst_endpoint'' (dst_endpoint url),
             event_note ''lns_origin'' (JStr (if guest_proxied then ''guest-proxy'' else ''host''))]
            @ (case status_code of Some code \<Rightarrow> [event_set ''http_response'' (JObj [(''code'', jnum code)])] | None \<Rightarrow> [])
            @ (case result of Some r \<Rightarrow> [set_status (if r = ''success'' then 1 else 2), event_note ''lns_result'' (JStr r)] | None \<Rightarrow> [])
            @ (case reason of Some r \<Rightarrow>
                 [event_set ''status_detail'' (JStr (reason_phrase r)), event_note ''lns_reason'' (JStr r)]
                 @ (if contains_str ''allowed'' r then [set_disposition 1]
                    else if contains_str ''denied'' r then [set_disposition 2] else [])
               | None \<Rightarrow> []))
           (event_new ''egress'' 4002 4 (http_method_activity meth) 1 ctx)))"

definition mechanism_event :: "ocsf_context \<Rightarrow> string \<Rightarrow> string \<Rightarrow> string \<Rightarrow> bool \<Rightarrow> json_map" where
  "mechanism_event ctx c verb target refused =
     (let outcome = (if refused then ''refused'' else ''allowed'')
      in event_build (event_with
           [event_set ''message'' (JStr (c @ '' '' @ verb @ '' '' @ target @ '' ('' @ outcome @ '')'')),
            event_set ''service'' (JObj [(''name'', JStr c)]),
            event_set ''actor'' lns_actor,
            event_note ''lns_connector'' (JStr c),
            event_note ''lns_verb'' (JStr verb),
            event_note ''lns_target'' (JStr target),
            event_note ''lns_outcome'' (JStr outcome)]
           (event_new ''mechanism'' 1007 1 1 1 ctx)))"

text \<open>What the events of a run's own life share.\<close>

definition run_process :: "ocsf_context \<Rightarrow> string \<Rightarrow> ocsf_event \<Rightarrow> ocsf_event" where
  "run_process ctx nm = event_set ''process'' (JObj (json_object [(''uid'', JStr (cx_run ctx)), (''name'', JStr nm)]))"

definition on_device :: "ocsf_context \<Rightarrow> (ocsf_event \<Rightarrow> ocsf_event) list" where
  "on_device ctx = [event_set ''device'' (microvm_device ctx), event_set ''actor'' lns_actor, event_note ''lns_origin'' (JStr ''host'')]"

definition workload_launch :: "ocsf_context \<Rightarrow> string \<Rightarrow> json_map" where
  "workload_launch ctx img = event_build (event_with
     ([event_set ''message'' (JStr (''launched '' @ img)), run_process ctx ''workload''] @ on_device ctx
      @ [event_note ''lns_image'' (JStr img)]) (event_new ''launch'' 1007 1 1 1 ctx))"

definition workload_exit :: "ocsf_context \<Rightarrow> int \<Rightarrow> bool \<Rightarrow> json_map" where
  "workload_exit ctx exit_code killed = event_build (event_with
     ([event_set ''message'' (JStr (''workload '' @ (if killed then ''killed'' else ''exited'') @ '' with code '' @ show_int exit_code)),
       run_process ctx ''workload''] @ on_device ctx
      @ [event_note ''lns_exit_code'' (JNum (show_int exit_code)), event_note ''lns_killed'' (JBool killed)])
     (event_new ''exit'' 1007 1 2 1 ctx))"

definition workload_restart :: "ocsf_context \<Rightarrow> string \<Rightarrow> json_map" where
  "workload_restart ctx img = event_build (event_with
     ([event_set ''message'' (JStr (''restarted '' @ img @ '' on its preserved state; policy re-resolved live'')),
       run_process ctx ''workload''] @ on_device ctx @ [event_note ''lns_image'' (JStr img)]) (event_new ''restart'' 1007 1 1 1 ctx))"

definition run_removed :: "ocsf_context \<Rightarrow> bool \<Rightarrow> bool \<Rightarrow> json_map" where
  "run_removed ctx forced auto' =
     (let how = (if forced then ''forced (lns rm -f)'' else if auto' then ''auto (--rm)'' else ''requested (lns rm)'')
      in event_build (event_with
           ([event_set ''message'' (JStr (''run removed, '' @ how @ '': its record and writable layer are gone; this log outlives them'')),
             event_set ''file'' (JObj (json_object [(''name'', JStr (cx_run ctx)), (''type_id'', jnum 2)]))] @ on_device ctx
            @ [event_note ''lns_forced'' (JBool forced), event_note ''lns_auto'' (JBool auto')])
           (event_new ''run_removed'' 1001 1 4 1 ctx)))"

definition runs_pruned :: "ocsf_context \<Rightarrow> string list \<Rightarrow> json_map" where
  "runs_pruned ctx removed = event_build (event_with
     ([event_set ''message'' (JStr (''prune swept stopped runs: '' @ join_with '', '' removed)),
       event_set ''file'' (JObj (json_object [(''name'', JStr (cx_run ctx)), (''type_id'', jnum 2)]))] @ on_device ctx
      @ [event_note ''lns_removed'' (JArr (map JStr removed))]) (event_new ''runs_pruned'' 1001 1 4 1 ctx))"

definition run_env_event :: "ocsf_context \<Rightarrow> json_map \<Rightarrow> json_map" where
  "run_env_event ctx env = event_build (event_with
     ([event_set ''message'' (JStr (''injected: '' @ join_with '', '' (map fst env))), run_process ctx ''workload''] @ on_device ctx
      @ [event_note ''lns_env'' (JObj env)]) (event_new ''env'' 1007 1 1 1 ctx))"

definition tool_provision :: "ocsf_context \<Rightarrow> string \<Rightarrow> string \<Rightarrow> string \<Rightarrow> string option \<Rightarrow> string \<Rightarrow> json_map" where
  "tool_provision ctx tool requested resolved source_host backend = event_build (event_with
     ([event_set ''message'' (JStr (''provisioned '' @ requested @ '' '' @ arrow @ '' '' @ resolved
         @ (case source_host of Some host \<Rightarrow> '' from '' @ host | None \<Rightarrow> []))),
       event_set ''file'' (JObj (json_object [(''name'', JStr (''/.lens/tools/'' @ tool @ ''/'' @ resolved)), (''type_id'', jnum 2)])),
       event_set ''actor'' lns_actor,
       event_note ''lns_origin'' (JStr ''host''),
       event_note ''lns_tool'' (JStr tool),
       event_note ''lns_requested'' (JStr requested),
       event_note ''lns_resolved'' (JStr resolved),
       event_note ''lns_backend'' (JStr backend)]
      @ note_opt ''lns_source'' source_host
      @ (if cx_microvm ctx \<noteq> [] then [event_set ''device'' (microvm_device ctx)] else []))
     (event_new ''tool'' 1001 1 1 1 ctx))"

definition volume_mount_event :: "ocsf_context \<Rightarrow> string \<Rightarrow> string \<Rightarrow> json_map" where
  "volume_mount_event ctx nm target = event_build (event_with
     ([event_set ''message'' (JStr (nm @ '' '' @ arrow @ '' '' @ target)),
       event_set ''file'' (JObj (json_object [(''name'', JStr target), (''type_id'', jnum 2)]))] @ on_device ctx
      @ [event_note ''lns_name'' (JStr nm), event_note ''lns_target'' (JStr target)]) (event_new ''volume'' 1001 1 12 1 ctx))"

definition bind_mount_event :: "ocsf_context \<Rightarrow> string \<Rightarrow> string \<Rightarrow> string list \<Rightarrow> string list \<Rightarrow> json_map" where
  "bind_mount_event ctx source target exposed dropped = event_build (event_with
     ([event_set ''message'' (JStr (source @ '' '' @ arrow @ '' '' @ target
         @ (if exposed = [] then [] else '' (exposed: '' @ join_with '', '' exposed @ '')''))),
       event_set ''file'' (JObj (json_object [(''name'', JStr target), (''type_id'', jnum 2)]))] @ on_device ctx
      @ [event_note ''lns_source'' (JStr source), event_note ''lns_target'' (JStr target)]
      @ (if exposed = [] then [] else [event_note ''lns_exposed_secrets'' (JArr (map JStr exposed))])
      @ (if dropped = [] then [] else [event_note ''lns_dropped_secrets'' (JArr (map JStr dropped))]))
     (event_new ''bind'' 1001 1 12 (if exposed = [] then 1 else 3) ctx))"

definition sandbox_run_event :: "ocsf_context \<Rightarrow> string \<Rightarrow> string \<Rightarrow> string \<Rightarrow> json_map" where
  "sandbox_run_event ctx reference digest policy_hash = event_build (event_with
     ([event_set ''message'' (JStr (''ran sandbox '' @ reference)), run_process ctx ''sandbox''] @ on_device ctx
      @ [event_note ''lns_sandbox'' (JStr reference), event_note ''lns_sandbox_digest'' (JStr digest),
         event_note ''lns_policy_hash'' (JStr policy_hash)]) (event_new ''sandbox_run'' 1007 1 1 1 ctx))"

section \<open>What the service records\<close>

definition ctx_at_unix :: "string \<Rightarrow> string \<Rightarrow> nat \<Rightarrow> ocsf_context" where
  "ctx_at_unix run microvm unix_secs =
     \<lparr>cx_unix_secs = unix_secs, cx_ts = rfc3339_from_unix unix_secs, cx_run = run, cx_microvm = microvm\<rparr>"

definition ctx_at_ts :: "string \<Rightarrow> string \<Rightarrow> string \<Rightarrow> ocsf_context" where
  "ctx_at_ts run microvm ts = \<lparr>cx_unix_secs = unix_from_rfc3339 ts, cx_ts = ts, cx_run = run, cx_microvm = microvm\<rparr>"

datatype connector_verb = Verb_Granted | Verb_Declined | Verb_Forgotten

fun verb_word :: "connector_verb \<Rightarrow> string" where
  "verb_word Verb_Granted = ''granted''"
| "verb_word Verb_Declined = ''declined''"
| "verb_word Verb_Forgotten = ''forgot''"

datatype answer_source = By_Card | By_Terminal | By_Flag

fun source_word :: "answer_source \<Rightarrow> string" where
  "source_word By_Card = ''card''"
| "source_word By_Terminal = ''terminal''"
| "source_word By_Flag = ''flag''"

fun decision_word :: "ledger_decision \<Rightarrow> string" where
  "decision_word LAllowOnce = ''allow_once''"
| "decision_word LAllowAlways = ''allow_always''"
| "decision_word LDenyOnce = ''deny_once''"
| "decision_word LDenyAlways = ''deny_always''"
| "decision_word LAllow = ''allow''"
| "decision_word LDeny = ''deny''"

datatype ledger_event =
    Approval_Made ledger_approval
  | Connector_Made string connector_verb "string option" "string option" "string option" "answer_source option"

record ledger_record =
  lr_ts :: string
  lr_run :: string
  lr_microvm :: string
  lr_event :: ledger_event

definition ledger_event_of :: "ledger_record \<Rightarrow> json_map" where
  "ledger_event_of r =
     (let ctx = ctx_at_ts (lr_run r) (lr_microvm r) (lr_ts r)
      in (case lr_event r of
            Approval_Made a \<Rightarrow> approval_event ctx ''network'' (la_target a) (decision_word (la_decision a)) (la_reason a)
          | Connector_Made c verb meth connection digest answered_by \<Rightarrow>
              connector_event ctx c (verb_word verb) meth connection digest (map_option source_word answered_by)))"

section \<open>Every event is read back\<close>

definition stamped :: "ocsf_context \<Rightarrow> string \<Rightarrow> ocsf_event \<Rightarrow> bool" where
  "stamped ctx kind e \<longleftrightarrow> get_str (ev_unmapped e) ''lns_kind'' = Some kind \<and> get_str (ev_unmapped e) ''lns_run'' = Some (cx_run ctx)
     \<and> get_str (ev_unmapped e) ''lns_ts'' = Some (cx_ts ctx)"

lemma get_str_insert: "get_str (btree_insert k v m) k' = (if k' = k then as_str v else get_str m k')"
  by (simp add: get_str_def btree_insert_get)

lemma stamped_new: "stamped ctx kind (event_new kind a b c d ctx)"
  by (simp add: stamped_def event_new_def json_object_def get_str_def btree_insert_get)

definition keeps_stamp :: "(ocsf_event \<Rightarrow> ocsf_event) \<Rightarrow> bool" where
  "keeps_stamp f \<longleftrightarrow> (\<forall>ctx kind e. stamped ctx kind e \<longrightarrow> stamped ctx kind (f e))"

lemma keeps_set [simp]: "keeps_stamp (event_set k v)" "keeps_stamp (set_status n)" "keeps_stamp (set_disposition n)"
    "keeps_stamp (run_process ctx nm)"
  by (simp_all add: keeps_stamp_def stamped_def event_set_def set_status_def set_disposition_def run_process_def)

lemma keeps_note [simp]: "k \<notin> {''lns_kind'', ''lns_run'', ''lns_ts''} \<Longrightarrow> keeps_stamp (event_note k v)"
  by (auto simp: keeps_stamp_def stamped_def event_note_def get_str_insert)

lemma keeps_note_opt [simp]: "k \<notin> {''lns_kind'', ''lns_run'', ''lns_ts''} \<Longrightarrow> list_all keeps_stamp (note_opt k v)"
  by (cases v) (simp_all add: note_opt_def)

lemma keeps_device [simp]: "list_all keeps_stamp (on_device ctx)"
  by (simp add: on_device_def)

lemma stamped_with: "list_all keeps_stamp calls \<Longrightarrow> stamped ctx kind e \<Longrightarrow> stamped ctx kind (event_with calls e)"
  by (induction calls arbitrary: e) (simp_all add: event_with_def keeps_stamp_def)

definition reads_as :: "ocsf_context \<Rightarrow> string \<Rightarrow> json_map \<Rightarrow> bool" where
  "reads_as ctx kind ev \<longleftrightarrow> (\<exists>r. ocsf_read ev = Inr r \<and> rw_kind r = kind \<and> rw_run r = cx_run ctx \<and> rw_ts r = cx_ts ctx)"

lemma read_stamped: "stamped ctx kind e \<Longrightarrow> reads_as ctx kind (event_build e)"
  by (simp add: reads_as_def stamped_def ocsf_read_def unmapped_def event_build_def btree_insert_get unmapped_text_def)

lemma read_built:
  "list_all keeps_stamp calls \<Longrightarrow> reads_as ctx kind (event_build (event_with calls (event_new kind a b c d ctx)))"
  by (intro read_stamped stamped_with stamped_new)

lemma decisions_read:
  "reads_as ctx ''approval'' (approval_event ctx k target d reason)"
  "reads_as ctx ''connector'' (connector_event ctx c verb meth connection digest answered_by)"
  "reads_as ctx ''mechanism'' (mechanism_event ctx c verb target refused)"
  unfolding approval_event_def connector_event_def mechanism_event_def Let_def by (rule read_built, simp)+

lemma egress_read: "reads_as ctx ''egress'' (egress_event ctx m url status_code result reason guest_proxied)"
  unfolding egress_event_def Let_def by (rule read_built) (simp split: option.split)

lemma runs_read:
  "reads_as ctx ''launch'' (workload_launch ctx img)"
  "reads_as ctx ''exit'' (workload_exit ctx code killed)"
  "reads_as ctx ''restart'' (workload_restart ctx img)"
  "reads_as ctx ''run_removed'' (run_removed ctx forced auto')"
  "reads_as ctx ''runs_pruned'' (runs_pruned ctx removed)"
  "reads_as ctx ''env'' (run_env_event ctx env)"
  "reads_as ctx ''sandbox_run'' (sandbox_run_event ctx reference digest policy_hash)"
  unfolding workload_launch_def workload_exit_def workload_restart_def run_removed_def runs_pruned_def run_env_event_def
    sandbox_run_event_def Let_def by (rule read_built, simp)+

lemma mounts_read:
  "reads_as ctx ''tool'' (tool_provision ctx tool requested resolved source_host backend)"
  "reads_as ctx ''volume'' (volume_mount_event ctx nm target)"
  "reads_as ctx ''bind'' (bind_mount_event ctx source target exposed dropped)"
  unfolding tool_provision_def volume_mount_event_def bind_mount_event_def by (rule read_built, simp)+

text \<open>
  Every event the service builds is one the timeline reads, under its own kind and with the run and
  the time it was recorded for.
\<close>

theorem every_event_is_read:
  "list_all (\<lambda>(kind, ev). \<exists>r. ocsf_read ev = Inr r \<and> rw_kind r = kind \<and> rw_run r = cx_run ctx \<and> rw_ts r = cx_ts ctx)
     [(''approval'', approval_event ctx k target d reason),
      (''connector'', connector_event ctx c verb meth connection digest answered_by),
      (''egress'', egress_event ctx m url status_code result reason guest_proxied),
      (''mechanism'', mechanism_event ctx c verb target refused),
      (''launch'', workload_launch ctx img),
      (''exit'', workload_exit ctx code killed),
      (''restart'', workload_restart ctx img),
      (''run_removed'', run_removed ctx forced auto'),
      (''runs_pruned'', runs_pruned ctx removed),
      (''env'', run_env_event ctx env),
      (''tool'', tool_provision ctx tool requested resolved source_host backend),
      (''volume'', volume_mount_event ctx nm target),
      (''bind'', bind_mount_event ctx source target exposed dropped),
      (''sandbox_run'', sandbox_run_event ctx reference digest' policy_hash)]"
  by (simp only: list.pred_inject prod.case decisions_read egress_read runs_read mounts_read simp_thms flip: reads_as_def)

end
