(* ===== verification/Audit_Log.thy ===== *)
theory Audit_Log
  imports Audit_Chain
begin

text \<open>
  What the audit chain promises: a log that was written verifies, a log that reads without a warning beside
  its anchor is the one that was written, and what a lost write does to the chain.
\<close>

section \<open>Laws of the parameters\<close>

definition hash_text :: "string \<Rightarrow> bool" where
  "hash_text h \<longleftrightarrow> h \<noteq> [] \<and> list_all is_ascii_hexdigit h"

definition event_line :: "serde \<Rightarrow> string \<Rightarrow> json_map \<Rightarrow> string" where
  "event_line J prev obj = sj_to_vec J (JObj (btree_insert ''prev_hash'' (JStr prev) obj))"

text \<open>An event that is chained is serialised on one line of text and parses back.\<close>

definition event_ok :: "serde \<Rightarrow> json_map \<Rightarrow> bool" where
  "event_ok J obj \<longleftrightarrow> (\<forall>h. hash_text h \<longrightarrow>
     sj_from_str J (event_line J h obj) = Inr (JObj (btree_insert ''prev_hash'' (JStr h) obj))
     \<and> newline \<notin> set (event_line J h obj) \<and> strip_cr (event_line J h obj) = event_line J h obj
     \<and> is_text (event_line J h obj) \<and> trim (event_line J h obj) \<noteq> [])"

definition anchor_ok :: "anchor_codec \<Rightarrow> bool" where
  "anchor_ok A \<longleftrightarrow> (\<forall>a. is_text (anchor_to_line A a) \<and> ac_from_str A (trim (anchor_to_line A a)) = Inr a)"

definition digest_ok :: "(string \<Rightarrow> string) \<Rightarrow> bool" where
  "digest_ok sha256 \<longleftrightarrow> (\<forall>s. sha256 s \<noteq> [])"

lemma byte_hex_digits: "list_all is_ascii_hexdigit (byte_hex b)"
proof -
  have "is_ascii_hexdigit (hex_lower d)" if "d < 16" for d
    using hex_lower_code [OF that] that by (auto simp: is_ascii_hexdigit_def is_ascii_digit_def)
  moreover have "of_char b div 16 < (16 :: nat)" using of_char_bound [of b] by (simp add: less_mult_imp_div_less)
  ultimately show ?thesis by (simp add: byte_hex_def)
qed

lemma line_hash_text: "digest_ok sha256 \<Longrightarrow> hash_text (line_hash sha256 l)"
  using byte_hex_digits
  by (auto simp: hash_text_def line_hash_def hex_encode_def digest_ok_def list_all_iff byte_hex_def neq_Nil_conv)

lemma genesis_text: "hash_text GENESIS_PREV_HASH"
  by (simp add: hash_text_def GENESIS_PREV_HASH_def list_all_iff is_ascii_hexdigit_def is_ascii_digit_def)

section \<open>Chained lines\<close>

fun chain_lines :: "serde \<Rightarrow> (string \<Rightarrow> string) \<Rightarrow> string \<Rightarrow> json_map list \<Rightarrow> string list" where
  "chain_lines J sha256 prev [] = []"
| "chain_lines J sha256 prev (ev # evs) =
     event_line J prev ev # chain_lines J sha256 (line_hash sha256 (event_line J prev ev)) evs"

definition chain_head :: "(string \<Rightarrow> string) \<Rightarrow> string \<Rightarrow> string list \<Rightarrow> string" where
  "chain_head sha256 prev ls = foldl (\<lambda>_ l. line_hash sha256 l) prev ls"

definition claimed_prev :: "serde \<Rightarrow> string \<Rightarrow> string option" where
  "claimed_prev J l = (case sj_from_str J l of Inr (JObj obj) \<Rightarrow> get_str obj ''prev_hash'' | _ \<Rightarrow> None)"

fun linked :: "serde \<Rightarrow> (string \<Rightarrow> string) \<Rightarrow> string \<Rightarrow> string list \<Rightarrow> bool" where
  "linked J sha256 prev [] = True"
| "linked J sha256 prev (l # ls) \<longleftrightarrow> claimed_prev J l = Some prev \<and> linked J sha256 (line_hash sha256 l) ls"

abbreviation log_text :: "string list \<Rightarrow> string" where
  "log_text ls \<equiv> concat (map (\<lambda>l. l @ [newline]) ls)"

lemma chain_head_simps [simp]:
  "chain_head sha256 prev [] = prev"
  "chain_head sha256 prev (l # ls) = chain_head sha256 (line_hash sha256 l) ls"
  "chain_head sha256 prev (ls @ [l]) = line_hash sha256 l"
  by (simp_all add: chain_head_def)

lemma chain_lines_length [simp]: "length (chain_lines J sha256 prev evs) = length evs"
  by (induction evs arbitrary: prev) simp_all

lemma chain_lines_Nil [simp]: "chain_lines J sha256 prev evs = [] \<longleftrightarrow> evs = []"
  by (cases evs) simp_all

lemma chain_lines_snoc:
  "chain_lines J sha256 prev (evs @ [ev]) =
     chain_lines J sha256 prev evs @ [event_line J (chain_head sha256 prev (chain_lines J sha256 prev evs)) ev]"
  by (induction evs arbitrary: prev) simp_all

lemma chain_head_text:
  "digest_ok sha256 \<Longrightarrow> hash_text prev \<Longrightarrow> hash_text (chain_head sha256 prev ls)"
  by (induction ls arbitrary: prev) (simp_all add: line_hash_text)

lemma linked_snoc: "linked J sha256 prev (ls @ [l]) \<longleftrightarrow> linked J sha256 prev ls \<and> claimed_prev J l = Some (chain_head sha256 prev ls)"
  by (induction ls arbitrary: prev) auto

lemma inserted_prev: "get_str (btree_insert ''prev_hash'' (JStr h) obj) ''prev_hash'' = Some h"
  by (simp add: get_str_def btree_insert_get)

lemma event_claims:
  "event_ok J ev \<Longrightarrow> hash_text h \<Longrightarrow> claimed_prev J (event_line J h ev) = Some h"
  by (simp add: event_ok_def claimed_prev_def inserted_prev)

lemma chain_lines_linked:
  assumes "digest_ok sha256" "list_all (event_ok J) evs" "hash_text prev"
  shows "linked J sha256 prev (chain_lines J sha256 prev evs)"
  using assms(2,3) by (induction evs arbitrary: prev) (simp_all add: event_claims line_hash_text assms(1))

lemma chain_lines_plain:
  assumes "digest_ok sha256" "list_all (event_ok J) evs" "hash_text prev" "l \<in> set (chain_lines J sha256 prev evs)"
  shows "newline \<notin> set l \<and> strip_cr l = l \<and> is_text l \<and> trim l \<noteq> []"
  using assms(2-4)
proof (induction evs arbitrary: prev)
  case (Cons ev evs)
  then show ?case using line_hash_text [OF assms(1)] by (cases "l = event_line J prev ev") (auto simp: event_ok_def)
qed simp

lemma linked_heads:
  "linked J sha256 p ls \<Longrightarrow> linked J sha256 q ls' \<Longrightarrow> length ls = length ls' \<Longrightarrow> chain_head sha256 p ls = chain_head sha256 q ls'
    \<Longrightarrow> inj_on sha256 (set ls \<union> set ls') \<Longrightarrow> ls = ls'"
proof (induction ls arbitrary: ls' rule: rev_induct)
  case (snoc l ls)
  from snoc(4) obtain k ks where ls': "ls' = ks @ [k]" by (cases ls' rule: rev_cases) auto
  from snoc(5) have "sha256 l = sha256 k" by (simp add: ls' line_hash_def hex_encode_def hex_text_inj)
  then have k: "k = l" using inj_onD [OF snoc(6), of k l] by (simp add: ls')
  have "chain_head sha256 p ls = chain_head sha256 q ks" using snoc(2,3) k by (simp add: ls' linked_snoc)
  moreover have "inj_on sha256 (set ls \<union> set ks)" using snoc(6) by (rule inj_on_subset) (auto simp: ls')
  ultimately have "ls = ks" using snoc(1) [of ks] snoc(2-4) by (simp add: ls' linked_snoc)
  then show ?case by (simp add: ls' k)
qed simp

section \<open>What is on disk\<close>

definition anchored :: "serde \<Rightarrow> anchor_codec \<Rightarrow> (string \<Rightarrow> string) \<Rightarrow> audit_files \<Rightarrow> json_map list \<Rightarrow> bool" where
  "anchored J A sha256 files evs \<longleftrightarrow> af_anchor files = (if evs = [] then None
     else Some (anchor_to_line A \<lparr>an_head_hash = chain_head sha256 GENESIS_PREV_HASH (chain_lines J sha256 GENESIS_PREV_HASH evs),
       an_line_count = length evs\<rparr>))"

definition holds :: "serde \<Rightarrow> anchor_codec \<Rightarrow> (string \<Rightarrow> string) \<Rightarrow> audit_files \<Rightarrow> json_map list \<Rightarrow> bool" where
  "holds J A sha256 files evs \<longleftrightarrow>
     (case af_log files of Some s \<Rightarrow> s | None \<Rightarrow> []) = log_text (chain_lines J sha256 GENESIS_PREV_HASH evs)
     \<and> anchored J A sha256 files evs"

lemma read_back_anchor: "anchor_ok A \<Longrightarrow> read_anchor A (Some (anchor_to_line A a)) = Some a"
  by (simp add: anchor_ok_def read_anchor_def anchor_parse_def)

lemma resumed:
  assumes "anchor_ok A" "anchored J A sha256 files evs"
  shows "resuming_from_anchor (read_anchor A (af_anchor files)) =
    \<lparr>ch_prev_hash = (if evs = [] then None else Some (chain_head sha256 GENESIS_PREV_HASH (chain_lines J sha256 GENESIS_PREV_HASH evs))),
     ch_line_count = length evs\<rparr>"
  using assms(2) read_back_anchor [OF assms(1)]
  by (auto simp: anchored_def resuming_from_anchor_def chain_new_def read_anchor_def split: option.splits)

lemma append_steps:
  fixes ev :: json_map
  assumes "anchor_ok A" "anchored J A sha256 files evs"
  defines "l \<equiv> event_line J (chain_head sha256 GENESIS_PREV_HASH (chain_lines J sha256 GENESIS_PREV_HASH evs)) ev"
  shows "append_ocsf_at J A sha256 faults ev files = write_chain_line A faults l
    \<lparr>ch_prev_hash = Some (line_hash sha256 l), ch_line_count = length evs + 1\<rparr> files"
  unfolding append_ocsf_at_def append_event_with_sink_def resumed [OF assms(1,2)] l_def
  by (simp add: augment_obj_def event_line_def line_hash_def Let_def)

definition harmless :: "log_fault \<times> anchor_fault \<Rightarrow> bool" where
  "harmless faults \<longleftrightarrow> fst faults = Log_Unopened \<or> fst faults = Log_Ok \<and> snd faults \<noteq> Anchor_Unwritten"

lemma append_holds:
  assumes "anchor_ok A" "holds J A sha256 files evs" "harmless faults"
  shows "holds J A sha256 (snd (append_ocsf_at J A sha256 faults ev files)) (if fst faults = Log_Ok then evs @ [ev] else evs)"
proof -
  have anc: "anchored J A sha256 files evs" using assms(2) by (simp add: holds_def)
  show ?thesis using assms(2,3) unfolding append_steps [OF assms(1) anc]
    by (cases "snd faults")
       (auto simp: harmless_def write_chain_line_def append_log_def holds_def anchored_def chain_anchor_def write_anchor_file_def
         chain_lines_snoc split: option.splits)
qed

text \<open>Writes one after the other, each with the outcome its files had.\<close>

definition record_all ::
    "serde \<Rightarrow> anchor_codec \<Rightarrow> (string \<Rightarrow> string) \<Rightarrow> ((log_fault \<times> anchor_fault) \<times> json_map) list \<Rightarrow> audit_files" where
  "record_all J A sha256 ops =
     foldl (\<lambda>files (faults, ev). snd (append_ocsf_at J A sha256 faults ev files)) \<lparr>af_log = None, af_anchor = None\<rparr> ops"

definition recorded :: "((log_fault \<times> anchor_fault) \<times> json_map) list \<Rightarrow> json_map list" where
  "recorded ops = map snd (filter (\<lambda>(faults, _). fst faults = Log_Ok) ops)"

lemma record_all_holds:
  assumes "anchor_ok A" "list_all (\<lambda>(faults, _). harmless faults) ops"
  shows "holds J A sha256 (record_all J A sha256 ops) (recorded ops)"
  using assms(2)
proof (induction ops rule: rev_induct)
  case Nil
  then show ?case by (simp add: record_all_def recorded_def holds_def anchored_def)
next
  case (snoc op ops)
  then show ?case
    using append_holds [OF assms(1), of J sha256 "record_all J A sha256 ops" "recorded ops" "fst op" "snd op"]
    by (auto simp: record_all_def recorded_def split: prod.splits if_splits)
qed

section \<open>Reading\<close>

definition content_lines :: "string list \<Rightarrow> string list" where
  "content_lines ls = filter (\<lambda>l. trim l \<noteq> []) ls"

lemma check_line_None: "check_line J l idx prev = None \<longleftrightarrow> claimed_prev J l = Some prev"
proof (cases "sj_from_str J l")
  case (Inr v)
  then show ?thesis by (cases v) (auto simp: check_line_def claimed_prev_def split: option.splits)
qed (simp add: check_line_def claimed_prev_def)

lemma walk_eta: "\<lparr>cw_head = cw_head w, cw_line_count = cw_line_count w\<rparr> = w"
  by (cases w) simp

lemma walk_prefix:
  assumes "list_all is_text ls" "linked J sha256 (cw_head w) (content_lines ls)"
  shows "walk_lines J sha256 idx w (ls @ ls') = walk_lines J sha256 (idx + length ls)
    \<lparr>cw_head = chain_head sha256 (cw_head w) (content_lines ls), cw_line_count = cw_line_count w + length (content_lines ls)\<rparr> ls'"
  using assms
  by (induction ls arbitrary: idx w)
     (auto simp: content_lines_def check_line_None [THEN iffD2] line_hash_def walk_eta)

lemmas walk_linked = walk_prefix [where ls' = "[]", simplified]

lemma walk_ok:
  assumes "walk_lines J sha256 idx w ls = Inr (Inr w')"
  shows "list_all is_text ls \<and> linked J sha256 (cw_head w) (content_lines ls)"
  using assms
proof (induction ls arbitrary: idx w)
  case (Cons l ls)
  let ?w = "\<lparr>cw_head = hex_encode (sha256 l), cw_line_count = cw_line_count w + 1\<rparr>"
  show ?case using Cons(2) Cons(1) [of "idx + 1" w] Cons(1) [of "idx + 1" ?w]
    by (auto simp: content_lines_def check_line_None line_hash_def split: if_splits option.splits)
qed (simp add: content_lines_def)

lemma walk_broken: "walk_lines J sha256 idx w ls = Inr (Inl outcome) \<Longrightarrow> \<exists>n why. outcome = Broken n why"
  by (induction ls arbitrary: idx w) (auto simp: check_line_def split: if_splits option.splits sum.splits)

lemma walk_reading: "walk_lines J sha256 idx w ls = Inl e \<Longrightarrow> \<not> list_all is_text ls"
  by (induction ls arbitrary: idx w) (auto split: if_splits option.splits)

lemma check_line_claims:
  "claimed_prev J l = Some prev \<Longrightarrow> prev \<noteq> expected \<Longrightarrow> check_line J l idx expected = Some (Broken idx (Prev_Mismatch prev expected))"
proof (cases "sj_from_str J l")
  case (Inr v)
  assume "claimed_prev J l = Some prev" "prev \<noteq> expected"
  with Inr show ?thesis by (cases v) (auto simp: check_line_def claimed_prev_def split: option.splits)
qed (simp add: claimed_prev_def)

lemma lines_of_log: "(\<And>l. l \<in> set ls \<Longrightarrow> newline \<notin> set l \<and> strip_cr l = l) \<Longrightarrow> lines_of (log_text ls) = ls"
  using lines_of_written [of ls] by (simp add: newline_def map_idI)

lemma written_lines:
  assumes "digest_ok sha256" "list_all (event_ok J) evs"
  defines "ls \<equiv> chain_lines J sha256 GENESIS_PREV_HASH evs"
  shows "lines_of (log_text ls) = ls" "list_all is_text ls" "content_lines ls = ls" "linked J sha256 GENESIS_PREV_HASH ls"
proof -
  note plain = chain_lines_plain [OF assms(1,2) genesis_text, folded ls_def]
  then show "lines_of (log_text ls) = ls" by (intro lines_of_log) blast
  show "list_all is_text ls" "content_lines ls = ls" using plain by (auto simp: list_all_iff content_lines_def)
  show "linked J sha256 GENESIS_PREV_HASH ls" using chain_lines_linked [OF assms(1,2) genesis_text] by (simp add: ls_def)
qed

lemma held_files:
  fixes J :: serde and sha256 :: "string \<Rightarrow> string"
  assumes "holds J A sha256 files evs" "evs \<noteq> []"
  defines "ls \<equiv> chain_lines J sha256 GENESIS_PREV_HASH evs"
  shows "af_log files = Some (log_text ls)"
    and "af_anchor files = Some (anchor_to_line A \<lparr>an_head_hash = chain_head sha256 GENESIS_PREV_HASH ls, an_line_count = length ls\<rparr>)"
proof -
  have "log_text ls \<noteq> []" using assms(2) by (simp add: ls_def)
  then show "af_log files = Some (log_text ls)"
    "af_anchor files = Some (anchor_to_line A \<lparr>an_head_hash = chain_head sha256 GENESIS_PREV_HASH ls, an_line_count = length ls\<rparr>)"
    using assms(1,2) by (auto simp: holds_def anchored_def ls_def split: option.splits)
qed

lemmas stored = held_files [OF record_all_holds]

lemma anchor_read: "anchor_ok A \<Longrightarrow> read_anchor_state A (Contents (anchor_to_line A a)) = Present a"
  by (simp add: anchor_ok_def read_anchor_state_def)

lemma held_verifies:
  assumes "anchor_ok A" "digest_ok sha256" "list_all (event_ok J) evs" "holds J A sha256 files evs" "evs \<noteq> []"
  shows "\<exists>log anc. files = \<lparr>af_log = Some log, af_anchor = Some anc\<rparr>
    \<and> verify_chain_with_anchor J A sha256 (Contents log) (Contents anc) = Inr (Verified (length evs))"
proof -
  let ?ls = "chain_lines J sha256 GENESIS_PREV_HASH evs"
  note ls = written_lines [OF assms(2,3)] and disk = held_files [OF assms(4,5)]
  let ?w = "\<lparr>cw_head = GENESIS_PREV_HASH, cw_line_count = 0\<rparr>"
  have "walk_lines J sha256 0 ?w ?ls = Inr (Inr \<lparr>cw_head = chain_head sha256 GENESIS_PREV_HASH ?ls, cw_line_count = length ?ls\<rparr>)"
    using walk_linked [OF ls(2), of J sha256 ?w 0] ls(3,4) by simp
  then have "verify_chain_with_anchor J A sha256 (Contents (log_text ?ls))
      (Contents (anchor_to_line A \<lparr>an_head_hash = chain_head sha256 GENESIS_PREV_HASH ?ls, an_line_count = length ?ls\<rparr>))
    = Inr (Verified (length evs))"
    by (simp add: verify_chain_with_anchor_def verify_chain_against_anchor_def anchor_read [OF assms(1)] walk_chain_def
        ls(1) check_anchor_def)
  then show ?thesis using disk by (intro exI conjI) (rule audit_files.equality, simp_all)
qed

text \<open>
  Whatever events the service writes, the log it leaves verifies beside its anchor, with every event
  counted, also when a write could not open the log or could not sync the directory of the anchor.
\<close>

theorem written_log_verifies:
  assumes "anchor_ok A" "digest_ok sha256" "list_all (event_ok J) (map snd ops)"
    and "list_all (\<lambda>(faults, _). harmless faults) ops" "recorded ops \<noteq> []"
  shows "\<exists>log anc. record_all J A sha256 ops = \<lparr>af_log = Some log, af_anchor = Some anc\<rparr>
    \<and> verify_chain_with_anchor J A sha256 (Contents log) (Contents anc) = Inr (Verified (length (recorded ops)))"
proof (rule held_verifies [OF assms(1,2) _ record_all_holds [OF assms(1,4)] assms(5)])
  show "list_all (event_ok J) (recorded ops)" using assms(3) by (auto simp: recorded_def list_all_iff)
qed

lemma verified_lines:
  assumes "anchor_ok A" "verify_chain_with_anchor J A sha256 (Contents txt) (Contents (anchor_to_line A a)) = Inr (Verified n)"
  shows "list_all is_text (lines_of txt) \<and> linked J sha256 GENESIS_PREV_HASH (content_lines (lines_of txt))
    \<and> chain_head sha256 GENESIS_PREV_HASH (content_lines (lines_of txt)) = an_head_hash a
    \<and> length (content_lines (lines_of txt)) = an_line_count a"
proof -
  let ?w = "\<lparr>cw_head = GENESIS_PREV_HASH, cw_line_count = 0\<rparr>"
  obtain w where w: "walk_lines J sha256 0 ?w (lines_of txt) = Inr (Inr w)" "check_anchor w a = None"
    using assms(2) walk_broken [of J sha256 0 ?w "lines_of txt"]
    by (auto simp: verify_chain_with_anchor_def verify_chain_against_anchor_def anchor_read [OF assms(1)] walk_chain_def
        split: sum.splits option.splits)
       (auto simp: check_anchor_def split: if_splits)
  from walk_ok [OF w(1)] have ok: "list_all is_text (lines_of txt)" "linked J sha256 GENESIS_PREV_HASH (content_lines (lines_of txt))"
    by simp_all
  from walk_linked [OF ok(1), of J sha256 ?w 0] ok(2) w(1)
  have "w = \<lparr>cw_head = chain_head sha256 GENESIS_PREV_HASH (content_lines (lines_of txt)), cw_line_count = length (content_lines (lines_of txt))\<rparr>"
    by simp
  with w(2) ok show ?thesis by (auto simp: check_anchor_def split: if_splits)
qed

section \<open>A timeline without warnings\<close>

lemma add_rows_warnings: "set (tl_warnings t) \<subseteq> set (tl_warnings (foldl (add_ledger_row scope) t items))"
  by (induction items arbitrary: t) (force simp: add_ledger_row_def split: sum.splits option.splits)+

lemma add_rows_clean:
  assumes "tl_warnings (foldl (add_ledger_row None) t items) = []"
  shows "map Inr (tl_rows (foldl (add_ledger_row None) t items)) = map Inr (tl_rows t) @ map read_ledger_row items"
  using assms
proof (induction items arbitrary: t)
  case (Cons item items)
  let ?t = "add_ledger_row None t item"
  have "tl_warnings ?t = []" using Cons(2) add_rows_warnings [of ?t None items] by simp
  then show ?case using Cons(1) [of ?t] Cons(2) by (auto simp: add_ledger_row_def split: sum.splits)
qed simp

lemma stream_text:
  assumes "list_all is_text ls"
  shows "\<exists>ns. length ns = length (content_lines ls) \<and> stream_lines J n ls = map2 (parse_ledger_line J) ns (content_lines ls)"
  using assms
proof (induction ls arbitrary: n)
  case (Cons l ls)
  from Cons(1) [of "n + 1"] Cons(2) obtain ns where
    "length ns = length (content_lines ls)" "stream_lines J (n + 1) ls = map2 (parse_ledger_line J) ns (content_lines ls)" by auto
  then show ?case using Cons(2)
    by (cases "trim l = []") (auto simp: content_lines_def intro: exI [of _ ns] exI [of _ "(n + 1) # ns"])
qed (simp add: content_lines_def)

lemma stream_bad: "\<not> list_all is_text ls \<Longrightarrow> Ledger_Read_Error \<in> set (stream_lines J n ls)"
  by (induction ls arbitrary: n) auto

lemma delete_inserted: "hm_remove k (btree_insert k v m) = hm_remove k m"
  by (induction m) auto

lemma stream_chain:
  assumes "digest_ok sha256" "list_all (event_ok J) evs" "hash_text prev" "length ns = length evs"
  shows "map2 (parse_ledger_line J) ns (chain_lines J sha256 prev evs) = map (\<lambda>ev. Ledger_Event (hm_remove ''prev_hash'' ev)) evs"
  using assms(2-4)
proof (induction evs arbitrary: prev ns)
  case (Cons ev evs)
  then show ?case
    by (cases ns) (simp_all add: parse_ledger_line_def event_ok_def delete_inserted line_hash_text assms(1))
qed simp

lemma no_warning_verified:
  assumes "anchor_ok A" "integrity_warning J A sha256 (Contents txt) (Contents (anchor_to_line A a)) = None"
    and "list_all is_text (lines_of txt)"
  shows "\<exists>n. verify_chain_with_anchor J A sha256 (Contents txt) (Contents (anchor_to_line A a)) = Inr (Verified n)"
proof (cases "verify_chain_with_anchor J A sha256 (Contents txt) (Contents (anchor_to_line A a))")
  case (Inl e)
  then obtain e where "walk_lines J sha256 0 \<lparr>cw_head = GENESIS_PREV_HASH, cw_line_count = 0\<rparr> (lines_of txt) = Inl e"
    by (auto simp: verify_chain_with_anchor_def verify_chain_against_anchor_def walk_chain_def split: sum.splits)
  with walk_reading assms(3) show ?thesis by blast
next
  case (Inr outcome)
  then show ?thesis using assms(2)
      walk_broken [of J sha256 0 "\<lparr>cw_head = GENESIS_PREV_HASH, cw_line_count = 0\<rparr>" "lines_of txt"]
    by (cases outcome)
       (auto simp: integrity_warning_def integrity_advisory_def verify_chain_with_anchor_def verify_chain_against_anchor_def
         anchor_read [OF assms(1)] walk_chain_def check_anchor_def split: sum.splits if_splits)
qed

text \<open>
  C6: a ledger that is read beside the anchor it was written with, and gives no warning, lists exactly the
  events that were recorded, in order: no line was altered, dropped, added or moved, when the hash does
  not collide on the lines concerned.
\<close>

theorem clean_ledger_is_the_ledger:
  assumes "anchor_ok A" "digest_ok sha256" "list_all (event_ok J) (map snd ops)"
    and "list_all (\<lambda>(faults, _). harmless faults) ops" "recorded ops \<noteq> []"
    and "af_anchor (record_all J A sha256 ops) = Some anc"
    and "inj_on sha256 (set (lines_of txt) \<union> set (chain_lines J sha256 GENESIS_PREV_HASH (recorded ops)))"
    and "collect_ledger_rows J A sha256 (Contents txt) (Contents anc) None \<lparr>tl_rows = [], tl_warnings = []\<rparr> = Inr t"
    and "tl_warnings t = []"
  shows "map Inr (tl_rows t) = map (\<lambda>ev. read_ledger_row (Ledger_Event (hm_remove ''prev_hash'' ev))) (recorded ops)"
proof -
  let ?ls = "chain_lines J sha256 GENESIS_PREV_HASH (recorded ops)" and ?none = "\<lparr>tl_rows = [], tl_warnings = []\<rparr>"
  let ?a = "\<lparr>an_head_hash = chain_head sha256 GENESIS_PREV_HASH ?ls, an_line_count = length ?ls\<rparr>"
  have anc: "anc = anchor_to_line A ?a" using stored(2) [OF assms(1,4,5), of J sha256] assms(6) by simp
  have ok: "list_all (event_ok J) (recorded ops)" using assms(3) by (auto simp: recorded_def list_all_iff)
  let ?t = "warn_of (integrity_warning J A sha256 (Contents txt) (Contents anc)) ?none"
  have t: "t = foldl (add_ledger_row None) ?t (stream_lines J 0 (lines_of txt))"
    using assms(8) by (auto simp: collect_ledger_rows_def stream_ledger_def Let_def)
  have "tl_warnings ?t = []" 
    using assms(9) add_rows_warnings [of ?t None "stream_lines J 0 (lines_of txt)"] unfolding t by simp
  then have quiet: "integrity_warning J A sha256 (Contents txt) (Contents anc) = None"
    by (cases "integrity_warning J A sha256 (Contents txt) (Contents anc)") (simp_all add: warn_of_def)
  have t0: "t = foldl (add_ledger_row None) ?none (stream_lines J 0 (lines_of txt))"
    unfolding t quiet by (simp add: warn_of_def)
  have rows: "map Inr (tl_rows t) = map read_ledger_row (stream_lines J 0 (lines_of txt))"
    using add_rows_clean [of ?none "stream_lines J 0 (lines_of txt)", folded t0] assms(9) by simp
  have no_error: "Ledger_Read_Error \<notin> set (stream_lines J 0 (lines_of txt))"
  proof
    assume "Ledger_Read_Error \<in> set (stream_lines J 0 (lines_of txt))"
    then have "read_ledger_row Ledger_Read_Error \<in> set (map Inr (tl_rows t))" unfolding rows by simp
    then show False by (auto simp: read_ledger_row_def)
  qed
  then have all_text: "list_all is_text (lines_of txt)" using stream_bad by blast
  then obtain n where "verify_chain_with_anchor J A sha256 (Contents txt) (Contents (anchor_to_line A ?a)) = Inr (Verified n)"
    using no_warning_verified [OF assms(1)] quiet unfolding anc by blast
  note v = verified_lines [OF assms(1) this]
  have "content_lines (lines_of txt) = ?ls"
  proof (rule linked_heads [where p = GENESIS_PREV_HASH and q = GENESIS_PREV_HASH])
    show "inj_on sha256 (set (content_lines (lines_of txt)) \<union> set ?ls)"
      using assms(7) by (rule inj_on_subset) (auto simp: content_lines_def)
  qed (use v written_lines(4) [OF assms(2) ok] in simp_all)
  then obtain ns where "length ns = length ?ls" "stream_lines J 0 (lines_of txt) = map2 (parse_ledger_line J) ns ?ls"
    using stream_text [OF all_text, of J 0] by metis
  then show ?thesis using rows stream_chain [OF assms(2) ok genesis_text, of ns] by simp
qed

text \<open>A ledger that was deleted, beside an anchor that is still there, is read as empty and without a warning.\<close>

lemma deleted_ledger_is_silent: "collect_ledger_rows J A sha256 Missing anc scope t = Inr t"
  by (simp add: collect_ledger_rows_def integrity_warning_def verify_chain_with_anchor_def verify_chain_against_anchor_def
      walk_chain_def warn_of_def stream_ledger_def)

text \<open>
  C30: an event that reached the log while its anchor was not written leaves the log ahead of the anchor. The
  next event is chained to the head the anchor still names, and from then on the log is reported as
  altered, though nobody touched it.
\<close>

theorem lost_anchor_breaks_the_chain:
  assumes "anchor_ok A" "digest_ok sha256" "list_all (event_ok J) (map snd ops @ [ev, ev'])"
    and "list_all (\<lambda>(faults, _). harmless faults) ops"
  defines "ls \<equiv> chain_lines J sha256 GENESIS_PREV_HASH (recorded ops)"
  defines "stale \<equiv> chain_head sha256 GENESIS_PREV_HASH ls"
  assumes "line_hash sha256 (event_line J stale ev) \<noteq> stale"
  shows "\<exists>log anc. record_all J A sha256 (ops @ [((Log_Ok, Anchor_Unwritten), ev), ((Log_Ok, Anchor_Ok), ev')])
      = \<lparr>af_log = Some log, af_anchor = Some anc\<rparr>
    \<and> verify_chain_with_anchor J A sha256 (Contents log) (Contents anc)
      = Inr (Broken (length (recorded ops) + 2) (Prev_Mismatch stale (line_hash sha256 (event_line J stale ev))))"
proof -
  let ?l = "event_line J stale ev" and ?l' = "event_line J stale ev'" and ?f = "record_all J A sha256 ops"
  let ?g = "?f\<lparr>af_log := Some (log_text (ls @ [?l]))\<rparr>"
  have ok: "list_all (event_ok J) (recorded ops)" "event_ok J ev" "event_ok J ev'"
    using assms(3) by (auto simp: recorded_def list_all_iff)
  have held: "holds J A sha256 ?f (recorded ops)" by (rule record_all_holds [OF assms(1,4)])
  then have anc: "anchored J A sha256 ?f (recorded ops)" "anchored J A sha256 ?g (recorded ops)"
    by (simp_all add: holds_def anchored_def)
  have first: "snd (append_ocsf_at J A sha256 (Log_Ok, Anchor_Unwritten) ev ?f) = ?g"
    using held unfolding append_steps [OF assms(1) anc(1)] by (auto simp: write_chain_line_def append_log_def holds_def
        chain_anchor_def write_anchor_file_def ls_def stale_def split: option.splits)
  let ?a = "\<lparr>an_head_hash = line_hash sha256 ?l', an_line_count = length (recorded ops) + 1\<rparr>"
  have second: "snd (append_ocsf_at J A sha256 (Log_Ok, Anchor_Ok) ev' ?g) =
      \<lparr>af_log = Some (log_text (ls @ [?l, ?l'])), af_anchor = Some (anchor_to_line A ?a)\<rparr>"
    unfolding append_steps [OF assms(1) anc(2)]
    by (simp add: write_chain_line_def append_log_def chain_anchor_def write_anchor_file_def flip: ls_def stale_def)
  have stale: "hash_text stale" unfolding stale_def by (rule chain_head_text [OF assms(2) genesis_text])
  have plain: "newline \<notin> set l \<and> strip_cr l = l \<and> is_text l \<and> trim l \<noteq> [] \<and> claimed_prev J l = Some stale"
    if "l \<in> {?l, ?l'}" for l
    using that ok(2,3) stale event_claims by (auto simp: event_ok_def)
  note ls = written_lines [OF assms(2) ok(1), folded ls_def]
  have plain_ls: "l \<in> set ls \<Longrightarrow> newline \<notin> set l \<and> strip_cr l = l" for l
    using chain_lines_plain [OF assms(2) ok(1) genesis_text] by (auto simp: ls_def)
  have lines: "lines_of (log_text (ls @ [?l, ?l'])) = ls @ [?l, ?l']"
    using plain plain_ls by (intro lines_of_log) auto
  let ?w = "\<lparr>cw_head = GENESIS_PREV_HASH, cw_line_count = 0\<rparr>"
  have "walk_lines J sha256 0 ?w (ls @ [?l, ?l']) =
      Inr (Inl (Broken (length (recorded ops) + 2) (Prev_Mismatch stale (line_hash sha256 ?l))))"
    using walk_prefix [OF ls(2), of J sha256 ?w 0 "[?l, ?l']"] ls(3,4) plain assms(7)
    by (simp add: check_line_None [THEN iffD2] check_line_claims line_hash_def flip: stale_def)
      (simp add: ls_def)
  then have "verify_chain_with_anchor J A sha256 (Contents (log_text (ls @ [?l, ?l']))) (Contents (anchor_to_line A ?a)) =
      Inr (Broken (length (recorded ops) + 2) (Prev_Mismatch stale (line_hash sha256 ?l)))"
    by (simp only: verify_chain_with_anchor_def verify_chain_against_anchor_def walk_chain_def log_read.case lines sum.case)
  then show ?thesis using first second by (simp add: record_all_def)
qed

section \<open>Instances of the laws\<close>

definition visible :: "string \<Rightarrow> bool" where
  "visible s \<longleftrightarrow> list_all (\<lambda>c. 33 \<le> (of_char c :: nat) \<and> (of_char c :: nat) < 127) s"

lemma next_char_ascii: "a < 128 \<Longrightarrow> next_char a r = (a, r)"
  by (cases r) auto

lemma slices_ascii: "list_all (\<lambda>c. (of_char c :: nat) < 128) s \<Longrightarrow> utf8_slices s = map (\<lambda>c. [c]) s"
  by (induction s) (simp_all add: next_char_ascii byte_codes_def)

lemma text_ascii: "list_all (\<lambda>c. (of_char c :: nat) < 128) s \<Longrightarrow> is_text s"
  by (induction s) (simp_all add: byte_codes_def)

lemma slice_ascii: "(of_char c :: nat) < 128 \<Longrightarrow> slice_is_whitespace [c] = is_whitespace (of_char c)"
  by (simp add: slice_is_whitespace_def chars_def byte_codes_def)

lemma visible_no_space: "visible s \<Longrightarrow> c \<in> set s \<Longrightarrow> \<not> slice_is_whitespace [c]"
  using slice_ascii [of c] by (force simp: visible_def list_all_iff is_whitespace_def)

lemma visible_slices:
  assumes "visible s"
  shows "dropWhile slice_is_whitespace (map (\<lambda>c. [c]) s) = map (\<lambda>c. [c]) s"
    and "dropWhile slice_is_whitespace (rev (map (\<lambda>c. [c]) s)) = rev (map (\<lambda>c. [c]) s)"
proof -
  have all: "x \<in> (\<lambda>c. [c]) ` set s \<Longrightarrow> \<not> slice_is_whitespace x" for x
    using visible_no_space [OF assms] by blast
  have id: "xs = [] \<or> \<not> P (hd xs) \<Longrightarrow> dropWhile P xs = xs" for P and xs :: "string list" by (cases xs) auto
  show "dropWhile slice_is_whitespace (map (\<lambda>c. [c]) s) = map (\<lambda>c. [c]) s"
    using all by (intro id) (cases s; simp)
  show "dropWhile slice_is_whitespace (rev (map (\<lambda>c. [c]) s)) = rev (map (\<lambda>c. [c]) s)"
    using all by (intro id) (cases s rule: rev_cases; simp)
qed

lemma concat_singletons: "concat (map (\<lambda>c. [c]) s) = s"
  by (induction s) simp_all

lemma visible_text:
  assumes "visible s" "s \<noteq> []"
  shows "trim s = s" "trim (s @ [newline]) = s" "is_text s" "is_text (s @ [newline])" "newline \<notin> set s" "strip_cr s = s"
proof -
  have ascii: "list_all (\<lambda>c. (of_char c :: nat) < 128) s" using assms(1) by (auto simp: visible_def list_all_iff)
  then have ascii_nl: "list_all (\<lambda>c. (of_char c :: nat) < 128) (s @ [newline])" by (simp add: newline_def)
  have nl: "slice_is_whitespace [newline]" by (simp add: newline_def slice_ascii is_whitespace_def)
  have drop: "dropWhile slice_is_whitespace (map (\<lambda>c. [c]) s @ [[newline]]) = map (\<lambda>c. [c]) s @ [[newline]]"
    using visible_no_space [OF assms(1)] assms(2) by (cases s) simp_all
  show "trim s = s" using visible_slices [OF assms(1)] by (simp add: trim_def slices_ascii [OF ascii] concat_singletons)
  show "trim (s @ [newline]) = s"
    using visible_slices(2) [OF assms(1)] nl by (simp add: trim_def slices_ascii [OF ascii_nl] drop concat_singletons)
  show "is_text s" "is_text (s @ [newline])" using ascii ascii_nl by (simp_all only: text_ascii)
  show "newline \<notin> set s" using assms(1) by (auto simp: visible_def list_all_iff newline_def)
  have "last s \<noteq> CHR 0x0D" using assms by (auto simp: visible_def list_all_iff dest!: last_in_set)
  then show "strip_cr s = s"
    using assms(2) by (auto simp: strip_cr_def strip_suffix_Some split: option.splits)
qed

lemma hash_visible: "hash_text h \<Longrightarrow> visible h \<and> h \<noteq> []"
  by (auto simp: hash_text_def visible_def list_all_iff is_ascii_hexdigit_def is_ascii_digit_def)

fun nibble :: "char \<Rightarrow> nat" where
  "nibble c = (if of_char c < (58 :: nat) then of_char c - 48 else of_char c - 87)"

fun unhex :: "string \<Rightarrow> string" where
  "unhex (a # b # r) = char_of (16 * nibble a + nibble b) # unhex r"
| "unhex _ = []"

definition sample_anchors :: anchor_codec where
  "sample_anchors = \<lparr>ac_to_vec = (\<lambda>a. show_nat (an_line_count a) @ '':'' @ hex_encode (an_head_hash a)),
     ac_from_str = (\<lambda>s. case split_once CHR '':'' s of
        Some (n, h) \<Rightarrow> Inr \<lparr>an_head_hash = unhex h, an_line_count = dec_val n\<rparr>
      | None \<Rightarrow> Inl ''no separator'')\<rparr>"

definition sample_event :: json_map where
  "sample_event = [(''unmapped'', JObj [(''lns_kind'', JStr ''env'')])]"

definition sample_serde :: serde where
  "sample_serde = \<lparr>sj_to_vec = (\<lambda>v. case v of JObj ((_, JStr h) # _) \<Rightarrow> h | _ \<Rightarrow> ''null''),
     sj_from_str = (\<lambda>s. Inr (JObj (btree_insert ''prev_hash'' (JStr s) sample_event)))\<rparr>"

definition sample_digest :: "string \<Rightarrow> string" where
  "sample_digest s = ''x'' @ s"

lemma nibble_hex: "d < 16 \<Longrightarrow> nibble (hex_lower d) = d"
  by (simp add: hex_lower_code)

lemma unhex_hex: "unhex (hex_encode s) = s"
proof (induction s)
  case (Cons c s)
  have "of_char c div 16 < (16 :: nat)" using of_char_bound [of c] by (simp add: less_mult_imp_div_less)
  then show ?case using Cons by (simp add: hex_encode_def byte_hex_def nibble_hex del: nibble.simps)
qed (simp add: hex_encode_def)

lemma digits_visible: "list_all is_ascii_digit s \<Longrightarrow> visible s"
  by (auto simp: visible_def list_all_iff is_ascii_digit_def)

lemma hex_visible: "visible (hex_encode s)"
proof (induction s)
  case (Cons c s)
  have "visible (byte_hex c)"
    using byte_hex_digits [of c] by (auto simp: visible_def list_all_iff is_ascii_hexdigit_def is_ascii_digit_def)
  then show ?case using Cons by (simp add: hex_encode_def visible_def)
qed (simp add: hex_encode_def visible_def)

lemma sample_anchors_ok: "anchor_ok sample_anchors"
proof -
  have "visible (show_nat n @ '':'' @ hex_encode h)" for n h
    using digits_visible [OF show_nat_digits [of n]] hex_visible [of h] by (simp add: visible_def)
  note v = visible_text [OF this]
  have "split_once CHR '':'' (show_nat n @ CHR '':'' # h) = Some (show_nat n, h)" for n h
    using show_nat_digits [of n] by (auto simp: split_once_Some list_all_iff is_ascii_digit_def)
  with v(2,4) show ?thesis by (simp add: anchor_ok_def anchor_to_line_def sample_anchors_def unhex_hex)
qed

lemma sample_event_ok: "event_ok sample_serde sample_event"
proof -
  have "event_line sample_serde h sample_event = h" for h
    by (simp add: event_line_def sample_serde_def sample_event_def)
  then show ?thesis using visible_text hash_visible by (simp add: event_ok_def sample_serde_def)
qed

lemma sample_digest_ok: "digest_ok sample_digest" "inj sample_digest"
  by (simp_all add: digest_ok_def sample_digest_def inj_def)

abbreviation sample_write :: "(log_fault \<times> anchor_fault) \<times> json_map" where
  "sample_write \<equiv> ((Log_Ok, Anchor_Ok), sample_event)"

theorem written_log_verifies_witness:
  "\<exists>log anc. record_all sample_serde sample_anchors sample_digest
       [sample_write, ((Log_Unopened, Anchor_Ok), sample_event), sample_write] = \<lparr>af_log = Some log, af_anchor = Some anc\<rparr>
    \<and> verify_chain_with_anchor sample_serde sample_anchors sample_digest (Contents log) (Contents anc) = Inr (Verified 2)"
  using written_log_verifies [OF sample_anchors_ok sample_digest_ok(1),
      of sample_serde "[sample_write, ((Log_Unopened, Anchor_Ok), sample_event), sample_write]"]
  by (simp add: sample_event_ok harmless_def recorded_def numeral_2_eq_2)

theorem clean_ledger_is_the_ledger_witness:
  "\<exists>log anc t. record_all sample_serde sample_anchors sample_digest [sample_write] = \<lparr>af_log = Some log, af_anchor = Some anc\<rparr>
    \<and> collect_ledger_rows sample_serde sample_anchors sample_digest (Contents log) (Contents anc) None
        \<lparr>tl_rows = [], tl_warnings = []\<rparr> = Inr t
    \<and> map Inr (tl_rows t) = [read_ledger_row (Ledger_Event sample_event)]"
proof -
  let ?f = "record_all sample_serde sample_anchors sample_digest [sample_write]"
  obtain log anc where f: "?f = \<lparr>af_log = Some log, af_anchor = Some anc\<rparr>"
    using stored [OF sample_anchors_ok, of "[sample_write]" sample_serde sample_digest]
    by (cases ?f) (auto simp: harmless_def recorded_def)
  let ?c = "collect_ledger_rows sample_serde sample_anchors sample_digest (Contents (the (af_log ?f)))
    (Contents (the (af_anchor ?f))) None \<lparr>tl_rows = [], tl_warnings = []\<rparr>"
  have "map_sum (\<lambda>_. ()) tl_warnings ?c = Inr []" by code_simp
  then obtain t where t: "?c = Inr t" "tl_warnings t = []" by (cases ?c) auto
  have "hm_remove ''prev_hash'' sample_event = sample_event" by (simp add: sample_event_def)
  moreover have "inj_on sample_digest X" for X using sample_digest_ok(2) by (rule inj_on_subset) simp
  ultimately have "map Inr (tl_rows t) = [read_ledger_row (Ledger_Event sample_event)]"
    using clean_ledger_is_the_ledger [OF sample_anchors_ok sample_digest_ok(1), of sample_serde "[sample_write]" anc log t] t
    by (simp add: f sample_event_ok harmless_def recorded_def del: inj_on_insert)
  then show ?thesis using f t(1) by simp
qed

theorem lost_anchor_breaks_the_chain_witness:
  "\<exists>log anc. record_all sample_serde sample_anchors sample_digest [((Log_Ok, Anchor_Unwritten), sample_event), sample_write]
      = \<lparr>af_log = Some log, af_anchor = Some anc\<rparr>
    \<and> (\<exists>why. verify_chain_with_anchor sample_serde sample_anchors sample_digest (Contents log) (Contents anc) = Inr (Broken 2 why))"
proof -
  let ?l = "event_line sample_serde GENESIS_PREV_HASH sample_event"
  have "?l = GENESIS_PREV_HASH" by (simp add: event_line_def sample_serde_def sample_event_def)
  then have "length (line_hash sample_digest ?l) = 130"
    by (simp add: line_hash_def hex_encode_def sample_digest_def GENESIS_PREV_HASH_def length_concat comp_def sum_list_replicate)
  then have "line_hash sample_digest ?l \<noteq> GENESIS_PREV_HASH" by (auto simp: GENESIS_PREV_HASH_def)
  with lost_anchor_breaks_the_chain [OF sample_anchors_ok sample_digest_ok(1), of sample_serde "[]" sample_event sample_event]
  show ?thesis by (auto simp: sample_event_ok recorded_def)
qed

end
