(* ===== verification/Relay.thy ===== *)
theory Relay
  imports Ocsf Audit_Log Workload_Env "HOL-Library.Word"
begin

unbundle bit_operations_syntax

text \<open>
  The relay between the host and a running guest: the token a guest connects with, the frames kept for it
  while it is away, the messages it sends, and the budget of what those may write to the audit log.
\<close>

section \<open>The token\<close>

definition validate_authorization_header :: "8 word list \<Rightarrow> 8 word list \<Rightarrow> bool" where
  "validate_authorization_header header expected =
     (if length header \<noteq> length expected then False
      else foldl (\<lambda>diff (x, y). diff OR (x XOR y)) 0 (zip header expected) = 0)"

section \<open>Frames for the guest\<close>

fun is_policy :: "host_frame \<Rightarrow> bool" where
  "is_policy (host_frame.Policy _) = True"
| "is_policy (RequestDecision _) = False"

definition seed_frames :: "host_frame list \<Rightarrow> policy_message \<Rightarrow> host_frame list" where
  "seed_frames buffered current = (if list_ex is_policy buffered then buffered else host_frame.Policy current # buffered)"

definition buffer_frame :: "host_frame list \<Rightarrow> host_frame \<Rightarrow> host_frame list" where
  "buffer_frame pending frame =
     (if is_policy frame then frame # filter (\<lambda>f. \<not> is_policy f) pending else pending @ [frame])"

text \<open>
  The accept loop: the channel of the open connection with the frames handed to it, and the frames kept.
  A frame finds the receiver of the channel there or gone.
\<close>

record guest_link =
  tp_conn :: "host_frame list option"
  tp_pending :: "host_frame list"

datatype link_event = Accepted policy_message | Outbound host_frame bool

definition link_step :: "guest_link \<Rightarrow> link_event \<Rightarrow> guest_link" where
  "link_step tp ev = (case ev of
     Accepted current \<Rightarrow> \<lparr>tp_conn = Some (seed_frames (tp_pending tp) current), tp_pending = []\<rparr>
   | Outbound frame receiver_there \<Rightarrow> (case tp_conn tp of
       Some sent \<Rightarrow> if receiver_there then tp\<lparr>tp_conn := Some (sent @ [frame])\<rparr>
         else \<lparr>tp_conn = None, tp_pending = buffer_frame (tp_pending tp) frame\<rparr>
     | None \<Rightarrow> tp\<lparr>tp_pending := buffer_frame (tp_pending tp) frame\<rparr>))"

section \<open>The budget\<close>

definition MAX_AUDIT_EVENTS_PER_RUN :: nat where
  "MAX_AUDIT_EVENTS_PER_RUN = 100000"

definition MAX_AUDIT_BYTES_PER_RUN :: nat where
  "MAX_AUDIT_BYTES_PER_RUN = 64 * 1024 * 1024"

record budget =
  bd_events :: nat
  bd_bytes :: nat

definition budget_seeded :: "nat \<Rightarrow> nat \<Rightarrow> budget" where
  "budget_seeded events_spent bytes_spent =
     \<lparr>bd_events = MAX_AUDIT_EVENTS_PER_RUN - events_spent, bd_bytes = MAX_AUDIT_BYTES_PER_RUN - bytes_spent\<rparr>"

definition try_charge :: "nat \<Rightarrow> budget \<Rightarrow> budget option" where
  "try_charge line_len b =
     (if bd_events b = 0 \<or> line_len > bd_bytes b then None
      else Some \<lparr>bd_events = bd_events b - 1, bd_bytes = bd_bytes b - line_len\<rparr>)"

text \<open>What a run may still write when its relay starts, given what its earlier boots left.\<close>

definition lines_anchored :: "anchor_codec \<Rightarrow> audit_files \<Rightarrow> nat" where
  "lines_anchored A files = (case read_anchor A (af_anchor files) of Some a \<Rightarrow> an_line_count a | None \<Rightarrow> 0)"

definition budget_at_boot :: "anchor_codec \<Rightarrow> audit_files \<Rightarrow> budget" where
  "budget_at_boot A files = budget_seeded (lines_anchored A files) (case af_log files of Some log \<Rightarrow> length log | None \<Rightarrow> 0)"

section \<open>What the guest sends\<close>

definition write_run_env_event ::
    "serde \<Rightarrow> anchor_codec \<Rightarrow> (string \<Rightarrow> string) \<Rightarrow> log_fault \<times> anchor_fault \<Rightarrow> ocsf_context \<Rightarrow> string list
       \<Rightarrow> audit_chain \<Rightarrow> audit_files \<Rightarrow> bool \<times> audit_chain \<times> audit_files" where
  "write_run_env_event J A sha256 faults ctx user_env c files = (case injected_env user_env of
     None \<Rightarrow> (True, c, files)
   | Some env \<Rightarrow> (case augment_obj J sha256 (run_env_event ctx (map (\<lambda>(k, v). (k, JStr v)) env)) c of
       (bytes, c) \<Rightarrow> (case write_chain_line A faults bytes c files of (ok, files) \<Rightarrow> (ok, c, files))))"

fun split_once_str :: "string \<Rightarrow> string \<Rightarrow> (string \<times> string) option" where
  "split_once_str p [] = None"
| "split_once_str p (x # xs) =
     (if starts_with p (x # xs) then Some ([], drop (length p) (x # xs))
      else map_option (\<lambda>(a, b). (x # a, b)) (split_once_str p xs))"

definition egress_method_and_url :: "string \<Rightarrow> string \<times> string" where
  "egress_method_and_url action =
     (case (case split_once CHR '' '' action of Some p \<Rightarrow> p | None \<Rightarrow> ([], action)) of
        (meth, rest) \<Rightarrow>
          if meth = ''TLS_BRIDGE'' then (meth, case split_once_str '' -> '' rest of Some (host, _) \<Rightarrow> host | None \<Rightarrow> rest)
          else (meth, rest))"

fun as_u64 :: "json \<Rightarrow> nat option" where
  "as_u64 (JNum s) = parse_uint (2 ^ 64 - 1) s"
| "as_u64 _ = None"

definition guest_egress_to_ocsf :: "ocsf_context \<Rightarrow> json_map \<Rightarrow> json_map option" where
  "guest_egress_to_ocsf ctx obj = (case get_str obj ''action'' of
     None \<Rightarrow> None
   | Some action \<Rightarrow> (case egress_method_and_url action of
       (meth, url) \<Rightarrow>
         (let status_code = Option.bind (map_of obj ''status_code'') as_u64;
              result = get_str obj ''result'';
              reason = Option.bind (Option.bind (map_of obj ''metadata'') as_object) (\<lambda>m. get_str m ''reason'');
              event = egress_event ctx meth url status_code result reason True
          in Some (foldl (\<lambda>ev key. case map_of obj key of Some v \<Rightarrow> btree_insert key v ev | None \<Rightarrow> ev) event
               [''src_endpoint'', ''actor'']))))"

datatype ws_message = Ws_Text string | Ws_Close | Ws_Other

record 'w relay =
  rl_chain :: audit_chain
  rl_files :: audit_files
  rl_budget :: budget
  rl_session :: "'w session"

text \<open>
  One message: whether the connection is closed, or the error that ends it. \<open>decode_pending\<close> reads a request
  from the message as its derived deserialiser does; \<open>now\<close> is the moment of the session's clock.
\<close>

definition handle_inbound ::
    "serde \<Rightarrow> anchor_codec \<Rightarrow> (string \<Rightarrow> string) \<Rightarrow> (json_map \<Rightarrow> request_pending option) \<Rightarrow> ('n, 'w) env
       \<Rightarrow> log_fault \<times> anchor_fault \<Rightarrow> ocsf_context \<Rightarrow> nat \<Rightarrow> ws_message \<Rightarrow> 'w relay \<Rightarrow> (unit + bool) \<times> 'w relay" where
  "handle_inbound J A sha256 decode_pending E faults ctx now msg st = (case msg of
     Ws_Close \<Rightarrow> (Inr True, st)
   | Ws_Other \<Rightarrow> (Inr False, st)
   | Ws_Text txt \<Rightarrow> (case sj_from_str J txt of
       Inr (JObj obj) \<Rightarrow>
         (if get_str obj ''type'' = Some ''audit_event'' then
            (case guest_egress_to_ocsf ctx obj of
               None \<Rightarrow> (Inr False, st)
             | Some ocsf \<Rightarrow> (case try_charge (length txt) (rl_budget st) of
                 None \<Rightarrow> (Inr False, st)
               | Some b \<Rightarrow> (case augment_obj J sha256 ocsf (rl_chain st) of
                   (bytes, c) \<Rightarrow> (case write_chain_line A faults bytes c (rl_files st) of
                     (ok, files) \<Rightarrow> (if ok then Inr False else Inl (),
                        st\<lparr>rl_chain := c, rl_budget := b, rl_files := files\<rparr>)))))
          else if get_str obj ''type'' = Some ''request_pending'' then
            (case decode_pending obj of
               Some req \<Rightarrow> (Inr False, st\<lparr>rl_session := submit_pending E req now (rl_session st)\<rparr>)
             | None \<Rightarrow> (Inr False, st))
          else (Inr False, st))
     | _ \<Rightarrow> (Inr False, st)))"

text \<open>
  The messages of a connection, until it is closed or a write fails. Each comes with the two clocks it is
  handled at and the outcome of its writes.
\<close>

record delivery =
  dl_unix :: nat
  dl_now :: nat
  dl_faults :: "log_fault \<times> anchor_fault"

fun serve ::
    "serde \<Rightarrow> anchor_codec \<Rightarrow> (string \<Rightarrow> string) \<Rightarrow> (json_map \<Rightarrow> request_pending option) \<Rightarrow> ('n, 'w) env \<Rightarrow> string \<Rightarrow> string
       \<Rightarrow> (delivery \<times> ws_message) list \<Rightarrow> 'w relay \<Rightarrow> 'w relay" where
  "serve J A sha256 decode_pending E run microvm [] st = st"
| "serve J A sha256 decode_pending E run microvm ((d, msg) # inbound) st =
     (case handle_inbound J A sha256 decode_pending E (dl_faults d) (ctx_at_unix run microvm (dl_unix d)) (dl_now d) msg st of
        (Inr False, st) \<Rightarrow> serve J A sha256 decode_pending E run microvm inbound st
      | (_, st) \<Rightarrow> st)"

section \<open>A connection\<close>

text \<open>
  A guest that gives the token resumes the chain where the anchor left it and records the names of the
  variables the run was given, before its first message is read.
\<close>

record connection =
  cn_header :: "string option"
  cn_start :: delivery
  cn_inbound :: "(delivery \<times> ws_message) list"

definition as_bytes :: "string \<Rightarrow> 8 word list" where
  "as_bytes s = map of_char s"

definition authorized :: "string \<Rightarrow> string option \<Rightarrow> bool" where
  "authorized token header =
     validate_authorization_header (as_bytes (case header of Some h \<Rightarrow> h | None \<Rightarrow> [])) (as_bytes (''Bearer '' @ token))"

definition handle_connection ::
    "serde \<Rightarrow> anchor_codec \<Rightarrow> (string \<Rightarrow> string) \<Rightarrow> (json_map \<Rightarrow> request_pending option) \<Rightarrow> ('n, 'w) env \<Rightarrow> string \<Rightarrow> string
       \<Rightarrow> string \<Rightarrow> string list \<Rightarrow> connection \<Rightarrow> 'w relay \<Rightarrow> 'w relay" where
  "handle_connection J A sha256 decode_pending E run microvm token user_env cn st =
     (if \<not> authorized token (cn_header cn) then st
      else (case write_run_env_event J A sha256 (dl_faults (cn_start cn)) (ctx_at_unix run microvm (dl_unix (cn_start cn))) user_env
                   (resuming_from_anchor (read_anchor A (af_anchor (rl_files st)))) (rl_files st) of
              (ok, c, files) \<Rightarrow>
                (let st = st\<lparr>rl_chain := c, rl_files := files\<rparr>
                 in if ok then serve J A sha256 decode_pending E run microvm (cn_inbound cn) st else st)))"

section \<open>The token is compared whole\<close>

lemma xor_zero: "(a XOR b = 0) \<longleftrightarrow> a = (b :: 8 word)"
proof
  assume "a XOR b = 0"
  then have "(a XOR b) XOR b = 0 XOR b" by simp
  then show "a = b" by (simp add: xor.assoc)
qed simp

lemma fold_diff:
  "length xs = length ys \<Longrightarrow> foldl (\<lambda>diff (x, y). diff OR (x XOR y)) d (zip xs ys) = 0 \<longleftrightarrow> d = 0 \<and> xs = (ys :: 8 word list)"
  by (induction xs ys arbitrary: d rule: list_induct2) (auto simp: or_eq_0_iff xor_zero)

lemma header_check: "validate_authorization_header header expected \<longleftrightarrow> header = expected"
  by (auto simp: validate_authorization_header_def fold_diff)

lemma as_bytes_inj: "as_bytes s = as_bytes t \<longleftrightarrow> s = t"
proof -
  have "inj (of_char :: char \<Rightarrow> 8 word)"
  proof (rule injI)
    fix c d :: char
    have byte: "unat (of_char x :: 8 word) = of_char x" for x :: char
    proof -
      have low: "(of_char x :: nat) < 2 ^ LENGTH(8)" using nat_of_char_less_256 [of x] by simp
      have "(of_char x :: 8 word) = of_nat (of_char x)" by (rule of_nat_of_char [symmetric])
      then have "unat (of_char x :: 8 word) = take_bit LENGTH(8) (of_char x)" by (simp only: unsigned_of_nat of_nat_id)
      then show ?thesis using take_bit_nat_eq_self [OF low] by (rule trans)
    qed
    assume "(of_char c :: 8 word) = of_char d"
    then have "(of_char c :: nat) = of_char d" using byte [of c] byte [of d] by metis
    then show "c = d" by (rule of_char_eqI)
  qed
  then show ?thesis by (simp add: as_bytes_def inj_map_eq_map)
qed

text \<open>A connection is let in exactly when it brings the run's bearer token, whole.\<close>

theorem only_the_token_opens: "authorized token header \<longleftrightarrow> header = Some (''Bearer '' @ token)"
  by (auto simp: authorized_def header_check as_bytes_inj split: option.splits)

section \<open>A guest that comes back\<close>

abbreviation decisions :: "host_frame list \<Rightarrow> host_frame list" where
  "decisions fs \<equiv> filter (\<lambda>f. \<not> is_policy f) fs"

definition latest_policy :: "host_frame list \<Rightarrow> host_frame option" where
  "latest_policy fs = List.find is_policy (rev fs)"

text \<open>The frames kept while nobody is connected: the newest policy, if one came, and then every decision.\<close>

definition kept_as :: "host_frame list \<Rightarrow> host_frame list \<Rightarrow> bool" where
  "kept_as pending fs \<longleftrightarrow> pending = (case latest_policy fs of Some p \<Rightarrow> [p] | None \<Rightarrow> []) @ decisions fs"

lemma kept_snoc: "kept_as pending fs \<Longrightarrow> kept_as (buffer_frame pending f) (fs @ [f])"
  by (cases f) (auto simp: kept_as_def buffer_frame_def latest_policy_def find_None_iff dest: find_SomeD split: option.splits)

lemma away_steps:
  "tp_conn tp = None \<Longrightarrow> kept_as (tp_pending tp) before \<Longrightarrow>
     foldl link_step tp (map (\<lambda>f. Outbound f there) fs)
       = \<lparr>tp_conn = None, tp_pending = tp_pending (foldl link_step tp (map (\<lambda>f. Outbound f there) fs))\<rparr>
     \<and> kept_as (tp_pending (foldl link_step tp (map (\<lambda>f. Outbound f there) fs))) (before @ fs)"
proof (induction fs arbitrary: tp before)
  case Nil
  then show ?case by (cases tp) simp
next
  case (Cons f fs)
  then show ?case using kept_snoc [OF Cons(3), of f] Cons(1) [of "link_step tp (Outbound f there)" "before @ [f]"]
    by (simp add: link_step_def)
qed



section \<open>What a guest can write\<close>

text \<open>The event of a guest's record is an egress of its own run, whatever the record holds.\<close>

lemma insert_other_key:
  assumes "reads_as ctx kind ev" "key \<notin> {''unmapped'', ''message''}"
  shows "reads_as ctx kind (btree_insert key v ev)"
proof -
  have same: "unmapped (btree_insert key v ev) = unmapped ev" "get_str (btree_insert key v ev) ''message'' = get_str ev ''message''"
    using assms(2) by (auto simp: unmapped_def btree_insert_get get_str_insert)
  have "ocsf_read (btree_insert key v ev) = ocsf_read ev" unfolding ocsf_read_def same by (rule refl)
  then show ?thesis using assms(1) by (simp add: reads_as_def)
qed

lemma guest_event_reads:
  assumes "guest_egress_to_ocsf ctx obj = Some ev"
  shows "reads_as ctx ''egress'' ev"
  using assms
  by (auto simp: guest_egress_to_ocsf_def Let_def intro!: insert_other_key egress_read split: option.splits prod.splits)

definition log_of :: "'w relay \<Rightarrow> string" where
  "log_of st = (case af_log (rl_files st) of Some s \<Rightarrow> s | None \<Rightarrow> [])"

definition head_of :: "'w relay \<Rightarrow> string" where
  "head_of st = (case ch_prev_hash (rl_chain st) of Some h \<Rightarrow> h | None \<Rightarrow> GENESIS_PREV_HASH)"

definition adds_egress :: "serde \<Rightarrow> ocsf_context \<Rightarrow> ws_message \<Rightarrow> 'w relay \<Rightarrow> 'w relay \<Rightarrow> bool" where
  "adds_egress J ctx msg st st' \<longleftrightarrow> (\<exists>txt ev. msg = Ws_Text txt \<and> reads_as ctx ''egress'' ev
     \<and> log_of st' = log_of st @ event_line J (head_of st) ev @ [newline]
     \<and> bd_events (rl_budget st) = bd_events (rl_budget st') + 1
     \<and> bd_bytes (rl_budget st) = bd_bytes (rl_budget st') + length txt)"

lemma write_log: "af_log (snd (write_chain_line A (Log_Ok, af) bytes c files)) =
    Some ((case af_log files of Some s \<Rightarrow> s | None \<Rightarrow> []) @ bytes @ [newline])"
  by (auto simp: write_chain_line_def append_log_def write_anchor_file_def split: option.splits prod.splits)

lemma charged: "try_charge n b = Some b' \<Longrightarrow> bd_events b = bd_events b' + 1 \<and> bd_bytes b = bd_bytes b' + n"
  by (auto simp: try_charge_def split: if_splits)

lemma audit_event_effect:
  assumes ev: "guest_egress_to_ocsf ctx obj = Some ev" and b: "try_charge (length body) (rl_budget st) = Some b"
    and aug: "augment_obj J sha256 ev (rl_chain st) = (bytes, c)"
    and w: "write_chain_line A (Log_Ok, af) bytes c (rl_files st) = (ok, files)"
  shows "adds_egress J ctx (Ws_Text body) st (st\<lparr>rl_chain := c, rl_budget := b, rl_files := files\<rparr>)"
proof -
  have bytes: "bytes = event_line J (head_of st) ev"
    using aug by (auto simp: augment_obj_def event_line_def head_of_def Let_def)
  have "log_of (st\<lparr>rl_chain := c, rl_budget := b, rl_files := files\<rparr>) = log_of st @ bytes @ [newline]"
    using write_log [of A af bytes c "rl_files st"] unfolding w by (simp add: log_of_def)
  then show ?thesis unfolding adds_egress_def bytes
    using charged [OF b] guest_event_reads [OF ev] by (intro exI [of _ body] exI [of _ ev]) simp
qed

lemma inbound_cases:
  assumes h: "handle_inbound J A sha256 decode_pending E faults ctx now msg st = (res, st')"
  obtains (kept) "rl_files st' = rl_files st" "rl_budget st' = rl_budget st" "rl_chain st' = rl_chain st"
  | (wrote) body obj ev b bytes c ok files where "msg = Ws_Text body" "sj_from_str J body = Inr (JObj obj)"
      "guest_egress_to_ocsf ctx obj = Some ev" "try_charge (length body) (rl_budget st) = Some b"
      "augment_obj J sha256 ev (rl_chain st) = (bytes, c)" "write_chain_line A faults bytes c (rl_files st) = (ok, files)"
      "st' = st\<lparr>rl_chain := c, rl_budget := b, rl_files := files\<rparr>" "res = (if ok then Inr False else Inl ())"
proof (cases "\<exists>body obj. msg = Ws_Text body \<and> sj_from_str J body = Inr (JObj obj) \<and> get_str obj ''type'' = Some ''audit_event''")
  case True
  then obtain body obj where obj: "msg = Ws_Text body" "sj_from_str J body = Inr (JObj obj)" "get_str obj ''type'' = Some ''audit_event''"
    by blast
  note h = h [unfolded handle_inbound_def obj ws_message.case sum.case json.case if_P [OF refl]]
  show ?thesis
  proof (cases "guest_egress_to_ocsf ctx obj")
    case None
    then show ?thesis using h by (intro kept) simp_all
  next
    case (Some ev)
    note ev = Some
    show ?thesis
    proof (cases "try_charge (length body) (rl_budget st)")
      case None
      then show ?thesis using h ev by (intro kept) simp_all
    next
      case (Some b)
      obtain bytes c ok files where "augment_obj J sha256 ev (rl_chain st) = (bytes, c)"
        "write_chain_line A faults bytes c (rl_files st) = (ok, files)" by fastforce
      with h ev Some obj show ?thesis by (intro wrote [of body obj ev b bytes c ok files]) auto
    qed
  qed
next
  case False
  then have "st' = st \<or> (\<exists>s. st' = st\<lparr>rl_session := s\<rparr>)"
    using h by (cases msg) (auto simp: handle_inbound_def split: sum.splits json.splits if_splits option.splits)
  then show ?thesis by (intro kept) auto
qed

lemma inbound_effect:
  assumes h: "handle_inbound J A sha256 decode_pending E (Log_Ok, af) ctx now msg st = (res, st')"
  shows "rl_files st' = rl_files st \<and> rl_budget st' = rl_budget st \<or> adds_egress J ctx msg st st'"
  using h by (cases rule: inbound_cases) (use audit_event_effect in blast)+

text \<open>
  C7: whatever a guest sends, the audit log is left as it was or has one more line, an egress event of the
  guest's own run and time, chained to the line before; and then the budget is charged one event and the
  size of the message.
\<close>

theorem guest_writes_only_its_egress:
  "\<exists>st'. snd (handle_inbound J A sha256 decode_pending E (Log_Ok, af) ctx now msg st) = st' \<and>
    (rl_files st' = rl_files st \<and> rl_budget st' = rl_budget st
    \<or> (\<exists>body ev r. msg = Ws_Text body \<and> ocsf_read ev = Inr r \<and> rw_kind r = ''egress'' \<and> rw_run r = cx_run ctx \<and> rw_ts r = cx_ts ctx
         \<and> log_of st' = log_of st @ event_line J (head_of st) ev @ [newline]
         \<and> bd_events (rl_budget st) = bd_events (rl_budget st') + 1
         \<and> bd_bytes (rl_budget st) = bd_bytes (rl_budget st') + length body))"
  using inbound_effect [OF surjective_pairing, of J A sha256 decode_pending E af ctx now msg st]
  by (auto simp: adds_egress_def reads_as_def)

section \<open>How much a guest can write\<close>

text \<open>A stretch of the relay's work adds lines to the log and takes as many events from the budget.\<close>

definition spends :: "nat \<Rightarrow> 'w relay \<Rightarrow> 'w relay \<Rightarrow> bool" where
  "spends uncharged st st' \<longleftrightarrow> (\<exists>ls. log_of st' = log_of st @ log_text ls
     \<and> length ls + bd_events (rl_budget st') = bd_events (rl_budget st) + uncharged)"

lemma spends_same: "rl_files st' = rl_files st \<Longrightarrow> rl_budget st' = rl_budget st \<Longrightarrow> spends 0 st st'"
  by (auto simp: spends_def log_of_def intro!: exI [of _ "[]"])

lemma spends_line: "log_of st' = log_of st @ l @ [newline] \<Longrightarrow> bd_events (rl_budget st) + n = bd_events (rl_budget st') + 1 \<Longrightarrow> spends n st st'"
  by (auto simp: spends_def intro!: exI [of _ "[l]"])

lemma spends_trans: "spends m st st' \<Longrightarrow> spends n st' st'' \<Longrightarrow> spends (m + n) st st''"
proof -
  assume "spends m st st'" "spends n st' st''"
  then obtain ks ls where
    "log_of st' = log_of st @ log_text ks" "length ks + bd_events (rl_budget st') = bd_events (rl_budget st) + m"
    "log_of st'' = log_of st' @ log_text ls" "length ls + bd_events (rl_budget st'') = bd_events (rl_budget st') + n"
    unfolding spends_def by blast
  then show ?thesis unfolding spends_def by (intro exI [of _ "ks @ ls"]) simp
qed

abbreviation logs_well :: "delivery \<Rightarrow> bool" where
  "logs_well d \<equiv> fst (dl_faults d) = Log_Ok"

lemma inbound_spends:
  assumes "logs_well d"
  shows "spends 0 st (snd (handle_inbound J A sha256 decode_pending E (dl_faults d) ctx now msg st))"
proof -
  obtain af where "dl_faults d = (Log_Ok, af)" using assms by (cases "dl_faults d") simp
  then show ?thesis
    using inbound_effect [OF surjective_pairing, of J A sha256 decode_pending E af ctx now msg st]
    by (auto simp: adds_egress_def intro: spends_same spends_line)
qed

lemma serve_spends:
  "list_all (logs_well \<circ> fst) inbound \<Longrightarrow> spends 0 st (serve J A sha256 decode_pending E run microvm inbound st)"
proof (induction inbound arbitrary: st)
  case (Cons m inbound)
  obtain d msg where m: "m = (d, msg)" by (cases m)
  obtain res st' where h: "handle_inbound J A sha256 decode_pending E (dl_faults d) (ctx_at_unix run microvm (dl_unix d)) (dl_now d) msg st = (res, st')"
    by fastforce
  have one: "spends 0 st st'"
    using inbound_spends [of d st J A sha256 decode_pending E "ctx_at_unix run microvm (dl_unix d)" "dl_now d" msg] Cons.prems m h by simp
  have rest: "spends 0 st' (serve J A sha256 decode_pending E run microvm inbound st')" using Cons by simp
  show ?case using one spends_trans [OF one rest] by (auto simp: m h split: sum.splits bool.splits)
qed (simp add: spends_same)

lemma env_event_log:
  assumes "write_run_env_event J A sha256 (Log_Ok, af) ctx user_env c files = (ok, c', files')"
  shows "(if injected_env user_env = None then files' = files
    else \<exists>l. af_log files' = Some ((case af_log files of Some s \<Rightarrow> s | None \<Rightarrow> []) @ l @ [newline]))"
proof (cases "injected_env user_env")
  case (Some env)
  obtain bytes d where aug: "augment_obj J sha256 (run_env_event ctx (map (\<lambda>(k, v). (k, JStr v)) env)) c = (bytes, d)" by fastforce
  have "files' = snd (write_chain_line A (Log_Ok, af) bytes d files)"
    using assms by (auto simp: write_run_env_event_def Some aug split: prod.splits)
  then show ?thesis using write_log [of A af bytes d files] Some by auto
qed (use assms in \<open>simp add: write_run_env_event_def\<close>)

text \<open>The events a connection writes of its own accord, which nothing is charged for.\<close>

definition uncharged :: "string \<Rightarrow> string list \<Rightarrow> connection list \<Rightarrow> nat" where
  "uncharged token user_env cns =
     (if injected_env user_env = None then 0 else length (filter (\<lambda>cn. authorized token (cn_header cn)) cns))"

definition cn_ok :: "connection \<Rightarrow> bool" where
  "cn_ok cn \<longleftrightarrow> logs_well (cn_start cn) \<and> list_all (logs_well \<circ> fst) (cn_inbound cn)"

lemma connection_spends:
  assumes "cn_ok cn"
  shows "spends (uncharged token user_env [cn]) st (handle_connection J A sha256 decode_pending E run microvm token user_env cn st)"
proof (cases "authorized token (cn_header cn)")
  case True
  obtain af where af: "dl_faults (cn_start cn) = (Log_Ok, af)" using assms by (cases "dl_faults (cn_start cn)") (simp add: cn_ok_def)
  obtain ok c files where w: "write_run_env_event J A sha256 (Log_Ok, af) (ctx_at_unix run microvm (dl_unix (cn_start cn))) user_env
      (resuming_from_anchor (read_anchor A (af_anchor (rl_files st)))) (rl_files st) = (ok, c, files)" by (metis prod_cases3)
  let ?st = "st\<lparr>rl_chain := c, rl_files := files\<rparr>"
  have first: "spends (uncharged token user_env [cn]) st ?st"
    using env_event_log [OF w] True
    by (auto simp: uncharged_def log_of_def intro: spends_same spends_line split: if_splits)
  have "spends 0 ?st (serve J A sha256 decode_pending E run microvm (cn_inbound cn) ?st)"
    using assms by (intro serve_spends) (simp add: cn_ok_def)
  from spends_trans [OF first this] first show ?thesis using True
    by (simp add: handle_connection_def af w Let_def)
qed (simp add: handle_connection_def uncharged_def spends_same)

definition serve_run ::
    "serde \<Rightarrow> anchor_codec \<Rightarrow> (string \<Rightarrow> string) \<Rightarrow> (json_map \<Rightarrow> request_pending option) \<Rightarrow> ('n, 'w) env \<Rightarrow> string \<Rightarrow> string
       \<Rightarrow> string \<Rightarrow> string list \<Rightarrow> connection list \<Rightarrow> 'w relay \<Rightarrow> 'w relay" where
  "serve_run J A sha256 decode_pending E run microvm token user_env cns st =
     foldl (\<lambda>st cn. handle_connection J A sha256 decode_pending E run microvm token user_env cn st) st cns"

lemma run_spends:
  "list_all cn_ok cns \<Longrightarrow>
    spends (uncharged token user_env cns) st (serve_run J A sha256 decode_pending E run microvm token user_env cns st)"
proof (induction cns arbitrary: st)
  case (Cons cn cns)
  have "spends (uncharged token user_env [cn] + uncharged token user_env cns) st
      (serve_run J A sha256 decode_pending E run microvm token user_env (cn # cns) st)"
    unfolding serve_run_def foldl_Cons
    using Cons by (intro spends_trans [OF connection_spends]) (simp_all add: serve_run_def)
  moreover have "uncharged token user_env (cn # cns) = uncharged token user_env [cn] + uncharged token user_env cns"
    by (simp add: uncharged_def)
  ultimately show ?case by simp
qed (simp add: serve_run_def uncharged_def spends_same)

text \<open>
  C23: over all the connections of a run, a guest adds at most as many lines to the log as the run has left of
  its hundred thousand events, earlier boots counted, besides the one line that each connection let in writes
  with the names of the variables.
\<close>

theorem guest_lines_bounded:
  assumes "list_all cn_ok cns" "rl_budget st = budget_at_boot A (rl_files st)"
  shows "\<exists>ls. log_of (serve_run J A sha256 decode_pending E run microvm token user_env cns st) = log_of st @ log_text ls
    \<and> length ls \<le> (100000 - lines_anchored A (rl_files st)) + uncharged token user_env cns"
proof -
  obtain ls where "log_of (serve_run J A sha256 decode_pending E run microvm token user_env cns st) = log_of st @ log_text ls"
    "length ls + bd_events (rl_budget (serve_run J A sha256 decode_pending E run microvm token user_env cns st))
       = bd_events (rl_budget st) + uncharged token user_env cns"
    using run_spends [OF assms(1), unfolded spends_def] by blast
  then show ?thesis using assms(2)
    by (intro exI [of _ ls]) (simp add: budget_at_boot_def budget_seeded_def MAX_AUDIT_EVENTS_PER_RUN_def)
qed

definition sample_delivery :: delivery where
  "sample_delivery = \<lparr>dl_unix = 0, dl_now = 0, dl_faults = (Log_Ok, Anchor_Ok)\<rparr>"

definition sample_connection :: connection where
  "sample_connection = \<lparr>cn_header = Some ''Bearer t'', cn_start = sample_delivery, cn_inbound = []\<rparr>"

definition busy_connection :: connection where
  "busy_connection = sample_connection\<lparr>cn_inbound := [(sample_delivery, Ws_Text ''{}''), (sample_delivery, Ws_Close)]\<rparr>"

lemma sample_connections_ok: "cn_ok sample_connection" "cn_ok busy_connection" "authorized ''t'' (cn_header sample_connection)"
  by (simp_all add: cn_ok_def sample_connection_def busy_connection_def sample_delivery_def authorized_def header_check)

abbreviation booted :: "'w relay \<Rightarrow> 'w relay" where
  "booted st \<equiv> st\<lparr>rl_files := \<lparr>af_log = None, af_anchor = None\<rparr>,
     rl_budget := budget_at_boot sample_anchors \<lparr>af_log = None, af_anchor = None\<rparr>\<rparr>"

theorem guest_lines_bounded_witness:
  "\<forall>E st. \<exists>ls. log_of (serve_run sample_serde sample_anchors sample_digest (\<lambda>_. None) E ''r'' ''m'' ''t'' [''A=1'']
       [sample_connection, busy_connection] (booted st)) = log_text ls \<and> length ls \<le> 100002"
proof (intro allI)
  fix E :: "('n, 'w) env" and st :: "'w relay"
  have "log_of (booted st) = []" "lines_anchored sample_anchors (rl_files (booted st)) = 0"
    "uncharged ''t'' [''A=1''] [sample_connection, busy_connection] \<le> 2"
    by (simp_all add: log_of_def lines_anchored_def read_anchor_def uncharged_def)
  then show "\<exists>ls. log_of (serve_run sample_serde sample_anchors sample_digest (\<lambda>_. None) E ''r'' ''m'' ''t'' [''A=1'']
       [sample_connection, busy_connection] (booted st)) = log_text ls \<and> length ls \<le> 100002"
    using guest_lines_bounded [of "[sample_connection, busy_connection]" "booted st" sample_anchors
        sample_serde sample_digest "\<lambda>_. None" E "''r''" "''m''" "''t''" "[''A=1'']"] sample_connections_ok
    by fastforce
qed

lemma idle_budget:
  "list_all (\<lambda>cn. cn_inbound cn = []) cns \<Longrightarrow>
    rl_budget (serve_run J A sha256 decode_pending E run microvm token user_env cns st) = rl_budget st"
  by (induction cns arbitrary: st)
    (auto simp: serve_run_def handle_connection_def Let_def split: prod.splits)

text \<open>
  C31: those lines have no bound of their own. A guest that connects again and again and sends nothing adds a
  line each time, and the budget of the run stays what it was.
\<close>

theorem reconnecting_is_not_charged:
  assumes "list_all cn_ok cns" "list_all (\<lambda>cn. cn_inbound cn = [] \<and> authorized token (cn_header cn)) cns"
    "injected_env user_env \<noteq> None"
  shows "rl_budget (serve_run J A sha256 decode_pending E run microvm token user_env cns st) = rl_budget st
    \<and> (\<exists>ls. log_of (serve_run J A sha256 decode_pending E run microvm token user_env cns st) = log_of st @ log_text ls
         \<and> length ls = length cns)"
proof -
  have idle: "rl_budget (serve_run J A sha256 decode_pending E run microvm token user_env cns st) = rl_budget st"
    using assms(2) by (intro idle_budget) (simp add: list_all_iff)
  have "uncharged token user_env cns = length cns"
    using assms(2,3) by (auto simp: uncharged_def list_all_iff filter_id_conv)
  then show ?thesis using run_spends [OF assms(1), of token user_env st J A sha256 decode_pending E run microvm] idle
    by (simp add: spends_def)
qed

theorem reconnecting_is_not_charged_witness:
  "\<forall>E st. rl_budget (serve_run sample_serde sample_anchors sample_digest (\<lambda>_. None) E ''r'' ''m'' ''t'' [''A=1'']
       (replicate 1000000 sample_connection) st) = rl_budget st
     \<and> (\<exists>ls. log_of (serve_run sample_serde sample_anchors sample_digest (\<lambda>_. None) E ''r'' ''m'' ''t'' [''A=1'']
            (replicate 1000000 sample_connection) st) = log_of st @ log_text ls \<and> length ls = 1000000)"
proof (intro allI)
  fix E :: "('n, 'w) env" and st :: "'w relay"
  define cns where "cns = replicate 1000000 sample_connection"
  have ok: "list_all cn_ok cns" "list_all (\<lambda>cn. cn_inbound cn = [] \<and> authorized ''t'' (cn_header cn)) cns"
    using sample_connections_ok by (auto simp: cns_def list_all_iff sample_connection_def)
  have env: "injected_env [''A=1''] \<noteq> None" by code_simp
  have len: "length cns = 1000000" by (simp only: cns_def length_replicate)
  show "rl_budget (serve_run sample_serde sample_anchors sample_digest (\<lambda>_. None) E ''r'' ''m'' ''t'' [''A=1'']
       (replicate 1000000 sample_connection) st) = rl_budget st
     \<and> (\<exists>ls. log_of (serve_run sample_serde sample_anchors sample_digest (\<lambda>_. None) E ''r'' ''m'' ''t'' [''A=1'']
            (replicate 1000000 sample_connection) st) = log_of st @ log_text ls \<and> length ls = 1000000)"
    using reconnecting_is_not_charged [OF ok env, of sample_serde sample_anchors sample_digest "\<lambda>_. None" E "''r''" "''m''" st]
    unfolding len unfolding cns_def .
qed

section \<open>What of the environment is recorded\<close>

lemma injected_by_name:
  "injected_env env =
     (let named = foldl (\<lambda>named k. case k of None \<Rightarrow> named | Some k \<Rightarrow> btree_insert k REDACTED_ENV_VALUE named) []
                    (map (\<lambda>kv. map_option fst (split_once CHR ''='' kv)) env)
      in if named = [] then None else Some named)"
proof -
  have "(\<lambda>named kv. case split_once CHR ''='' kv of None \<Rightarrow> named | Some (k, _) \<Rightarrow> btree_insert k REDACTED_ENV_VALUE named) =
      (\<lambda>named kv. case map_option fst (split_once CHR ''='' kv) of None \<Rightarrow> named | Some k \<Rightarrow> btree_insert k REDACTED_ENV_VALUE named)"
    by (auto simp: fun_eq_iff split: option.splits)
  then show ?thesis by (simp add: injected_env_def foldl_map)
qed

text \<open>
  C24: the values of the variables a run is given never reach the audit log: two environments with the same
  names, in the same order, leave the same files and the same chain.
\<close>

theorem env_values_stay_out:
  assumes "map (\<lambda>kv. map_option fst (split_once CHR ''='' kv)) env = map (\<lambda>kv. map_option fst (split_once CHR ''='' kv)) env'"
  shows "write_run_env_event J A sha256 faults ctx env c files = write_run_env_event J A sha256 faults ctx env' c files"
proof -
  have "injected_env env = injected_env env'" using assms by (simp add: injected_by_name)
  then show ?thesis by (simp add: write_run_env_event_def)
qed

theorem env_values_stay_out_witness:
  "\<forall>J A sha256 faults ctx c files. write_run_env_event J A sha256 faults ctx [''TOKEN=secret'', ''B=2''] c files =
     write_run_env_event J A sha256 faults ctx [''TOKEN=other'', ''B=''] c files"
  by (intro allI env_values_stay_out) simp

end
