(* ===== verification/Run_Audit.thy ===== *)
theory Run_Audit
  imports Relay
begin

text \<open>
  The audit log of a run as a whole: the service writes to it event by event, and the relay writes to it with
  the chain it holds for a connection. Both write the same lines.
\<close>

section \<open>The events the service writes\<close>

text \<open>Each is one append to the log of the run; \<open>unix\<close> is the clock and \<open>sink\<close> the append with the outcome of its writes.\<close>

type_synonym event_sink = "json_map \<Rightarrow> audit_files \<Rightarrow> bool \<times> audit_files"

definition run_ctx :: "string \<Rightarrow> string \<Rightarrow> nat \<Rightarrow> ocsf_context" where
  "run_ctx run microvm unix = ctx_at_unix run microvm unix"

definition record_run_launched :: "event_sink \<Rightarrow> string \<Rightarrow> string \<Rightarrow> string \<Rightarrow> nat \<Rightarrow> audit_files \<Rightarrow> bool \<times> audit_files" where
  "record_run_launched sink run_id microvm img unix = sink (workload_launch (run_ctx run_id microvm unix) img)"

definition record_run_exited :: "event_sink \<Rightarrow> string \<Rightarrow> string \<Rightarrow> int \<Rightarrow> nat \<Rightarrow> audit_files \<Rightarrow> bool \<times> audit_files" where
  "record_run_exited sink run_id microvm exit_code unix =
     sink (workload_exit (run_ctx run_id microvm unix) exit_code (exit_code = 137))"

definition record_run_restarted :: "event_sink \<Rightarrow> string \<Rightarrow> string \<Rightarrow> string \<Rightarrow> nat \<Rightarrow> audit_files \<Rightarrow> bool \<times> audit_files" where
  "record_run_restarted sink run_id microvm img unix = sink (workload_restart (run_ctx run_id microvm unix) img)"

definition record_run_removed :: "event_sink \<Rightarrow> string \<Rightarrow> bool \<Rightarrow> bool \<Rightarrow> nat \<Rightarrow> audit_files \<Rightarrow> bool \<times> audit_files" where
  "record_run_removed sink run_id forced auto' unix = sink (run_removed (run_ctx run_id run_id unix) forced auto')"

definition record_runs_pruned :: "event_sink \<Rightarrow> string \<Rightarrow> string list \<Rightarrow> nat \<Rightarrow> audit_files \<Rightarrow> bool \<times> audit_files" where
  "record_runs_pruned sink run_id removed unix = sink (runs_pruned (run_ctx run_id run_id unix) removed)"

definition record_sandbox_run ::
    "event_sink \<Rightarrow> string \<Rightarrow> string \<Rightarrow> string \<Rightarrow> string \<Rightarrow> string \<Rightarrow> nat \<Rightarrow> audit_files \<Rightarrow> bool \<times> audit_files" where
  "record_sandbox_run sink run_id microvm reference digest policy_hash unix =
     sink (sandbox_run_event (run_ctx run_id microvm unix) reference digest policy_hash)"

record provision_outcome =
  po_tool :: string
  po_requested :: string
  po_resolved :: string
  po_source_host :: "string option"
  po_backend :: string

definition record_tool_provisioned :: "event_sink \<Rightarrow> string \<Rightarrow> string \<Rightarrow> provision_outcome \<Rightarrow> nat \<Rightarrow> audit_files \<Rightarrow> bool \<times> audit_files" where
  "record_tool_provisioned sink run_id microvm outcome unix =
     sink (tool_provision (run_ctx run_id microvm unix) (po_tool outcome) (po_requested outcome) (po_resolved outcome)
       (po_source_host outcome) (po_backend outcome))"

definition record_volume_attached :: "event_sink \<Rightarrow> string \<Rightarrow> string \<Rightarrow> string \<Rightarrow> string \<Rightarrow> nat \<Rightarrow> audit_files \<Rightarrow> bool \<times> audit_files" where
  "record_volume_attached sink run_id microvm name target unix = sink (volume_mount_event (run_ctx run_id microvm unix) name target)"

definition record_bind_attached ::
    "event_sink \<Rightarrow> string \<Rightarrow> string \<Rightarrow> string \<Rightarrow> string \<Rightarrow> string list \<Rightarrow> string list \<Rightarrow> nat \<Rightarrow> audit_files \<Rightarrow> bool \<times> audit_files" where
  "record_bind_attached sink run_id microvm source target exposed_secrets dropped_secrets unix =
     sink (bind_mount_event (run_ctx run_id microvm unix) source target exposed_secrets dropped_secrets)"

section \<open>The chain of a connection\<close>

definition chain_on_disk :: "anchor_codec \<Rightarrow> audit_files \<Rightarrow> audit_chain" where
  "chain_on_disk A files = resuming_from_anchor (read_anchor A (af_anchor files))"

definition in_step :: "serde \<Rightarrow> anchor_codec \<Rightarrow> (string \<Rightarrow> string) \<Rightarrow> 'w relay \<Rightarrow> json_map list \<Rightarrow> bool" where
  "in_step J A sha256 st evs \<longleftrightarrow> holds J A sha256 (rl_files st) evs \<and> rl_chain st = chain_on_disk A (rl_files st)"

text \<open>While the chain in memory is the one on disk, a line of the relay is an append of the service.\<close>

lemma relay_line_is_an_append:
  assumes "augment_obj J sha256 ev (chain_on_disk A files) = (bytes, c)"
  shows "write_chain_line A faults bytes c files = append_ocsf_at J A sha256 faults ev files"
  using assms by (simp add: append_ocsf_at_def append_event_with_sink_def chain_on_disk_def)

lemma relay_line:
  assumes "anchor_ok A" "holds J A sha256 files evs" "harmless faults"
    and aug: "augment_obj J sha256 ev (chain_on_disk A files) = (bytes, c)"
    and w: "write_chain_line A faults bytes c files = (ok, files')"
  shows "holds J A sha256 files' (if fst faults = Log_Ok then evs @ [ev] else evs)" "ok \<Longrightarrow> fst faults = Log_Ok \<and> c = chain_on_disk A files'"
proof -
  have files': "files' = snd (append_ocsf_at J A sha256 faults ev files)"
    using w relay_line_is_an_append [OF aug, of faults] by simp
  show held: "holds J A sha256 files' (if fst faults = Log_Ok then evs @ [ev] else evs)"
    unfolding files' by (rule append_holds [OF assms(1-3)])
  assume ok
  then have log: "fst faults = Log_Ok" using w assms(3) by (auto simp: write_chain_line_def append_log_def harmless_def)
  have anc: "anchored J A sha256 files evs" "anchored J A sha256 files' (evs @ [ev])" using assms(2) held log by (simp_all add: holds_def)
  have "c = chain_on_disk A files'"
    using aug unfolding chain_on_disk_def resumed [OF assms(1) anc(1)] resumed [OF assms(1) anc(2)]
    by (auto simp: augment_obj_def event_line_def line_hash_def Let_def chain_lines_snoc)
  then show "fst faults = Log_Ok \<and> c = chain_on_disk A files'" using log by simp
qed

section \<open>What a connection leaves\<close>

definition env_events :: "string \<Rightarrow> string \<Rightarrow> string list \<Rightarrow> connection \<Rightarrow> json_map list" where
  "env_events run microvm user_env cn = (case injected_env user_env of
     None \<Rightarrow> []
   | Some env \<Rightarrow> [run_env_event (ctx_at_unix run microvm (dl_unix (cn_start cn))) (map (\<lambda>(k, v). (k, JStr v)) env)])"

definition guest_event :: "serde \<Rightarrow> string \<Rightarrow> string \<Rightarrow> delivery \<times> ws_message \<Rightarrow> json_map option" where
  "guest_event J run microvm m = (case snd m of
     Ws_Text body \<Rightarrow> (case sj_from_str J body of
       Inr (JObj obj) \<Rightarrow> guest_egress_to_ocsf (ctx_at_unix run microvm (dl_unix (fst m))) obj
     | _ \<Rightarrow> None)
   | _ \<Rightarrow> None)"

definition events_of :: "serde \<Rightarrow> string \<Rightarrow> string \<Rightarrow> string list \<Rightarrow> connection \<Rightarrow> json_map list" where
  "events_of J run microvm user_env cn = env_events run microvm user_env cn @ List.map_filter (guest_event J run microvm) (cn_inbound cn)"

lemma inbound_in_step:
  assumes "anchor_ok A" "in_step J A sha256 st evs" "harmless (dl_faults d)"
    and h: "handle_inbound J A sha256 decode_pending E (dl_faults d) (ctx_at_unix run microvm (dl_unix d)) now msg st = (res, st')"
  shows "\<exists>evs'. holds J A sha256 (rl_files st') (evs @ evs') \<and> set evs' \<subseteq> set_option (guest_event J run microvm (d, msg))
    \<and> (res = Inr False \<longrightarrow> in_step J A sha256 st' (evs @ evs'))"
  using h
proof (cases rule: inbound_cases)
  case kept
  then show ?thesis using assms(2) by (intro exI [of _ "[]"]) (simp add: in_step_def)
next
  case (wrote body obj ev b bytes c ok files)
  note disk = assms(2) [unfolded in_step_def]
  note line = relay_line [OF assms(1) conjunct1 [OF disk] assms(3) wrote(5) [unfolded conjunct2 [OF disk]] wrote(6)]
  have ev: "guest_event J run microvm (d, msg) = Some ev" using wrote by (simp add: guest_event_def)
  show ?thesis using line wrote(7,8) ev
    by (intro exI [of _ "if fst (dl_faults d) = Log_Ok then [ev] else []"]) (auto simp: in_step_def split: if_splits)
qed

lemma serve_holds:
  assumes "anchor_ok A"
  shows "in_step J A sha256 st evs \<Longrightarrow> list_all (harmless \<circ> dl_faults \<circ> fst) inbound \<Longrightarrow>
    \<exists>evs'. holds J A sha256 (rl_files (serve J A sha256 decode_pending E run microvm inbound st)) (evs @ evs')
      \<and> set evs' \<subseteq> set (List.map_filter (guest_event J run microvm) inbound)"
proof (induction inbound arbitrary: st evs)
  case Nil
  then show ?case by (intro exI [of _ "[]"]) (simp add: in_step_def)
next
  case (Cons m inbound)
  obtain d msg where m: "m = (d, msg)" by (cases m)
  obtain res st' where h: "handle_inbound J A sha256 decode_pending E (dl_faults d) (ctx_at_unix run microvm (dl_unix d)) (dl_now d) msg st = (res, st')"
    by fastforce
  have "harmless (dl_faults d)" using Cons.prems(2) m by simp
  then obtain evs' where one: "holds J A sha256 (rl_files st') (evs @ evs')" "set evs' \<subseteq> set_option (guest_event J run microvm (d, msg))"
    "res = Inr False \<longrightarrow> in_step J A sha256 st' (evs @ evs')" using inbound_in_step [OF assms Cons.prems(1) _ h] by blast
  have sub: "set evs' \<subseteq> set (List.map_filter (guest_event J run microvm) (m # inbound))"
    using one(2) m by (auto simp: List.map_filter_def split: option.splits)
  show ?case
  proof (cases "res = Inr False")
    case True
    then obtain evs'' where "holds J A sha256 (rl_files (serve J A sha256 decode_pending E run microvm inbound st')) ((evs @ evs') @ evs'')"
      "set evs'' \<subseteq> set (List.map_filter (guest_event J run microvm) inbound)" using Cons.IH [of st' "evs @ evs'"] one(3) Cons.prems(2) by auto
    then show ?thesis using True sub
      by (intro exI [of _ "evs' @ evs''"]) (auto simp: m h List.map_filter_def split: option.splits)
  next
    case False
    then have "serve J A sha256 decode_pending E run microvm (m # inbound) st = st'" by (simp add: m h split: sum.splits bool.splits)
    then show ?thesis using one(1) sub by (intro exI [of _ evs']) simp
  qed
qed

definition cn_harmless :: "connection \<Rightarrow> bool" where
  "cn_harmless cn \<longleftrightarrow> harmless (dl_faults (cn_start cn)) \<and> list_all (harmless \<circ> dl_faults \<circ> fst) (cn_inbound cn)"

lemma env_in_step:
  assumes "anchor_ok A" "holds J A sha256 files evs" "harmless (dl_faults (cn_start cn))"
    and w: "write_run_env_event J A sha256 (dl_faults (cn_start cn)) (ctx_at_unix run microvm (dl_unix (cn_start cn))) user_env
      (chain_on_disk A files) files = (ok, c, files')"
  shows "\<exists>evs'. holds J A sha256 files' (evs @ evs') \<and> set evs' \<subseteq> set (env_events run microvm user_env cn)
    \<and> (ok \<longrightarrow> c = chain_on_disk A files')"
proof (cases "injected_env user_env")
  case None
  then show ?thesis using w assms(2) by (intro exI [of _ "[]"]) (auto simp: write_run_env_event_def)
next
  case (Some env)
  let ?ev = "run_env_event (ctx_at_unix run microvm (dl_unix (cn_start cn))) (map (\<lambda>(k, v). (k, JStr v)) env)"
  obtain bytes d where aug: "augment_obj J sha256 ?ev (chain_on_disk A files) = (bytes, d)" by fastforce
  have "write_chain_line A (dl_faults (cn_start cn)) bytes d files = (ok, files')" "c = d"
    using w by (auto simp: write_run_env_event_def Some aug split: prod.splits)
  then show ?thesis using relay_line [OF assms(1-3) aug] Some
    by (intro exI [of _ "if fst (dl_faults (cn_start cn)) = Log_Ok then [?ev] else []"])
      (auto simp: env_events_def split: if_splits)
qed

lemma connection_holds:
  assumes "anchor_ok A" "holds J A sha256 (rl_files st) evs" "cn_harmless cn"
  shows "\<exists>evs'. holds J A sha256 (rl_files (handle_connection J A sha256 decode_pending E run microvm token user_env cn st)) (evs @ evs')
    \<and> set evs' \<subseteq> set (events_of J run microvm user_env cn)"
proof (cases "authorized token (cn_header cn)")
  case True
  obtain ok c files where w: "write_run_env_event J A sha256 (dl_faults (cn_start cn)) (ctx_at_unix run microvm (dl_unix (cn_start cn))) user_env
      (chain_on_disk A (rl_files st)) (rl_files st) = (ok, c, files)" by (metis prod_cases3)
  obtain evs' where env: "holds J A sha256 files (evs @ evs')" "set evs' \<subseteq> set (env_events run microvm user_env cn)"
    "ok \<longrightarrow> c = chain_on_disk A files" using env_in_step [OF assms(1,2) _ w] assms(3) by (auto simp: cn_harmless_def)
  let ?st = "st\<lparr>rl_chain := c, rl_files := files\<rparr>"
  have conn: "handle_connection J A sha256 decode_pending E run microvm token user_env cn st =
      (if ok then serve J A sha256 decode_pending E run microvm (cn_inbound cn) ?st else ?st)"
    using True w by (simp add: handle_connection_def chain_on_disk_def Let_def)
  show ?thesis
  proof (cases ok)
    case True
    then have "in_step J A sha256 ?st (evs @ evs')" using env by (simp add: in_step_def)
    then obtain evs'' where "holds J A sha256 (rl_files (serve J A sha256 decode_pending E run microvm (cn_inbound cn) ?st)) ((evs @ evs') @ evs'')"
      "set evs'' \<subseteq> set (List.map_filter (guest_event J run microvm) (cn_inbound cn))"
      using serve_holds [OF assms(1)] assms(3) unfolding cn_harmless_def by blast
    then show ?thesis using True env(2) by (intro exI [of _ "evs' @ evs''"]) (auto simp: conn events_of_def)
  qed (use env conn in \<open>auto simp: events_of_def intro!: exI [of _ evs']\<close>)
qed (use assms(2) in \<open>auto simp: handle_connection_def intro!: exI [of _ "[]"]\<close>)

lemma run_holds:
  assumes "anchor_ok A"
  shows "holds J A sha256 (rl_files st) evs \<Longrightarrow> list_all cn_harmless cns \<Longrightarrow>
    \<exists>evs'. holds J A sha256 (rl_files (serve_run J A sha256 decode_pending E run microvm token user_env cns st)) (evs @ evs')
      \<and> set evs' \<subseteq> set (concat (map (events_of J run microvm user_env) cns))"
proof (induction cns arbitrary: st evs)
  case Nil
  then show ?case by (intro exI [of _ "[]"]) (simp add: serve_run_def)
next
  case (Cons cn cns)
  let ?st = "handle_connection J A sha256 decode_pending E run microvm token user_env cn st"
  obtain evs' where one: "holds J A sha256 (rl_files ?st) (evs @ evs')" "set evs' \<subseteq> set (events_of J run microvm user_env cn)"
    using connection_holds [OF assms Cons.prems(1)] Cons.prems(2) by fastforce
  obtain evs'' where "holds J A sha256 (rl_files (serve_run J A sha256 decode_pending E run microvm token user_env cns ?st)) ((evs @ evs') @ evs'')"
    "set evs'' \<subseteq> set (concat (map (events_of J run microvm user_env) cns))" using Cons.IH [OF one(1)] Cons.prems(2) by fastforce
  then show ?case using one(2) by (intro exI [of _ "evs' @ evs''"]) (auto simp: serve_run_def)
qed

lemma run_verifies:
  assumes "anchor_ok A" "digest_ok sha256" "list_all (event_ok J) evs" "holds J A sha256 (rl_files st) evs" "evs \<noteq> []"
    and "list_all (event_ok J) (concat (map (events_of J run microvm user_env) cns))" "list_all cn_harmless cns"
  shows "\<exists>log anc n. rl_files (serve_run J A sha256 decode_pending E run microvm token user_env cns st) = \<lparr>af_log = Some log, af_anchor = Some anc\<rparr>
    \<and> verify_chain_with_anchor J A sha256 (Contents log) (Contents anc) = Inr (Verified n) \<and> length evs \<le> n"
proof -
  obtain evs' where held: "holds J A sha256 (rl_files (serve_run J A sha256 decode_pending E run microvm token user_env cns st)) (evs @ evs')"
    "set evs' \<subseteq> set (concat (map (events_of J run microvm user_env) cns))" using run_holds [OF assms(1,4,7)] by blast
  have ok: "list_all (event_ok J) (evs @ evs')" using assms(3,6) held(2) by (auto simp: list_all_iff)
  show ?thesis using held_verifies [OF assms(1,2) ok held(1)] assms(5) by fastforce
qed

section \<open>A run with three kinds of event\<close>

definition demo_ctx :: ocsf_context where
  "demo_ctx = ctx_at_unix ''r'' ''m'' 0"

definition demo_record :: json_map where
  "demo_record = [(''action'', JStr ''GET http://a/''), (''type'', JStr ''audit_event'')]"

definition demo_event :: "char \<Rightarrow> json_map" where
  "demo_event c = (if c = CHR ''h'' then workload_launch demo_ctx ''img''
     else if c = CHR ''v'' then run_env_event demo_ctx [(''A'', JStr REDACTED_ENV_VALUE)]
     else (case guest_egress_to_ocsf demo_ctx demo_record of Some ev \<Rightarrow> ev | None \<Rightarrow> []))"

definition demo_serde :: serde where
  "demo_serde = \<lparr>sj_to_vec = (\<lambda>v. case v of
       JObj obj \<Rightarrow> (case (ocsf_read obj, get_str obj ''prev_hash'') of
           (Inr r, Some h) \<Rightarrow> last (rw_kind r) # h
         | _ \<Rightarrow> [])
     | _ \<Rightarrow> []),
     sj_from_str = (\<lambda>s. if s = ''{}'' then Inr (JObj demo_record)
       else Inr (JObj (btree_insert ''prev_hash'' (JStr (tl s)) (demo_event (hd s)))))\<rparr>"

lemma demo_event_ok:
  assumes "reads_as ctx kind ev" "ev = demo_event (last kind)" "visible [last kind]"
  shows "event_ok demo_serde ev"
proof -
  have line: "event_line demo_serde h ev = last kind # h" for h
    using insert_other_key [OF assms(1), of "''prev_hash''" "JStr h"]
    by (auto simp: event_line_def demo_serde_def reads_as_def get_str_insert)
  show ?thesis unfolding event_ok_def line
  proof (intro allI impI)
    fix h
    assume "hash_text h"
    then have h: "visible (last kind # h)" "h \<noteq> ''}''" using hash_visible [of h] assms(3)
      by (auto simp: visible_def hash_text_def is_ascii_hexdigit_def is_ascii_digit_def)
    then have "sj_from_str demo_serde (last kind # h) = Inr (JObj (btree_insert ''prev_hash'' (JStr h) ev))"
      using assms(2) by (simp add: demo_serde_def)
    then show "sj_from_str demo_serde (last kind # h) = Inr (JObj (btree_insert ''prev_hash'' (JStr h) ev))
      \<and> newline \<notin> set (last kind # h) \<and> strip_cr (last kind # h) = last kind # h \<and> is_text (last kind # h) \<and> trim (last kind # h) \<noteq> []"
      using visible_text [OF h(1)] by simp
  qed
qed

lemma demo_egress: obtains ev where "guest_egress_to_ocsf demo_ctx demo_record = Some ev"
  by (cases "egress_method_and_url ''GET http://a/''") (simp add: guest_egress_to_ocsf_def demo_record_def get_str_def Let_def)

lemma demo_events_ok: "event_ok demo_serde (demo_event CHR ''h'')" "event_ok demo_serde (demo_event CHR ''v'')" "event_ok demo_serde (demo_event CHR ''s'')"
proof -
  show "event_ok demo_serde (demo_event CHR ''h'')"
    by (rule demo_event_ok [of demo_ctx "''launch''"]) (simp_all add: demo_event_def runs_read visible_def)
  show "event_ok demo_serde (demo_event CHR ''v'')"
    by (rule demo_event_ok [of demo_ctx "''env''"]) (simp_all add: demo_event_def runs_read visible_def)
  obtain ev where ev: "guest_egress_to_ocsf demo_ctx demo_record = Some ev" by (rule demo_egress)
  show "event_ok demo_serde (demo_event CHR ''s'')"
    using guest_event_reads [OF ev]
    by (intro demo_event_ok [of demo_ctx "''egress''"]) (simp_all add: demo_event_def ev visible_def)
qed

definition demo_connection :: connection where
  "demo_connection = sample_connection\<lparr>cn_inbound := [(sample_delivery, Ws_Text ''{}'')]\<rparr>"

lemma demo_connection_events: "events_of demo_serde ''r'' ''m'' [''A=1''] demo_connection = [demo_event CHR ''v'', demo_event CHR ''s'']"
proof -
  have env: "injected_env [''A=1''] = Some [(''A'', REDACTED_ENV_VALUE)]" by (simp add: injected_env_def)
  obtain ev where ev: "guest_egress_to_ocsf demo_ctx demo_record = Some ev" by (rule demo_egress)
  have "guest_event demo_serde ''r'' ''m'' (sample_delivery, Ws_Text ''{}'') = Some ev"
    using ev by (simp add: guest_event_def demo_serde_def sample_delivery_def demo_ctx_def)
  then show ?thesis
    by (simp add: events_of_def env_events_def env demo_connection_def sample_connection_def List.map_filter_def demo_event_def ev)
      (simp add: sample_delivery_def demo_ctx_def)
qed

lemma demo_connection_harmless: "cn_harmless demo_connection"
  by (simp add: cn_harmless_def demo_connection_def sample_connection_def sample_delivery_def harmless_def)

end
