(* ===== verification/Audit_Migration.thy ===== *)
theory Audit_Migration
  imports Prelude
begin

text \<open>
  The audit chains that earlier versions kept beside the files of a run are moved, once, to the audit directory.
  The files are a map from paths; which reads, writes and removals fail is an input. A write is whole or nothing:
  it goes to a temporary file that is renamed.
\<close>

type_synonym path = "string list"

type_synonym file_map = "path \<Rightarrow> string option"

record io =
  io_read :: "path \<Rightarrow> bool"
  io_write :: "path \<Rightarrow> bool"
  io_remove :: "path \<Rightarrow> bool"

datatype io_error = NotFound | OtherError

definition fs_read :: "io \<Rightarrow> file_map \<Rightarrow> path \<Rightarrow> io_error + string" where
  "fs_read io fs p = (if \<not> io_read io p then Inl OtherError else (case fs p of Some b \<Rightarrow> Inr b | None \<Rightarrow> Inl NotFound))"

definition readable_legacy_chain :: "io \<Rightarrow> file_map \<Rightarrow> path \<Rightarrow> string option" where
  "readable_legacy_chain io fs legacy = (case fs_read io fs legacy of Inr bytes \<Rightarrow> Some bytes | Inl _ \<Rightarrow> None)"

definition new_home_is_vacant :: "io \<Rightarrow> file_map \<Rightarrow> path \<Rightarrow> bool" where
  "new_home_is_vacant io fs new = (fs_read io fs new = Inl NotFound)"

definition place_chain :: "io \<Rightarrow> path \<Rightarrow> path \<Rightarrow> string \<Rightarrow> file_map \<Rightarrow> bool \<times> file_map" where
  "place_chain io legacy new bytes fs =
     (if \<not> io_write io new then (False, fs)
      else (True, if io_remove io legacy then (fs(new \<mapsto> bytes))(legacy := None) else fs(new \<mapsto> bytes)))"

definition migrate_chain_file :: "io \<Rightarrow> path \<Rightarrow> path \<Rightarrow> file_map \<Rightarrow> bool \<times> file_map" where
  "migrate_chain_file io legacy new fs = (case readable_legacy_chain io fs legacy of
     None \<Rightarrow> (False, fs)
   | Some bytes \<Rightarrow> if \<not> new_home_is_vacant io fs new then (False, fs) else place_chain io legacy new bytes fs)"

definition migrate_chain_files :: "io \<Rightarrow> path \<Rightarrow> path \<Rightarrow> file_map \<Rightarrow> bool \<times> file_map" where
  "migrate_chain_files io legacy_dir new_dir fs =
     foldl (\<lambda>(moved, fs) name. case migrate_chain_file io (legacy_dir @ [name]) (new_dir @ [name]) fs of
         (m, fs) \<Rightarrow> (moved \<or> m, fs)) (False, fs) [''audit.jsonl'', ''audit.anchor'']"

text \<open>
  The directories under \<open>runs\<close>, as far as they are listed: a name that is not text is passed over.
\<close>

definition migrate_one :: "io \<Rightarrow> path \<Rightarrow> string list \<times> file_map \<Rightarrow> string option \<Rightarrow> string list \<times> file_map" where
  "migrate_one io lns_home acc dir = (case (acc, dir) of
     (_, None) \<Rightarrow> acc
   | ((migrated, fs), Some rid) \<Rightarrow>
       (case migrate_chain_files io (lns_home @ [''runs'', rid]) (lns_home @ [''audit'', rid]) fs of
          (moved, fs) \<Rightarrow> (if moved then migrated @ [rid] else migrated, fs)))"

definition migrate_legacy_run_audit :: "io \<Rightarrow> path \<Rightarrow> string option list option \<Rightarrow> file_map \<Rightarrow> string list \<times> file_map" where
  "migrate_legacy_run_audit io lns_home listing fs = (case listing of
     None \<Rightarrow> ([], fs)
   | Some dirs \<Rightarrow> foldl (migrate_one io lns_home) ([], fs) dirs)"

section \<open>No chain is lost\<close>

definition legacy_path :: "path \<Rightarrow> string \<Rightarrow> string \<Rightarrow> path" where
  "legacy_path lns_home rid name = lns_home @ [''runs'', rid, name]"

definition audit_home :: "path \<Rightarrow> string \<Rightarrow> string \<Rightarrow> path" where
  "audit_home lns_home rid name = lns_home @ [''audit'', rid, name]"

text \<open>A file stays where it was or, from its old place, is found with the same bytes at its new one.\<close>

definition preserved :: "path \<Rightarrow> file_map \<Rightarrow> file_map \<Rightarrow> bool" where
  "preserved h fs fs' \<longleftrightarrow> (\<forall>p b. fs p = Some b \<longrightarrow> fs' p = Some b
     \<or> (\<exists>rid name. p = legacy_path h rid name \<and> fs' (audit_home h rid name) = Some b))"

lemma homes_apart: "legacy_path h rid name \<noteq> audit_home h rid' name'"
  by (simp add: legacy_path_def audit_home_def)

lemma preserved_refl: "preserved h fs fs"
  by (simp add: preserved_def)

lemma preserved_trans: "preserved h fs fs' \<Longrightarrow> preserved h fs' fs'' \<Longrightarrow> preserved h fs fs''"
  unfolding preserved_def using homes_apart by metis

lemma migrate_file_preserves:
  assumes "migrate_chain_file io (legacy_path h rid name) (audit_home h rid name) fs = (m, fs')"
  shows "preserved h fs fs'"
proof (cases "fs' = fs")
  case False
  with assms obtain bytes where b: "fs (legacy_path h rid name) = Some bytes" "fs (audit_home h rid name) = None"
    "fs' = (fs(audit_home h rid name \<mapsto> bytes))(legacy_path h rid name := None) \<or> fs' = fs(audit_home h rid name \<mapsto> bytes)"
    by (auto simp: migrate_chain_file_def place_chain_def readable_legacy_chain_def new_home_is_vacant_def fs_read_def
        split: option.splits if_splits sum.splits)
  then show ?thesis unfolding preserved_def
    using homes_apart [of h rid name rid name] homes_apart [of h rid name rid name, symmetric] by (auto split: if_splits; blast)
qed (simp add: preserved_refl)

lemma migrate_files_preserve:
  "preserved h fs (snd (migrate_chain_files io (h @ [''runs'', rid]) (h @ [''audit'', rid]) fs))"
proof -
  have one: "preserved h fs (snd (migrate_chain_file io (h @ [''runs'', rid, name]) (h @ [''audit'', rid, name]) fs))" for name fs
    using migrate_file_preserves [of io h rid name fs] by (simp add: legacy_path_def audit_home_def prod_eq_iff)
  show ?thesis
    using preserved_trans [OF one [of fs "''audit.jsonl''"] one [of _ "''audit.anchor''"]]
    by (simp add: migrate_chain_files_def case_prod_beta)
qed

lemma migrate_all_preserves: "preserved h fs (snd (foldl (migrate_one io h) (ids, fs) dirs))"
proof (induction dirs arbitrary: ids fs)
  case (Cons dir dirs)
  obtain ids' fs' where one: "migrate_one io h (ids, fs) dir = (ids', fs')" by fastforce
  then have "preserved h fs fs'"
    using migrate_files_preserve [of h fs io] preserved_refl
    by (auto simp: migrate_one_def split: option.splits prod.splits) (metis snd_conv)+
  then show ?case using one Cons [of fs' ids'] by (simp add: preserved_trans)
qed (simp add: preserved_refl)

text \<open>
  C27: moving the chains of earlier versions loses none and replaces none, whichever reads, writes and removals
  fail on the way: every file of before is where it was, or its bytes are at its new home.
\<close>

theorem migration_loses_no_chain:
  assumes "fs p = Some b"
  shows "\<exists>ids fs'. migrate_legacy_run_audit io lns_home listing fs = (ids, fs') \<and>
    (fs' p = Some b \<or> (\<exists>rid name. p = legacy_path lns_home rid name \<and> fs' (audit_home lns_home rid name) = Some b))"
proof -
  have "preserved lns_home fs (snd (migrate_legacy_run_audit io lns_home listing fs))"
    by (simp add: migrate_legacy_run_audit_def migrate_all_preserves preserved_refl split: option.splits)
  then show ?thesis using assms unfolding preserved_def by (metis prod.collapse)
qed

theorem migration_loses_no_chain_witness:
  "\<exists>ids fs'. migrate_legacy_run_audit \<lparr>io_read = (\<lambda>_. True), io_write = (\<lambda>_. True), io_remove = (\<lambda>_. False)\<rparr> [''home''] (Some [None, Some ''r''])
       (\<lambda>q. if q = [''home'', ''runs'', ''r'', ''audit.jsonl''] then Some ''line'' else None) = (ids, fs') \<and>
    (fs' [''home'', ''runs'', ''r'', ''audit.jsonl''] = Some ''line'' \<or>
     (\<exists>rid name. [''home'', ''runs'', ''r'', ''audit.jsonl''] = legacy_path [''home''] rid name \<and> fs' (audit_home [''home''] rid name) = Some ''line''))"
  by (rule migration_loses_no_chain) simp

end
