(* ===== verification/Placement.thy ===== *)
theory Placement
  imports Rust_Std "HOL-Library.Sublist"
begin

text \<open>
  Where a written file lands against one mount, \<open>crates/lns-placement/src/lib.rs\<close>. Paths are compared by their
  segments, so that a doubled or trailing separator is not a second path.
\<close>

datatype placement = Free | Masked nat | WritesThrough

definition claimed_path :: "string \<Rightarrow> string list" where
  "claimed_path p = filter (\<lambda>seg. seg \<noteq> [] \<and> seg \<noteq> ''.'') (split_on CHR ''/'' p)"

definition same_claim :: "string \<Rightarrow> string \<Rightarrow> bool" where
  "same_claim left right = (claimed_path left = claimed_path right)"

text \<open>\<open>all\<close> takes one segment of the inner path for each of the outer one and stops at the first that differs.\<close>

fun take_all :: "string list \<Rightarrow> string list \<Rightarrow> bool \<times> string list" where
  "take_all [] inner = (True, inner)"
| "take_all (seg # outer) [] = (False, [])"
| "take_all (seg # outer) (x # inner) = (if x = seg then take_all outer inner else (False, inner))"

definition encloses :: "string \<Rightarrow> string \<Rightarrow> bool" where
  "encloses outer inner = (case take_all (claimed_path outer) (claimed_path inner) of (ok, rest) \<Rightarrow> ok \<and> rest \<noteq> [])"

definition path_covers :: "string \<Rightarrow> string \<Rightarrow> bool" where
  "path_covers outer inner = (same_claim outer inner \<or> encloses outer inner)"

definition mask_covers :: "string \<Rightarrow> string \<Rightarrow> string \<Rightarrow> bool" where
  "mask_covers target excl clm = path_covers (trim_end_matches CHR ''/'' target @ ''/'' @ excl) clm"

fun first_index :: "('a \<Rightarrow> bool) \<Rightarrow> 'a list \<Rightarrow> nat option" where
  "first_index P [] = None"
| "first_index P (x # xs) = (if P x then Some 0 else map_option Suc (first_index P xs))"

definition place :: "string \<Rightarrow> string list \<Rightarrow> string \<Rightarrow> placement" where
  "place target excludes clm =
     (if \<not> path_covers target clm \<and> \<not> encloses clm target then Free
      else (case first_index (\<lambda>entry. mask_covers target entry clm) excludes of
              Some i \<Rightarrow> Masked i
            | None \<Rightarrow> WritesThrough))"

section \<open>Segments\<close>

lemma split_on_append: "split_on c (a @ c # b) = split_on c a @ split_on c b"
proof (induction a)
  case (Cons x a)
  then show ?case using split_on_nonempty [of c a] by (cases "split_on c a") (auto split: list.splits)
qed simp

lemma claimed_slash: "claimed_path (a @ CHR ''/'' # b) = claimed_path a @ claimed_path b"
  by (simp add: claimed_path_def split_on_append)

lemma claimed_trailing: "claimed_path (a @ replicate n CHR ''/'') = claimed_path a"
proof (induction n)
  case (Suc n)
  have "a @ replicate (Suc n) CHR ''/'' = (a @ replicate n CHR ''/'') @ CHR ''/'' # []" by (simp add: replicate_append_same)
  then have "claimed_path (a @ replicate (Suc n) CHR ''/'') = claimed_path (a @ replicate n CHR ''/'') @ claimed_path []"
    by (simp only: claimed_slash)
  then show ?case using Suc by (simp add: claimed_path_def)
qed simp

lemma trailing_run: "rev (takeWhile (\<lambda>x. x = c) xs) = replicate (length (takeWhile (\<lambda>x. x = c) xs)) c"
  by (induction xs) (auto simp: replicate_append_same)

lemma claimed_trim: "claimed_path (trim_end_matches CHR ''/'' p) = claimed_path p"
proof -
  let ?reached = "takeWhile (\<lambda>x. x = CHR ''/'') (rev p)"
  have "rev (?reached @ dropWhile (\<lambda>x. x = CHR ''/'') (rev p)) = p" by simp
  then have "p = trim_end_matches CHR ''/'' p @ replicate (length ?reached) CHR ''/''"
    unfolding rev_append trailing_run by (simp add: trim_end_matches_def)
  then show ?thesis using claimed_trailing [of "trim_end_matches CHR ''/'' p" "length ?reached"] by simp
qed

lemma claimed_joined: "claimed_path (trim_end_matches CHR ''/'' a @ ''/'' @ b) = claimed_path a @ claimed_path b"
  by (simp add: claimed_slash claimed_trim)

lemma take_all_prefix: "take_all outer inner = (True, rest) \<longleftrightarrow> inner = outer @ rest"
  by (induction outer inner rule: take_all.induct) auto

lemma encloses_prefix: "encloses outer inner \<longleftrightarrow> strict_prefix (claimed_path outer) (claimed_path inner)"
proof -
  obtain ok rest where t: "take_all (claimed_path outer) (claimed_path inner) = (ok, rest)" by fastforce
  show ?thesis
  proof (cases ok)
    case True
    then have "claimed_path inner = claimed_path outer @ rest" using t take_all_prefix by simp
    then show ?thesis using t True by (simp add: encloses_def strict_prefix_def)
  next
    case False
    then have "\<nexists>r. claimed_path inner = claimed_path outer @ r" using t take_all_prefix by (metis Pair_inject)
    then show ?thesis using t False by (auto simp: encloses_def strict_prefix_def prefix_def)
  qed
qed

lemma covers_prefix: "path_covers outer inner \<longleftrightarrow> prefix (claimed_path outer) (claimed_path inner)"
  by (auto simp: path_covers_def same_claim_def encloses_prefix strict_prefix_def)

lemma mask_prefix: "mask_covers target excl clm \<longleftrightarrow> prefix (claimed_path target @ claimed_path excl) (claimed_path clm)"
  by (simp only: mask_covers_def covers_prefix claimed_joined)

lemma first_index_None: "first_index P xs = None \<longleftrightarrow> \<not> list_ex P xs"
  by (induction xs) auto

lemma first_index_Some: "first_index P xs = Some i \<longleftrightarrow> i < length xs \<and> P (xs ! i) \<and> (\<forall>j < i. \<not> P (xs ! j))"
proof (induction xs arbitrary: i)
  case (Cons x xs)
  then show ?case by (cases i) (auto simp: less_Suc_eq_0_disj)
qed simp

lemma place_free: "place target excludes clm = Free \<longleftrightarrow> claimed_path target \<parallel> claimed_path clm"
proof -
  have "\<not> path_covers target clm \<and> \<not> encloses clm target \<longleftrightarrow> claimed_path target \<parallel> claimed_path clm"
    unfolding covers_prefix encloses_prefix by (auto simp: strict_prefix_def parallel_def)
  then show ?thesis by (auto simp: place_def split: option.splits)
qed

lemma place_masked:
  "place target excludes clm = Masked i \<longleftrightarrow> first_index (\<lambda>e. prefix (claimed_path target @ claimed_path e) (claimed_path clm)) excludes = Some i"
proof -
  have not_free: "place target excludes clm \<noteq> Free" if "first_index (\<lambda>e. prefix (claimed_path target @ claimed_path e) (claimed_path clm)) excludes = Some i"
  proof -
    have "prefix (claimed_path target) (claimed_path clm)" using that append_prefixD by (auto simp: first_index_Some)
    then show ?thesis by (simp add: place_free parallel_def)
  qed
  then show ?thesis unfolding mask_prefix [symmetric] by (auto simp: place_def split: option.splits if_splits)
qed

text \<open>
  C18: where a file lands is decided by segments alone. It is free when neither path leads to the other; else the
  first excluded path at or above it keeps it in the guest; else it reaches what is behind the mount.
\<close>

theorem place_exact:
  "(place target excludes clm = Free \<longleftrightarrow> claimed_path target \<parallel> claimed_path clm)
   \<and> (\<forall>i. place target excludes clm = Masked i \<longleftrightarrow> i < length excludes
        \<and> prefix (claimed_path target @ claimed_path (excludes ! i)) (claimed_path clm)
        \<and> \<not> (\<exists>j < i. prefix (claimed_path target @ claimed_path (excludes ! j)) (claimed_path clm)))"
  by (auto simp: place_free place_masked first_index_Some)

end
