(* ===== verification/Sizes.thy ===== *)
theory Sizes
  imports Text
begin

text \<open>
  The size of a virtual machine, \<open>crates/lns-artifact/src/memory.rs\<close>, \<open>disk.rs\<close> and \<open>resources.rs\<close>: sizes as a
  document writes them, shares of the host, and what a run is granted. Integers are naturals with the range of
  their type written out; \<open>usize\<close> has 64 bits.
\<close>

section \<open>Memory\<close>

datatype quantity = QInt int | QText string

datatype size_error = Bad_Number string | Bad_Unit string string | Size_Zero string | Out_Of_Range string
  | Disk_Share string | Disk_Small quantity | Disk_Large quantity

definition MIB :: nat where
  "MIB = 1024 * 1024"

definition div_ceil :: "nat \<Rightarrow> nat \<Rightarrow> nat" where
  "div_ceil a b = (a + b - 1) div b"

definition checked_mul :: "nat \<Rightarrow> nat \<Rightarrow> nat option" where
  "checked_mul a b = (if a * b < 2 ^ 128 then Some (a * b) else None)"

definition unit_mib :: "string \<Rightarrow> string \<Rightarrow> nat \<Rightarrow> size_error + nat" where
  "unit_mib spec unit v =
     (if unit \<in> {'''', ''m'', ''mb'', ''mi'', ''mib''} then Inr v
      else if unit = ''b'' then Inr (div_ceil v MIB)
      else if unit \<in> {''k'', ''kb'', ''ki'', ''kib''} then Inr (div_ceil v 1024)
      else if unit \<in> {''g'', ''gb'', ''gi'', ''gib''} then
        (case checked_mul v 1024 of Some n \<Rightarrow> Inr n | None \<Rightarrow> Inl (Out_Of_Range spec))
      else if unit \<in> {''t'', ''tb'', ''ti'', ''tib''} then
        (case checked_mul v (1024 * 1024) of Some n \<Rightarrow> Inr n | None \<Rightarrow> Inl (Out_Of_Range spec))
      else Inl (Bad_Unit spec unit))"

definition parse_mib :: "string \<Rightarrow> size_error + nat" where
  "parse_mib spec =
     (let lower = to_ascii_lowercase (trim spec);
          digits = takeWhile is_ascii_digit lower;
          unit = dropWhile is_ascii_digit lower
      in (case parse_uint (2 ^ 128 - 1) digits of
            None \<Rightarrow> Inl (Bad_Number spec)
          | Some v \<Rightarrow> and_then (unit_mib spec unit v) (\<lambda>mib.
              if mib = 0 then Inl (Size_Zero spec)
              else if mib < 2 ^ 64 then Inr mib else Inl (Out_Of_Range spec))))"

section \<open>Disks\<close>

definition MIN_MIB :: nat where
  "MIN_MIB = 20"

definition MAX_MIB_EXCLUSIVE :: nat where
  "MAX_MIB_EXCLUSIVE = 16 * 1024 * 1024"

definition parse_percent :: "string \<Rightarrow> nat option" where
  "parse_percent s = (case strip_suffix ''%'' (trim s) of
     None \<Rightarrow> None
   | Some digits \<Rightarrow> (case parse_u8 digits of
       Some pct \<Rightarrow> if 1 \<le> pct \<and> pct \<le> 100 then Some pct else None
     | None \<Rightarrow> None))"

definition parse_bytes :: "quantity \<Rightarrow> size_error + nat" where
  "parse_bytes q =
     and_then (case q of
         QInt n \<Rightarrow> Inr (nat n)
       | QText s \<Rightarrow> if parse_percent s \<noteq> None then Inl (Disk_Share s) else parse_mib s)
     (\<lambda>mib. if mib < MIN_MIB then Inl (Disk_Small q)
            else if mib \<ge> MAX_MIB_EXCLUSIVE then Inl (Disk_Large q)
            else Inr (mib * 1024 * 1024 mod 2 ^ 64))"

section \<open>What a run is granted\<close>

record resources =
  rs_cpu :: "quantity option"
  rs_memory :: "quantity option"
  rs_disk :: "quantity option"

record vm_size =
  vs_cpus :: nat
  vs_mem_mib :: nat
  vs_disk_bytes :: nat

definition DEFAULT_VM_SIZE :: vm_size where
  "DEFAULT_VM_SIZE = \<lparr>vs_cpus = 1, vs_mem_mib = 512, vs_disk_bytes = 10 * 1024 * 1024 * 1024\<rparr>"

record resource_overrides =
  ro_cpus :: "nat option"
  ro_mem_mib :: "nat option"

record declared_size =
  ds_cpus :: "nat option"
  ds_mem_mib :: "nat option"
  ds_disk_bytes :: "nat option"

record host_capacity =
  hc_cpus :: nat
  hc_mem_mib :: nat

abbreviation opt_or :: "'a option \<Rightarrow> 'a option \<Rightarrow> 'a option" where
  "opt_or a b \<equiv> (case a of Some x \<Rightarrow> Some x | None \<Rightarrow> b)"

abbreviation unwrap_or :: "'a option \<Rightarrow> 'a \<Rightarrow> 'a" where
  "unwrap_or a d \<equiv> (case a of Some x \<Rightarrow> x | None \<Rightarrow> d)"

definition defaults_over :: "resource_overrides \<Rightarrow> vm_size \<Rightarrow> vm_size" where
  "defaults_over configured builtin =
     \<lparr>vs_cpus = unwrap_or (ro_cpus configured) (vs_cpus builtin),
      vs_mem_mib = unwrap_or (ro_mem_mib configured) (vs_mem_mib builtin), vs_disk_bytes = vs_disk_bytes builtin\<rparr>"

definition resolve_declared :: "declared_size \<Rightarrow> resource_overrides \<Rightarrow> vm_size \<Rightarrow> vm_size" where
  "resolve_declared declared overrides defaults =
     \<lparr>vs_cpus = unwrap_or (opt_or (ro_cpus overrides) (ds_cpus declared)) (vs_cpus defaults),
      vs_mem_mib = unwrap_or (opt_or (ro_mem_mib overrides) (ds_mem_mib declared)) (vs_mem_mib defaults),
      vs_disk_bytes = unwrap_or (ds_disk_bytes declared) (vs_disk_bytes defaults)\<rparr>"

definition cpu_share :: "nat \<Rightarrow> nat \<Rightarrow> nat" where
  "cpu_share whole pct = (whole * pct div 100) mod 2 ^ 8"

definition mem_share :: "nat \<Rightarrow> nat \<Rightarrow> nat" where
  "mem_share whole pct = (whole * pct div 100) mod 2 ^ 64"

definition MAX_MEM_MIB :: nat where
  "MAX_MEM_MIB = 256 * 1024"

definition parse_cpu_text :: "string \<Rightarrow> nat option" where
  "parse_cpu_text s =
     (let s = trim s
      in (case strip_suffix ''m'' s of
            Some millis \<Rightarrow> map_option (\<lambda>m. div_ceil m 1000) (parse_uint (2 ^ 32 - 1) millis)
          | None \<Rightarrow> parse_uint (2 ^ 32 - 1) s))"

definition quantity_to_cpus :: "quantity \<Rightarrow> host_capacity option \<Rightarrow> nat option" where
  "quantity_to_cpus q host =
     Option.bind (case q of
         QInt n \<Rightarrow> if 0 \<le> n \<and> n < 2 ^ 32 then Some (nat n) else None
       | QText s \<Rightarrow> (case parse_percent s of
           Some pct \<Rightarrow> map_option (\<lambda>h. max (cpu_share (hc_cpus h) pct) (vs_cpus DEFAULT_VM_SIZE)) host
         | None \<Rightarrow> parse_cpu_text s))
     (\<lambda>whole. if 1 \<le> whole \<and> whole \<le> 255 then Some whole else None)"

definition quantity_to_mib :: "quantity \<Rightarrow> host_capacity option \<Rightarrow> nat option" where
  "quantity_to_mib q host =
     (let in_range = (\<lambda>mib. if 1 \<le> mib \<and> mib \<le> MAX_MEM_MIB then Some mib else None)
      in (case q of
            QInt n \<Rightarrow> if 0 \<le> n then in_range (nat n) else None
          | QText s \<Rightarrow> (case parse_percent s of
              Some pct \<Rightarrow> map_option (\<lambda>h. min (max (mem_share (hc_mem_mib h) pct) (vs_mem_mib DEFAULT_VM_SIZE)) MAX_MEM_MIB) host
            | None \<Rightarrow> (case parse_mib s of Inr mib \<Rightarrow> in_range mib | Inl _ \<Rightarrow> None))))"

definition read_quantity :: "quantity option \<Rightarrow> (quantity \<Rightarrow> nat option) \<Rightarrow> nat option \<times> bool" where
  "read_quantity q parse = (case q of
     None \<Rightarrow> (None, False)
   | Some quantity \<Rightarrow> (let v = parse quantity in (v, v = None)))"

definition from_resources :: "resources option \<Rightarrow> host_capacity option \<Rightarrow> declared_size \<times> string list" where
  "from_resources res host =
     (let (cpus, cpus_refused) = read_quantity (Option.bind res rs_cpu) (\<lambda>q. quantity_to_cpus q host);
          (mem, mem_refused) = read_quantity (Option.bind res rs_memory) (\<lambda>q. quantity_to_mib q host);
          (disk, disk_refused) = read_quantity (Option.bind res rs_disk) (\<lambda>q. case parse_bytes q of Inr n \<Rightarrow> Some n | Inl _ \<Rightarrow> None)
      in (\<lparr>ds_cpus = cpus, ds_mem_mib = mem, ds_disk_bytes = disk\<rparr>,
          (if cpus_refused then [''cpu''] else []) @ (if mem_refused then [''memory''] else []) @ (if disk_refused then [''disk''] else [])))"

section \<open>A document cannot ask for more than the host allows\<close>

lemma parse_bytes_range:
  assumes "parse_bytes q = Inr n"
  shows "20 * MIB \<le> n \<and> n < 16 * 1024 * 1024 * MIB"
proof -
  obtain mib where n: "(if mib < MIN_MIB then Inl (Disk_Small q) else if mib \<ge> MAX_MIB_EXCLUSIVE then Inl (Disk_Large q)
      else Inr (mib * 1024 * 1024 mod 2 ^ 64)) = (Inr n :: size_error + nat)"
    using assms unfolding parse_bytes_def and_then_Inr by blast
  have mib: "MIN_MIB \<le> mib" "mib < MAX_MIB_EXCLUSIVE" "n = mib * 1024 * 1024 mod 2 ^ 64"
    using n by (simp_all split: if_split_asm)
  then have "mib * 1024 * 1024 < 2 ^ 64" by (simp add: MAX_MIB_EXCLUSIVE_def)
  then show ?thesis using mib by (simp add: MIN_MIB_def MAX_MIB_EXCLUSIVE_def MIB_def)
qed

lemma cpus_range: "quantity_to_cpus q host = Some n \<Longrightarrow> 1 \<le> n \<and> n \<le> 255"
  by (auto simp: quantity_to_cpus_def bind_eq_Some_conv split: if_splits)

lemma mib_range: "quantity_to_mib q host = Some n \<Longrightarrow> 1 \<le> n \<and> n \<le> MAX_MEM_MIB"
  by (auto simp: quantity_to_mib_def Let_def DEFAULT_VM_SIZE_def MAX_MEM_MIB_def
      split: quantity.splits if_splits option.splits sum.splits)

lemma read_value: "fst (read_quantity q parse) = Some n \<longleftrightarrow> (\<exists>r. q = Some r \<and> parse r = Some n)"
  by (auto simp: read_quantity_def Let_def split: option.splits)

lemma disk_value: "(case parse_bytes q of Inr n \<Rightarrow> Some n | Inl _ \<Rightarrow> None) = Some n \<longleftrightarrow> parse_bytes q = Inr n"
  by (cases "parse_bytes q") simp_all



end
