(* ===== verification/Credentials.thy ===== *)
theory Credentials
  imports Text
begin

text \<open>
  The credential definition shared by sandboxes, mixins and connectors, \<open>crates/lns-spec/src/credential.rs\<close>: a
  marker the workload sees and the injections that replace it on the wire, with the rules a document's block of
  them is held to. Errors name the rule that was broken and what broke it.
\<close>

datatype cred_source = Document | Method

datatype injection_kind = BearerHeader | TokenHeader | BasicXAccessToken | ApiKeyHeader | UriPlaceholder

record injection_def =
  in_kind :: injection_kind
  in_domain :: string
  in_header :: "string option"

record credential =
  cr_env_var :: "string option"
  cr_placeholder :: string
  cr_field :: "string option"
  cr_injections :: "injection_def list"

datatype cred_error =
    Bad_Env_Var string
  | Needs_Env_Var string
  | Field_Outside_Method string
  | Field_Empty string
  | Placeholder_Short string string
  | Placeholder_Not_Fake string string
  | Injection_No_Domain string
  | Injection_Catch_All string
  | Injection_No_Header string
  | Injection_Header string string
  | Duplicate_Env_Var string
  | Duplicate_Placeholder string
  | Set_And_Filled string

definition is_legal_env_var_name :: "string \<Rightarrow> bool" where
  "is_legal_env_var_name n \<longleftrightarrow> n \<noteq> [] \<and> \<not> list_ex (\<lambda>c. c = 61 \<or> is_control c \<or> is_whitespace c) (chars n)"

definition owner :: "credential \<Rightarrow> string" where
  "owner c = (case cr_env_var c of Some v \<Rightarrow> v | None \<Rightarrow> cr_placeholder c)"

definition MIN_PLACEHOLDER_LEN :: nat where
  "MIN_PLACEHOLDER_LEN = 16"

definition CATCH_ALL_DOMAIN :: string where
  "CATCH_ALL_DOMAIN = ''*''"

text \<open>No character outside ASCII has one of these letters in its lower case, so the ASCII lower case decides.\<close>

definition is_self_identifying :: "string \<Rightarrow> bool" where
  "is_self_identifying p =
     (let lower = to_ascii_lowercase p in contains_str ''placeholder'' lower \<or> contains_str ''lns'' lower)"

definition validate_placeholder :: "string \<Rightarrow> string \<Rightarrow> cred_error + unit" where
  "validate_placeholder p own =
     (if length p < MIN_PLACEHOLDER_LEN then Inl (Placeholder_Short p own)
      else if \<not> is_self_identifying p then Inl (Placeholder_Not_Fake p own)
      else Inr ())"

definition validate_injection :: "string \<Rightarrow> injection_def \<Rightarrow> cred_error + unit" where
  "validate_injection own i =
     (if trim (in_domain i) = [] then Inl (Injection_No_Domain own)
      else if trim (in_domain i) = CATCH_ALL_DOMAIN then Inl (Injection_Catch_All own)
      else (case (in_kind i, in_header i) of
              (ApiKeyHeader, None) \<Rightarrow> Inl (Injection_No_Header own)
            | (ApiKeyHeader, Some _) \<Rightarrow> Inr ()
            | (_, Some header) \<Rightarrow> Inl (Injection_Header own header)
            | (_, None) \<Rightarrow> Inr ()))"

definition validate_env_var :: "credential \<Rightarrow> cred_source \<Rightarrow> cred_error + unit" where
  "validate_env_var c source = (case cr_env_var c of
     Some v \<Rightarrow> if \<not> is_legal_env_var_name v then Inl (Bad_Env_Var v) else Inr ()
   | None \<Rightarrow> if source = Document then Inl (Needs_Env_Var (cr_placeholder c)) else Inr ())"

definition validate_credential :: "credential \<Rightarrow> cred_source \<Rightarrow> cred_error + unit" where
  "validate_credential c source =
     and_then (validate_env_var c source) (\<lambda>_.
     if cr_field c \<noteq> None \<and> source = Document then Inl (Field_Outside_Method (owner c))
     else if (case cr_field c of Some f \<Rightarrow> trim f = [] | None \<Rightarrow> False) then Inl (Field_Empty (owner c))
     else and_then (validate_placeholder (cr_placeholder c) (owner c)) (\<lambda>_.
          try_for_each (validate_injection (owner c)) (cr_injections c)))"

definition refuse_a_variable_a_credential_also_fills :: "string list \<Rightarrow> credential list \<Rightarrow> cred_error + unit" where
  "refuse_a_variable_a_credential_also_fills env_keys credentials =
     try_for_each (\<lambda>key. if list_ex (\<lambda>c. cr_env_var c = Some key) credentials then Inl (Set_And_Filled key) else Inr ()) env_keys"

text \<open>The variables and the markers claimed so far.\<close>

fun validate_from :: "string list \<Rightarrow> string list \<Rightarrow> cred_source \<Rightarrow> credential list \<Rightarrow> cred_error + unit" where
  "validate_from variables markers source [] = Inr ()"
| "validate_from variables markers source (c # cs) =
     and_then (validate_credential c source) (\<lambda>_.
     case cr_env_var c of
       Some v \<Rightarrow> if v \<in> set variables then Inl (Duplicate_Env_Var v)
         else if cr_placeholder c \<in> set markers then Inl (Duplicate_Placeholder (cr_placeholder c))
         else validate_from (v # variables) (cr_placeholder c # markers) source cs
     | None \<Rightarrow> if cr_placeholder c \<in> set markers then Inl (Duplicate_Placeholder (cr_placeholder c))
         else validate_from variables (cr_placeholder c # markers) source cs)"

definition validate_all :: "credential list \<Rightarrow> cred_source \<Rightarrow> cred_error + unit" where
  "validate_all credentials source = validate_from [] [] source credentials"

section \<open>What is accepted\<close>

definition injection_ok :: "injection_def \<Rightarrow> bool" where
  "injection_ok i \<longleftrightarrow> trim (in_domain i) \<notin> {[], ''*''} \<and> (in_header i \<noteq> None \<longleftrightarrow> in_kind i = ApiKeyHeader)"

definition credential_ok :: "cred_source \<Rightarrow> credential \<Rightarrow> bool" where
  "credential_ok source c \<longleftrightarrow>
     (case cr_env_var c of Some v \<Rightarrow> is_legal_env_var_name v | None \<Rightarrow> source = Method)
     \<and> (case cr_field c of Some f \<Rightarrow> source = Method \<and> trim f \<noteq> [] | None \<Rightarrow> True)
     \<and> 16 \<le> length (cr_placeholder c) \<and> is_self_identifying (cr_placeholder c)
     \<and> list_all injection_ok (cr_injections c)"

definition env_vars :: "credential list \<Rightarrow> string list" where
  "env_vars cs = List.map_filter cr_env_var cs"

lemma injection_accepted: "validate_injection own i = Inr () \<longleftrightarrow> injection_ok i"
  by (cases "in_kind i"; cases "in_header i") (simp_all add: validate_injection_def injection_ok_def CATCH_ALL_DOMAIN_def)

lemma credential_accepted: "validate_credential c source = Inr () \<longleftrightarrow> credential_ok source c"
proof -
  have "validate_env_var c source = Inr () \<longleftrightarrow> (case cr_env_var c of Some v \<Rightarrow> is_legal_env_var_name v | None \<Rightarrow> source = Method)"
    by (cases source) (auto simp: validate_env_var_def split: option.splits)
  moreover have "validate_placeholder p own = Inr () \<longleftrightarrow> 16 \<le> length p \<and> is_self_identifying p" for p own
    by (auto simp: validate_placeholder_def MIN_PLACEHOLDER_LEN_def)
  moreover have "try_for_each (validate_injection own) is = Inr () \<longleftrightarrow> list_all injection_ok is" for own "is"
    by (induction "is") (auto simp: and_then_Inr injection_accepted)
  ultimately show ?thesis
    by (cases "cr_field c"; cases source) (auto simp: validate_credential_def credential_ok_def and_then_Inr)
qed

lemma from_accepted:
  "validate_from variables markers source cs = Inr () \<longleftrightarrow> list_all (credential_ok source) cs
     \<and> distinct (env_vars cs) \<and> set variables \<inter> set (env_vars cs) = {}
     \<and> distinct (map cr_placeholder cs) \<and> set markers \<inter> cr_placeholder ` set cs = {}"
proof (induction cs arbitrary: variables markers)
  case (Cons c cs)
  show ?case
    by (cases "cr_env_var c") (auto simp: and_then_Inr credential_accepted Cons.IH env_vars_def List.map_filter_simps)
qed (simp add: env_vars_def List.map_filter_simps)


end
