(* ===== verification/Sandbox_Doc.thy ===== *)
theory Sandbox_Doc
  imports Policy Mount_Spec Placement Sizes Credentials
begin

text \<open>
  Sandbox and mixin documents, \<open>crates/lns-artifact/src/spec.rs\<close>, \<open>sandbox.rs\<close> and \<open>tools/mod.rs\<close>: their data and
  every rule a document is held to before anything runs. Decoding the JSON is an argument; an error names the
  rule that was broken and what broke it.
\<close>

section \<open>Data\<close>

datatype doc_kind = Sandbox_Kind | Mixin_Kind | Connector_Kind

fun kind_str :: "doc_kind \<Rightarrow> string" where
  "kind_str Sandbox_Kind = ''sandbox''"
| "kind_str Mixin_Kind = ''mixin''"
| "kind_str Connector_Kind = ''connector''"

record port =
  pt_host :: "int option"
  pt_container :: int

datatype volume_type = Bind_Volume | Named_Volume

record volume =
  vo_type :: "volume_type option"
  vo_source :: "string option"
  vo_name :: "string option"
  vo_target :: string
  vo_read_only :: bool
  vo_exclude :: "string list"
  vo_optional :: bool
  vo_size :: "quantity option"

datatype doc_fileset_owner = Owner_Workload | Owner_Root

record fileset_entry =
  fe_path :: "string option"
  fe_inline :: "(string \<times> string) list option"
  fe_host_path :: "string option"
  fe_guest_path :: string
  fe_owner :: doc_fileset_owner
  fe_optional :: bool

datatype script_slot = PreStart

record script_step =
  sc_when :: script_slot
  sc_run :: string
  sc_user :: "string option"
  sc_description :: "string option"

record sandbox_spec =
  sp_image :: string
  sp_command :: "string option"
  sp_workdir :: "string option"
  sp_user :: "string option"
  sp_env :: "(string \<times> string) list"
  sp_resources :: "resources option"
  sp_egress :: egress
  sp_credentials :: "credential list"
  sp_mixins :: "string list"
  sp_tools :: "string list"
  sp_volumes :: "volume list"
  sp_filesets :: "fileset_entry list"
  sp_ports :: "port list"
  sp_scripts :: "script_step list"

definition default_spec :: sandbox_spec where
  "default_spec = \<lparr>sp_image = [], sp_command = None, sp_workdir = None, sp_user = None, sp_env = [], sp_resources = None,
     sp_egress = \<lparr>e_http = [], e_tcp = []\<rparr>, sp_credentials = [], sp_mixins = [], sp_tools = [], sp_volumes = [],
     sp_filesets = [], sp_ports = [], sp_scripts = []\<rparr>"

definition volume_source :: "volume \<Rightarrow> string" where
  "volume_source v = (case vo_source v of Some s \<Rightarrow> s | None \<Rightarrow> (case vo_name v of Some n \<Rightarrow> n | None \<Rightarrow> []))"

definition is_bind :: "volume \<Rightarrow> bool" where
  "is_bind v = (vo_type v = Some Bind_Volume)"

definition SCRIPT_LABEL_CHARS :: nat where
  "SCRIPT_LABEL_CHARS = 60"

definition script_label :: "script_step \<Rightarrow> string" where
  "script_label s = (case sc_description s of
     Some d \<Rightarrow> d
   | None \<Rightarrow>
       (let first = (case List.find (\<lambda>line. line \<noteq> []) (map trim (lines_of (sc_run s))) of Some line \<Rightarrow> line | None \<Rightarrow> []);
            letters = utf8_slices first
        in if length letters > SCRIPT_LABEL_CHARS
           then concat (take SCRIPT_LABEL_CHARS letters) @ [CHR 0xE2, CHR 0x80, CHR 0xA6] else first))"

datatype path_error =
    Path_Empty
  | Path_Control string
  | Path_Not_Absolute string
  | Path_Not_Home string
  | Path_Dots string
  | In_Runtime_Namespace string
  | Duplicate_Target string

datatype source_error =
    Source_Empty
  | Source_Home string
  | Source_Anchor string
  | Source_Chars string
  | Source_Dots string
  | Secret_Shaped string
  | Volume_Name_Empty
  | Volume_Name_Reserved string
  | Volume_Name_Char string nat

datatype volume_error =
    Exclude_On_Named
  | Optional_On_Named
  | Size_On_Bind
  | Bind_With_Name
  | Source_And_Name
  | Type_Missing
  | Exclude_Empty
  | Exclude_Absolute string
  | Exclude_Segments string
  | Exclude_Chars string

datatype fileset_error =
    Fileset_Sources string
  | Fileset_Path_Empty
  | Fileset_Path_Home string
  | Fileset_Trailing_Slash string
  | Fileset_Optional
  | Inline_Count nat
  | Inline_Path_Long
  | Inline_Path string
  | Inline_File_Large string
  | Inline_Total nat
  | Mount_Takes_No_File string string

datatype tool_error =
    Tool_Shape string
  | Tool_Backend string
  | Tool_Unversioned string
  | Tool_Name string
  | Tool_Duplicate string

datatype script_error =
    Script_Count nat
  | Script_Total nat
  | Script_Empty
  | Script_Nul string
  | Script_Large string

datatype envelope_error =
    Bad_Document string
  | Api_Version string
  | Wrong_Kind string
  | Bad_Name string
  | No_Image
  | Launch_Block string

datatype doc_error =
    Envelope_Error envelope_error
  | Credential_Error cred_error
  | Env_Key string
  | Bad_User string
  | Bad_Cpu quantity
  | Bad_Memory quantity
  | Size_Error size_error
  | Policy_Error load_error
  | Path_Error path_error
  | Source_Error source_error
  | Volume_Error volume_error
  | Fileset_Error fileset_error
  | Mixin_Reference string
  | Tool_Error tool_error
  | Script_Error script_error
  | Port_Range int
  | Port_Duplicate int

section \<open>Names, references and tools\<close>

definition is_valid_name :: "string \<Rightarrow> bool" where
  "is_valid_name n =
     (let alnum = (\<lambda>b. is_ascii_lowercase b \<or> is_ascii_digit b)
      in if n = [] \<or> length n > 63 then False
         else if \<not> alnum (hd n) \<or> \<not> alnum (last n) then False
         else list_all (\<lambda>b. alnum b \<or> b = CHR ''-'') n)"

definition is_sha256_digest :: "string \<Rightarrow> bool" where
  "is_sha256_digest v = (case strip_prefix ''sha256:'' v of
     Some hex \<Rightarrow> length hex = 64 \<and> list_all (\<lambda>b. is_ascii_digit b \<or> CHR ''a'' \<le> b \<and> b \<le> CHR ''f'') hex
   | None \<Rightarrow> False)"

definition is_digest_pinned_image :: "string \<Rightarrow> bool" where
  "is_digest_pinned_image r = (case rsplit_once CHR ''@'' r of Some (_, digest) \<Rightarrow> is_sha256_digest digest | None \<Rightarrow> False)"

definition names_a_local_path :: "string \<Rightarrow> bool" where
  "names_a_local_path r \<longleftrightarrow>
     r = ''.'' \<or> r = ''..'' \<or> starts_with ''./'' r \<or> starts_with ''../'' r \<or> starts_with ''/'' r"

definition validate_mixin_reference :: "string \<Rightarrow> doc_error + unit" where
  "validate_mixin_reference r =
     (if trim r = [] then Inl (Mixin_Reference r)
      else if \<not> names_a_local_path r \<and> \<not> is_digest_pinned_image r then Inl (Mixin_Reference r)
      else Inr ())"

definition is_safe_version :: "string \<Rightarrow> bool" where
  "is_safe_version v \<longleftrightarrow> v \<noteq> [] \<and> v \<noteq> ''.'' \<and> v \<noteq> ''..''
     \<and> list_all (\<lambda>c. is_ascii_alphanumeric c \<or> c \<in> {CHR ''.'', CHR ''-'', CHR ''_'', CHR ''+''}) v"

definition tool_parse :: "string \<Rightarrow> doc_error + string \<times> string" where
  "tool_parse entry =
     (if entry = [] then Inl (Tool_Error (Tool_Shape entry))
      else if contains_char CHR '':'' (hd (split_on CHR ''@'' entry)) then Inl (Tool_Error (Tool_Backend entry))
      else (case split_once CHR ''@'' entry of
              None \<Rightarrow> Inl (Tool_Error (Tool_Unversioned entry))
            | Some (n, v) \<Rightarrow>
                if n = [] \<or> v = [] \<or> \<not> is_safe_version v then Inl (Tool_Error (Tool_Shape entry))
                else if \<not> is_valid_name n then Inl (Tool_Error (Tool_Name entry))
                else Inr (n, v)))"

fun tool_parse_from :: "(string \<times> string) list \<Rightarrow> string list \<Rightarrow> doc_error + (string \<times> string) list" where
  "tool_parse_from refs [] = Inr refs"
| "tool_parse_from refs (entry # entries) =
     and_then (tool_parse entry) (\<lambda>tool.
       if list_ex (\<lambda>seen. fst seen = fst tool) refs then Inl (Tool_Error (Tool_Duplicate (fst tool)))
       else tool_parse_from (refs @ [tool]) entries)"

definition tool_parse_all :: "string list \<Rightarrow> doc_error + (string \<times> string) list" where
  "tool_parse_all entries = tool_parse_from [] entries"

section \<open>Users and resources\<close>

definition run_as_segment_ok :: "string \<Rightarrow> bool" where
  "run_as_segment_ok seg \<longleftrightarrow>
     seg \<noteq> [] \<and> is_legal_env_var_name seg \<and> \<not> contains_char CHR 0x22 seg \<and> \<not> contains_char CHR 0x27 seg"

definition validate_run_as_user :: "string \<Rightarrow> doc_error + unit" where
  "validate_run_as_user user = (case split_on CHR '':'' user of
     _ # _ # _ # _ \<Rightarrow> Inl (Bad_User user)
   | segs \<Rightarrow> if list_all run_as_segment_ok segs then Inr () else Inl (Bad_User user))"

definition is_ascii_alphabetic :: "char \<Rightarrow> bool" where
  "is_ascii_alphabetic c \<longleftrightarrow> is_ascii_lowercase c \<or> is_ascii_uppercase c"

fun cpu_is_positive :: "quantity \<Rightarrow> bool" where
  "cpu_is_positive (QInt n) = (n \<ge> 1)"
| "cpu_is_positive (QText s) =
     (if parse_percent s \<noteq> None then True
      else let digits = rev (dropWhile is_ascii_alphabetic (rev (trim s)))
           in digits \<noteq> [] \<and> list_all is_ascii_digit digits \<and> list_ex (\<lambda>b. b \<noteq> CHR ''0'') digits)"

definition validate_resources :: "resources \<Rightarrow> doc_error + unit" where
  "validate_resources r =
     and_then (case rs_cpu r of
         Some cpu \<Rightarrow> if \<not> cpu_is_positive cpu then Inl (Bad_Cpu cpu) else Inr ()
       | None \<Rightarrow> Inr ()) (\<lambda>_.
     and_then (case rs_memory r of
         Some (QInt n) \<Rightarrow> if n < 1 then Inl (Bad_Memory (QInt n)) else Inr ()
       | Some (QText s) \<Rightarrow> if parse_percent s \<noteq> None then Inr ()
           else and_then (map_err Size_Error (parse_mib s)) (\<lambda>_. Inr ())
       | None \<Rightarrow> Inr ()) (\<lambda>_.
     case rs_disk r of
       Some disk \<Rightarrow> and_then (map_err Size_Error (parse_bytes disk)) (\<lambda>_. Inr ())
     | None \<Rightarrow> Inr ()))"

end
