(* ===== verification/Sandbox_Rules.thy ===== *)
theory Sandbox_Rules
  imports Sandbox_Doc
begin

text \<open>
  The rules of \<open>crates/lns-artifact/src/sandbox.rs\<close> on what a document mounts, writes and runs, the parsers that
  apply them all, and what an accepted document can no longer do.
\<close>

section \<open>Paths and names\<close>

datatype guest_anchor = Anchor_Root | Anchor_Home

definition validate_guest_path :: "string \<Rightarrow> guest_anchor \<Rightarrow> doc_error + unit" where
  "validate_guest_path p anchor =
     (if p = [] then Inl (Path_Error Path_Empty)
      else if list_ex is_control (chars p) then Inl (Path_Error (Path_Control p))
      else if anchor = Anchor_Root \<and> \<not> starts_with ''/'' p then Inl (Path_Error (Path_Not_Absolute p))
      else if anchor = Anchor_Home \<and> \<not> starts_with ''~/'' p then Inl (Path_Error (Path_Not_Home p))
      else if list_ex (\<lambda>seg. seg = ''..'') (split_on CHR ''/'' p) then Inl (Path_Error (Path_Dots p))
      else Inr ())"

definition overlaps_runtime_namespace :: "string \<Rightarrow> bool" where
  "overlaps_runtime_namespace p = (case List.find (\<lambda>seg. seg \<noteq> [] \<and> seg \<noteq> ''.'') (split_on CHR ''/'' p) of
     None \<Rightarrow> True
   | Some first \<Rightarrow> first = ''.lens'')"

definition EXACT_SECRET_NAMES :: "string list" where
  "EXACT_SECRET_NAMES = [''.npmrc'', ''.netrc'', ''.git-credentials'', ''.pgpass'', ''.pypirc'', ''.yarnrc.yml'', ''auth.json'',
     ''id_rsa'', ''id_dsa'', ''id_ecdsa'', ''id_ed25519'', ''credentials'', ''.ssh'', ''.aws'', ''.gnupg'', ''.kube'', ''.azure'',
     ''.oci'', ''.docker'']"

definition looks_like_secret_name :: "string \<Rightarrow> bool" where
  "looks_like_secret_name n \<longleftrightarrow> starts_with ''.env'' n \<or> starts_with ''credentials.'' n \<or> starts_with ''.credentials'' n
     \<or> ends_with ''.pem'' n \<or> ends_with ''.key'' n \<or> ends_with ''.ppk'' n \<or> ends_with ''.keystore'' n \<or> n \<in> set EXACT_SECRET_NAMES"

definition refuse_secret_shaped_segment :: "string \<Rightarrow> doc_error + unit" where
  "refuse_secret_shaped_segment source = (case List.find looks_like_secret_name (split_on CHR ''/'' source) of
     Some secret \<Rightarrow> Inl (Source_Error (Secret_Shaped secret))
   | None \<Rightarrow> Inr ())"

definition doc_bind_source :: "string \<Rightarrow> doc_error + unit" where
  "doc_bind_source source =
     (if source = [] then Inl (Source_Error Source_Empty)
      else if starts_with ''~'' source \<and> \<not> starts_with ''~/'' source then Inl (Source_Error (Source_Home source))
      else if list_ex (\<lambda>c. is_whitespace c \<or> is_control c \<or> c = 34) (chars source) then Inl (Source_Error (Source_Chars source))
      else if list_ex (\<lambda>seg. seg = ''..'') (split_on CHR ''/'' source) then Inl (Source_Error (Source_Dots source))
      else if starts_with ''~/'' source then refuse_secret_shaped_segment source
      else Inr ())"

definition validate_host_source :: "string \<Rightarrow> doc_error + unit" where
  "validate_host_source source =
     (if starts_with ''~'' source \<and> \<not> starts_with ''~/'' source then Inl (Source_Error (Source_Home source))
      else if \<not> (starts_with ''/'' source \<or> starts_with ''~/'' source) then Inl (Source_Error (Source_Anchor source))
      else if list_ex (\<lambda>seg. seg = ''..'') (split_on CHR ''/'' source) then Inl (Source_Error (Source_Dots source))
      else if list_ex (\<lambda>c. is_whitespace c \<or> is_control c \<or> c = 34 \<or> c = 39) (chars source) then Inl (Source_Error (Source_Chars source))
      else refuse_secret_shaped_segment source)"

definition doc_volume_name :: "string \<Rightarrow> doc_error + unit" where
  "doc_volume_name n =
     (if n = [] then Inl (Source_Error Volume_Name_Empty)
      else if n = ''.'' \<or> n = ''..'' then Inl (Source_Error (Volume_Name_Reserved n))
      else (case List.find (\<lambda>c. \<not> name_char_allowed c) (chars n) of
              Some bad \<Rightarrow> Inl (Source_Error (Volume_Name_Char n bad))
            | None \<Rightarrow> Inr ()))"

definition validate_bind_relative_path :: "string \<Rightarrow> doc_error + unit" where
  "validate_bind_relative_path entry =
     (if entry = [] then Inl (Volume_Error Exclude_Empty)
      else if starts_with ''/'' entry then Inl (Volume_Error (Exclude_Absolute entry))
      else if list_ex (\<lambda>seg. seg = [] \<or> seg = ''.'' \<or> seg = ''..'') (split_on CHR ''/'' entry) then Inl (Volume_Error (Exclude_Segments entry))
      else if list_ex (\<lambda>c. is_whitespace c \<or> is_control c \<or> c = 34 \<or> c = 39) (chars entry) then Inl (Volume_Error (Exclude_Chars entry))
      else Inr ())"

section \<open>Volumes\<close>

definition volume_shape :: "volume \<Rightarrow> doc_error + unit" where
  "volume_shape v = (case vo_type v of
     Some Bind_Volume \<Rightarrow> if vo_name v \<noteq> None then Inl (Volume_Error Bind_With_Name)
       else doc_bind_source (case vo_source v of Some s \<Rightarrow> s | None \<Rightarrow> [])
   | Some Named_Volume \<Rightarrow> if vo_source v \<noteq> None \<and> vo_name v \<noteq> None then Inl (Volume_Error Source_And_Name)
       else doc_volume_name (volume_source v)
   | None \<Rightarrow> if vo_source v \<noteq> None then Inl (Volume_Error Type_Missing)
       else doc_volume_name (case vo_name v of Some n \<Rightarrow> n | None \<Rightarrow> []))"

definition validate_volume :: "volume \<Rightarrow> doc_error + unit" where
  "validate_volume v =
     (if vo_exclude v \<noteq> [] \<and> \<not> is_bind v then Inl (Volume_Error Exclude_On_Named)
      else if vo_optional v \<and> \<not> is_bind v then Inl (Volume_Error Optional_On_Named)
      else and_then (case vo_size v of
          Some q \<Rightarrow> if is_bind v then Inl (Volume_Error Size_On_Bind)
            else and_then (map_err Size_Error (parse_bytes q)) (\<lambda>_. Inr ())
        | None \<Rightarrow> Inr ()) (\<lambda>_.
      and_then (try_for_each validate_bind_relative_path (vo_exclude v)) (\<lambda>_. volume_shape v)))"

text \<open>The mounts of a document, with the paths claimed so far.\<close>

fun validate_volumes :: "string list list \<Rightarrow> volume list \<Rightarrow> doc_error + string list list" where
  "validate_volumes targets [] = Inr targets"
| "validate_volumes targets (v # vs) =
     and_then (validate_guest_path (vo_target v) Anchor_Root) (\<lambda>_.
     if overlaps_runtime_namespace (vo_target v) then Inl (Path_Error (In_Runtime_Namespace (vo_target v)))
     else and_then (validate_volume v) (\<lambda>_.
     if claimed_path (vo_target v) \<in> set targets then Inl (Path_Error (Duplicate_Target (vo_target v)))
     else validate_volumes (claimed_path (vo_target v) # targets) vs))"

section \<open>Filesets\<close>

definition validate_inline_path :: "string \<Rightarrow> doc_error + unit" where
  "validate_inline_path p =
     (if length p > 4096 then Inl (Fileset_Error Inline_Path_Long)
      else if p = [] \<or> starts_with ''/'' p \<or> list_ex (\<lambda>seg. seg = [] \<or> seg = ''.'' \<or> seg = ''..'') (split_on CHR ''/'' p)
        \<or> list_ex is_control (chars p) then Inl (Fileset_Error (Inline_Path p))
      else Inr ())"

definition validate_inline_files :: "(string \<times> string) list \<Rightarrow> doc_error + unit" where
  "validate_inline_files files =
     (if length files > 256 then Inl (Fileset_Error (Inline_Count (length files)))
      else and_then (try_for_each (\<lambda>(p, content). and_then (validate_inline_path p) (\<lambda>_.
          if length content > 128 * 1024 then Inl (Fileset_Error (Inline_File_Large p)) else Inr ())) files) (\<lambda>_.
      let total_bytes = sum_list (map (length \<circ> snd) files)
      in if total_bytes > 1024 * 1024 then Inl (Fileset_Error (Inline_Total total_bytes)) else Inr ()))"

definition validate_fileset :: "fileset_entry \<Rightarrow> guest_anchor \<Rightarrow> doc_error + unit" where
  "validate_fileset fe anchor =
     (if of_bool (fe_path fe \<noteq> None) + of_bool (fe_inline fe \<noteq> None) + of_bool (fe_host_path fe \<noteq> None) \<noteq> (1 :: nat)
        \<or> fe_inline fe = Some [] then Inl (Fileset_Error (Fileset_Sources (fe_guest_path fe)))
      else and_then (case fe_path fe of
          Some p \<Rightarrow> if p = [] then Inl (Fileset_Error Fileset_Path_Empty)
            else if starts_with ''~'' p then Inl (Fileset_Error (Fileset_Path_Home p)) else Inr ()
        | None \<Rightarrow> Inr ()) (\<lambda>_.
      and_then (case fe_inline fe of Some files \<Rightarrow> validate_inline_files files | None \<Rightarrow> Inr ()) (\<lambda>_.
      and_then (case fe_host_path fe of
          Some hp \<Rightarrow> and_then (validate_host_source hp) (\<lambda>_.
            if ends_with ''/'' (fe_guest_path fe) then Inl (Fileset_Error (Fileset_Trailing_Slash (fe_guest_path fe))) else Inr ())
        | None \<Rightarrow> if fe_optional fe then Inl (Fileset_Error Fileset_Optional) else Inr ()) (\<lambda>_.
      and_then (validate_guest_path (fe_guest_path fe) anchor) (\<lambda>_.
      if overlaps_runtime_namespace (fe_guest_path fe) then Inl (Path_Error (In_Runtime_Namespace (fe_guest_path fe))) else Inr ())))))"

definition refuse_a_secret_shaped_inline_name :: "fileset_entry \<Rightarrow> doc_error + unit" where
  "refuse_a_secret_shaped_inline_name fe = (case fe_inline fe of
     None \<Rightarrow> Inr ()
   | Some files \<Rightarrow> try_for_each (\<lambda>p. if list_ex looks_like_secret_name (split_on CHR ''/'' p)
       then Inl (Source_Error (Secret_Shaped p)) else Inr ()) (map fst files))"

fun validate_filesets :: "string list list \<Rightarrow> fileset_entry list \<Rightarrow> doc_error + string list list" where
  "validate_filesets targets [] = Inr targets"
| "validate_filesets targets (fe # fs) =
     and_then (validate_fileset fe Anchor_Root) (\<lambda>_.
     and_then (refuse_a_secret_shaped_inline_name fe) (\<lambda>_.
     if claimed_path (fe_guest_path fe) \<in> set targets then Inl (Path_Error (Duplicate_Target (fe_guest_path fe)))
     else validate_filesets (claimed_path (fe_guest_path fe) # targets) fs))"

definition fileset_claims :: "fileset_entry \<Rightarrow> string list" where
  "fileset_claims fe = (case fe_inline fe of
     None \<Rightarrow> [fe_guest_path fe]
   | Some files \<Rightarrow> map (\<lambda>(key, _). trim_end_matches CHR ''/'' (fe_guest_path fe) @ ''/'' @ key) files)"

definition refuse_a_fileset_no_mount_can_carry :: "sandbox_spec \<Rightarrow> doc_error + unit" where
  "refuse_a_fileset_no_mount_can_carry spec =
     try_for_each (\<lambda>v.
       if is_bind v \<or> vo_read_only v then
         try_for_each (\<lambda>clm. if place (vo_target v) (if is_bind v then vo_exclude v else []) clm = WritesThrough
             then Inl (Fileset_Error (Mount_Takes_No_File clm (vo_target v))) else Inr ())
           (concat (map fileset_claims (sp_filesets spec)))
       else Inr ()) (sp_volumes spec)"

section \<open>Scripts and ports\<close>

definition refuse_scripts_past_what_one_document_may_declare :: "script_step list \<Rightarrow> doc_error + unit" where
  "refuse_scripts_past_what_one_document_may_declare scripts =
     (if length scripts > 32 then Inl (Script_Error (Script_Count (length scripts)))
      else let total_bytes = sum_list (map (length \<circ> sc_run) scripts)
           in if total_bytes > 512 * 1024 then Inl (Script_Error (Script_Total total_bytes)) else Inr ())"

definition validate_scripts :: "script_step list \<Rightarrow> doc_error + unit" where
  "validate_scripts scripts =
     try_for_each (\<lambda>s.
       if trim (sc_run s) = [] then Inl (Script_Error Script_Empty)
       else if contains_char CHR 0x00 (sc_run s) then Inl (Script_Error (Script_Nul (script_label s)))
       else if length (sc_run s) > 128 * 1024 then Inl (Script_Error (Script_Large (script_label s)))
       else (case sc_user s of Some user \<Rightarrow> validate_run_as_user user | None \<Rightarrow> Inr ())) scripts"

fun validate_ports :: "int list \<Rightarrow> int list \<Rightarrow> port list \<Rightarrow> doc_error + unit" where
  "validate_ports containers hosts [] = Inr ()"
| "validate_ports containers hosts (p # ps) =
     (if pt_container p < 1 \<or> pt_container p > 65535 then Inl (Port_Range (pt_container p))
      else if pt_container p \<in> set containers then Inl (Port_Duplicate (pt_container p))
      else (case pt_host p of
              Some h \<Rightarrow> if h < 1 \<or> h > 65535 then Inl (Port_Range h)
                else if h \<in> set hosts then Inl (Port_Duplicate h)
                else validate_ports (pt_container p # containers) (h # hosts) ps
            | None \<Rightarrow> validate_ports (pt_container p # containers) hosts ps))"

section \<open>Documents\<close>

definition refuse_the_blocks_that_describe_one_launch :: "sandbox_spec \<Rightarrow> doc_error + unit" where
  "refuse_the_blocks_that_describe_one_launch spec =
     (case List.find fst [(trim (sp_image spec) \<noteq> [], ''image''), (sp_command spec \<noteq> None, ''command''),
         (sp_workdir spec \<noteq> None, ''workdir''), (sp_user spec \<noteq> None, ''user''), (sp_resources spec \<noteq> None, ''resources'')] of
        Some (_, block) \<Rightarrow> Inl (Envelope_Error (Launch_Block block))
      | None \<Rightarrow> Inr ())"

definition validate_mounts :: "sandbox_spec \<Rightarrow> doc_error + unit" where
  "validate_mounts spec =
     and_then (validate_volumes [] (sp_volumes spec)) (\<lambda>targets.
     and_then (try_for_each validate_mixin_reference (sp_mixins spec)) (\<lambda>_.
     and_then (tool_parse_all (sp_tools spec)) (\<lambda>_.
     and_then (validate_filesets targets (sp_filesets spec)) (\<lambda>_.
     refuse_a_fileset_no_mount_can_carry spec))))"

definition validate_spec :: "doc_kind \<Rightarrow> sandbox_spec \<Rightarrow> doc_error + unit" where
  "validate_spec kind spec =
     and_then (if kind \<noteq> Sandbox_Kind then refuse_the_blocks_that_describe_one_launch spec else Inr ()) (\<lambda>_.
     and_then (map_err Credential_Error (validate_all (sp_credentials spec) Document)) (\<lambda>_.
     and_then (try_for_each (\<lambda>key. if \<not> is_legal_env_var_name key then Inl (Env_Key key) else Inr ()) (map fst (sp_env spec))) (\<lambda>_.
     and_then (case sp_user spec of Some user \<Rightarrow> validate_run_as_user user | None \<Rightarrow> Inr ()) (\<lambda>_.
     and_then (case sp_resources spec of Some r \<Rightarrow> validate_resources r | None \<Rightarrow> Inr ()) (\<lambda>_.
     and_then (map_err Policy_Error (egress_validate_local_transport (sp_egress spec))) (\<lambda>_.
     and_then (map_err Policy_Error (egress_validate_binary_scopes (sp_egress spec))) (\<lambda>_.
     and_then (case sp_workdir spec of Some w \<Rightarrow> validate_guest_path w Anchor_Root | None \<Rightarrow> Inr ()) (\<lambda>_.
     and_then (validate_mounts spec) (\<lambda>_.
     and_then (validate_scripts (sp_scripts spec)) (\<lambda>_.
     validate_ports [] [] (sp_ports spec)))))))))))"

record 'v envelope =
  ev_api_version :: string
  ev_kind :: string
  ev_name :: string
  ev_spec :: 'v

record 'v doc_codec =
  dc_envelope :: "string \<Rightarrow> string + 'v envelope"
  dc_spec :: "'v \<Rightarrow> string + sandbox_spec"

definition parse_envelope :: "'v doc_codec \<Rightarrow> string \<Rightarrow> doc_kind \<Rightarrow> doc_error + 'v envelope" where
  "parse_envelope D config kind =
     and_then (map_err (\<lambda>e. Envelope_Error (Bad_Document e)) (dc_envelope D config)) (\<lambda>doc.
     if ev_api_version doc \<noteq> ''lns.run/v1'' then Inl (Envelope_Error (Api_Version (ev_api_version doc)))
     else if ev_kind doc \<noteq> kind_str kind then Inl (Envelope_Error (Wrong_Kind (ev_kind doc)))
     else if \<not> is_valid_name (ev_name doc) then Inl (Envelope_Error (Bad_Name (ev_name doc)))
     else Inr doc)"

definition parse_of_kind :: "'v doc_codec \<Rightarrow> string \<Rightarrow> doc_kind \<Rightarrow> doc_error + string \<times> sandbox_spec" where
  "parse_of_kind D config kind =
     and_then (parse_envelope D config kind) (\<lambda>doc.
     and_then (map_err (\<lambda>e. Envelope_Error (Bad_Document e)) (dc_spec D (ev_spec doc))) (\<lambda>spec.
     and_then (validate_spec kind spec) (\<lambda>_. Inr (ev_name doc, spec))))"

definition refuse_what_only_an_author_could_correct :: "sandbox_spec \<Rightarrow> doc_error + unit" where
  "refuse_what_only_an_author_could_correct spec =
     and_then (refuse_scripts_past_what_one_document_may_declare (sp_scripts spec)) (\<lambda>_.
     map_err Credential_Error (refuse_a_variable_a_credential_also_fills (map fst (sp_env spec)) (sp_credentials spec)))"

definition parse_resolved :: "'v doc_codec \<Rightarrow> string \<Rightarrow> doc_error + string \<times> sandbox_spec" where
  "parse_resolved D config =
     and_then (parse_of_kind D config Sandbox_Kind) (\<lambda>doc.
     if trim (sp_image (snd doc)) = [] then Inl (Envelope_Error No_Image) else Inr doc)"

definition sandbox_parse :: "'v doc_codec \<Rightarrow> string \<Rightarrow> doc_error + string \<times> sandbox_spec" where
  "sandbox_parse D config =
     and_then (parse_resolved D config) (\<lambda>doc.
     and_then (refuse_what_only_an_author_could_correct (snd doc)) (\<lambda>_. Inr doc))"

definition parse_mixin :: "'v doc_codec \<Rightarrow> string \<Rightarrow> doc_error + string \<times> sandbox_spec" where
  "parse_mixin D config =
     and_then (parse_of_kind D config Mixin_Kind) (\<lambda>doc.
     and_then (refuse_what_only_an_author_could_correct (snd doc)) (\<lambda>_. Inr doc))"

section \<open>What an accepted document cannot do\<close>

lemma legal_name_word:
  assumes "is_legal_env_var_name s" "CHR 0x22 \<notin> set s"
  shows "cmdline_word s"
proof -
  have "\<not> byte_is_whitespace c" if c: "c \<in> set s" for c
    using assms(1) ascii_char [OF c] whitespace_byte_decodes [of c] by (auto simp: is_legal_env_var_name_def list_ex_iff)
  then show ?thesis using assms(2) by (auto simp: cmdline_word_def list_all_iff)
qed

text \<open>The user of an accepted document is one word of the kernel command line, with no \<open>=\<close> and no quote.\<close>

lemma split_on_letters: "c \<in> set s \<Longrightarrow> c \<noteq> d \<Longrightarrow> \<exists>seg \<in> set (split_on d s). c \<in> set seg"
proof (induction s)
  case (Cons x s)
  then show ?case by (cases "split_on d s") auto
qed simp

lemma user_one_word:
  assumes "validate_run_as_user user = Inr ()"
  shows "cmdline_word user \<and> user \<noteq> [] \<and> CHR 0x27 \<notin> set user"
proof -
  have segs: "list_all run_as_segment_ok (split_on CHR '':'' user)"
    using assms by (auto simp: validate_run_as_user_def split: list.splits if_splits)
  have letter: "c = CHR '':'' \<or> (\<exists>seg. run_as_segment_ok seg \<and> c \<in> set seg)" if "c \<in> set user" for c
    using split_on_letters [OF that, of "CHR '':''"] segs by (auto simp: list_all_iff)
  have "cmdline_word seg \<and> CHR 0x27 \<notin> set seg" if "run_as_segment_ok seg" for seg
    using that legal_name_word by (auto simp: run_as_segment_ok_def contains_char_def)
  then have "(\<not> byte_is_whitespace c \<and> c \<noteq> CHR 0x22) \<and> c \<noteq> CHR 0x27" if "c \<in> set user" for c
    using letter [OF that] by (auto simp: cmdline_word_def list_all_iff byte_is_whitespace_def)
  moreover have "user \<noteq> []" using segs by (auto simp: run_as_segment_ok_def)
  ultimately show ?thesis by (auto simp: cmdline_word_def list_all_iff)
qed

text \<open>A mount path of an accepted document.\<close>

definition mount_path_ok :: "string \<Rightarrow> bool" where
  "mount_path_ok p \<longleftrightarrow> starts_with ''/'' p \<and> claimed_path p \<noteq> [] \<and> hd (claimed_path p) \<noteq> ''.lens'' \<and> ''..'' \<notin> set (claimed_path p)"

lemma runtime_first: "\<not> overlaps_runtime_namespace p \<longleftrightarrow> claimed_path p \<noteq> [] \<and> hd (claimed_path p) \<noteq> ''.lens''"
proof -
  have "List.find P xs = (case filter P xs of [] \<Rightarrow> None | x # _ \<Rightarrow> Some x)" for P and xs :: "string list"
    by (induction xs) auto
  then show ?thesis by (auto simp: overlaps_runtime_namespace_def claimed_path_def split: list.splits)
qed

lemma guest_path_ok:
  assumes "validate_guest_path p Anchor_Root = Inr ()" "\<not> overlaps_runtime_namespace p"
  shows "mount_path_ok p"
  using assms by (auto simp: validate_guest_path_def mount_path_ok_def runtime_first claimed_path_def list_ex_iff split: if_splits)

lemma volumes_ok:
  "validate_volumes targets vs = Inr targets' \<Longrightarrow> list_all (\<lambda>v. mount_path_ok (vo_target v) \<and> validate_volume v = Inr ()) vs
    \<and> distinct (map (claimed_path \<circ> vo_target) vs) \<and> set targets \<inter> set (map (claimed_path \<circ> vo_target) vs) = {}
    \<and> set targets' = set targets \<union> set (map (claimed_path \<circ> vo_target) vs)"
proof (induction vs arbitrary: targets)
  case (Cons v vs)
  then have v: "validate_guest_path (vo_target v) Anchor_Root = Inr ()" "\<not> overlaps_runtime_namespace (vo_target v)"
    "validate_volume v = Inr ()" "claimed_path (vo_target v) \<notin> set targets"
    "validate_volumes (claimed_path (vo_target v) # targets) vs = Inr targets'"
    by (simp_all add: and_then_Inr split: if_split_asm)
  show ?case using Cons.IH [OF v(5)] v(3,4) guest_path_ok [OF v(1,2)] by auto
qed auto

lemma filesets_ok:
  "validate_filesets targets fs = Inr targets' \<Longrightarrow> list_all (\<lambda>fe. mount_path_ok (fe_guest_path fe)) fs
    \<and> distinct (map (claimed_path \<circ> fe_guest_path) fs) \<and> set targets \<inter> set (map (claimed_path \<circ> fe_guest_path) fs) = {}"
proof (induction fs arbitrary: targets)
  case (Cons fe fs)
  then have fe: "validate_fileset fe Anchor_Root = Inr ()" "claimed_path (fe_guest_path fe) \<notin> set targets"
    "validate_filesets (claimed_path (fe_guest_path fe) # targets) fs = Inr targets'"
    by (simp_all add: and_then_Inr split: if_split_asm)
  have "validate_guest_path (fe_guest_path fe) Anchor_Root = Inr ()" "\<not> overlaps_runtime_namespace (fe_guest_path fe)"
    using fe(1) by (simp_all add: validate_fileset_def and_then_Inr split: if_split_asm)
  then have "mount_path_ok (fe_guest_path fe)" by (rule guest_path_ok)
  then show ?case using Cons.IH [OF fe(3)] fe(2) by auto
qed auto

lemma ports_ok:
  "validate_ports containers hosts ps = Inr () \<Longrightarrow> list_all (\<lambda>p. 1 \<le> pt_container p \<and> pt_container p \<le> 65535
      \<and> (\<forall>h \<in> set_option (pt_host p). 1 \<le> h \<and> h \<le> 65535)) ps
    \<and> distinct (map pt_container ps) \<and> set containers \<inter> set (map pt_container ps) = {}
    \<and> distinct (List.map_filter pt_host ps) \<and> set hosts \<inter> set (List.map_filter pt_host ps) = {}"
proof (induction ps arbitrary: containers hosts)
  case (Cons p ps)
  have p: "1 \<le> pt_container p \<and> pt_container p \<le> 65535" "pt_container p \<notin> set containers"
    using Cons.prems by (simp_all split: if_split_asm)
  show ?case
  proof (cases "pt_host p")
    case None
    then have "validate_ports (pt_container p # containers) hosts ps = Inr ()" using Cons.prems by (simp split: if_split_asm)
    from Cons.IH [OF this] p None show ?thesis by (auto simp: List.map_filter_simps)
  next
    case (Some h)
    then have h: "1 \<le> h \<and> h \<le> 65535" "h \<notin> set hosts" "validate_ports (pt_container p # containers) (h # hosts) ps = Inr ()"
      using Cons.prems by (simp_all split: if_split_asm)
    from Cons.IH [OF h(3)] p h(1,2) Some show ?thesis by (auto simp: List.map_filter_simps)
  qed
qed (simp add: List.map_filter_simps)

definition mount_paths :: "sandbox_spec \<Rightarrow> string list" where
  "mount_paths spec = map vo_target (sp_volumes spec) @ map fe_guest_path (sp_filesets spec)"

definition written_paths :: "sandbox_spec \<Rightarrow> string list" where
  "written_paths spec = concat (map fileset_claims (sp_filesets spec))"

lemma mounts_ok:
  assumes "validate_mounts spec = Inr ()"
  shows "list_all mount_path_ok (mount_paths spec)" "distinct (map claimed_path (mount_paths spec))"
    "refuse_a_fileset_no_mount_can_carry spec = Inr ()"
proof -
  obtain targets targets' where v: "validate_volumes [] (sp_volumes spec) = Inr targets"
    and f: "validate_filesets targets (sp_filesets spec) = Inr targets'"
    and c: "refuse_a_fileset_no_mount_can_carry spec = Inr ()"
    using assms unfolding validate_mounts_def and_then_Inr by blast
  show "refuse_a_fileset_no_mount_can_carry spec = Inr ()" by (rule c)
  show "list_all mount_path_ok (mount_paths spec)" "distinct (map claimed_path (mount_paths spec))"
    using volumes_ok [OF v] filesets_ok [OF f] by (auto simp: mount_paths_def list_all_iff)
qed

lemma carried:
  assumes "refuse_a_fileset_no_mount_can_carry spec = Inr ()" "v \<in> set (sp_volumes spec)" "is_bind v \<or> vo_read_only v"
    "clm \<in> set (written_paths spec)"
  shows "claimed_path (vo_target v) \<parallel> claimed_path clm
    \<or> is_bind v \<and> (\<exists>e \<in> set (vo_exclude v). prefix (claimed_path (vo_target v) @ claimed_path e) (claimed_path clm))"
proof -
  have "place (vo_target v) (if is_bind v then vo_exclude v else []) clm \<noteq> WritesThrough"
    using bspec [OF assms(1) [unfolded refuse_a_fileset_no_mount_can_carry_def try_for_each_ok, folded written_paths_def] assms(2)] assms(3,4)
    unfolding if_P [OF assms(3)] try_for_each_ok by (metis Inl_Inr_False)
  then consider "place (vo_target v) (if is_bind v then vo_exclude v else []) clm = Free"
    | i where "place (vo_target v) (if is_bind v then vo_exclude v else []) clm = Masked i" by (meson placement.exhaust)
  then show ?thesis
  proof cases
    case 1
    then show ?thesis by (simp add: place_free)
  next
    case 2
    then have i: "i < length (if is_bind v then vo_exclude v else [])"
      "prefix (claimed_path (vo_target v) @ claimed_path ((if is_bind v then vo_exclude v else []) ! i)) (claimed_path clm)"
      by (simp_all add: place_masked first_index_Some)
    then show ?thesis by (cases "is_bind v") auto
  qed
qed


definition sample_spec :: sandbox_spec where
  "sample_spec = default_spec\<lparr>sp_image := ''img'', sp_user := Some ''dev:dev'',
     sp_volumes := [\<lparr>vo_type = Some Bind_Volume, vo_source = Some ''./src'', vo_name = None, vo_target = ''/work'', vo_read_only = False,
       vo_exclude = [''out''], vo_optional = False, vo_size = None\<rparr>],
     sp_filesets := [\<lparr>fe_path = None, fe_inline = Some [(''notes.md'', ''hello'')], fe_host_path = None, fe_guest_path = ''/work/out/'',
       fe_owner = Owner_Workload, fe_optional = False\<rparr>],
     sp_ports := [\<lparr>pt_host = Some 8080, pt_container = 80\<rparr>]\<rparr>"


end
