(* ===== verification/Sandbox_Sources.thy ===== *)
theory Sandbox_Sources
  imports Sandbox_Rules
begin

text \<open>
  The sources of a sandbox, \<open>crates/lns-artifact/src/merge.rs\<close>: the sandbox, the mixins it layers on and the
  run's own decisions as one ordered list, by a walk that carries its own stack. The list is the order the
  documents write down, each source at the last place it is named.
\<close>

section \<open>Data\<close>

record source =
  so_label :: string
  so_spec :: sandbox_spec

definition ROOT_LABEL :: string where
  "ROOT_LABEL = ''the sandbox''"

datatype merge_error = Cycle "string list" string | Unresolved string | Too_Deep string | Host_Port string string int

type_synonym graph = "(string, sandbox_spec) hmap"

section \<open>The order of the sources\<close>

datatype walk_step = Reach string | Emit string sandbox_spec

function expand_loop ::
    "graph \<Rightarrow> walk_step list \<Rightarrow> string list \<Rightarrow> string list \<Rightarrow> string list \<Rightarrow> source list
       \<Rightarrow> merge_error + string list \<times> source list" where
  "expand_loop G [] trail ancestors seen sources = Inr (seen, sources)"
| "expand_loop G (Emit key spec # stack) trail ancestors seen sources =
     expand_loop G stack (butlast trail) (removeAll key ancestors) seen (sources @ [\<lparr>so_label = key, so_spec = spec\<rparr>])"
| "expand_loop G (Reach key # stack) trail ancestors seen sources =
     (if key \<in> set ancestors then Inl (Cycle trail key)
      else (case map_of G key of
              None \<Rightarrow> Inl (Unresolved key)
            | Some spec \<Rightarrow>
                if key \<in> set seen then expand_loop G stack trail ancestors seen sources
                else expand_loop G (map Reach (rev (sp_mixins spec)) @ Emit key spec # stack) (trail @ [key]) (key # ancestors)
                       (key # seen) sources))"
  by pat_completeness auto

definition unvisited :: "graph \<Rightarrow> string list \<Rightarrow> nat" where
  "unvisited G seen = card (fst ` set G - set seen)"

lemma unvisited_less:
  assumes "map_of G key = Some spec" "key \<notin> set seen"
  shows "unvisited G (key # seen) < unvisited G seen"
proof -
  have "key \<in> fst ` set G - set seen" using assms by (force dest: map_of_SomeD)
  then show ?thesis unfolding unvisited_def by (intro psubset_card_mono) auto
qed

termination expand_loop
  by (relation "inv_image (less_than <*lex*> less_than) (\<lambda>(G, stack, trail, ancestors, seen, sources). (unvisited G seen, length stack))")
    (auto intro: unvisited_less)

text \<open>The stack of the code has its top at the end of a vector; here it is the head of a list.\<close>

definition expand :: "graph \<Rightarrow> string list \<Rightarrow> string list \<Rightarrow> source list \<Rightarrow> merge_error + string list \<times> source list" where
  "expand G references seen sources = expand_loop G (map Reach (rev references)) [] [] seen sources"

definition MAX_DEPTH :: nat where
  "MAX_DEPTH = 5"

fun next_frontier :: "graph \<Rightarrow> string list \<Rightarrow> string list \<Rightarrow> string list \<Rightarrow> string list \<times> string list" where
  "next_frontier G seen nxt [] = (seen, nxt)"
| "next_frontier G seen nxt (r # rs) =
     (if r \<in> set seen then next_frontier G seen nxt rs
      else next_frontier G (r # seen) (case map_of G r of Some spec \<Rightarrow> nxt @ sp_mixins spec | None \<Rightarrow> nxt) rs)"

function reach_loop :: "graph \<Rightarrow> nat \<Rightarrow> string list \<Rightarrow> string list \<Rightarrow> merge_error + unit" where
  "reach_loop G depth seen frontier =
     (case filter (\<lambda>r. r \<notin> set seen) frontier of
        [] \<Rightarrow> Inr ()
      | first # rest \<Rightarrow>
          if depth > MAX_DEPTH then Inl (Too_Deep first)
          else (case next_frontier G seen [] (first # rest) of (seen, nxt) \<Rightarrow> reach_loop G (depth + 1) seen nxt))"
  by pat_completeness auto

termination reach_loop
  by (relation "measure (\<lambda>(G, depth, seen, frontier). MAX_DEPTH + 1 - depth)") auto

definition refuse_what_sits_out_of_reach :: "string list \<Rightarrow> string list \<Rightarrow> graph \<Rightarrow> merge_error + unit" where
  "refuse_what_sits_out_of_reach declared extra G = reach_loop G 1 [] (declared @ extra)"

definition local_mixins :: "source option \<Rightarrow> string list" where
  "local_mixins loc = (case loc of Some l \<Rightarrow> sp_mixins (so_spec l) | None \<Rightarrow> [])"

definition flatten :: "sandbox_spec \<Rightarrow> string list \<Rightarrow> source option \<Rightarrow> graph \<Rightarrow> merge_error + source list" where
  "flatten root extra loc G =
     and_then (refuse_what_sits_out_of_reach (sp_mixins root) (local_mixins loc @ extra) G) (\<lambda>_.
     and_then (case loc of Some l \<Rightarrow> expand G (sp_mixins (so_spec l)) [] [l] | None \<Rightarrow> Inr ([], [])) (\<lambda>(seen, sources).
     and_then (expand G extra seen sources) (\<lambda>(seen, sources).
     and_then (expand G (sp_mixins root) seen sources) (\<lambda>(seen, sources).
     Inr (rev (sources @ [\<lparr>so_label = ROOT_LABEL, so_spec = root\<rparr>]))))))"

section \<open>The order that is written down\<close>

text \<open>
  Each reference is followed by its own mixins, expanded the same way; \<open>n\<close> bounds the depth. A source named more
  than once stays at the last place.
\<close>

fun named_order :: "nat \<Rightarrow> graph \<Rightarrow> string list \<Rightarrow> string list" where
  "named_order 0 G refs = []"
| "named_order (Suc n) G refs =
     concat (map (\<lambda>r. r # (case map_of G r of Some spec \<Rightarrow> named_order n G (sp_mixins spec) | None \<Rightarrow> [])) refs)"

text \<open>The same list from the end, as the walk meets it.\<close>

fun back_order :: "nat \<Rightarrow> graph \<Rightarrow> string list \<Rightarrow> string list" where
  "back_order 0 G refs = []"
| "back_order (Suc n) G refs =
     concat (map (\<lambda>r. (case map_of G r of Some spec \<Rightarrow> back_order n G (rev (sp_mixins spec)) | None \<Rightarrow> []) @ [r]) refs)"

lemma back_order_rev: "rev (back_order n G (rev refs)) = named_order n G refs"
proof (induction n arbitrary: refs)
  case (Suc n)
  have "rev ((case map_of G r of Some spec \<Rightarrow> back_order n G (rev (sp_mixins spec)) | None \<Rightarrow> []) @ [r]) =
      r # (case map_of G r of Some spec \<Rightarrow> named_order n G (sp_mixins spec) | None \<Rightarrow> [])" for r
    using Suc by (cases "map_of G r") simp_all
  then show ?case by (simp add: rev_concat rev_map comp_def)
qed simp

lemma back_order_Cons:
  "back_order (Suc n) G (r # refs) = (case map_of G r of Some spec \<Rightarrow> back_order n G (rev (sp_mixins spec)) | None \<Rightarrow> []) @ r # back_order (Suc n) G refs"
  by simp

fun firsts :: "'a set \<Rightarrow> 'a list \<Rightarrow> 'a list" where
  "firsts S [] = []"
| "firsts S (x # xs) = (if x \<in> S then firsts S xs else x # firsts (insert x S) xs)"

lemma firsts_append: "firsts S (xs @ ys) = firsts S xs @ firsts (S \<union> set xs) ys"
  by (induction xs arbitrary: S) (auto simp: insert_absorb)

lemma firsts_known: "set xs \<subseteq> S \<Longrightarrow> firsts S xs = []"
  by (induction xs) auto

lemma firsts_insert: "x \<notin> set xs \<Longrightarrow> firsts (insert x S) xs = firsts S xs"
proof (induction xs arbitrary: S)
  case (Cons a xs)
  then show ?case by (auto simp: insert_commute [of a x S])
qed simp

lemma set_firsts: "set (firsts S xs) = set xs - S"
  by (induction xs arbitrary: S) auto

lemma distinct_firsts: "distinct (firsts S xs)"
  by (induction xs arbitrary: S) (auto simp: set_firsts)

lemma remdups_snoc: "remdups (xs @ [x]) = filter (\<lambda>y. y \<noteq> x) (remdups xs) @ [x]"
  by (induction xs) auto

lemma firsts_remdups: "rev (firsts S xs) = filter (\<lambda>x. x \<notin> S) (remdups (rev xs))"
proof (induction xs arbitrary: S)
  case (Cons x xs)
  have "filter (\<lambda>y. y \<notin> S \<and> y \<noteq> x) ys = filter (\<lambda>y. y \<notin> insert x S) ys" for ys by (rule filter_cong) auto
  moreover have "filter (\<lambda>y. y \<notin> S \<and> y \<noteq> x) ys = filter (\<lambda>y. y \<notin> S) ys" if "x \<in> S" for ys using that by (intro filter_cong) auto
  ultimately show ?case by (auto simp: Cons remdups_snoc)
qed simp

section \<open>The walk keeps that order\<close>

text \<open>The walk as a recursion on the mixins of a source, with the depth it may still go.\<close>

fun visit :: "nat \<Rightarrow> graph \<Rightarrow> string list \<Rightarrow> string list \<Rightarrow> string list \<Rightarrow> source list \<Rightarrow> merge_error + string list \<times> source list" where
  "visit n G [] ancestors seen sources = Inr (seen, sources)"
| "visit n G (key # keys) ancestors seen sources =
     (if key \<in> set ancestors then Inl (Cycle (rev ancestors) key)
      else (case map_of G key of
              None \<Rightarrow> Inl (Unresolved key)
            | Some spec \<Rightarrow>
                if key \<in> set seen then visit n G keys ancestors seen sources
                else (case n of
                        0 \<Rightarrow> Inl (Too_Deep key)
                      | Suc m \<Rightarrow> and_then (visit m G (rev (sp_mixins spec)) (key # ancestors) (key # seen) sources) (\<lambda>(seen, sources).
                          visit n G keys ancestors seen (sources @ [\<lparr>so_label = key, so_spec = spec\<rparr>])))))"

text \<open>The depth is enough when, with the sources on the way, it covers the whole graph.\<close>

definition deep_enough :: "nat \<Rightarrow> graph \<Rightarrow> string list \<Rightarrow> bool" where
  "deep_enough n G ancestors \<longleftrightarrow> distinct ancestors \<and> set ancestors \<subseteq> fst ` set G \<and> card (fst ` set G) \<le> n + length ancestors"

lemma deep_enough_step:
  assumes "deep_enough n G ancestors" "map_of G key = Some spec" "key \<notin> set ancestors"
  obtains m where "n = Suc m" "deep_enough m G (key # ancestors)"
proof (cases n)
  case 0
  have "key \<in> fst ` set G" using assms(2) by (force dest: map_of_SomeD)
  then have "card (set ancestors) < card (fst ` set G)" using assms by (intro psubset_card_mono) (auto simp: deep_enough_def)
  then show thesis using assms(1) 0 by (simp add: deep_enough_def distinct_card)
next
  case (Suc m)
  then show thesis using assms that by (force simp: deep_enough_def dest: map_of_SomeD)
qed

lemma loop_is_visit:
  "deep_enough n G ancestors \<Longrightarrow>
     expand_loop G (map Reach keys @ rest) (rev ancestors) ancestors seen sources =
     and_then (visit n G keys ancestors seen sources) (\<lambda>(seen, sources). expand_loop G rest (rev ancestors) ancestors seen sources)"
proof (induction n G keys ancestors seen sources arbitrary: rest rule: visit.induct)
  case (2 n G key keys ancestors seen sources)
  show ?case
  proof (cases "key \<in> set ancestors \<or> map_of G key = None \<or> key \<in> set seen")
    case True
    then show ?thesis using 2 by (auto split: option.splits)
  next
    case False
    then obtain spec where spec: "map_of G key = Some spec" "key \<notin> set ancestors" "key \<notin> set seen" by auto
    obtain m where m: "n = Suc m" "deep_enough m G (key # ancestors)" by (rule deep_enough_step [OF 2(4) spec(1,2)])
    have IH1: "expand_loop G (map Reach (rev (sp_mixins spec)) @ Emit key spec # map Reach keys @ rest) (rev (key # ancestors)) (key # ancestors) (key # seen) sources =
        and_then (visit m G (rev (sp_mixins spec)) (key # ancestors) (key # seen) sources)
          (\<lambda>(seen, sources). expand_loop G (Emit key spec # map Reach keys @ rest) (rev (key # ancestors)) (key # ancestors) seen sources)"
      by (rule 2(2) [OF spec(2,1,3) m])
    have IH2: "expand_loop G (map Reach keys @ rest) (rev ancestors) ancestors seen' (sources' @ [\<lparr>so_label = key, so_spec = spec\<rparr>]) =
        and_then (visit n G keys ancestors seen' (sources' @ [\<lparr>so_label = key, so_spec = spec\<rparr>]))
          (\<lambda>(seen, sources). expand_loop G rest (rev ancestors) ancestors seen sources)" for seen' sources'
      using 2(3) [OF spec(2,1,3) m(1)] 2(4) by simp
    have anc: "removeAll key (key # ancestors) = ancestors" using spec(2) by simp
    show ?thesis using IH1 spec m(1) anc
      by (cases "visit m G (rev (sp_mixins spec)) (key # ancestors) (key # seen) sources") (auto simp: IH2)
  qed
qed simp

text \<open>Sources that are done have their mixins done.\<close>

definition closed_under :: "graph \<Rightarrow> string set \<Rightarrow> bool" where
  "closed_under G D \<longleftrightarrow> (\<forall>key \<in> D. \<exists>spec. map_of G key = Some spec \<and> set (sp_mixins spec) \<subseteq> D)"

lemma closed_back: "closed_under G D \<Longrightarrow> set refs \<subseteq> D \<Longrightarrow> set (back_order n G refs) \<subseteq> D"
proof (induction n arbitrary: refs)
  case (Suc n)
  show ?case
  proof
    fix x
    assume "x \<in> set (back_order (Suc n) G refs)"
    then obtain r where r: "r \<in> set refs" "x \<in> set (case map_of G r of Some spec \<Rightarrow> back_order n G (rev (sp_mixins spec)) | None \<Rightarrow> []) \<or> x = r"
      by (simp only: back_order.simps set_concat set_map) fastforce
    have "r \<in> D" using r(1) Suc.prems(2) by (rule subsetD [rotated])
    then obtain spec where spec: "map_of G r = Some spec" "set (sp_mixins spec) \<subseteq> D" using Suc.prems(1) unfolding closed_under_def by meson
    have "set (back_order n G (rev (sp_mixins spec))) \<subseteq> D" using spec(2) by (intro Suc.IH Suc.prems(1)) simp
    then show "x \<in> D" using r(2) spec(1) \<open>r \<in> D\<close> by auto
  qed
qed simp

lemma closed_insert: "closed_under G D \<Longrightarrow> map_of G key = Some spec \<Longrightarrow> set (sp_mixins spec) \<subseteq> D \<Longrightarrow> closed_under G (insert key D)"
  unfolding closed_under_def by (metis insertE subset_insertI2)

abbreviation source_at :: "graph \<Rightarrow> string \<Rightarrow> source" where
  "source_at G key \<equiv> \<lparr>so_label = key, so_spec = the (map_of G key)\<rparr>"

lemma visit_order:
  "visit n G keys ancestors seen sources = Inr (seen', sources') \<Longrightarrow> deep_enough n G ancestors \<Longrightarrow> set ancestors \<subseteq> set seen
     \<Longrightarrow> closed_under G (set seen - set ancestors) \<Longrightarrow>
   sources' = sources @ map (source_at G) (firsts (set seen) (back_order n G keys))
   \<and> set seen' = set seen \<union> set (back_order n G keys) \<and> set keys \<subseteq> set seen' - set ancestors
   \<and> set (back_order n G keys) \<inter> set ancestors = {} \<and> closed_under G (set seen' - set ancestors)"
proof (induction n G keys ancestors seen sources arbitrary: seen' sources' rule: visit.induct)
  case (1 n G ancestors seen sources)
  have "back_order n G [] = []" by (cases n) simp_all
  then show ?case using 1 by auto
next
  case (2 n G key keys ancestors seen sources)
  have key: "key \<notin> set ancestors" using 2(4) by (auto split: if_splits)
  obtain spec where spec: "map_of G key = Some spec" using 2(4) key by (auto split: option.splits)
  show ?case
  proof (cases "key \<in> set seen")
    case True
    have v: "visit n G keys ancestors seen sources = Inr (seen', sources')" using 2(4) key spec True by simp
    note IH = 2(1) [OF key spec True v 2(5-7)]
    have "set (back_order n G [key]) \<subseteq> set seen - set ancestors" using True key by (intro closed_back [OF 2(7)]) simp
    moreover have "back_order n G (key # keys) = back_order n G [key] @ back_order n G keys" by (cases n) simp_all
    moreover have "firsts (set seen) (back_order n G [key]) = []" "set seen \<union> set (back_order n G [key]) = set seen"
      using calculation(1) by (auto intro: firsts_known)
    ultimately show ?thesis using IH True key by (auto simp: firsts_append)
  next
    case False
    obtain m where m: "n = Suc m" "deep_enough m G (key # ancestors)" by (rule deep_enough_step [OF 2(5) spec key])
    obtain seen1 sources1 where v: "visit m G (rev (sp_mixins spec)) (key # ancestors) (key # seen) sources = Inr (seen1, sources1)"
      "visit n G keys ancestors seen1 (sources1 @ [\<lparr>so_label = key, so_spec = spec\<rparr>]) = Inr (seen', sources')"
      using 2(4) key spec False m(1) by (auto simp: and_then_Inr)
    have same: "set (key # seen) - set (key # ancestors) = set seen - set ancestors" using False key by auto
    let ?A = "back_order m G (rev (sp_mixins spec))"
    have one: "sources1 = sources @ map (source_at G) (firsts (set (key # seen)) ?A)" "set seen1 = set (key # seen) \<union> set ?A"
      "set (sp_mixins spec) \<subseteq> set seen1 - set (key # ancestors)" "set ?A \<inter> set (key # ancestors) = {}"
      "closed_under G (set seen1 - set (key # ancestors))"
      using 2(2) [OF key spec False m(1) v(1) m(2)] 2(6,7) same by auto
    have "insert key (set seen1 - set (key # ancestors)) = set seen1 - set ancestors" using one(2) key by auto
    then have closed: "closed_under G (set seen1 - set ancestors)" using closed_insert [OF one(5) spec one(3)] by simp
    have anc: "set ancestors \<subseteq> set seen1" using one(2) 2(6) by auto
    let ?B = "back_order n G keys"
    have two: "sources' = (sources1 @ [\<lparr>so_label = key, so_spec = spec\<rparr>]) @ map (source_at G) (firsts (set seen1) ?B)"
      "set seen' = set seen1 \<union> set ?B" "set keys \<subseteq> set seen' - set ancestors" "set ?B \<inter> set ancestors = {}"
      "closed_under G (set seen' - set ancestors)"
      using 2(3) [OF key spec False m(1) v(2) 2(5) anc closed] by auto
    have order: "back_order n G (key # keys) = ?A @ key # ?B" by (simp only: m(1) back_order_Cons spec option.case)
    have "firsts (set (key # seen)) ?A = firsts (set seen) ?A" using one(4) by (simp add: firsts_insert)
    moreover have "firsts (set seen \<union> set ?A) (key # ?B) = key # firsts (set seen1) ?B" using False one(2,4) by (simp add: Un_commute)
    ultimately have "firsts (set seen) (back_order n G (key # keys)) = firsts (set (key # seen)) ?A @ key # firsts (set seen1) ?B"
      unfolding order firsts_append by simp
    then show ?thesis using one two spec order key by auto
  qed
qed

lemma expand_order:
  assumes "expand G references seen sources = Inr (seen', sources')" "closed_under G (set seen)" "card (fst ` set G) \<le> n"
  shows "sources' = sources @ map (source_at G) (firsts (set seen) (back_order n G (rev references)))"
    "set seen' = set seen \<union> set (back_order n G (rev references))" "closed_under G (set seen')"
proof -
  have deep: "deep_enough n G []" using assms(3) by (simp add: deep_enough_def)
  have "and_then (visit n G (rev references) [] seen sources) (\<lambda>(seen, sources). expand_loop G [] [] [] seen sources) = Inr (seen', sources')"
    using loop_is_visit [OF deep, of "rev references" "[]" seen sources] assms(1) by (simp add: expand_def)
  then have "visit n G (rev references) [] seen sources = Inr (seen', sources')"
    by (auto simp: and_then_Inr)
  from visit_order [OF this deep] assms(2)
  show "sources' = sources @ map (source_at G) (firsts (set seen) (back_order n G (rev references)))"
    "set seen' = set seen \<union> set (back_order n G (rev references))" "closed_under G (set seen')" by auto
qed

lemma flatten_stages:
  assumes "flatten root extra loc G = Inr sources" "card (fst ` set G) \<le> n"
  shows "sources = \<lparr>so_label = ROOT_LABEL, so_spec = root\<rparr>
    # map (source_at G) (remdups (named_order n G (sp_mixins root) @ named_order n G extra @ named_order n G (local_mixins loc)))
    @ (case loc of Some l \<Rightarrow> [l] | None \<Rightarrow> [])"
    "r \<in> set (named_order n G (sp_mixins root) @ named_order n G extra @ named_order n G (local_mixins loc)) \<Longrightarrow> map_of G r \<noteq> None"
proof -
  let ?own = "case loc of Some l \<Rightarrow> [l] | None \<Rightarrow> []"
  obtain seen1 src1 seen2 src2 seen3 src3 where
    s1: "(case loc of Some l \<Rightarrow> expand G (sp_mixins (so_spec l)) [] [l] | None \<Rightarrow> Inr ([], [])) = Inr (seen1, src1)"
    and s2: "expand G extra seen1 src1 = Inr (seen2, src2)" and s3: "expand G (sp_mixins root) seen2 src2 = Inr (seen3, src3)"
    and sources: "sources = rev (src3 @ [\<lparr>so_label = ROOT_LABEL, so_spec = root\<rparr>])"
    using assms(1) unfolding flatten_def by (auto simp: and_then_Inr)
  let ?A = "back_order n G (rev (local_mixins loc))" and ?B = "back_order n G (rev extra)" and ?C = "back_order n G (rev (sp_mixins root))"
  have none: "closed_under G (set [])" by (simp add: closed_under_def)
  have one: "src1 = ?own @ map (source_at G) (firsts {} ?A) \<and> set seen1 = set ?A \<and> closed_under G (set seen1)"
  proof (cases loc)
    case None
    then show ?thesis using s1 none by (cases n) (auto simp: local_mixins_def)
  next
    case (Some l)
    then have "expand G (sp_mixins (so_spec l)) [] [l] = Inr (seen1, src1)" using s1 by simp
    note expand_order [OF this none assms(2)]
    then show ?thesis using Some by (simp add: local_mixins_def)
  qed
  note a = one [THEN conjunct1] one [THEN conjunct2, THEN conjunct1] one [THEN conjunct2, THEN conjunct2]
  note b = expand_order [OF s2 a(3) assms(2)]
  note c = expand_order [OF s3 b(3) assms(2)]
  have "src3 = ?own @ map (source_at G) (firsts {} (?A @ ?B @ ?C))"
    using a b c by (simp add: firsts_append)
  moreover have "rev (firsts {} (?A @ ?B @ ?C)) =
      remdups (named_order n G (sp_mixins root) @ named_order n G extra @ named_order n G (local_mixins loc))"
    by (simp add: firsts_remdups flip: back_order_rev)
  ultimately show "sources = \<lparr>so_label = ROOT_LABEL, so_spec = root\<rparr>
    # map (source_at G) (remdups (named_order n G (sp_mixins root) @ named_order n G extra @ named_order n G (local_mixins loc)))
    @ (case loc of Some l \<Rightarrow> [l] | None \<Rightarrow> [])" unfolding sources by (simp add: rev_map split: option.splits)
  have "set seen3 = set ?A \<union> set ?B \<union> set ?C" using a b c by simp
  then show "map_of G r \<noteq> None"
    if "r \<in> set (named_order n G (sp_mixins root) @ named_order n G extra @ named_order n G (local_mixins loc))"
    using that c(3) by (auto simp: closed_under_def simp flip: back_order_rev)
qed

text \<open>
  C9: the sources of a sandbox come in the order that is written down. When a sandbox, the mixins named on the
  command line and the run's own document resolve against a graph, the list is the sandbox, then every mixin the
  three name, each followed by its own mixins, then the run's document; a mixin named more than once is once in the
  list, at the last place, so it is never merged before something it was asked to override. The walk's order does
  not depend on how the stack meets them, and a depth of the number of documents reaches everything.
\<close>

theorem sources_in_written_order:
  assumes "flatten root extra loc G = Inr sources"
  shows "map so_label sources = ROOT_LABEL
      # remdups (named_order (length G) G (sp_mixins root) @ named_order (length G) G extra @ named_order (length G) G (local_mixins loc))
      @ (case loc of Some l \<Rightarrow> [so_label l] | None \<Rightarrow> [])
    \<and> (\<forall>s \<in> set sources. so_spec s = root \<or> map_of G (so_label s) = Some (so_spec s) \<or> Some s = loc)"
proof -
  let ?all = "remdups (named_order (length G) G (sp_mixins root) @ named_order (length G) G extra @ named_order (length G) G (local_mixins loc))"
  have "card (fst ` set G) \<le> length G" using card_length [of "map fst G"] by simp
  note all = flatten_stages(1) [OF assms this] and known = flatten_stages(2) [OF assms this]
  have "map so_label sources = ROOT_LABEL # ?all @ (case loc of Some l \<Rightarrow> [so_label l] | None \<Rightarrow> [])"
    unfolding all by (simp add: comp_def split: option.splits)
  moreover have "\<forall>s \<in> set sources. so_spec s = root \<or> map_of G (so_label s) = Some (so_spec s) \<or> Some s = loc"
    unfolding all using known by (fastforce split: option.splits)
  ultimately show ?thesis by simp
qed

definition mixing :: "string list \<Rightarrow> sandbox_spec" where
  "mixing refs = default_spec\<lparr>sp_mixins := refs\<rparr>"

text \<open>
  The tool chain \<open>base\<close> is asked for by \<open>node\<close> and, on the command line, by the user: it comes after \<open>node\<close>
  and \<open>python\<close>, at the user's place.
\<close>

definition sample_graph :: graph where
  "sample_graph = [(''base'', mixing []), (''node'', mixing [''base'']), (''python'', mixing [])]"

theorem sources_in_written_order_witness:
  "map so_label (case flatten (mixing [''node'', ''python'']) [''base''] None sample_graph of Inr sources \<Rightarrow> sources | Inl _ \<Rightarrow> [])
     = [ROOT_LABEL, ''node'', ''python'', ''base'']"
proof -
  obtain sources where ok: "flatten (mixing [''node'', ''python'']) [''base''] None sample_graph = Inr sources"
  proof -
    have "\<exists>sources. flatten (mixing [''node'', ''python'']) [''base''] None sample_graph = Inr sources"
      by (simp add: flatten_def refuse_what_sits_out_of_reach_def local_mixins_def mixing_def sample_graph_def default_spec_def MAX_DEPTH_def expand_def)
    then show ?thesis using that by blast
  qed
  have "named_order 3 sample_graph [''node'', ''python''] = [''node'', ''base'', ''python'']" by code_simp
  moreover have "named_order 3 sample_graph [''base''] = [''base'']" "named_order 3 sample_graph [] = []" by code_simp+
  moreover have "length sample_graph = 3" by (simp add: sample_graph_def)
  ultimately show ?thesis using sources_in_written_order [OF ok] ok by (simp add: mixing_def local_mixins_def)
qed

end
