(* ===== verification/Sandbox_Merge.thy ===== *)
theory Sandbox_Merge
  imports Sandbox_Sources
begin

text \<open>
  The merge of an ordered list of sources, \<open>crates/lns-artifact/src/merge.rs\<close>: every block of the merged
  document, and the record of which source decided each entry and what that decision replaced.
\<close>

section \<open>What the merge records\<close>

datatype merge_block = Tool_Block | Mount_Block | Port_Block | Egress_Block | Script_Block | Credential_Block

record displaced =
  di_source :: string
  di_summary :: string

record contribution =
  co_block :: merge_block
  co_key :: string
  co_source :: string
  co_note :: "string option"
  co_displaced :: "displaced list"

record fileset_origin =
  fo_guest_path :: string
  fo_source :: string
  fo_layer_index :: nat

record merged =
  mg_spec :: sandbox_spec
  mg_contributions :: "contribution list"
  mg_fileset_origins :: "fileset_origin list"

record 'a won =
  wo_item :: 'a
  wo_key :: string
  wo_source :: string
  wo_displaced :: "displaced list"

definition won_contribution :: "merge_block \<Rightarrow> 'a won \<Rightarrow> contribution" where
  "won_contribution b won = \<lparr>co_block = b, co_key = wo_key won, co_source = wo_source won, co_note = None,
     co_displaced = wo_displaced won\<rparr>"

section \<open>One keyed block\<close>

type_synonym 'a claims = "string list \<times> (string, 'a won) hmap"

definition claim :: "('a \<Rightarrow> string) \<Rightarrow> string \<Rightarrow> 'a \<Rightarrow> string \<Rightarrow> 'a claims \<Rightarrow> 'a claims" where
  "claim summary key item label st = (case st of (order, winners) \<Rightarrow>
     (case hm_get winners key of
        Some won \<Rightarrow>
          (order, hm_insert key (won\<lparr>wo_displaced := wo_displaced won @ [\<lparr>di_source = wo_source won, di_summary = summary (wo_item won)\<rparr>],
             wo_source := label, wo_item := item\<rparr>) winners)
      | None \<Rightarrow>
          (order @ [key], hm_insert key \<lparr>wo_item = item, wo_key = key, wo_source = label, wo_displaced = []\<rparr> winners)))"

fun drain :: "string list \<Rightarrow> (string, 'a won) hmap \<Rightarrow> 'a won list" where
  "drain [] winners = []"
| "drain (key # order) winners =
     (case hm_get winners key of
        Some won \<Rightarrow> won # drain order (hm_remove key winners)
      | None \<Rightarrow> drain order winners)"

definition fold_labelled ::
    "source list \<Rightarrow> (sandbox_spec \<Rightarrow> 'a list) \<Rightarrow> ('a \<Rightarrow> string) \<Rightarrow> ('a \<Rightarrow> string) \<Rightarrow> 'a won list" where
  "fold_labelled sources items key summary =
     (case foldl (\<lambda>st s. foldl (\<lambda>st i. claim summary (key i) i (so_label s) st) st (items (so_spec s))) ([], []) sources of
        (order, winners) \<Rightarrow> drain order winners)"

definition fold_block ::
    "source list \<Rightarrow> (sandbox_spec \<Rightarrow> 'a list) \<Rightarrow> ('a \<Rightarrow> string) \<Rightarrow> ('a \<Rightarrow> string) \<Rightarrow> merge_block \<Rightarrow> contribution list
       \<Rightarrow> 'a list \<times> contribution list" where
  "fold_block sources items key summary b into =
     (let wons = fold_labelled sources items key summary
      in (map wo_item wons, into @ map (won_contribution b) wons))"

section \<open>Mounts\<close>

datatype mount = Volume_Mount volume | Fileset_Mount fileset_entry "nat option"

definition mount_summary :: "mount \<Rightarrow> string" where
  "mount_summary m = (case m of Volume_Mount v \<Rightarrow> ''volume '' @ volume_source v | Fileset_Mount _ _ \<Rightarrow> ''fileset'')"

fun claim_filesets :: "string \<Rightarrow> nat \<Rightarrow> fileset_entry list \<Rightarrow> mount claims \<Rightarrow> mount claims" where
  "claim_filesets label layers [] st = st"
| "claim_filesets label layers (f # fs) st =
     (case fe_path f of
        Some _ \<Rightarrow> claim_filesets label (layers + 1) fs (claim mount_summary (fe_guest_path f) (Fileset_Mount f (Some layers)) label st)
      | None \<Rightarrow> claim_filesets label layers fs (claim mount_summary (fe_guest_path f) (Fileset_Mount f None) label st))"

definition claim_mounts :: "mount claims \<Rightarrow> source \<Rightarrow> mount claims" where
  "claim_mounts st s =
     claim_filesets (so_label s) 0 (sp_filesets (so_spec s))
       (foldl (\<lambda>st v. claim mount_summary (vo_target v) (Volume_Mount v) (so_label s) st) st (sp_volumes (so_spec s)))"

fun mount_volume :: "mount \<Rightarrow> volume option" where
  "mount_volume (Volume_Mount v) = Some v"
| "mount_volume (Fileset_Mount _ _) = None"

fun mount_fileset :: "mount \<Rightarrow> fileset_entry option" where
  "mount_fileset (Volume_Mount _) = None"
| "mount_fileset (Fileset_Mount f _) = Some f"

definition mount_origin :: "mount won \<Rightarrow> fileset_origin option" where
  "mount_origin won = (case wo_item won of
     Fileset_Mount f (Some layer) \<Rightarrow> Some \<lparr>fo_guest_path = fe_guest_path f, fo_source = wo_source won, fo_layer_index = layer\<rparr>
   | _ \<Rightarrow> None)"

definition fold_mounts ::
    "source list \<Rightarrow> contribution list \<Rightarrow> fileset_origin list
       \<Rightarrow> (volume list \<times> fileset_entry list) \<times> contribution list \<times> fileset_origin list" where
  "fold_mounts sources into origins =
     (case foldl claim_mounts ([], []) sources of
        (order, winners) \<Rightarrow>
          (let wons = drain order winners
           in ((List.map_filter (mount_volume \<circ> wo_item) wons, List.map_filter (mount_fileset \<circ> wo_item) wons),
               into @ map (won_contribution Mount_Block) wons, origins @ List.map_filter mount_origin wons)))"

section \<open>The other blocks\<close>

definition take_over :: "'a option \<Rightarrow> 'a option \<Rightarrow> 'a option" where
  "take_over into from = (case from of Some v \<Rightarrow> Some v | None \<Rightarrow> into)"

definition tool_name :: "string \<Rightarrow> string" where
  "tool_name entry = (case split_once CHR ''@'' entry of Some (name, _) \<Rightarrow> name | None \<Rightarrow> entry)"

definition egress_of :: "source list \<Rightarrow> egress" where
  "egress_of sources = foldl (\<lambda>e s. \<lparr>e_http = e_http e @ e_http (sp_egress (so_spec s)), e_tcp = e_tcp e @ e_tcp (sp_egress (so_spec s))\<rparr>)
     \<lparr>e_http = [], e_tcp = []\<rparr> (rev sources)"

definition scripts_of :: "source list \<Rightarrow> script_step list" where
  "scripts_of sources = concat (map (\<lambda>s. sp_scripts (so_spec s)) sources)"

definition script_contributions :: "sandbox_spec \<Rightarrow> string \<Rightarrow> contribution list" where
  "script_contributions spec label = map (\<lambda>script. \<lparr>co_block = Script_Block, co_key = script_label script, co_source = label,
     co_note = sc_description script, co_displaced = []\<rparr>) (sp_scripts spec)"

definition own_scripts :: "sandbox_spec \<Rightarrow> contribution list" where
  "own_scripts spec = script_contributions spec ROOT_LABEL"

definition path_filesets :: "sandbox_spec \<Rightarrow> (nat \<times> fileset_entry \<times> string) list" where
  "path_filesets spec = List.enumerate 0 (List.map_filter (\<lambda>f. map_option (\<lambda>p. (f, p)) (fe_path f)) (sp_filesets spec))"

definition own_fileset_origins :: "sandbox_spec \<Rightarrow> fileset_origin list" where
  "own_fileset_origins spec = map (\<lambda>(layer_index, f, _). \<lparr>fo_guest_path = fe_guest_path f, fo_source = ROOT_LABEL,
     fo_layer_index = layer_index\<rparr>) (path_filesets spec)"

definition egress_contribution :: "verdict \<Rightarrow> string \<Rightarrow> string option \<Rightarrow> string \<Rightarrow> contribution" where
  "egress_contribution verdict match_pattern desc label =
     \<lparr>co_block = Egress_Block, co_key = (case verdict of Allow \<Rightarrow> ''allow'' | Deny \<Rightarrow> ''deny'') @ '' '' @ match_pattern,
      co_source = label, co_note = desc, co_displaced = []\<rparr>"

definition egress_contributions :: "sandbox_spec \<Rightarrow> string \<Rightarrow> contribution list" where
  "egress_contributions spec label =
     map (\<lambda>r. egress_contribution (r_verdict r) (r_match r) (r_description r) label) (e_http (sp_egress spec)) @
     map (\<lambda>r. egress_contribution (t_verdict r) (t_match r) (t_description r) label) (e_tcp (sp_egress spec))"

definition own_egress :: "sandbox_spec \<Rightarrow> contribution list" where
  "own_egress spec = egress_contributions spec ROOT_LABEL"

fun host_ports_free :: "(int, string) hmap \<Rightarrow> port won list \<Rightarrow> merge_error + unit" where
  "host_ports_free held [] = Inr ()"
| "host_ports_free held (won # wons) =
     (case pt_host (wo_item won) of
        None \<Rightarrow> host_ports_free held wons
      | Some host \<Rightarrow>
          (case hm_get held host of
             Some holder \<Rightarrow> Inl (Host_Port holder (wo_source won) host)
           | None \<Rightarrow> host_ports_free (hm_insert host (wo_source won) held) wons))"

definition refuse_a_host_port_two_sources_publish :: "port won list \<Rightarrow> merge_error + unit" where
  "refuse_a_host_port_two_sources_publish ports = host_ports_free [] ports"

section \<open>The merge\<close>

definition layer_over :: "sandbox_spec \<Rightarrow> source \<Rightarrow> sandbox_spec" where
  "layer_over spec s =
     spec\<lparr>sp_env := foldl (\<lambda>env (k, v). hm_insert k v env) (sp_env spec) (sp_env (so_spec s)),
          sp_image := (if sp_image (so_spec s) \<noteq> [] then sp_image (so_spec s) else sp_image spec),
          sp_command := take_over (sp_command spec) (sp_command (so_spec s)),
          sp_workdir := take_over (sp_workdir spec) (sp_workdir (so_spec s)),
          sp_user := take_over (sp_user spec) (sp_user (so_spec s)),
          sp_resources := take_over (sp_resources spec) (sp_resources (so_spec s))\<rparr>"

definition port_key :: "port \<Rightarrow> string" where
  "port_key p = show_int (pt_container p)"

definition merge :: "source list \<Rightarrow> merge_error + merged" where
  "merge sources =
     (let spec = foldl layer_over default_spec sources;
          (tools, contributions) = fold_block sources sp_tools tool_name (\<lambda>t. t) Tool_Block [];
          ((volumes, filesets), contributions, origins) = fold_mounts sources contributions [];
          ports = fold_labelled sources sp_ports port_key port_key
      in and_then (refuse_a_host_port_two_sources_publish ports) (\<lambda>_.
         let contributions = contributions @ map (won_contribution Port_Block) ports;
             (credentials, contributions) = fold_block sources sp_credentials owner owner Credential_Block contributions;
             contributions = contributions @ concat (map (\<lambda>s. egress_contributions (so_spec s) (so_label s)) (rev sources));
             contributions = contributions @ concat (map (\<lambda>s. script_contributions (so_spec s) (so_label s)) sources)
         in Inr \<lparr>mg_spec = spec\<lparr>sp_tools := tools, sp_volumes := volumes, sp_filesets := filesets, sp_ports := map wo_item ports,
                   sp_credentials := credentials, sp_egress := egress_of sources, sp_scripts := scripts_of sources, sp_mixins := []\<rparr>,
                 mg_contributions = contributions, mg_fileset_origins = origins\<rparr>))"

section \<open>The last claim of a key\<close>

text \<open>A block as a list of claims: the key, the entry and the source of each, in the order they are made.\<close>

definition run_claims :: "('a \<Rightarrow> string) \<Rightarrow> (string \<times> 'a \<times> string) list \<Rightarrow> 'a claims \<Rightarrow> 'a claims" where
  "run_claims summary cs st = foldl (\<lambda>st (k, i, l). claim summary k i l st) st cs"

definition won_of :: "('a \<Rightarrow> string) \<Rightarrow> (string \<times> 'a \<times> string) list \<Rightarrow> string \<Rightarrow> 'a won" where
  "won_of summary cs k = (let made = filter (\<lambda>c. fst c = k) cs
     in \<lparr>wo_item = fst (snd (last made)), wo_key = k, wo_source = snd (snd (last made)),
         wo_displaced = map (\<lambda>(_, i, l). \<lparr>di_source = l, di_summary = summary i\<rparr>) (butlast made)\<rparr>)"

definition last_claims :: "('a \<Rightarrow> string) \<Rightarrow> 'a list \<Rightarrow> 'a list" where
  "last_claims key xs = map (\<lambda>k. last (filter (\<lambda>x. key x = k) xs)) (firsts {} (map key xs))"

lemma filter_ne: "k \<in> fst ` set cs \<Longrightarrow> filter (\<lambda>c. fst c = k) cs \<noteq> []"
  by (force simp: filter_empty_conv)

lemma won_of_snoc:
  "won_of summary (cs @ [(k, i, l)]) k' =
     (if k' \<noteq> k then won_of summary cs k'
      else if k \<in> fst ` set cs
      then (won_of summary cs k)\<lparr>wo_displaced := wo_displaced (won_of summary cs k)
               @ [\<lparr>di_source = wo_source (won_of summary cs k), di_summary = summary (wo_item (won_of summary cs k))\<rparr>],
             wo_source := l, wo_item := i\<rparr>
      else \<lparr>wo_item = i, wo_key = k, wo_source = l, wo_displaced = []\<rparr>)"
proof (cases "k' = k \<and> k \<in> fst ` set cs")
  case True
  then obtain made c where "filter (\<lambda>c. fst c = k) cs = made @ [c]" using filter_ne rev_exhaust by metis
  with True show ?thesis by (cases c) (simp add: won_of_def Let_def butlast_append)
next
  case False
  then show ?thesis by (auto simp: won_of_def Let_def filter_empty_conv intro!: filter_False)
qed

lemma run_claims_state:
  "case run_claims summary cs ([], []) of (order, winners) \<Rightarrow> order = firsts {} (map fst cs) \<and>
     (\<forall>k. hm_get winners k = (if k \<in> fst ` set cs then Some (won_of summary cs k) else None))"
proof (induction cs rule: rev_induct)
  case (snoc c cs)
  obtain k i l where c: "c = (k, i, l)" by (cases c)
  obtain order winners where st: "run_claims summary cs ([], []) = (order, winners)" by fastforce
  with snoc have inv: "order = firsts {} (map fst cs)"
    "\<And>k. hm_get winners k = (if k \<in> fst ` set cs then Some (won_of summary cs k) else None)" by auto
  have step: "run_claims summary (cs @ [c]) ([], []) = claim summary k i l (order, winners)"
    using st by (simp add: run_claims_def c)
  show ?case unfolding step
    by (auto simp: claim_def inv c firsts_append hm_simps won_of_snoc)
qed (simp add: run_claims_def)

lemma drain_all:
  assumes "distinct order" "\<And>k. k \<in> set order \<Longrightarrow> hm_get winners k = Some (f k)"
  shows "drain order winners = map f order"
  using assms
proof (induction order arbitrary: winners)
  case (Cons a order)
  have "drain order (hm_remove a winners) = map f order"
    using Cons(2,3) by (intro Cons(1)) (auto simp: hm_simps)
  then show ?case using Cons(3) [of a] by simp
qed simp

lemma drain_claims:
  assumes "run_claims summary cs ([], []) = (order, winners)"
  shows "drain order winners = map (won_of summary cs) (firsts {} (map fst cs))"
proof -
  from run_claims_state [where summary = summary and cs = cs] assms have "order = firsts {} (map fst cs)"
    "\<And>k. hm_get winners k = (if k \<in> fst ` set cs then Some (won_of summary cs k) else None)" by auto
  then show ?thesis by (auto intro!: drain_all simp: distinct_firsts set_firsts)
qed

definition item_claims :: "source list \<Rightarrow> (sandbox_spec \<Rightarrow> 'a list) \<Rightarrow> ('a \<Rightarrow> string) \<Rightarrow> (string \<times> 'a \<times> string) list" where
  "item_claims sources items key = concat (map (\<lambda>s. map (\<lambda>i. (key i, i, so_label s)) (items (so_spec s))) sources)"

lemma foldl_concat_map: "foldl (\<lambda>st x. foldl f st (g x)) st xs = foldl f st (concat (map g xs))"
  by (induction xs arbitrary: st) simp_all

lemma foldl_through_map: "foldl f st (map g xs) = foldl (\<lambda>st x. f st (g x)) st xs"
  by (induction xs arbitrary: st) simp_all

lemma fold_labelled_claims:
  "fold_labelled sources items key summary =
     map (won_of summary (item_claims sources items key)) (firsts {} (map fst (item_claims sources items key)))"
proof -
  have "foldl (\<lambda>st s. foldl (\<lambda>st i. claim summary (key i) i (so_label s) st) st (items (so_spec s))) ([], []) sources =
      run_claims summary (item_claims sources items key) ([], [])"
    by (simp add: run_claims_def item_claims_def foldl_through_map flip: foldl_concat_map)
  then show ?thesis unfolding fold_labelled_def by (auto split: prod.splits dest: drain_claims)
qed

lemma won_item:
  assumes "\<And>c. c \<in> set cs \<Longrightarrow> fst c = key (fst (snd c))" "k \<in> fst ` set cs"
  shows "wo_item (won_of summary cs k) = last (filter (\<lambda>x. key x = k) (map (fst \<circ> snd) cs))"
proof -
  have "filter (\<lambda>c. fst c = k) cs = filter (\<lambda>c. key (fst (snd c)) = k) cs" using assms(1) by (intro filter_cong) auto
  then show ?thesis using filter_ne [OF assms(2)] by (simp add: won_of_def Let_def filter_map comp_def last_map)
qed

lemma won_items:
  assumes "\<And>c. c \<in> set cs \<Longrightarrow> fst c = key (fst (snd c))"
  shows "map wo_item (map (won_of summary cs) (firsts {} (map fst cs))) = last_claims key (map (fst \<circ> snd) cs)"
proof -
  have keys: "map fst cs = map key (map (fst \<circ> snd) cs)" using assms by simp
  have "map (\<lambda>k. wo_item (won_of summary cs k)) (firsts {} (map fst cs)) =
      map (\<lambda>k. last (filter (\<lambda>x. key x = k) (map (fst \<circ> snd) cs))) (firsts {} (map fst cs))"
    by (intro map_cong refl won_item [OF assms]) (auto simp: set_firsts)
  then show ?thesis unfolding last_claims_def keys [symmetric] by (simp add: comp_def)
qed

lemma fold_labelled_items: "map wo_item (fold_labelled sources items key summary) = last_claims key (concat (map (items \<circ> so_spec) sources))"
proof -
  have "map (fst \<circ> snd) (item_claims sources items key) = concat (map (items \<circ> so_spec) sources)"
    by (simp add: item_claims_def map_concat comp_def)
  then show ?thesis unfolding fold_labelled_claims by (subst won_items [where key = key]) (auto simp: item_claims_def)
qed

section \<open>Mounts\<close>

fun number_layers :: "nat \<Rightarrow> fileset_entry list \<Rightarrow> mount list" where
  "number_layers n [] = []"
| "number_layers n (f # fs) = (case fe_path f of
     Some _ \<Rightarrow> Fileset_Mount f (Some n) # number_layers (n + 1) fs | None \<Rightarrow> Fileset_Mount f None # number_layers n fs)"

definition mounts_of :: "sandbox_spec \<Rightarrow> mount list" where
  "mounts_of spec = map Volume_Mount (sp_volumes spec) @ number_layers 0 (sp_filesets spec)"

fun mount_point :: "mount \<Rightarrow> string" where
  "mount_point (Volume_Mount v) = vo_target v"
| "mount_point (Fileset_Mount f _) = fe_guest_path f"

lemma claim_filesets_claims:
  "claim_filesets label n fs st = foldl (\<lambda>st m. claim mount_summary (mount_point m) m label st) st (number_layers n fs)"
  by (induction fs arbitrary: n st) (auto split: option.splits)

lemma claim_mounts_claims:
  "foldl claim_mounts st sources = run_claims mount_summary (item_claims sources mounts_of mount_point) st"
proof -
  have each: "claim_mounts = (\<lambda>st s. run_claims mount_summary (map (\<lambda>m. (mount_point m, m, so_label s)) (mounts_of (so_spec s))) st)"
    by (intro ext) (simp add: claim_mounts_def claim_filesets_claims run_claims_def mounts_of_def foldl_through_map)
  show ?thesis unfolding each run_claims_def item_claims_def by (rule foldl_concat_map)
qed

abbreviation mounts_won :: "source list \<Rightarrow> mount won list" where
  "mounts_won sources \<equiv> fold_labelled sources mounts_of mount_point mount_summary"

lemma fold_mounts_won:
  "fold_mounts sources into origins =
     ((List.map_filter mount_volume (map wo_item (mounts_won sources)), List.map_filter mount_fileset (map wo_item (mounts_won sources))),
      into @ map (won_contribution Mount_Block) (mounts_won sources), origins @ List.map_filter mount_origin (mounts_won sources))"
proof -
  obtain order winners where st: "foldl claim_mounts ([], []) sources = (order, winners)" by fastforce
  then have "drain order winners = mounts_won sources"
    unfolding claim_mounts_claims fold_labelled_claims by (rule drain_claims)
  with st show ?thesis by (simp add: fold_mounts_def Let_def List.map_filter_def filter_map comp_def)
qed

section \<open>The merged document\<close>

lemma host_ports_free_iff:
  "host_ports_free held wons = Inr () \<longleftrightarrow>
     distinct (List.map_filter (pt_host \<circ> wo_item) wons) \<and> set (List.map_filter (pt_host \<circ> wo_item) wons) \<inter> dom (hm_get held) = {}"
  by (induction held wons rule: host_ports_free.induct)
    (auto simp: List.map_filter_simps hm_simps dom_def split: option.splits if_split_asm)

lemma env_extended: "hm_get (foldl (\<lambda>env (k, v). hm_insert k v env) env kvs) = hm_get env ++ map_of (rev kvs)"
  by (induction kvs arbitrary: env) (auto simp: hm_simps map_add_def fun_eq_iff split: option.splits)

lemma layered_env:
  "hm_get (sp_env (foldl layer_over spec sources)) = hm_get (sp_env spec) ++ map_of (rev (concat (map (sp_env \<circ> so_spec) sources)))"
  by (induction sources arbitrary: spec) (simp_all add: layer_over_def env_extended)

lemma egress_of_rev:
  "egress_of sources = \<lparr>e_http = concat (map (\<lambda>s. e_http (sp_egress (so_spec s))) (rev sources)),
     e_tcp = concat (map (\<lambda>s. e_tcp (sp_egress (so_spec s))) (rev sources))\<rparr>"
proof -
  have all: "foldl (\<lambda>e s. \<lparr>e_http = e_http e @ e_http (sp_egress (so_spec s)), e_tcp = e_tcp e @ e_tcp (sp_egress (so_spec s))\<rparr>) e ss =
      \<lparr>e_http = e_http e @ concat (map (\<lambda>s. e_http (sp_egress (so_spec s))) ss),
       e_tcp = e_tcp e @ concat (map (\<lambda>s. e_tcp (sp_egress (so_spec s))) ss)\<rparr>" for e :: egress and ss
    by (induction ss arbitrary: e) simp_all
  show ?thesis unfolding egress_of_def all by simp
qed

lemma merge_Inr:
  "merge sources = Inr m \<longleftrightarrow>
     refuse_a_host_port_two_sources_publish (fold_labelled sources sp_ports port_key port_key) = Inr () \<and>
     m = \<lparr>mg_spec = (foldl layer_over default_spec sources)\<lparr>
            sp_tools := map wo_item (fold_labelled sources sp_tools tool_name (\<lambda>t. t)),
            sp_volumes := List.map_filter mount_volume (map wo_item (mounts_won sources)),
            sp_filesets := List.map_filter mount_fileset (map wo_item (mounts_won sources)),
            sp_ports := map wo_item (fold_labelled sources sp_ports port_key port_key),
            sp_credentials := map wo_item (fold_labelled sources sp_credentials owner owner),
            sp_egress := egress_of sources, sp_scripts := scripts_of sources, sp_mixins := []\<rparr>,
          mg_contributions =
            map (won_contribution Tool_Block) (fold_labelled sources sp_tools tool_name (\<lambda>t. t)) @
            map (won_contribution Mount_Block) (mounts_won sources) @
            map (won_contribution Port_Block) (fold_labelled sources sp_ports port_key port_key) @
            map (won_contribution Credential_Block) (fold_labelled sources sp_credentials owner owner) @
            concat (map (\<lambda>s. egress_contributions (so_spec s) (so_label s)) (rev sources)) @
            concat (map (\<lambda>s. script_contributions (so_spec s) (so_label s)) sources),
          mg_fileset_origins = List.map_filter mount_origin (mounts_won sources)\<rparr>"
  unfolding merge_def fold_mounts_won fold_block_def Let_def by (auto simp: and_then_Inr)

text \<open>
  C10: the last source wins, and nothing else does. When the sources merge, the merged document has for every tool
  name, every credential, every container port and every mount path exactly one entry, the last that any source
  claims for it, whichever of a volume and a fileset claims the path, in the order the keys first appear; a variable
  has the last value any source gives it; the egress rules of a later source come before those of an earlier one, so
  they decide first; the scripts of all sources are kept in order; no two published ports share a host port.
\<close>

theorem last_source_wins:
  assumes "merge sources = Inr m"
  shows "sp_tools (mg_spec m) = last_claims tool_name (concat (map (sp_tools \<circ> so_spec) sources))
    \<and> sp_credentials (mg_spec m) = last_claims owner (concat (map (sp_credentials \<circ> so_spec) sources))
    \<and> sp_ports (mg_spec m) = last_claims port_key (concat (map (sp_ports \<circ> so_spec) sources))
    \<and> sp_volumes (mg_spec m) = List.map_filter mount_volume (last_claims mount_point (concat (map (mounts_of \<circ> so_spec) sources)))
    \<and> sp_filesets (mg_spec m) = List.map_filter mount_fileset (last_claims mount_point (concat (map (mounts_of \<circ> so_spec) sources)))
    \<and> hm_get (sp_env (mg_spec m)) = map_of (rev (concat (map (sp_env \<circ> so_spec) sources)))
    \<and> e_http (sp_egress (mg_spec m)) = concat (map (\<lambda>s. e_http (sp_egress (so_spec s))) (rev sources))
    \<and> e_tcp (sp_egress (mg_spec m)) = concat (map (\<lambda>s. e_tcp (sp_egress (so_spec s))) (rev sources))
    \<and> sp_scripts (mg_spec m) = concat (map (sp_scripts \<circ> so_spec) sources)
    \<and> distinct (List.map_filter pt_host (sp_ports (mg_spec m)))"
proof -
  note m = assms [unfolded merge_Inr]
  have "hm_get (sp_env (mg_spec m)) = map_of (rev (concat (map (sp_env \<circ> so_spec) sources)))"
    using m layered_env [of default_spec sources] by (simp add: default_spec_def)
  moreover have "distinct (List.map_filter pt_host (sp_ports (mg_spec m)))"
    using m by (simp add: refuse_a_host_port_two_sources_publish_def host_ports_free_iff List.map_filter_def filter_map comp_def)
  ultimately show ?thesis using m by (simp add: fold_labelled_items egress_of_rev scripts_of_def comp_def)
qed

definition plain_volume :: "string \<Rightarrow> string \<Rightarrow> volume" where
  "plain_volume name target = \<lparr>vo_type = Some Named_Volume, vo_source = None, vo_name = Some name, vo_target = target,
     vo_read_only = False, vo_exclude = [], vo_optional = False, vo_size = None\<rparr>"

definition base_source :: source where
  "base_source = \<lparr>so_label = ROOT_LABEL, so_spec = default_spec\<lparr>sp_image := ''img'', sp_tools := [''node@20'', ''jq@1''],
     sp_env := [(''A'', ''1''), (''B'', ''2'')], sp_volumes := [plain_volume ''cache'' ''/data'']\<rparr>\<rparr>"

definition later_source :: source where
  "later_source = \<lparr>so_label = ''later'', so_spec = default_spec\<lparr>sp_tools := [''node@22''], sp_env := [(''A'', ''9'')],
     sp_volumes := [plain_volume ''other'' ''/data'']\<rparr>\<rparr>"

lemmas merge_eval = merge_Inr base_source_def later_source_def plain_volume_def default_spec_def fold_labelled_def claim_def
  refuse_a_host_port_two_sources_publish_def

theorem last_source_wins_witness:
  "(\<exists>m. merge [base_source, later_source] = Inr m \<and> sp_tools (mg_spec m) = [''node@22'', ''jq@1'']
     \<and> sp_volumes (mg_spec m) = [plain_volume ''other'' ''/data''])"
proof -
  have "\<exists>m. merge [base_source, later_source] = Inr m"
    by (simp add: merge_eval)
  then obtain m where ok: "merge [base_source, later_source] = Inr m" ..
  have "last_claims tool_name (concat (map (sp_tools \<circ> so_spec) [base_source, later_source])) = [''node@22'', ''jq@1'']" by code_simp
  moreover have "List.map_filter mount_volume (last_claims mount_point (concat (map (mounts_of \<circ> so_spec) [base_source, later_source])))
      = [plain_volume ''other'' ''/data'']" by code_simp
  ultimately show ?thesis using last_source_wins [OF ok] ok by simp
qed

text \<open>
  C20: no mount disappears without a word. Every volume and every fileset a source declares is in the record of a
  merge: the entry for its path names the source as the one that decided, or lists it, with what it mounted,
  among what the decision replaced.
\<close>

theorem every_mount_is_disclosed:
  assumes "merge sources = Inr m" "s \<in> set sources" "x \<in> set (mounts_of (so_spec s))"
  shows "\<exists>c \<in> set (mg_contributions m). co_block c = Mount_Block \<and> co_key c = mount_point x
    \<and> (co_source c = so_label s \<or> \<lparr>di_source = so_label s, di_summary = mount_summary x\<rparr> \<in> set (co_displaced c))"
proof -
  let ?cs = "item_claims sources mounts_of mount_point" and ?k = "mount_point x"
  let ?made = "filter (\<lambda>c. fst c = ?k) ?cs" and ?won = "won_of mount_summary (item_claims sources mounts_of mount_point) (mount_point x)"
  have made: "(?k, x, so_label s) \<in> set ?made" using assms(2,3) by (auto simp: item_claims_def)
  then have "?k \<in> set (firsts {} (map fst ?cs))" by (force simp: set_firsts)
  then have "?won \<in> set (mounts_won sources)" unfolding fold_labelled_claims by simp
  then have "won_contribution Mount_Block ?won \<in> set (mg_contributions m)" using assms(1) unfolding merge_Inr by auto
  moreover have "set ?made = insert (last ?made) (set (butlast ?made))"
    using made by (cases ?made rule: rev_cases) auto
  then have "(?k, x, so_label s) = last ?made \<or> (?k, x, so_label s) \<in> set (butlast ?made)" using made by blast
  then have "wo_source ?won = so_label s \<or> \<lparr>di_source = so_label s, di_summary = mount_summary x\<rparr> \<in> set (wo_displaced ?won)"
  proof
    assume "(?k, x, so_label s) = last ?made"
    from this [symmetric] show ?thesis by (simp add: won_of_def Let_def)
  next
    assume "(?k, x, so_label s) \<in> set (butlast ?made)"
    from imageI [OF this, of "\<lambda>(_, i, l). \<lparr>di_source = l, di_summary = mount_summary i\<rparr>"]
    show ?thesis by (simp add: won_of_def Let_def)
  qed
  ultimately show ?thesis by (intro bexI [of _ "won_contribution Mount_Block ?won"]) (simp_all add: won_contribution_def won_of_def Let_def)
qed

theorem every_mount_is_disclosed_witness:
  "\<exists>m. merge [base_source, later_source] = Inr m \<and> (\<exists>c \<in> set (mg_contributions m). co_key c = ''/data''
     \<and> (co_source c = ROOT_LABEL \<or> \<lparr>di_source = ROOT_LABEL, di_summary = ''volume cache''\<rparr> \<in> set (co_displaced c)))"
proof -
  have "\<exists>m. merge [base_source, later_source] = Inr m"
    by (simp add: merge_eval)
  then obtain m where ok: "merge [base_source, later_source] = Inr m" ..
  have "\<exists>c \<in> set (mg_contributions m). co_block c = Mount_Block \<and> co_key c = mount_point (Volume_Mount (plain_volume ''cache'' ''/data''))
      \<and> (co_source c = so_label base_source
         \<or> \<lparr>di_source = so_label base_source, di_summary = mount_summary (Volume_Mount (plain_volume ''cache'' ''/data''))\<rparr> \<in> set (co_displaced c))"
    by (rule every_mount_is_disclosed [OF ok]) (simp_all add: base_source_def mounts_of_def)
  moreover have "mount_point (Volume_Mount (plain_volume ''cache'' ''/data'')) = ''/data''"
    "mount_summary (Volume_Mount (plain_volume ''cache'' ''/data'')) = ''volume cache''" "so_label base_source = ROOT_LABEL"
    by code_simp+
  ultimately show ?thesis using ok by auto
qed

definition slash_source :: source where
  "slash_source = \<lparr>so_label = ''mixin'', so_spec = default_spec\<lparr>sp_volumes := [plain_volume ''other'' ''/data/'']\<rparr>\<rparr>"


end
