(* ===== verification/Volume_Store.thy ===== *)
theory Volume_Store
  imports Run_Registry Kernel_Cmdline Time_Format Sizes Placement
begin

text \<open>
  The named volumes of the service, \<open>crates/lns-service/src/volume_store/mod.rs\<close>: the leases that give a volume
  to one run at a time, and the requests that make, list, remove and prune volumes. The file system is the
  trait \<open>Fs\<close>, a record of operations on a world; the one the service uses is a table of files whose operations
  may fail.
\<close>

section \<open>The file system\<close>

datatype fs_error = Fs_NotFound | Fs_Other string

record file_meta =
  fm_size_bytes :: nat
  fm_allocated_bytes :: nat
  fm_created_unix_secs :: nat

record 'w volume_fs =
  vf_exists :: "string \<Rightarrow> 'w \<Rightarrow> bool"
  vf_create_dir_all :: "string \<Rightarrow> 'w \<Rightarrow> (fs_error + unit) \<times> 'w"
  vf_create_ext4_image :: "string \<Rightarrow> nat \<Rightarrow> 'w \<Rightarrow> (fs_error + unit) \<times> 'w"
  vf_read_dir :: "string \<Rightarrow> 'w \<Rightarrow> fs_error + string list"
  vf_metadata :: "string \<Rightarrow> 'w \<Rightarrow> fs_error + file_meta"
  vf_remove_file :: "string \<Rightarrow> 'w \<Rightarrow> (fs_error + unit) \<times> 'w"
  vf_grow_ext4_image :: "string \<Rightarrow> nat \<Rightarrow> 'w \<Rightarrow> (fs_error + unit) \<times> 'w"

section \<open>Leases\<close>

type_synonym leases = "(string, string) hmap"

definition try_acquire :: "string \<Rightarrow> string \<Rightarrow> leases \<Rightarrow> string + leases" where
  "try_acquire name run_id g = (case hm_get g name of Some holder \<Rightarrow> Inl holder | None \<Rightarrow> Inr (hm_insert name run_id g))"

definition release :: "string \<Rightarrow> leases \<Rightarrow> leases" where
  "release name g = hm_remove name g"

text \<open>What stands between a volume and its removal; the text of a message is left to its constructor.\<close>

datatype blocked = Sandboxes string "string list" | Unreadable_Run string string | Damaged_Run string string

datatype vol_error =
    Bad_Volume_Name spec_error
  | Bad_Volume_Target spec_error
  | Volume_In_Use string string
  | Fs_Failed fs_error
  | Grow_Failed string nat fs_error
  | No_Such_Volume string
  | Volume_Blocked blocked

definition take_lease :: "string \<Rightarrow> string \<Rightarrow> leases \<Rightarrow> vol_error + leases" where
  "take_lease name run_id g = map_err (\<lambda>holder. Volume_In_Use name (short_run_id holder)) (try_acquire name run_id g)"

definition MAINTENANCE_HOLDER_RUN_ID :: string where
  "MAINTENANCE_HOLDER_RUN_ID = ''maintenance''"

definition VOLUME_DEFAULT_SIZE_BYTES :: nat where
  "VOLUME_DEFAULT_SIZE_BYTES = vs_disk_bytes DEFAULT_VM_SIZE"

section \<open>Acquiring\<close>

definition image_path_in :: "string \<Rightarrow> string \<Rightarrow> string" where
  "image_path_in root name = root @ ''/'' @ name @ ''.img''"

definition ensure_image :: "'w volume_fs \<Rightarrow> string \<Rightarrow> string \<Rightarrow> nat \<Rightarrow> 'w \<Rightarrow> (vol_error + string) \<times> 'w" where
  "ensure_image P root name size_bytes w =
     (let image_path = image_path_in root name
      in if \<not> vf_exists P image_path w
         then (case vf_create_dir_all P root w of
                 (Inl e, w) \<Rightarrow> (Inl (Fs_Failed e), w)
               | (Inr _, w) \<Rightarrow> (case vf_create_ext4_image P image_path size_bytes w of
                   (Inl e, w) \<Rightarrow> (Inl (Fs_Failed e), w)
                 | (Inr _, w) \<Rightarrow> (Inr image_path, w)))
         else (case vf_grow_ext4_image P image_path size_bytes w of
                 (Inl e, w) \<Rightarrow> (Inl (Grow_Failed name size_bytes e), w)
               | (Inr _, w) \<Rightarrow> (Inr image_path, w)))"

text \<open>A lease that goes out of scope on an error is released.\<close>

definition acquire_with ::
    "'w volume_fs \<Rightarrow> string \<Rightarrow> string \<Rightarrow> string \<Rightarrow> nat \<Rightarrow> leases \<times> 'w \<Rightarrow> (vol_error + string) \<times> leases \<times> 'w" where
  "acquire_with P root name run_id size_bytes st = (case st of (g, w) \<Rightarrow>
     (case map_err Bad_Volume_Name (validate_volume_name name) of
        Inl e \<Rightarrow> (Inl e, g, w)
      | Inr _ \<Rightarrow> (case take_lease name run_id g of
          Inl e \<Rightarrow> (Inl e, g, w)
        | Inr g \<Rightarrow> (case ensure_image P root name size_bytes w of
            (Inl e, w) \<Rightarrow> (Inl e, release name g, w)
          | (Inr image_path, w) \<Rightarrow> (Inr image_path, g, w)))))"

definition declared_sizes :: "volume_mount list \<Rightarrow> (string, nat) hmap" where
  "declared_sizes mounts = foldl (\<lambda>sizes m.
     let asked = unwrap_or (vm_size_bytes m) VOLUME_DEFAULT_SIZE_BYTES;
         entry = unwrap_or (hm_get sizes (vm_name m)) asked
     in hm_insert (vm_name m) (max entry asked) sizes) [] mounts"

fun resolve_loop ::
    "'w volume_fs \<Rightarrow> string \<Rightarrow> string \<Rightarrow> (string, nat) hmap \<Rightarrow> volume_mount list \<Rightarrow> volume_attachment list \<Rightarrow> string list
       \<Rightarrow> (string, string) hmap \<Rightarrow> leases \<times> 'w \<Rightarrow> (vol_error + volume_attachment list \<times> string list) \<times> leases \<times> 'w" where
  "resolve_loop P root run_id sizes [] attachments held image_by_name st = (Inr (attachments, held), st)"
| "resolve_loop P root run_id sizes (m # ms) attachments held image_by_name (g, w) =
     (case map_err Bad_Volume_Target (validate_volume_target (vm_target m)) of
        Inl e \<Rightarrow> (Inl e, foldl (\<lambda>g n. release n g) g held, w)
      | Inr _ \<Rightarrow>
         (case hm_get image_by_name (vm_name m) of
            Some p \<Rightarrow> resolve_loop P root run_id sizes ms
              (attachments @ [\<lparr>va_host_image = p, va_target = vm_target m, va_read_only = vm_read_only m\<rparr>]) held image_by_name (g, w)
          | None \<Rightarrow>
             (case acquire_with P root (vm_name m) run_id (unwrap_or (hm_get sizes (vm_name m)) VOLUME_DEFAULT_SIZE_BYTES) (g, w) of
                (Inl e, g, w) \<Rightarrow> (Inl e, foldl (\<lambda>g n. release n g) g held, w)
              | (Inr p, st) \<Rightarrow> resolve_loop P root run_id sizes ms
                  (attachments @ [\<lparr>va_host_image = p, va_target = vm_target m, va_read_only = vm_read_only m\<rparr>])
                  (held @ [vm_name m]) (hm_insert (vm_name m) p image_by_name) st)))"

definition resolve_with ::
    "'w volume_fs \<Rightarrow> string \<Rightarrow> volume_mount list \<Rightarrow> string \<Rightarrow> leases \<times> 'w
       \<Rightarrow> (vol_error + volume_attachment list \<times> string list) \<times> leases \<times> 'w" where
  "resolve_with P root mounts run_id st = resolve_loop P root run_id (declared_sizes mounts) mounts [] [] [] st"

section \<open>Requests about volumes\<close>

definition blocking_claim :: "(string \<Rightarrow> volume_claims) \<Rightarrow> string \<Rightarrow> blocked option" where
  "blocking_claim holders name =
     (let claims = holders name
      in case vc_unreadable claims of
           run_id # _ \<Rightarrow> Some (Unreadable_Run name run_id)
         | [] \<Rightarrow> (case vc_damaged claims of
             run_id # _ \<Rightarrow> Some (Damaged_Run name run_id)
           | [] \<Rightarrow> (case vc_held_by claims of [] \<Rightarrow> None | held_by \<Rightarrow> Some (Sandboxes name held_by))))"

definition refuse_while_held :: "(string \<Rightarrow> volume_claims) \<Rightarrow> string \<Rightarrow> vol_error + unit" where
  "refuse_while_held holders name = (case blocking_claim holders name of None \<Rightarrow> Inr () | Some b \<Rightarrow> Inl (Volume_Blocked b))"

record volume_info =
  vi_name :: string
  vi_size_bytes :: nat
  vi_disk_bytes :: nat
  vi_created :: string
  vi_in_use_by :: "string list"

definition info_for ::
    "'w volume_fs \<Rightarrow> (string \<Rightarrow> volume_claims) \<Rightarrow> string \<Rightarrow> string \<Rightarrow> 'w \<Rightarrow> vol_error + volume_info" where
  "info_for P holders image_path name w = and_then (map_err Fs_Failed (vf_metadata P image_path w)) (\<lambda>meta.
     Inr \<lparr>vi_name = name, vi_size_bytes = fm_size_bytes meta, vi_disk_bytes = fm_allocated_bytes meta,
          vi_created = rfc3339_from_unix (fm_created_unix_secs meta), vi_in_use_by = vc_held_by (holders name)\<rparr>)"

definition volume_name_of :: "string \<Rightarrow> string option" where
  "volume_name_of path = Option.bind (path_file_name path) (strip_suffix ''.img'')"

definition is_not_found :: "vol_error \<Rightarrow> bool" where
  "is_not_found e \<longleftrightarrow> e = Fs_Failed Fs_NotFound"

fun list_infos ::
    "'w volume_fs \<Rightarrow> (string \<Rightarrow> volume_claims) \<Rightarrow> string \<Rightarrow> 'w \<Rightarrow> string list \<Rightarrow> vol_error + volume_info list" where
  "list_infos P holders root w [] = Inr []"
| "list_infos P holders root w (name # names) =
     (case info_for P holders (image_path_in root name) name w of
        Inr info \<Rightarrow> and_then (list_infos P holders root w names) (\<lambda>infos. Inr (info # infos))
      | Inl e \<Rightarrow> if is_not_found e then list_infos P holders root w names else Inl e)"

definition list_with :: "'w volume_fs \<Rightarrow> (string \<Rightarrow> volume_claims) \<Rightarrow> string \<Rightarrow> 'w \<Rightarrow> vol_error + volume_info list" where
  "list_with P holders root w =
     (case vf_read_dir P root w of
        Inr entries \<Rightarrow> list_infos P holders root w (sort (List.map_filter volume_name_of entries))
      | Inl Fs_NotFound \<Rightarrow> Inr []
      | Inl e \<Rightarrow> Inl (Fs_Failed e))"

definition create_with ::
    "'w volume_fs \<Rightarrow> (string \<Rightarrow> volume_claims) \<Rightarrow> string \<Rightarrow> string \<Rightarrow> leases \<times> 'w \<Rightarrow> (vol_error + volume_info) \<times> leases \<times> 'w" where
  "create_with P holders root name st = (case st of (g, w) \<Rightarrow>
     (case map_err Bad_Volume_Name (validate_volume_name name) of
        Inl e \<Rightarrow> (Inl e, g, w)
      | Inr _ \<Rightarrow>
         (let image_path = image_path_in root name
          in if vf_exists P image_path w then (info_for P holders image_path name w, g, w)
             else (case take_lease name MAINTENANCE_HOLDER_RUN_ID g of
                     Inl e \<Rightarrow> (Inl e, g, w)
                   | Inr guard \<Rightarrow> (case ensure_image P root name VOLUME_DEFAULT_SIZE_BYTES w of
                       (Inl e, w) \<Rightarrow> (Inl e, release name guard, w)
                     | (Inr _, w) \<Rightarrow> (info_for P holders image_path name w, release name guard, w))))))"

definition inspect_with ::
    "'w volume_fs \<Rightarrow> (string \<Rightarrow> volume_claims) \<Rightarrow> string \<Rightarrow> string \<Rightarrow> 'w \<Rightarrow> vol_error + volume_info" where
  "inspect_with P holders root name w =
     and_then (map_err Bad_Volume_Name (validate_volume_name name)) (\<lambda>_.
     let image_path = image_path_in root name
     in if \<not> vf_exists P image_path w then Inl (No_Such_Volume name) else info_for P holders image_path name w)"

text \<open>\<open>Path::with_extension\<close> on a path with a file name.\<close>

definition with_extension :: "string \<Rightarrow> string \<Rightarrow> string" where
  "with_extension ext path = (case rsplit_once CHR ''/'' path of
     Some (dir, file) \<Rightarrow> dir @ ''/'' @ (case rsplit_once CHR ''.'' file of
        Some (stem, _) \<Rightarrow> if stem = [] then file else stem | None \<Rightarrow> file) @ ''.'' @ ext
   | None \<Rightarrow> (case rsplit_once CHR ''.'' path of Some (stem, _) \<Rightarrow> if stem = [] then path else stem | None \<Rightarrow> path) @ ''.'' @ ext)"

definition remove_with ::
    "'w volume_fs \<Rightarrow> (string \<Rightarrow> volume_claims) \<Rightarrow> string \<Rightarrow> string \<Rightarrow> leases \<times> 'w \<Rightarrow> (vol_error + unit) \<times> leases \<times> 'w" where
  "remove_with P holders root name st = (case st of (g, w) \<Rightarrow>
     (case and_then (map_err Bad_Volume_Name (validate_volume_name name)) (\<lambda>_.
           and_then (refuse_while_held holders name) (\<lambda>_. take_lease name MAINTENANCE_HOLDER_RUN_ID g)) of
        Inl e \<Rightarrow> (Inl e, g, w)
      | Inr guard \<Rightarrow>
         (let image_path = image_path_in root name
          in if \<not> vf_exists P image_path w then (Inl (No_Such_Volume name), release name guard, w)
             else (case vf_remove_file P image_path w of
                     (Inl e, w) \<Rightarrow> (Inl (Fs_Failed e), release name guard, w)
                   | (Inr _, w) \<Rightarrow>
                      (let marker = with_extension ''img.growing'' image_path
                       in if vf_exists P marker w
                          then (case vf_remove_file P marker w of
                                  (Inl e, w) \<Rightarrow> (Inl (Fs_Failed e), release name guard, w)
                                | (Inr _, w) \<Rightarrow> (Inr (), release name guard, w))
                          else (Inr (), release name guard, w))))))"

record prune_report =
  pr_removed :: "string list"
  pr_reclaimed_bytes :: nat
  pr_failed :: "(string \<times> vol_error) list"

fun prune_loop ::
    "'w volume_fs \<Rightarrow> (string \<Rightarrow> volume_claims) \<Rightarrow> string \<Rightarrow> bool \<Rightarrow> volume_info list \<Rightarrow> prune_report \<Rightarrow> leases \<times> 'w
       \<Rightarrow> prune_report \<times> leases \<times> 'w" where
  "prune_loop P holders root dry_run [] report st = (report, st)"
| "prune_loop P holders root dry_run (info # infos) report (g, w) =
     (let name = vi_name info;
          fail = (\<lambda>e. report\<lparr>pr_failed := pr_failed report @ [(name, e)]\<rparr>);
          reclaim = report\<lparr>pr_reclaimed_bytes := pr_reclaimed_bytes report + vi_disk_bytes info, pr_removed := pr_removed report @ [name]\<rparr>
      in case blocking_claim holders name of
           Some (Sandboxes _ _) \<Rightarrow> prune_loop P holders root dry_run infos report (g, w)
         | Some b \<Rightarrow> prune_loop P holders root dry_run infos (fail (Volume_Blocked b)) (g, w)
         | None \<Rightarrow>
            (case take_lease name MAINTENANCE_HOLDER_RUN_ID g of
               Inl e \<Rightarrow> prune_loop P holders root dry_run infos (fail e) (g, w)
             | Inr guard \<Rightarrow>
                if dry_run then prune_loop P holders root dry_run infos reclaim (release name guard, w)
                else (case vf_remove_file P (image_path_in root name) w of
                        (Inr _, w) \<Rightarrow> prune_loop P holders root dry_run infos reclaim (release name guard, w)
                      | (Inl e, w) \<Rightarrow> prune_loop P holders root dry_run infos (fail (Fs_Failed e)) (release name guard, w))))"

definition prune_with ::
    "'w volume_fs \<Rightarrow> (string \<Rightarrow> volume_claims) \<Rightarrow> string \<Rightarrow> bool \<Rightarrow> leases \<times> 'w \<Rightarrow> (vol_error + prune_report) \<times> leases \<times> 'w" where
  "prune_with P holders root dry_run st =
     (case list_with P holders root (snd st) of
        Inl e \<Rightarrow> (Inl e, st)
      | Inr infos \<Rightarrow> (case prune_loop P holders root dry_run infos \<lparr>pr_removed = [], pr_reclaimed_bytes = 0, pr_failed = []\<rparr> st of
          (report, st) \<Rightarrow> (Inr report, st)))"

section \<open>The file system of the service\<close>

text \<open>
  \<open>RealFs\<close>: a table of files. What an image of a size looks like, and a grown one, is decided by the ext4 writer,
  a parameter; every operation may fail. A grow that fails in the middle leaves its marker beside the image.
\<close>

datatype fs_op = Op_Exists | Op_Create_Dir | Op_Create | Op_Read_Dir | Op_Metadata | Op_Remove | Op_Grow

record disk_env =
  de_fault :: "fs_op \<Rightarrow> string \<Rightarrow> fs_error option"
  de_image :: "nat \<Rightarrow> fs_error + file_meta"
  de_grown :: "file_meta \<Rightarrow> nat \<Rightarrow> fs_error + file_meta"

type_synonym disk = "(string, file_meta) hmap"

definition growing_marker :: "string \<Rightarrow> string" where
  "growing_marker path = path @ ''.growing''"

definition EMPTY_FILE :: file_meta where
  "EMPTY_FILE = \<lparr>fm_size_bytes = 0, fm_allocated_bytes = 0, fm_created_unix_secs = 0\<rparr>"

definition real_create :: "disk_env \<Rightarrow> string \<Rightarrow> nat \<Rightarrow> disk \<Rightarrow> (fs_error + unit) \<times> disk" where
  "real_create E p n d = (case de_fault E Op_Create p of
     Some e \<Rightarrow> (Inl e, d)
   | None \<Rightarrow> (case de_image E n of Inl e \<Rightarrow> (Inl e, d) | Inr meta \<Rightarrow> (Inr (), hm_insert p meta d)))"

definition real_remove :: "disk_env \<Rightarrow> string \<Rightarrow> disk \<Rightarrow> (fs_error + unit) \<times> disk" where
  "real_remove E p d = (case de_fault E Op_Remove p of
     Some e \<Rightarrow> (Inl e, d)
   | None \<Rightarrow> if hm_get d p = None then (Inl Fs_NotFound, d) else (Inr (), hm_remove p d))"

definition real_grow :: "disk_env \<Rightarrow> string \<Rightarrow> nat \<Rightarrow> disk \<Rightarrow> (fs_error + unit) \<times> disk" where
  "real_grow E p n d = (case hm_get d p of
     None \<Rightarrow> (Inl Fs_NotFound, d)
   | Some meta \<Rightarrow> (case de_grown E meta n of
       Inl e \<Rightarrow> (Inl e, d)
     | Inr grown \<Rightarrow> (case de_fault E Op_Grow p of
         Some e \<Rightarrow> (Inl e, hm_insert (growing_marker p) EMPTY_FILE d)
       | None \<Rightarrow> (Inr (), hm_insert p grown (hm_remove (growing_marker p) d)))))"

text \<open>An entry of a directory has a name of one segment, and \<open>.\<close> and \<open>..\<close> are not listed.\<close>

definition dir_entry :: "string \<Rightarrow> bool" where
  "dir_entry file \<longleftrightarrow> \<not> contains_char CHR ''/'' file \<and> file \<noteq> [] \<and> file \<noteq> ''.'' \<and> file \<noteq> ''..''"

definition real_fs :: "disk_env \<Rightarrow> disk volume_fs" where
  "real_fs E = \<lparr>
     vf_exists = (\<lambda>p d. de_fault E Op_Exists p = None \<and> hm_get d p \<noteq> None),
     vf_create_dir_all = (\<lambda>p d. (case de_fault E Op_Create_Dir p of Some e \<Rightarrow> Inl e | None \<Rightarrow> Inr (), d)),
     vf_create_ext4_image = real_create E,
     vf_read_dir = (\<lambda>dir d. case de_fault E Op_Read_Dir dir of
        Some e \<Rightarrow> Inl e
      | None \<Rightarrow> Inr (filter (\<lambda>p. case strip_prefix (dir @ ''/'') p of Some file \<Rightarrow> dir_entry file | None \<Rightarrow> False) (hm_keys d))),
     vf_metadata = (\<lambda>p d. case de_fault E Op_Metadata p of
        Some e \<Rightarrow> Inl e
      | None \<Rightarrow> (case hm_get d p of Some meta \<Rightarrow> Inr meta | None \<Rightarrow> Inl Fs_NotFound)),
     vf_remove_file = real_remove E,
     vf_grow_ext4_image = real_grow E\<rparr>"

section \<open>What a volume relies on of its files\<close>

locale volume_files =
  fixes P :: "'w volume_fs" and look :: "'w \<Rightarrow> string \<Rightarrow> 'f option"
  assumes exists_look: "vf_exists P p w \<Longrightarrow> look w p \<noteq> None"
    and removes_one: "vf_remove_file P p w = (Inr u, w') \<Longrightarrow> look w' q = (if q = p then None else look w q)"
    and keeps_on_error: "vf_remove_file P p w = (Inl e, w') \<Longrightarrow> w' = w"
    and dir_keeps: "vf_create_dir_all P p w = (r, w') \<Longrightarrow> look w' q = look w q"
    and create_makes: "vf_create_ext4_image P p n w = (Inr u, w') \<Longrightarrow> look w' p \<noteq> None"
    and create_keeps: "vf_create_ext4_image P p n w = (r, w') \<Longrightarrow> q \<noteq> p \<Longrightarrow> look w' q = look w q"
    and grow_keeps: "vf_grow_ext4_image P p n w = (r, w') \<Longrightarrow> look w q \<noteq> None \<Longrightarrow> q \<noteq> p @ ''.growing'' \<Longrightarrow> look w' q \<noteq> None"
begin

lemma remove_only:
  assumes "vf_remove_file P p w = (r, w')" "q \<noteq> p"
  shows "look w' q = look w q"
  using assms removes_one [of p w _ w' q] keeps_on_error [of p w _ w'] by (cases r) auto

end

lemma hm_remove_insert: "hm_get g k = None \<Longrightarrow> hm_remove k (hm_insert k v g) = g"
  by (induction g) (auto simp: AList.delete_eq)

lemma image_path_inj [simp]: "image_path_in root a = image_path_in root b \<longleftrightarrow> a = b"
  by (simp add: image_path_in_def)

lemma take_lease_Inr: "take_lease name run_id g = Inr g' \<longleftrightarrow> hm_get g name = None \<and> g' = hm_insert name run_id g"
  by (auto simp: take_lease_def try_acquire_def map_err_def split: option.splits)

lemma guard_released: "take_lease name run_id g = Inr g' \<Longrightarrow> release name g' = g"
  by (simp add: take_lease_Inr release_def hm_remove_insert)

lemma volume_name_plain:
  assumes "validate_volume_name name = Inr ()"
  shows "name \<noteq> []" "CHR ''/'' \<notin> set name"
proof -
  have ok: "name \<noteq> []" "List.find (\<lambda>c. \<not> name_char_allowed c) (chars name) = None"
    using assms by (auto simp: validate_volume_name_def split: if_splits option.splits)
  show "name \<noteq> []" using ok(1) .
  show "CHR ''/'' \<notin> set name"
  proof
    assume "CHR ''/'' \<in> set name"
    then have "of_char CHR ''/'' \<in> set (chars name)" by (rule ascii_char) simp
    with ok(2) show False by (auto simp: find_None_iff name_char_allowed_def)
  qed
qed

lemma marker_beside:
  assumes "name \<noteq> []" "CHR ''/'' \<notin> set name"
  shows "with_extension ''img.growing'' (image_path_in root name) = image_path_in root name @ ''.growing''"
proof -
  have "rsplit_once CHR ''/'' (root @ CHR ''/'' # (name @ ''.img'')) = Some (root, name @ ''.img'')"
    using assms by (intro rsplit_once_snoc) simp
  moreover have "rsplit_once CHR ''.'' (name @ CHR ''.'' # ''img'') = Some (name, ''img'')" by (rule rsplit_once_snoc) simp
  ultimately show ?thesis using assms by (simp add: with_extension_def image_path_in_def)
qed

lemma prune_step:
  assumes "prune_loop P holders root dry_run (info # infos) report (g, w) = out"
  shows "\<exists>report1 w1. prune_loop P holders root dry_run infos report1 (g, w1) = out
    \<and> (w1 = w \<or> \<not> dry_run \<and> blocking_claim holders (vi_name info) = None \<and> hm_get g (vi_name info) = None
         \<and> (\<exists>r. vf_remove_file P (image_path_in root (vi_name info)) w = (r, w1)))"
proof (cases "blocking_claim holders (vi_name info)")
  case None
  show ?thesis
  proof (cases "take_lease (vi_name info) MAINTENANCE_HOLDER_RUN_ID g")
    case (Inl e)
    then show ?thesis using assms None by (auto simp: Let_def)
  next
    case (Inr guard)
    then have freed: "release (vi_name info) guard = g" and free: "hm_get g (vi_name info) = None"
      by (auto simp: guard_released take_lease_Inr)
    obtain r w1 where "vf_remove_file P (image_path_in root (vi_name info)) w = (r, w1)" by fastforce
    then show ?thesis using assms None Inr freed free by (cases r) (auto simp: Let_def split: if_split_asm)
  qed
next
  case (Some b)
  then show ?thesis using assms by (cases b) (auto simp: Let_def)
qed

lemma remove_steps:
  assumes "remove_with P holders root name (g, w) = (r, g', w')"
  shows "g' = g \<and> (w' = w \<or> validate_volume_name name = Inr () \<and> blocking_claim holders name = None \<and> hm_get g name = None
    \<and> (\<exists>r1 w1. vf_remove_file P (image_path_in root name) w = (r1, w1)
         \<and> (w' = w1 \<or> (\<exists>r2. vf_remove_file P (with_extension ''img.growing'' (image_path_in root name)) w1 = (r2, w')))))"
proof (cases "and_then (map_err Bad_Volume_Name (validate_volume_name name)) (\<lambda>_.
    and_then (refuse_while_held holders name) (\<lambda>_. take_lease name MAINTENANCE_HOLDER_RUN_ID g))")
  case (Inl e)
  then show ?thesis using assms by (simp add: remove_with_def)
next
  case (Inr guard)
  then have ok: "validate_volume_name name = Inr ()" "blocking_claim holders name = None" "take_lease name MAINTENANCE_HOLDER_RUN_ID g = Inr guard"
    by (auto simp: and_then_Inr map_err_def refuse_while_held_def split: sum.splits option.splits)
  note freed = guard_released [OF ok(3)] and free = ok(3) [unfolded take_lease_Inr, THEN conjunct1]
  obtain r1 w1 where one: "vf_remove_file P (image_path_in root name) w = (r1, w1)" by fastforce
  obtain r2 w2 where two: "vf_remove_file P (with_extension ''img.growing'' (image_path_in root name)) w1 = (r2, w2)" by fastforce
  show ?thesis using assms Inr ok(1,2) freed free one two unfolding remove_with_def
    by (cases r1; cases r2) (auto simp: Let_def split: if_split_asm)
qed

lemma hm_insert_fresh: "hm_get g k = None \<Longrightarrow> hm_insert k v g = g @ [(k, v)]"
  by (induction g) (auto split: if_splits)

lemma release_held:
  assumes "distinct held" "set held \<inter> fst ` set g = {}"
  shows "foldl (\<lambda>g n. release n g) (g @ map (\<lambda>n. (n, run_id)) held) held = g"
  using assms
proof (induction held)
  case (Cons n held)
  have "release n (g @ map (\<lambda>n. (n, run_id)) (n # held)) = g @ map (\<lambda>n. (n, run_id)) held"
  proof -
    have "filter (\<lambda>(k', _). n \<noteq> k') g = g" "filter (\<lambda>(k', _). n \<noteq> k') (map (\<lambda>n. (n, run_id)) held) = map (\<lambda>n. (n, run_id)) held"
      using Cons.prems by (force intro!: filter_True)+
    then show ?thesis by (simp add: release_def AList.delete_eq)
  qed
  then show ?case using Cons by simp
qed simp

lemma acquire_undone: "acquire_with P root name run_id n (g, w) = (Inl e, g', w') \<Longrightarrow> g' = g"
  by (auto simp: acquire_with_def guard_released split: sum.splits prod.splits dest: guard_released)

definition attachment_of :: "string \<Rightarrow> volume_mount \<Rightarrow> volume_attachment" where
  "attachment_of root m = \<lparr>va_host_image = image_path_in root (vm_name m), va_target = vm_target m, va_read_only = vm_read_only m\<rparr>"

context volume_files
begin

lemma prune_keeps:
  "prune_loop P holders root dry_run infos report (g, w) = (report', g', w') \<Longrightarrow>
     g' = g \<and> (hm_get g name \<noteq> None \<or> blocking_claim holders name \<noteq> None
       \<longrightarrow> look w' (image_path_in root name) = look w (image_path_in root name))"
proof (induction infos arbitrary: report w)
  case (Cons info infos)
  from prune_step [OF Cons.prems] obtain report1 w1 where
    rest: "prune_loop P holders root dry_run infos report1 (g, w1) = (report', g', w')" and
    one: "w1 = w \<or> \<not> dry_run \<and> blocking_claim holders (vi_name info) = None \<and> hm_get g (vi_name info) = None
         \<and> (\<exists>r. vf_remove_file P (image_path_in root (vi_name info)) w = (r, w1))" by blast
  have "look w1 (image_path_in root name) = look w (image_path_in root name)"
    if "hm_get g name \<noteq> None \<or> blocking_claim holders name \<noteq> None"
  proof (cases "w1 = w")
    case False
    with one that have "name \<noteq> vi_name info" and "\<exists>r. vf_remove_file P (image_path_in root (vi_name info)) w = (r, w1)" by auto
    then show ?thesis using remove_only [of "image_path_in root (vi_name info)" w _ w1 "image_path_in root name"] by auto
  qed simp
  with Cons.IH [OF rest] show ?case by simp
qed simp

lemma prune_with_keeps:
  assumes "prune_with P holders root dry_run (g, w) = (r, g', w')"
  shows "g' = g" "hm_get g name \<noteq> None \<or> blocking_claim holders name \<noteq> None \<Longrightarrow>
    look w' (image_path_in root name) = look w (image_path_in root name)"
  using assms prune_keeps [of holders root dry_run _ _ g w _ g' w' name]
  by (auto simp: prune_with_def split: sum.splits prod.splits)

lemma remove_with_keeps:
  assumes "remove_with P holders root other (g, w) = (r, g', w')"
  shows "g' = g" "hm_get g name \<noteq> None \<or> blocking_claim holders name \<noteq> None \<Longrightarrow>
    look w' (image_path_in root name) = look w (image_path_in root name)"
proof -
  note steps = remove_steps [OF assms]
  show "g' = g" using steps by simp
  assume held: "hm_get g name \<noteq> None \<or> blocking_claim holders name \<noteq> None"
  show "look w' (image_path_in root name) = look w (image_path_in root name)"
  proof (cases "w' = w")
    case False
    with steps obtain r1 w1 where valid: "validate_volume_name other = Inr ()" and other: "other \<noteq> name"
      and one: "vf_remove_file P (image_path_in root other) w = (r1, w1)"
      and two: "w' = w1 \<or> (\<exists>r2. vf_remove_file P (with_extension ''img.growing'' (image_path_in root other)) w1 = (r2, w'))"
      using held by fastforce
    have first: "look w1 (image_path_in root name) = look w (image_path_in root name)"
      using remove_only [OF one] other by auto
    have "image_path_in root name \<noteq> image_path_in root other @ ''.growing''"
      by (auto simp: image_path_in_def dest: arg_cong [where f = last])
    then have "look w' (image_path_in root name) = look w1 (image_path_in root name)"
      using two remove_only [of "image_path_in root other @ ''.growing''" w1 _ w' "image_path_in root name"]
      by (auto simp: marker_beside [OF volume_name_plain [OF valid]])
    with first show ?thesis by simp
  qed simp
qed

lemma ensure_makes:
  assumes "ensure_image P root name n w = (Inr p, w')"
  shows "p = image_path_in root name" "look w' p \<noteq> None"
proof -
  let ?p = "image_path_in root name"
  have "p = ?p \<and> look w' p \<noteq> None"
  proof (cases "vf_exists P ?p w")
    case True
    obtain r1 w1 where grow: "vf_grow_ext4_image P ?p n w = (r1, w1)" by fastforce
    then have "p = ?p \<and> w1 = w'" using assms True by (cases r1) (auto simp: ensure_image_def Let_def)
    then show ?thesis using grow_keeps [OF grow exists_look [OF True]] by simp
  next
    case False
    obtain r1 w1 where dir: "vf_create_dir_all P root w = (r1, w1)" by fastforce
    obtain r2 w2 where create: "vf_create_ext4_image P ?p n w1 = (r2, w2)" by fastforce
    have "p = ?p \<and> (\<exists>u. r2 = Inr u) \<and> w2 = w'" using assms False dir create
      by (cases r1; cases r2) (auto simp: ensure_image_def Let_def)
    then show ?thesis using create create_makes by blast
  qed
  then show "p = image_path_in root name" "look w' p \<noteq> None" by auto
qed

lemma ensure_keeps:
  assumes "ensure_image P root name n w = (r, w')" "look w (image_path_in root other) \<noteq> None" "other \<noteq> name"
  shows "look w' (image_path_in root other) \<noteq> None"
proof -
  let ?p = "image_path_in root name" and ?q = "image_path_in root other"
  have ne: "?q \<noteq> ?p @ ''.growing''" by (auto simp: image_path_in_def dest: arg_cong [where f = last])
  show ?thesis
  proof (cases "vf_exists P ?p w")
    case True
    obtain r1 w1 where grow: "vf_grow_ext4_image P ?p n w = (r1, w1)" by fastforce
    then have "w1 = w'" using assms True by (cases r1) (auto simp: ensure_image_def Let_def)
    then show ?thesis using grow_keeps [OF grow assms(2) ne] by simp
  next
    case False
    obtain r1 w1 where dir: "vf_create_dir_all P root w = (r1, w1)" by fastforce
    obtain r2 w2 where create: "vf_create_ext4_image P ?p n w1 = (r2, w2)" by fastforce
    have "w' = w1 \<or> w' = w2" using assms False dir create
      by (cases r1; cases r2) (auto simp: ensure_image_def Let_def)
    then show ?thesis using create_keeps [OF create] dir_keeps [OF dir] assms(2,3) by auto
  qed
qed

lemma acquired:
  assumes "acquire_with P root name run_id n (g, w) = (Inr p, g', w')"
  shows "hm_get g name = None" "g' = g @ [(name, run_id)]" "p = image_path_in root name" "look w' p \<noteq> None"
    "look w (image_path_in root other) \<noteq> None \<Longrightarrow> look w' (image_path_in root other) \<noteq> None"
proof -
  obtain g1 where lease: "take_lease name run_id g = Inr g1" and "ensure_image P root name n w = (Inr p, w')" "g' = g1"
    using assms by (auto simp: acquire_with_def split: sum.splits prod.splits)
  note made = ensure_makes [OF this(2)] and kept = ensure_keeps [OF this(2)]
  show "hm_get g name = None" "g' = g @ [(name, run_id)]" using lease \<open>g' = g1\<close> by (auto simp: take_lease_Inr hm_insert_fresh)
  show "p = image_path_in root name" "look w' p \<noteq> None" using made by auto
  show "look w' (image_path_in root other) \<noteq> None" if "look w (image_path_in root other) \<noteq> None"
    using that made kept by (cases "other = name") auto
qed

lemma resolve_loop_outcome:
  assumes "resolve_loop P root run_id sizes ms attachments held images (g @ map (\<lambda>n. (n, run_id)) held, w) = (r, g', w')"
    "distinct held" "set held \<inter> fst ` set g = {}"
    "\<And>n. hm_get images n = (if n \<in> set held then Some (image_path_in root n) else None)"
    "\<And>n. n \<in> set held \<Longrightarrow> look w (image_path_in root n) \<noteq> None"
  shows "case r of Inl _ \<Rightarrow> g' = g
    | Inr (attachments', held') \<Rightarrow> attachments' = attachments @ map (attachment_of root) ms \<and> g' = g @ map (\<lambda>n. (n, run_id)) held'
        \<and> distinct held' \<and> set held' = set held \<union> vm_name ` set ms \<and> set held' \<inter> fst ` set g = {}
        \<and> (\<forall>n \<in> set held'. look w' (image_path_in root n) \<noteq> None)"
  using assms
proof (induction ms arbitrary: attachments held images w)
  case Nil
  then show ?case by auto
next
  case (Cons m ms)
  let ?g = "g @ map (\<lambda>n. (n, run_id)) held"
  note undo = release_held [OF Cons.prems(2,3), of run_id]
  show ?case
  proof (cases "validate_volume_target (vm_target m)")
    case (Inl e)
    then show ?thesis using Cons.prems(1) undo by (auto simp: map_err_def)
  next
    case target: (Inr u)
    show ?thesis
    proof (cases "vm_name m \<in> set held")
      case True
      have "resolve_loop P root run_id sizes ms (attachments @ [attachment_of root m]) held images (?g, w) = (r, g', w')"
        using Cons.prems(1,4) True target by (simp add: map_err_def attachment_of_def)
      from Cons.IH [OF this Cons.prems(2-5)] show ?thesis using True by (cases r) (auto simp: insert_absorb)
    next
      case False
      obtain r1 g1 w1 where acq: "acquire_with P root (vm_name m) run_id (unwrap_or (hm_get sizes (vm_name m)) VOLUME_DEFAULT_SIZE_BYTES) (?g, w) = (r1, g1, w1)"
        by (metis prod_cases3)
      show ?thesis
      proof (cases r1)
        case (Inl e)
        have "g1 = ?g" by (rule acquire_undone [OF acq [unfolded Inl]])
        then show ?thesis using Cons.prems(1,4) False target Inl acq undo by (auto simp: map_err_def)
      next
        case (Inr p)
        note got = acquired [OF acq [unfolded Inr]]
        have "resolve_loop P root run_id sizes ms (attachments @ [attachment_of root m]) (held @ [vm_name m])
            (hm_insert (vm_name m) p images) (g @ map (\<lambda>n. (n, run_id)) (held @ [vm_name m]), w1) = (r, g', w')"
          using Cons.prems(1,4) False target Inr acq got by (simp add: map_err_def attachment_of_def)
        note IH = Cons.IH [OF this]
        have new: "vm_name m \<notin> fst ` set g" using got(1) False by (auto simp: map_add_def map_of_eq_None_iff split: option.splits)
        have "case r of Inl _ \<Rightarrow> g' = g
          | Inr (attachments', held') \<Rightarrow> attachments' = (attachments @ [attachment_of root m]) @ map (attachment_of root) ms
              \<and> g' = g @ map (\<lambda>n. (n, run_id)) held' \<and> distinct held' \<and> set held' = set (held @ [vm_name m]) \<union> vm_name ` set ms
              \<and> set held' \<inter> fst ` set g = {} \<and> (\<forall>n \<in> set held'. look w' (image_path_in root n) \<noteq> None)"
        proof (rule IH)
          show "distinct (held @ [vm_name m])" "set (held @ [vm_name m]) \<inter> fst ` set g = {}" using Cons.prems(2,3) False new by auto
          show "hm_get (hm_insert (vm_name m) p images) n = (if n \<in> set (held @ [vm_name m]) then Some (image_path_in root n) else None)" for n
            using Cons.prems(4) [of n] got(3) by (simp add: hm_simps)
          show "look w1 (image_path_in root n) \<noteq> None" if "n \<in> set (held @ [vm_name m])" for n
            using that Cons.prems(5) [of n] got(3,4) got(5) [of n] by auto
        qed
        then show ?thesis by (cases r) auto
      qed
    qed
  qed
qed

end

interpretation real: volume_files "real_fs E" "\<lambda>d. hm_get d"
proof unfold_locales
  show "hm_get w p \<noteq> None" if "vf_exists (real_fs E) p w" for p w using that by (simp add: real_fs_def)
  show "hm_get w' q = (if q = p then None else hm_get w q)" if "vf_remove_file (real_fs E) p w = (Inr u, w')" for p w u w' q
    using that by (auto simp: real_fs_def real_remove_def hm_simps split: option.splits if_split_asm)
  show "w' = w" if "vf_remove_file (real_fs E) p w = (Inl e, w')" for p w e w'
    using that by (auto simp: real_fs_def real_remove_def split: option.splits if_split_asm)
  show "hm_get w' q = hm_get w q" if "vf_create_dir_all (real_fs E) p w = (r, w')" for p w r w' q
    using that by (auto simp: real_fs_def)
  show "hm_get w' p \<noteq> None" if "vf_create_ext4_image (real_fs E) p n w = (Inr u, w')" for p n w u w'
    using that by (auto simp: real_fs_def real_create_def hm_simps split: option.splits sum.splits)
  show "hm_get w' q = hm_get w q" if "vf_create_ext4_image (real_fs E) p n w = (r, w')" "q \<noteq> p" for p n w r w' q
    using that by (auto simp: real_fs_def real_create_def hm_simps split: option.splits sum.splits)
  show "hm_get w' q \<noteq> None"
    if "vf_grow_ext4_image (real_fs E) p n w = (r, w')" "hm_get w q \<noteq> None" "q \<noteq> p @ ''.growing''" for p n w r w' q
    using that by (auto simp: real_fs_def real_grow_def growing_marker_def hm_simps split: option.splits sum.splits if_split_asm)
qed

section \<open>Properties\<close>

lemma claim_blocks:
  assumes "(\<exists>run e v. hm_get (rg_active reg) run = Some e \<and> v \<in> set (declared_volumes e) \<and> vm_name v = name)
    \<or> (\<exists>run. (run, None) \<in> set (rg_damaged reg))"
  shows "blocking_claim (claims_in (rg_active reg) (rg_damaged reg)) name \<noteq> None"
proof -
  let ?c = "claims_in (rg_active reg) (rg_damaged reg) name"
  have "vc_held_by ?c \<noteq> [] \<or> vc_unreadable ?c \<noteq> []"
  proof (cases "\<exists>run. (run, None) \<in> set (rg_damaged reg)")
    case True
    then have "filter (\<lambda>(_, vols). vols = None) (rg_damaged reg) \<noteq> []" by (auto simp: filter_empty_conv)
    then have "vc_unreadable ?c \<noteq> []" by (auto simp: claims_in_def dest: arg_cong [where f = length])
    then show ?thesis ..
  next
    case False
    then obtain run e v where "(run, e) \<in> set (rg_active reg)" "v \<in> set (declared_volumes e)" "vm_name v = name"
      using assms by (blast dest: map_of_SomeD)
    then have "filter (\<lambda>(_, e). list_ex (\<lambda>v. vm_name v = name) (declared_volumes e)) (rg_active reg) \<noteq> []"
      by (force simp: filter_empty_conv list_ex_iff)
    then have "vc_held_by ?c \<noteq> []" by (auto simp: claims_in_def volume_holders_in_def dest: arg_cong [where f = length])
    then show ?thesis ..
  qed
  then show ?thesis by (auto simp: blocking_claim_def Let_def split: list.splits)
qed

text \<open>
  C0: a volume outlives every sandbox that declares it. While any run of the registry, live or stopped, declares a
  volume, while a run holds its lease, or while some record cannot be read, neither removing nor pruning
  volumes touches its image, whatever operations of the file system fail; and both give back every lease they take.
\<close>

theorem declared_volume_is_kept:
  assumes "hm_get g name \<noteq> None \<or> (\<exists>run. (run, None) \<in> set (rg_damaged reg))
    \<or> (\<exists>run e v. hm_get (rg_active reg) run = Some e \<and> v \<in> set (declared_volumes e) \<and> vm_name v = name)"
  shows "(\<forall>dry_run r g' d'. prune_with (real_fs E) (claims_in (rg_active reg) (rg_damaged reg)) root dry_run (g, d) = (r, g', d')
      \<longrightarrow> g' = g \<and> hm_get d' (image_path_in root name) = hm_get d (image_path_in root name))
    \<and> (\<forall>other r g' d'. remove_with (real_fs E) (claims_in (rg_active reg) (rg_damaged reg)) root other (g, d) = (r, g', d')
      \<longrightarrow> g' = g \<and> hm_get d' (image_path_in root name) = hm_get d (image_path_in root name))"
proof -
  have "hm_get g name \<noteq> None \<or> blocking_claim (claims_in (rg_active reg) (rg_damaged reg)) name \<noteq> None"
    using assms claim_blocks by blast
  then show ?thesis using real.prune_with_keeps real.remove_with_keeps by metis
qed

definition idle_disk :: disk_env where
  "idle_disk = \<lparr>de_fault = (\<lambda>_ _. None), de_image = (\<lambda>n. Inr \<lparr>fm_size_bytes = n, fm_allocated_bytes = 0, fm_created_unix_secs = 0\<rparr>),
     de_grown = (\<lambda>meta n. Inr (meta\<lparr>fm_size_bytes := max n (fm_size_bytes meta)\<rparr>))\<rparr>"

definition sample_disk :: disk where
  "sample_disk = [(''/v/kept.img'', EMPTY_FILE), (''/v/old.img'', EMPTY_FILE), (''/v/old.img.growing'', EMPTY_FILE)]"

theorem declared_volume_is_kept_witness:
  "\<exists>g reg :: registry. hm_get g ''kept'' \<noteq> None \<and> (\<forall>dry_run r g' d'.
     prune_with (real_fs idle_disk) (claims_in (rg_active reg) (rg_damaged reg)) ''/v'' dry_run (g, sample_disk) = (r, g', d')
       \<longrightarrow> g' = g \<and> hm_get d' ''/v/kept.img'' = Some EMPTY_FILE)"
proof -
  have "hm_get [(''kept'', ''run-1'')] ''kept'' \<noteq> None" by simp
  moreover have "image_path_in ''/v'' ''kept'' = ''/v/kept.img''" "hm_get sample_disk ''/v/kept.img'' = Some EMPTY_FILE" by code_simp+
  ultimately show ?thesis using declared_volume_is_kept [of "[(''kept'', ''run-1'')]" "''kept''" _ idle_disk "''/v''" sample_disk] by metis
qed

text \<open>
  C0: attaching the volumes of a run is all or nothing. When it fails, the registry of leases is as it was. When it
  succeeds, every mount has its attachment, in order, on the image of its volume, the run holds each volume
  once and no lease that another run had, every other lease is untouched, and every image is there.
\<close>

theorem resolve_all_or_nothing:
  assumes "resolve_with (real_fs E) root mounts run_id (g, d) = (r, g', d')"
  shows "case r of Inl _ \<Rightarrow> g' = g
    | Inr (attachments, held) \<Rightarrow> attachments = map (attachment_of root) mounts \<and> g' = g @ map (\<lambda>n. (n, run_id)) held
        \<and> distinct held \<and> set held = vm_name ` set mounts \<and> set held \<inter> fst ` set g = {}
        \<and> (\<forall>n \<in> set held. hm_get d' (image_path_in root n) \<noteq> None)"
  using real.resolve_loop_outcome [of E root run_id "declared_sizes mounts" mounts "[]" "[]" "[]" g d r g' d'] assms
  by (cases r) (auto simp: resolve_with_def)

definition two_mounts :: "volume_mount list" where
  "two_mounts = [\<lparr>vm_name = ''kept'', vm_target = ''/a'', vm_read_only = False, vm_size_bytes = None\<rparr>,
     \<lparr>vm_name = ''kept'', vm_target = ''/b'', vm_read_only = True, vm_size_bytes = None\<rparr>]"

theorem resolve_all_or_nothing_witness:
  "fst (snd (resolve_with (real_fs idle_disk) ''/v'' two_mounts ''run-1'' ([(''other'', ''run-0'')], sample_disk)))
     = [(''other'', ''run-0''), (''kept'', ''run-1'')]"
proof -
  obtain r g' d' where out: "resolve_with (real_fs idle_disk) ''/v'' two_mounts ''run-1'' ([(''other'', ''run-0'')], sample_disk) = (r, g', d')"
    by (metis prod_cases3)
  have "\<exists>a. r = Inr (a, [''kept''])"
  proof -
    have "validate_volume_target ''/a'' = Inr ()" "validate_volume_target ''/b'' = Inr ()" "validate_volume_name ''kept'' = Inr ()" by code_simp+
    with out show ?thesis
      by (auto simp: resolve_with_def two_mounts_def declared_sizes_def map_err_def acquire_with_def take_lease_def try_acquire_def
          ensure_image_def image_path_in_def real_fs_def real_grow_def idle_disk_def sample_disk_def Let_def)
  qed
  then show ?thesis using resolve_all_or_nothing [OF out] out by auto
qed

lemma entry_file_name: "dir_entry file \<Longrightarrow> path_file_name (dir @ CHR ''/'' # file) = Some file"
proof -
  assume entry: "dir_entry file"
  then have last: "split_on CHR ''/'' (dir @ CHR ''/'' # file) = split_on CHR ''/'' dir @ [file]" "segment_component file = Some (Normal file)"
    by (auto simp: split_on_append split_on_none dir_entry_def contains_char_def segment_component_def)
  then show ?thesis by (simp add: path_file_name_def path_components_def Let_def List.map_filter_def)
qed

lemma listed_names:
  assumes "hm_wf d" "vf_read_dir (real_fs E) root d = Inr entries"
  shows "distinct (List.map_filter volume_name_of entries)"
proof -
  have entries: "entries = filter (\<lambda>p. case strip_prefix (root @ ''/'') p of Some file \<Rightarrow> dir_entry file | None \<Rightarrow> False) (hm_keys d)"
    using assms(2) by (auto simp: real_fs_def split: option.splits)
  then have "distinct entries" using assms(1) by simp
  moreover have path: "p = image_path_in root n" if mem: "p \<in> set entries" and vol: "volume_name_of p = Some n" for p n
  proof -
    obtain f where "p = root @ ''/'' @ f" "dir_entry f"
      using mem unfolding entries by (auto simp: str_simps split: option.splits)
    with vol show ?thesis by (simp add: volume_name_of_def entry_file_name str_simps image_path_in_def)
  qed
  ultimately show ?thesis
  proof (induction entries)
    case (Cons p ps)
    then have rest: "distinct (List.map_filter volume_name_of ps)" by simp
    have "volume_name_of q \<noteq> Some n" if "volume_name_of p = Some n" "q \<in> set ps" for q n
      using Cons.prems(2) [of p n] Cons.prems(2) [of q n] Cons.prems(1) that by auto
    with rest show ?case by (auto simp: List.map_filter_simps List.map_filter_def split: option.splits)
  qed (simp add: List.map_filter_simps)
qed

lemma listed_infos:
  "list_infos (real_fs E) holders root d names = Inr infos \<Longrightarrow> distinct names \<Longrightarrow>
     distinct (map vi_name infos) \<and> vi_name ` set infos \<subseteq> set names \<and> (\<forall>i \<in> set infos. hm_get d (image_path_in root (vi_name i)) \<noteq> None)"
proof (induction names arbitrary: infos)
  case (Cons name names)
  show ?case
  proof (cases "info_for (real_fs E) holders (image_path_in root name) name d")
    case (Inl e)
    with Cons.prems have "list_infos (real_fs E) holders root d names = Inr infos" by (simp split: if_split_asm)
    from Cons.IH [OF this] Cons.prems(2) show ?thesis by auto
  next
    case (Inr i)
    with Cons.prems obtain rest where "list_infos (real_fs E) holders root d names = Inr rest" "infos = i # rest"
      by (auto simp: and_then_Inr)
    moreover have "vi_name i = name" "hm_get d (image_path_in root name) \<noteq> None"
      using Inr by (auto simp: info_for_def and_then_Inr map_err_def real_fs_def split: option.splits sum.splits)
    ultimately show ?thesis using Cons.IH [of rest] Cons.prems(2) by auto
  qed
qed simp

lemma sweep_as_told:
  assumes "\<And>p. de_fault E Op_Remove p = None" "distinct (map vi_name infos)"
    "\<And>i. i \<in> set infos \<Longrightarrow> hm_get d (image_path_in root (vi_name i)) \<noteq> None"
  shows "fst (prune_loop (real_fs E) holders root True infos report (g, d0)) = fst (prune_loop (real_fs E) holders root False infos report (g, d))"
  using assms(2,3)
proof (induction infos arbitrary: report d)
  case (Cons i infos)
  let ?p = "image_path_in root (vi_name i)"
  have rm: "vf_remove_file (real_fs E) ?p d = (Inr (), hm_remove ?p d)"
    using Cons.prems(2) [of i] assms(1) by (simp add: real_fs_def real_remove_def)
  have same: "fst (prune_loop (real_fs E) holders root True infos rep (g, d0)) = fst (prune_loop (real_fs E) holders root False infos rep (g, d))" for rep
    using Cons by simp
  have gone: "fst (prune_loop (real_fs E) holders root True infos rep (g, d0)) = fst (prune_loop (real_fs E) holders root False infos rep (g, hm_remove ?p d))" for rep
  proof (rule Cons.IH)
    show "distinct (map vi_name infos)" using Cons.prems by simp
    show "hm_get (hm_remove ?p d) (image_path_in root (vi_name j)) \<noteq> None" if "j \<in> set infos" for j
    proof -
      have "vi_name j \<noteq> vi_name i" using Cons.prems(1) that by (metis distinct.simps(2) image_eqI list.set_map list.simps(9))
      then show ?thesis using Cons.prems(2) [of j] that by (simp add: hm_simps)
    qed
  qed
  show ?case
  proof (cases "blocking_claim holders (vi_name i)")
    case None
    then show ?thesis using rm same gone
      by (cases "take_lease (vi_name i) MAINTENANCE_HOLDER_RUN_ID g") (simp_all add: Let_def guard_released)
  next
    case (Some b)
    then show ?thesis using same by (cases b) (simp_all add: Let_def)
  qed
qed simp

text \<open>
  C0: the question and the sweep agree. When no deletion fails, a dry run of the prune reports what the sweep
  would report: the same volumes removed, the same bytes, the same failures in the same order.
\<close>

theorem dry_run_tells_the_sweep:
  assumes "hm_wf d" "\<And>p. de_fault E Op_Remove p = None"
  shows "fst (prune_with (real_fs E) holders root True (g, d)) = fst (prune_with (real_fs E) holders root False (g, d))"
proof (cases "list_with (real_fs E) holders root d")
  case (Inr infos)
  have "distinct (map vi_name infos) \<and> (\<forall>i \<in> set infos. hm_get d (image_path_in root (vi_name i)) \<noteq> None)"
  proof (cases "vf_read_dir (real_fs E) root d")
    case (Inl e)
    with Inr show ?thesis by (cases e) (simp_all add: list_with_def)
  next
    case entries: (Inr entries)
    then have "list_infos (real_fs E) holders root d (sort (List.map_filter volume_name_of entries)) = Inr infos"
      using Inr by (simp add: list_with_def)
    from listed_infos [OF this] listed_names [OF assms(1) entries] show ?thesis by simp
  qed
  then have "fst (prune_loop (real_fs E) holders root True infos rep (g, d)) = fst (prune_loop (real_fs E) holders root False infos rep (g, d))" for rep
    by (intro sweep_as_told assms(2)) auto
  then show ?thesis using Inr by (simp add: prune_with_def split: prod.splits) (metis fst_conv)
qed (simp add: prune_with_def)

theorem dry_run_tells_the_sweep_witness:
  "hm_wf sample_disk \<and> fst (prune_with (real_fs idle_disk) (claims_in [] []) ''/v'' True ([], sample_disk))
     = fst (prune_with (real_fs idle_disk) (claims_in [] []) ''/v'' False ([], sample_disk))"
proof -
  have wf: "hm_wf sample_disk" by (simp add: sample_disk_def)
  then show ?thesis using dry_run_tells_the_sweep [OF wf, of idle_disk] by (simp add: idle_disk_def)
qed

text \<open>
  C0: pruning leaves the marker of an interrupted grow. Removing a volume deletes the marker beside its image,
  pruning the same volume does not, and a volume made later under that name finds it.
\<close>

theorem prune_leaves_the_marker:
  "(case remove_with (real_fs idle_disk) (\<lambda>_. \<lparr>vc_held_by = [], vc_damaged = [], vc_unreadable = []\<rparr>) ''/v'' ''old'' ([], sample_disk) of
      (r, _, d) \<Rightarrow> r = Inr () \<and> map fst d = [''/v/kept.img''])
   \<and> (case prune_with (real_fs idle_disk) (\<lambda>_. \<lparr>vc_held_by = [], vc_damaged = [], vc_unreadable = []\<rparr>) ''/v'' False ([], sample_disk) of
      (r, _, d) \<Rightarrow> (case r of Inr report \<Rightarrow> pr_removed report = [''kept'', ''old''] | Inl _ \<Rightarrow> False) \<and> map fst d = [''/v/old.img.growing''])"
proof -
  let ?free = "\<lambda>_. \<lparr>vc_held_by = [], vc_damaged = [], vc_unreadable = []\<rparr>"
  have listed: "volume_name_of ''/v/kept.img'' = Some ''kept''" "volume_name_of ''/v/old.img'' = Some ''old''"
    "volume_name_of ''/v/old.img.growing'' = None" "sort [''kept'', ''old''] = [''kept'', ''old'']" by code_simp+
  have inside: "strip_prefix ''/v/'' ''/v/kept.img'' = Some ''kept.img''" "strip_prefix ''/v/'' ''/v/old.img'' = Some ''old.img''"
    "strip_prefix ''/v/'' ''/v/old.img.growing'' = Some ''old.img.growing''" by code_simp+
  have valid: "validate_volume_name ''old'' = Inr ()" by code_simp
  have marker: "with_extension ''img.growing'' ''/v/old.img'' = ''/v/old.img.growing''" by code_simp
  have "remove_with (real_fs idle_disk) ?free ''/v'' ''old'' ([], sample_disk) = (Inr (), [], [(''/v/kept.img'', EMPTY_FILE)])"
    by (simp add: remove_with_def valid marker map_err_def refuse_while_held_def blocking_claim_def take_lease_def try_acquire_def
        release_def real_fs_def real_remove_def idle_disk_def sample_disk_def image_path_in_def)
  moreover have "vf_read_dir (real_fs idle_disk) ''/v'' sample_disk = Inr (map fst sample_disk)"
    by (simp add: real_fs_def idle_disk_def sample_disk_def inside dir_entry_def contains_char_def)
  moreover have "sort (List.map_filter volume_name_of (map fst sample_disk)) = [''kept'', ''old'']"
    using listed by (simp add: sample_disk_def List.map_filter_simps)
  ultimately show ?thesis
    by (simp add: prune_with_def list_with_def info_for_def blocking_claim_def take_lease_def try_acquire_def map_err_def
        release_def real_fs_def real_remove_def idle_disk_def sample_disk_def image_path_in_def)
qed

end
