(* ===== verification/Image_Store.thy ===== *)
theory Image_Store
  imports Volume_Store
begin

text \<open>
  The cached sandboxes and images of the service, \<open>crates/lns-service/src/image_store/mod.rs\<close>: an index with one
  record per artifact, whose edges say what an artifact is built on, the layer cache and the manifest cache, and the
  requests that record, list, tag, remove and prune. Image references are read by the \<open>oci_client\<close> crate, a
  parameter, as are the digest of a reference and the encoding of a record.
\<close>

section \<open>Data\<close>

record 'r oci =
  oc_parse :: "string \<Rightarrow> 'r option"
  oc_whole :: "'r \<Rightarrow> string"
  oc_registry :: "'r \<Rightarrow> string"
  oc_repository :: "'r \<Rightarrow> string"
  oc_digest :: "'r \<Rightarrow> string option"
  oc_with_digest :: "'r \<Rightarrow> string \<Rightarrow> 'r"

datatype record_kind = Image_Kind | Sandbox_Record | Mixin_Record

record layer_ref =
  ly_digest :: string
  ly_size_bytes :: nat

record image_record =
  ir_reference :: string
  ir_digest :: string
  ir_kind :: record_kind
  ir_dependencies :: "string list"
  ir_layers :: "layer_ref list"
  ir_pulled_unix_secs :: nat

record record_codec =
  rk_key :: "string \<Rightarrow> string"
  rk_to :: "image_record \<Rightarrow> string"
  rk_from :: "string \<Rightarrow> image_record option"

datatype img_error =
    Bad_Reference string
  | Img_Fs fs_error
  | Img_Context string fs_error
  | No_Such_Image string
  | No_Such_Sandbox string
  | Image_In_Use string string
  | Image_Required string string
  | Cross_Repository
  | Record_Unreadable
  | Cache_Internal
  | Changed_After_Consent string string string
  | No_Digest_Pin string

text \<open>
  The files of the index, the layer files under their hexadecimal digests with their sizes, and the references the
  manifest cache holds. Every operation may fail.
\<close>

record image_world =
  iw_records :: "(string, string) hmap"
  iw_layers :: "(string, nat) hmap"
  iw_manifests :: "string list"

datatype img_op = Img_Read_Dir | Img_Read | Img_Write | Img_Remove | Img_Remove_Manifest | Img_List_Layers | Img_Remove_Layer

type_synonym img_faults = "img_op \<Rightarrow> string \<Rightarrow> fs_error option"

section \<open>The file system and the caches\<close>

definition img_read_dir :: "img_faults \<Rightarrow> string \<Rightarrow> image_world \<Rightarrow> fs_error + string list" where
  "img_read_dir F dir w = (case F Img_Read_Dir dir of
     Some e \<Rightarrow> Inl e
   | None \<Rightarrow> Inr (filter (\<lambda>p. case strip_prefix (dir @ ''/'') p of Some file \<Rightarrow> dir_entry file | None \<Rightarrow> False) (hm_keys (iw_records w))))"

definition img_read :: "img_faults \<Rightarrow> string \<Rightarrow> image_world \<Rightarrow> fs_error + string" where
  "img_read F p w = (case F Img_Read p of
     Some e \<Rightarrow> Inl e
   | None \<Rightarrow> (case hm_get (iw_records w) p of Some bytes \<Rightarrow> Inr bytes | None \<Rightarrow> Inl Fs_NotFound))"

definition img_write :: "img_faults \<Rightarrow> string \<Rightarrow> string \<Rightarrow> image_world \<Rightarrow> (fs_error + unit) \<times> image_world" where
  "img_write F p bytes w = (case F Img_Write p of
     Some e \<Rightarrow> (Inl e, w)
   | None \<Rightarrow> (Inr (), w\<lparr>iw_records := hm_insert p bytes (iw_records w)\<rparr>))"

definition img_remove :: "img_faults \<Rightarrow> string \<Rightarrow> image_world \<Rightarrow> (fs_error + unit) \<times> image_world" where
  "img_remove F p w = (case F Img_Remove p of
     Some e \<Rightarrow> (Inl e, w)
   | None \<Rightarrow> if hm_get (iw_records w) p = None then (Inl Fs_NotFound, w)
              else (Inr (), w\<lparr>iw_records := hm_remove p (iw_records w)\<rparr>))"

definition remove_manifest :: "img_faults \<Rightarrow> string \<Rightarrow> image_world \<Rightarrow> (img_error + unit) \<times> image_world" where
  "remove_manifest F reference w = (case F Img_Remove_Manifest reference of
     Some e \<Rightarrow> (Inl (Img_Fs e), w)
   | None \<Rightarrow> (Inr (), w\<lparr>iw_manifests := filter (\<lambda>m. m \<noteq> reference) (iw_manifests w)\<rparr>))"

definition layer_file :: "string \<Rightarrow> string" where
  "layer_file d = to_ascii_lowercase (unwrap_or (strip_prefix ''sha256:'' d) d)"

fun sweep_entries :: "img_faults \<Rightarrow> string list \<Rightarrow> (string \<times> nat) list \<Rightarrow> nat \<Rightarrow> image_world \<Rightarrow> (img_error + nat) \<times> image_world" where
  "sweep_entries F keep_hex [] freed w = (Inr freed, w)"
| "sweep_entries F keep_hex ((name, len) # entries) freed w =
     (if ends_with ''.tmp'' name \<or> name \<in> set keep_hex then sweep_entries F keep_hex entries freed w
      else (case F Img_Remove_Layer name of
              Some e \<Rightarrow> (Inl (Img_Context name e), w)
            | None \<Rightarrow> sweep_entries F keep_hex entries (freed + len) (w\<lparr>iw_layers := hm_remove name (iw_layers w)\<rparr>)))"

definition sweep_layers :: "img_faults \<Rightarrow> string list \<Rightarrow> image_world \<Rightarrow> (img_error + nat) \<times> image_world" where
  "sweep_layers F keep w = (case F Img_List_Layers [] of
     Some e \<Rightarrow> (Inl (Img_Context [] e), w)
   | None \<Rightarrow> sweep_entries F (map layer_file keep) (iw_layers w) 0 w)"

section \<open>References and records\<close>

definition normalize_reference :: "'r oci \<Rightarrow> string \<Rightarrow> img_error + string" where
  "normalize_reference Q img = (case oc_parse Q img of Some r \<Rightarrow> Inr (oc_whole Q r) | None \<Rightarrow> Inl (Bad_Reference img))"

definition record_path :: "record_codec \<Rightarrow> string \<Rightarrow> string \<Rightarrow> string" where
  "record_path K images_root reference = images_root @ ''/'' @ rk_key K reference @ ''.json''"

definition pinned_reference :: "'r oci \<Rightarrow> string \<Rightarrow> string \<Rightarrow> img_error + string" where
  "pinned_reference Q reference digest = (case oc_parse Q reference of
     Some r \<Rightarrow> Inr (oc_whole Q (oc_with_digest Q r digest)) | None \<Rightarrow> Inl (Bad_Reference reference))"

record 'r pulled_sandbox =
  ps_reference :: 'r
  ps_digest :: string
  ps_mixins :: "string list"

fun normalize_all :: "'r oci \<Rightarrow> string list \<Rightarrow> img_error + string list" where
  "normalize_all Q [] = Inr []"
| "normalize_all Q (m # ms) = and_then (normalize_reference Q m) (\<lambda>r. and_then (normalize_all Q ms) (\<lambda>rs. Inr (r # rs)))"

definition artifact_record_for :: "'r oci \<Rightarrow> 'r pulled_sandbox \<Rightarrow> 'r \<Rightarrow> nat \<Rightarrow> img_error + image_record" where
  "artifact_record_for Q sandbox base pulled_unix_secs =
     and_then (normalize_all Q (ps_mixins sandbox)) (\<lambda>mixins.
     Inr \<lparr>ir_reference = oc_whole Q (ps_reference sandbox), ir_digest = ps_digest sandbox, ir_kind = Sandbox_Record,
          ir_dependencies = oc_whole Q base # mixins, ir_layers = [], ir_pulled_unix_secs = pulled_unix_secs\<rparr>)"

definition artifact_run_record :: "'r oci \<Rightarrow> string \<Rightarrow> string \<Rightarrow> string \<Rightarrow> nat \<Rightarrow> img_error + image_record" where
  "artifact_run_record Q reference digest base_image pulled_unix_secs =
     and_then (normalize_reference Q reference) (\<lambda>whole.
     and_then (normalize_reference Q base_image) (\<lambda>base.
     Inr \<lparr>ir_reference = whole, ir_digest = digest, ir_kind = Sandbox_Record, ir_dependencies = [base], ir_layers = [],
          ir_pulled_unix_secs = pulled_unix_secs\<rparr>))"

definition record_for :: "'r oci \<Rightarrow> 'r \<Rightarrow> string \<Rightarrow> string list \<Rightarrow> string list \<Rightarrow> nat \<Rightarrow> image_record" where
  "record_for Q reference digest layer_digests layer_data pulled_unix_secs =
     \<lparr>ir_reference = oc_whole Q reference, ir_digest = digest, ir_kind = Image_Kind, ir_dependencies = [],
      ir_layers = map (\<lambda>(d, bytes). \<lparr>ly_digest = d, ly_size_bytes = length bytes\<rparr>) (zip layer_digests layer_data),
      ir_pulled_unix_secs = pulled_unix_secs\<rparr>"

definition record_with :: "img_faults \<Rightarrow> record_codec \<Rightarrow> string \<Rightarrow> image_record \<Rightarrow> image_world \<Rightarrow> (img_error + unit) \<times> image_world" where
  "record_with F K images_root r w = (case img_write F (record_path K images_root (ir_reference r)) (rk_to K r) w of
     (Inl e, w) \<Rightarrow> (Inl (Img_Context (ir_reference r) e), w) | (Inr _, w) \<Rightarrow> (Inr (), w))"

text \<open>\<open>Path::extension\<close>: what follows the last dot of the file name, unless that dot opens it.\<close>

definition path_extension :: "string \<Rightarrow> string option" where
  "path_extension p = Option.bind (path_file_name p) (\<lambda>f. case rsplit_once CHR ''.'' f of
     Some (stem, ext) \<Rightarrow> if stem = [] then None else Some ext | None \<Rightarrow> None)"

definition read_record :: "img_faults \<Rightarrow> record_codec \<Rightarrow> image_world \<Rightarrow> string \<Rightarrow> image_record option" where
  "read_record F K w p = (case img_read F p w of Inr bytes \<Rightarrow> rk_from K bytes | Inl _ \<Rightarrow> None)"

definition load_records :: "img_faults \<Rightarrow> record_codec \<Rightarrow> string \<Rightarrow> image_world \<Rightarrow> img_error + image_record list" where
  "load_records F K images_root w = (case img_read_dir F images_root w of
     Inr entries \<Rightarrow> Inr (sort_key ir_reference
       (List.map_filter (read_record F K w) (filter (\<lambda>p. path_extension p = Some ''json'') entries)))
   | Inl Fs_NotFound \<Rightarrow> Inr []
   | Inl e \<Rightarrow> Inl (Img_Fs e))"

section \<open>Who uses an artifact\<close>

definition same_image :: "'r oci \<Rightarrow> string \<Rightarrow> string \<Rightarrow> bool" where
  "same_image Q run_image reference = (case (oc_parse Q run_image, oc_parse Q reference) of
     (Some r, Some c) \<Rightarrow> oc_whole Q r = oc_whole Q c
       \<or> oc_registry Q r = oc_registry Q c \<and> oc_repository Q r = oc_repository Q c
         \<and> (oc_digest Q r \<noteq> None) \<noteq> (oc_digest Q c \<noteq> None)
   | _ \<Rightarrow> False)"

definition pinning_holder :: "'r oci \<Rightarrow> run_listing list \<Rightarrow> string \<Rightarrow> string option" where
  "pinning_holder Q runs reference = map_option rs_id (List.find (\<lambda>r. same_image Q (rs_image r) reference) runs)"

definition image_holder :: "'r oci \<Rightarrow> run_listing list \<Rightarrow> string \<Rightarrow> string option" where
  "image_holder Q active reference =
     map_option rs_id (List.find (\<lambda>r. same_image Q (rs_image r) reference) (filter (\<lambda>r. rs_status r = Running) active))"

datatype cached_kind = Cached_Sandbox | Cached_Mixin

definition kind_of :: "image_record \<Rightarrow> cached_kind option" where
  "kind_of r = (case ir_kind r of Image_Kind \<Rightarrow> None | Sandbox_Record \<Rightarrow> Some Cached_Sandbox | Mixin_Record \<Rightarrow> Some Cached_Mixin)"

record image_info =
  ii_reference :: string
  ii_kind :: cached_kind
  ii_digest :: string
  ii_size_bytes :: nat
  ii_layers :: nat
  ii_pulled :: string
  ii_in_use_by :: "string option"

definition info_from :: "'r oci \<Rightarrow> image_record \<Rightarrow> run_listing list \<Rightarrow> image_info option" where
  "info_from Q r active = map_option (\<lambda>kind. \<lparr>ii_reference = ir_reference r, ii_kind = kind, ii_digest = ir_digest r,
     ii_size_bytes = sum_list (map ly_size_bytes (ir_layers r)), ii_layers = length (ir_layers r),
     ii_pulled = rfc3339_from_unix (ir_pulled_unix_secs r), ii_in_use_by = image_holder Q active (ir_reference r)\<rparr>) (kind_of r)"

definition layer_keep_set :: "image_record list \<Rightarrow> string list" where
  "layer_keep_set records = concat (map (\<lambda>r. map ly_digest (ir_layers r)) records)"

section \<open>Closures\<close>

fun push_deps :: "string list \<Rightarrow> string list \<Rightarrow> string list \<Rightarrow> string list \<times> string list" where
  "push_deps keep pending [] = (keep, pending)"
| "push_deps keep pending (d # ds) =
     (if d \<in> set keep then push_deps keep pending ds else push_deps (d # keep) (d # pending) ds)"

definition all_deps :: "image_record list \<Rightarrow> string set" where
  "all_deps records = (\<Union>r \<in> set records. set (ir_dependencies r))"

lemma push_deps_keep: "push_deps keep pending ds = (keep', pending') \<Longrightarrow>
    set keep' = set keep \<union> set ds \<and> set pending' = set pending \<union> (set ds - set keep) \<and> (set ds \<subseteq> set keep \<longrightarrow> pending' = pending \<and> keep' = keep)"
  by (induction keep pending ds rule: push_deps.induct) (auto split: if_split_asm)

text \<open>The stack of the code has its top at the end of a vector; here it is the head of a list.\<close>

function dependency_loop :: "image_record list \<Rightarrow> string list \<Rightarrow> string list \<Rightarrow> string list" where
  "dependency_loop records keep [] = keep"
| "dependency_loop records keep (reference # pending) =
     (case List.find (\<lambda>r. ir_reference r = reference) records of
        None \<Rightarrow> dependency_loop records keep pending
      | Some r \<Rightarrow> (case push_deps keep pending (ir_dependencies r) of (keep, pending) \<Rightarrow> dependency_loop records keep pending))"
  by pat_completeness auto

lemma all_deps_finite [simp]: "finite (all_deps records)"
  by (simp add: all_deps_def)

termination dependency_loop
proof (relation "inv_image (less_than <*lex*> less_than) (\<lambda>(records, keep, pending). (card (all_deps records - set keep), length pending))")
  fix records :: "image_record list" and keep reference pending r keep' pending'
  assume found: "List.find (\<lambda>r. ir_reference r = reference) records = Some r"
    and push: "(keep', pending') = push_deps keep pending (ir_dependencies r)"
  from found have "r \<in> set records" by (auto simp: find_Some_iff)
  then have mem: "set (ir_dependencies r) \<subseteq> all_deps records" by (auto simp: all_deps_def)
  note pushed = push_deps_keep [OF push [symmetric]]
  show "((records, keep', pending'), (records, keep, reference # pending))
    \<in> inv_image (less_than <*lex*> less_than) (\<lambda>(records, keep, pending). (card (all_deps records - set keep), length pending))"
  proof (cases "set (ir_dependencies r) \<subseteq> set keep")
    case False
    then have "card (all_deps records - set keep') < card (all_deps records - set keep)"
      using pushed mem by (intro psubset_card_mono) auto
    then show ?thesis by simp
  qed (use pushed in simp)
qed auto

definition dependency_closure :: "image_record list \<Rightarrow> string list \<Rightarrow> string list" where
  "dependency_closure records roots = dependency_loop records roots (rev roots)"

fun removal_pass :: "image_record list \<Rightarrow> string list \<Rightarrow> string list \<Rightarrow> bool \<Rightarrow> string list \<Rightarrow> string list \<times> bool" where
  "removal_pass records retained remove changed [] = (remove, changed)"
| "removal_pass records retained remove changed (d # ds) =
     (if d \<in> set retained then removal_pass records retained remove changed ds
      else if \<not> list_ex (\<lambda>r. ir_reference r \<notin> set remove \<and> d \<in> set (ir_dependencies r)) records
              \<and> list_ex (\<lambda>r. ir_reference r = d) records
      then (if d \<in> set remove then removal_pass records retained remove changed ds
            else removal_pass records retained (d # remove) True ds)
      else removal_pass records retained remove changed ds)"

text \<open>A step of the pass leaves the set or adds a reference none of the records that stay depends on.\<close>

lemma removal_pass_step:
  obtains "removal_pass records retained remove changed (d # ds) = removal_pass records retained remove changed ds"
  | "removal_pass records retained remove changed (d # ds) = removal_pass records retained (d # remove) True ds"
    "d \<notin> set retained" "d \<notin> set remove" "d \<in> ir_reference ` set records"
    "\<And>r. r \<in> set records \<Longrightarrow> ir_reference r \<notin> set remove \<Longrightarrow> d \<notin> set (ir_dependencies r)"
proof (cases "d \<in> set retained \<or> d \<in> set remove
    \<or> list_ex (\<lambda>r. ir_reference r \<notin> set remove \<and> d \<in> set (ir_dependencies r)) records \<or> \<not> list_ex (\<lambda>r. ir_reference r = d) records")
  case True
  then have "removal_pass records retained remove changed (d # ds) = removal_pass records retained remove changed ds" by auto
  then show thesis by (rule that(1))
next
  case False
  show thesis
  proof (rule that(2))
    show "removal_pass records retained remove changed (d # ds) = removal_pass records retained (d # remove) True ds" using False by simp
    show "d \<notin> set retained" "d \<notin> set remove" using False by auto
    show "d \<in> ir_reference ` set records" using False by (force simp: list_ex_iff)
    show "d \<notin> set (ir_dependencies r)" if "r \<in> set records" "ir_reference r \<notin> set remove" for r
      using False that by (auto simp: list_ex_iff)
  qed
qed

lemma removal_pass_grows:
  "removal_pass records retained remove changed ds = (remove', changed') \<Longrightarrow>
     set remove \<subseteq> set remove' \<and> set remove' \<subseteq> set remove \<union> ir_reference ` set records
     \<and> (changed' \<longrightarrow> changed \<or> set remove \<noteq> set remove')"
proof (induction ds arbitrary: remove changed)
  case (Cons d ds)
  show ?case
  proof (rule removal_pass_step [of records retained remove changed d ds])
    assume "removal_pass records retained remove changed (d # ds) = removal_pass records retained remove changed ds"
    then show ?thesis using Cons by simp
  next
    assume "removal_pass records retained remove changed (d # ds) = removal_pass records retained (d # remove) True ds"
      and new: "d \<notin> set remove" "d \<in> ir_reference ` set records"
    then have "removal_pass records retained (d # remove) True ds = (remove', changed')" using Cons.prems by simp
    from Cons.IH [OF this] new show ?thesis by auto
  qed
qed simp

function removal_loop :: "image_record list \<Rightarrow> string list \<Rightarrow> string list \<Rightarrow> string list" where
  "removal_loop records retained remove =
     (let candidates = concat (map ir_dependencies (filter (\<lambda>r. ir_reference r \<in> set remove) records))
      in case removal_pass records retained remove False candidates of
           (remove', changed) \<Rightarrow> if changed then removal_loop records retained remove' else remove')"
  by pat_completeness auto

lemma removal_shrinks:
  assumes "removal_pass records retained remove False ds = (remove', True)"
  shows "card (ir_reference ` set records - set remove') < card (ir_reference ` set records - set remove)"
proof -
  have "set remove \<subset> set remove'" "set remove' \<subseteq> set remove \<union> ir_reference ` set records"
    using removal_pass_grows [OF assms] by auto
  then show ?thesis by (intro psubset_card_mono) auto
qed

termination removal_loop
  by (relation "measure (\<lambda>(records, retained, remove). card (ir_reference ` set records - set remove))") (auto intro: removal_shrinks)

declare removal_loop.simps [simp del]

definition removal_closure :: "image_record list \<Rightarrow> string \<Rightarrow> string list \<Rightarrow> string list" where
  "removal_closure records root retained = removal_loop records retained [root]"

fun manifest_keep_set :: "'r oci \<Rightarrow> image_record list \<Rightarrow> img_error + string list" where
  "manifest_keep_set Q [] = Inr []"
| "manifest_keep_set Q (r # rs) =
     and_then (pinned_reference Q (ir_reference r) (ir_digest r)) (\<lambda>p. and_then (manifest_keep_set Q rs) (\<lambda>ps. Inr (p # ps)))"

section \<open>Requests about images\<close>

definition image_list_with ::
    "img_faults \<Rightarrow> record_codec \<Rightarrow> 'r oci \<Rightarrow> string \<Rightarrow> run_listing list \<Rightarrow> image_world \<Rightarrow> img_error + image_info list" where
  "image_list_with F K Q images_root active w =
     and_then (load_records F K images_root w) (\<lambda>records. Inr (List.map_filter (\<lambda>r. info_from Q r active) records))"

fun remove_records ::
    "img_faults \<Rightarrow> record_codec \<Rightarrow> string \<Rightarrow> image_record list \<Rightarrow> image_world \<Rightarrow> (img_error + unit) \<times> image_world" where
  "remove_records F K images_root [] w = (Inr (), w)"
| "remove_records F K images_root (r # rs) w =
     (case img_remove F (record_path K images_root (ir_reference r)) w of
        (Inl e, w) \<Rightarrow> (Inl (Img_Context (ir_reference r) e), w)
      | (Inr _, w) \<Rightarrow> remove_records F K images_root rs w)"

fun remove_manifests ::
    "img_faults \<Rightarrow> 'r oci \<Rightarrow> string list \<Rightarrow> image_record list \<Rightarrow> image_world \<Rightarrow> (img_error + unit) \<times> image_world" where
  "remove_manifests F Q surviving [] w = (Inr (), w)"
| "remove_manifests F Q surviving (r # rs) w =
     (case pinned_reference Q (ir_reference r) (ir_digest r) of
        Inl e \<Rightarrow> (Inl e, w)
      | Inr pinned \<Rightarrow>
         (case (if pinned \<noteq> ir_reference r then remove_manifest F (ir_reference r) w else (Inr (), w)) of
            (Inl e, w) \<Rightarrow> (Inl e, w)
          | (Inr _, w) \<Rightarrow>
             (case (if pinned \<notin> set surviving then remove_manifest F pinned w else (Inr (), w)) of
                (Inl e, w) \<Rightarrow> (Inl e, w)
              | (Inr _, w) \<Rightarrow> remove_manifests F Q surviving rs w)))"

definition active_references :: "'r oci \<Rightarrow> image_record list \<Rightarrow> run_listing list \<Rightarrow> string list" where
  "active_references Q records active = map ir_reference (filter (\<lambda>r. pinning_holder Q active (ir_reference r) \<noteq> None) records)"

definition removal_allowed ::
    "'r oci \<Rightarrow> image_record list \<Rightarrow> run_listing list \<Rightarrow> string \<Rightarrow> img_error + unit" where
  "removal_allowed Q records active reference =
     (if \<not> list_ex (\<lambda>r. ir_reference r = reference \<and> ir_kind r \<noteq> Image_Kind) records then Inl (No_Such_Image reference)
      else (case pinning_holder Q active reference of
              Some run_id \<Rightarrow> Inl (Image_In_Use reference (short_run_id run_id))
            | None \<Rightarrow> (case List.find (\<lambda>c. ir_reference c \<noteq> reference \<and> reference \<in> set (ir_dependencies c)) records of
                Some owner \<Rightarrow> Inl (Image_Required reference (ir_reference owner))
              | None \<Rightarrow> Inr ())))"

definition image_remove_with ::
    "img_faults \<Rightarrow> record_codec \<Rightarrow> 'r oci \<Rightarrow> string \<Rightarrow> string list \<Rightarrow> run_listing list \<Rightarrow> string \<Rightarrow> image_world
       \<Rightarrow> (img_error + string \<times> nat) \<times> image_world" where
  "image_remove_with F K Q images_root pinned_layers active img w =
     (case and_then (normalize_reference Q img) (\<lambda>reference.
           and_then (load_records F K images_root w) (\<lambda>records.
           and_then (removal_allowed Q records active reference) (\<lambda>_. Inr (reference, records)))) of
        Inl e \<Rightarrow> (Inl e, w)
      | Inr (reference, records) \<Rightarrow>
         (let removed = removal_closure records reference (active_references Q records active);
              going = filter (\<lambda>r. ir_reference r \<in> set removed) records;
              surviving = filter (\<lambda>r. ir_reference r \<notin> set removed) records
          in case remove_records F K images_root going w of
               (Inl e, w) \<Rightarrow> (Inl e, w)
             | (Inr _, w) \<Rightarrow> (case manifest_keep_set Q surviving of
                 Inl e \<Rightarrow> (Inl e, w)
               | Inr surviving_manifests \<Rightarrow> (case remove_manifests F Q surviving_manifests going w of
                   (Inl e, w) \<Rightarrow> (Inl e, w)
                 | (Inr _, w) \<Rightarrow> (case sweep_layers F (layer_keep_set surviving @ pinned_layers) w of
                     (Inl e, w) \<Rightarrow> (Inl e, w)
                   | (Inr reclaimed_bytes, w) \<Rightarrow> (Inr (reference, reclaimed_bytes), w))))))"

definition tag_with ::
    "img_faults \<Rightarrow> record_codec \<Rightarrow> 'r oci \<Rightarrow> string \<Rightarrow> string \<Rightarrow> string \<Rightarrow> image_world \<Rightarrow> (img_error + unit) \<times> image_world" where
  "tag_with F K Q images_root from to w =
     (case (oc_parse Q from, oc_parse Q to) of
        (None, _) \<Rightarrow> (Inl (Bad_Reference from), w)
      | (Some _, None) \<Rightarrow> (Inl (Bad_Reference to), w)
      | (Some f, Some t) \<Rightarrow>
         if oc_registry Q f \<noteq> oc_registry Q t \<or> oc_repository Q f \<noteq> oc_repository Q t then (Inl Cross_Repository, w)
         else (case img_read F (record_path K images_root (oc_whole Q f)) w of
                 Inl _ \<Rightarrow> (Inl (No_Such_Sandbox (oc_whole Q f)), w)
               | Inr bytes \<Rightarrow> (case rk_from K bytes of
                   None \<Rightarrow> (Inl Record_Unreadable, w)
                 | Some r \<Rightarrow> if ir_kind r = Image_Kind then (Inl (No_Such_Sandbox (oc_whole Q f)), w)
                             else record_with F K images_root (r\<lparr>ir_reference := oc_whole Q t\<rparr>) w)))"

definition removable_partition :: "'r oci \<Rightarrow> image_record list \<Rightarrow> run_listing list \<Rightarrow> image_record list \<times> image_record list" where
  "removable_partition Q records active =
     (let kept_references = dependency_closure records (active_references Q records active)
      in (filter (\<lambda>r. ir_reference r \<in> set kept_references) records, filter (\<lambda>r. ir_reference r \<notin> set kept_references) records))"

definition list_prunable_with ::
    "img_faults \<Rightarrow> record_codec \<Rightarrow> 'r oci \<Rightarrow> string \<Rightarrow> run_listing list \<Rightarrow> image_world \<Rightarrow> img_error + image_info list" where
  "list_prunable_with F K Q images_root active w =
     and_then (load_records F K images_root w) (\<lambda>records.
     Inr (List.map_filter (\<lambda>r. info_from Q r active) (snd (removable_partition Q records active))))"

section \<open>The runtime cache\<close>

datatype cache_entry_kind = Cache_Directory | Cache_File | Cache_Symlink | Cache_Other

record runtime_fs =
  rt_metadata :: "string \<Rightarrow> fs_error + cache_entry_kind \<times> nat"
  rt_read_dir :: "string \<Rightarrow> fs_error + string list"
  rt_remove_dir_all :: "string \<Rightarrow> fs_error + unit"

text \<open>The walk ends when the tree does; a file system that never runs out of entries is the value \<open>None\<close>.\<close>

partial_function (option) tree_loop :: "runtime_fs \<Rightarrow> string list \<Rightarrow> nat \<Rightarrow> (img_error + nat) option" where
  "tree_loop T pending total_bytes =
     (if pending = [] then Some (Inr total_bytes)
      else let path = last pending; pending = butlast pending
           in case rt_metadata T path of
                Inl e \<Rightarrow> if e = Fs_NotFound then tree_loop T pending total_bytes else Some (Inl (Img_Context path e))
              | Inr (Cache_Directory, _) \<Rightarrow> (case rt_read_dir T path of
                  Inr entries \<Rightarrow> tree_loop T (pending @ entries) total_bytes
                | Inl e \<Rightarrow> if e = Fs_NotFound then tree_loop T pending total_bytes else Some (Inl (Img_Context path e)))
              | Inr (Cache_Other, _) \<Rightarrow> Some (Inl (Img_Context path (Fs_Other ''unsupported file type'')))
              | Inr (_, len) \<Rightarrow> tree_loop T pending (min (total_bytes + len) (2 ^ 64 - 1)))"

definition tree_bytes :: "runtime_fs \<Rightarrow> string \<Rightarrow> (img_error + nat) option" where
  "tree_bytes T root = tree_loop T [root] 0"

fun clear_roots :: "runtime_fs \<Rightarrow> nat \<Rightarrow> string list \<Rightarrow> (img_error + nat) option" where
  "clear_roots T reclaimed [] = Some (Inr reclaimed)"
| "clear_roots T reclaimed (root # roots) =
     (case tree_bytes T root of
        None \<Rightarrow> None
      | Some (Inl e) \<Rightarrow> Some (Inl e)
      | Some (Inr bytes) \<Rightarrow> (case rt_remove_dir_all T root of
          Inr _ \<Rightarrow> clear_roots T (reclaimed + bytes) roots
        | Inl e \<Rightarrow> if e = Fs_NotFound then clear_roots T reclaimed roots else Some (Inl (Img_Context root e))))"

definition clear_runtime_cache :: "runtime_fs \<Rightarrow> string \<Rightarrow> (img_error + nat) option" where
  "clear_runtime_cache T cache_root =
     clear_roots T 0 [cache_root @ ''/composefs'', cache_root @ ''/tools/trees'', cache_root @ ''/content'']"

fun prune_records ::
    "img_faults \<Rightarrow> record_codec \<Rightarrow> 'r oci \<Rightarrow> string \<Rightarrow> image_record list \<Rightarrow> string list \<Rightarrow> string list \<Rightarrow> image_world
       \<Rightarrow> (img_error + string list \<times> string list) \<times> image_world" where
  "prune_records F K Q images_root [] manifests removed w = (Inr (manifests, removed), w)"
| "prune_records F K Q images_root (r # rs) manifests removed w =
     (case img_remove F (record_path K images_root (ir_reference r)) w of
        (Inl e, w) \<Rightarrow> (Inl (Img_Context (ir_reference r) e), w)
      | (Inr _, w) \<Rightarrow> (case pinned_reference Q (ir_reference r) (ir_digest r) of
          Inl e \<Rightarrow> (Inl e, w)
        | Inr pinned \<Rightarrow> (case (if pinned \<noteq> ir_reference r then remove_manifest F (ir_reference r) w else (Inr (), w)) of
            (Inl e, w) \<Rightarrow> (Inl e, w)
          | (Inr _, w) \<Rightarrow> prune_records F K Q images_root rs (List.insert pinned manifests)
              (if ir_kind r \<noteq> Image_Kind then removed @ [ir_reference r] else removed) w)))"

fun drop_manifests :: "img_faults \<Rightarrow> string list \<Rightarrow> image_world \<Rightarrow> (img_error + unit) \<times> image_world" where
  "drop_manifests F [] w = (Inr (), w)"
| "drop_manifests F (m # ms) w = (case remove_manifest F m w of (Inl e, w) \<Rightarrow> (Inl e, w) | (Inr _, w) \<Rightarrow> drop_manifests F ms w)"

text \<open>The images directory sits in the cache directory; the path of the latter is given.\<close>

definition image_prune_with ::
    "img_faults \<Rightarrow> record_codec \<Rightarrow> 'r oci \<Rightarrow> runtime_fs \<Rightarrow> string \<Rightarrow> string \<Rightarrow> string list \<Rightarrow> run_listing list \<Rightarrow> image_world
       \<Rightarrow> (img_error + string list \<times> nat) option \<times> image_world" where
  "image_prune_with F K Q T cache_root images_root pinned_layers active w =
     (case load_records F K images_root w of
        Inl e \<Rightarrow> (Some (Inl e), w)
      | Inr records \<Rightarrow>
         (case removable_partition Q records active of (kept, removable) \<Rightarrow>
            (case manifest_keep_set Q kept of
               Inl e \<Rightarrow> (Some (Inl e), w)
             | Inr kept_manifests \<Rightarrow> (case prune_records F K Q images_root removable [] [] w of
                 (Inl e, w) \<Rightarrow> (Some (Inl e), w)
               | (Inr (manifests, removed), w) \<Rightarrow>
                  (case drop_manifests F (filter (\<lambda>m. m \<notin> set kept_manifests) manifests) w of
                     (Inl e, w) \<Rightarrow> (Some (Inl e), w)
                   | (Inr _, w) \<Rightarrow> (case sweep_layers F (layer_keep_set kept @ pinned_layers) w of
                       (Inl e, w) \<Rightarrow> (Some (Inl e), w)
                     | (Inr reclaimed_bytes, w) \<Rightarrow>
                        (if active = []
                         then (map_option (map_sum (\<lambda>e. e) (\<lambda>more_bytes. (removed, reclaimed_bytes + more_bytes))) (clear_runtime_cache T cache_root), w)
                         else (Some (Inr (removed, reclaimed_bytes)), w))))))))"

section \<open>Pulling\<close>

definition record_artifact_run_with ::
    "img_faults \<Rightarrow> record_codec \<Rightarrow> string \<Rightarrow> image_record \<Rightarrow> image_world \<Rightarrow> (img_error + unit) \<times> image_world" where
  "record_artifact_run_with F K images_root r w =
     (let r = (case read_record F K w (record_path K images_root (ir_reference r)) of
                 Some existing \<Rightarrow> r\<lparr>ir_dependencies := foldl (\<lambda>deps d. if d \<in> set deps then deps else deps @ [d])
                   (ir_dependencies r) (ir_dependencies existing)\<rparr>
               | None \<Rightarrow> r)
      in record_with F K images_root r w)"

definition pull_with ::
    "img_faults \<Rightarrow> record_codec \<Rightarrow> 'r oci \<Rightarrow> string \<Rightarrow> image_record \<Rightarrow> run_listing list \<Rightarrow> image_world
       \<Rightarrow> (img_error + image_info) \<times> image_world" where
  "pull_with F K Q images_root r active w = (case record_with F K images_root r w of
     (Inl e, w) \<Rightarrow> (Inl e, w)
   | (Inr _, w) \<Rightarrow> (case info_from Q r active of Some info \<Rightarrow> (Inr info, w) | None \<Rightarrow> (Inl Cache_Internal, w)))"

definition verify_consented_digest :: "string \<Rightarrow> string \<Rightarrow> string \<Rightarrow> img_error + unit" where
  "verify_consented_digest img expected actual =
     (if expected \<noteq> actual then Inl (Changed_After_Consent img expected actual) else Inr ())"

definition digest_of_pinned :: "'r oci \<Rightarrow> string \<Rightarrow> img_error + string" where
  "digest_of_pinned Q pinned = (case oc_parse Q pinned of
     None \<Rightarrow> Inl (Bad_Reference pinned)
   | Some r \<Rightarrow> (case oc_digest Q r of Some d \<Rightarrow> Inr d | None \<Rightarrow> Inl (No_Digest_Pin pinned)))"

fun mixin_node_records :: "'r oci \<Rightarrow> nat \<Rightarrow> (string \<times> string list) list \<Rightarrow> img_error + image_record list" where
  "mixin_node_records Q pulled [] = Inr []"
| "mixin_node_records Q pulled ((pinned, mixins) # nodes) =
     and_then (normalize_reference Q pinned) (\<lambda>reference.
     and_then (digest_of_pinned Q pinned) (\<lambda>digest.
     and_then (mixin_node_records Q pulled nodes) (\<lambda>rs.
     Inr (\<lparr>ir_reference = reference, ir_digest = digest, ir_kind = Mixin_Record, ir_dependencies = mixins, ir_layers = [],
           ir_pulled_unix_secs = pulled\<rparr> # rs))))"

definition mixin_graph_records ::
    "'r oci \<Rightarrow> string \<Rightarrow> string \<Rightarrow> string list \<Rightarrow> (string \<times> string list) list \<Rightarrow> nat \<Rightarrow> img_error + image_record list" where
  "mixin_graph_records Q reference digest roots nodes pulled =
     and_then (normalize_reference Q reference) (\<lambda>whole.
     and_then (mixin_node_records Q pulled nodes) (\<lambda>rs.
     Inr (\<lparr>ir_reference = whole, ir_digest = digest, ir_kind = Mixin_Record, ir_dependencies = roots, ir_layers = [],
           ir_pulled_unix_secs = pulled\<rparr> # rs)))"

end
