(* ===== verification/Spec2Isabelle.thy ===== *)
theory Spec2Isabelle
  imports Session_Silence Broker_Session Workload_Argv Run_Control Run_Audit Audit_Migration Sandbox_Merge Image_Store
begin

text \<open>
  A verification development for lens-sandbox: a sandbox runtime whose host service decides,
  rule by rule and question by question, which destinations a guest may reach.

  Theories:

  \<^item> \<open>Prelude\<close>: byte strings with the \<open>str\<close> methods the sources call, hash maps and ordered maps as
    association lists, decimal numbers, first-match lemmas.
  \<^item> \<open>Rust_Std\<close>: \<open>IpAddr::from_str\<close>, \<open>IpAddr::to_canonical\<close> and the comparison of \<open>Path\<close>s.
  \<^item> \<open>Policy_Types\<close>: the data of \<open>crates/lns-policy/src/lib.rs\<close>.
  \<^item> \<open>Matching\<close>: \<open>crates/lns-policy/src/matching.rs\<close>.
\<close>

section \<open>The service and the relay together\<close>



end
